(* ===== verification/Prelude.thy ===== *)
theory Prelude
  imports Main "HOL-Library.Word" "HOL-Library.Monad_Syntax"
begin

text \<open>
  What every component of the development shares: the collections of rewrite rules, C strings and
  characters, the error numbers, the walk over a singly linked list whose last link may not have
  been initialised, and the transition-system interface from which the reachability results
  of the servers follow.

  A C function that can run into undefined behaviour (a dereferenced wild pointer) or that need
  not return has an \<open>option\<close> result: \<open>None\<close> means "no defined result". Everything else, error
  codes included, is \<open>Some\<close>.
\<close>

named_theorems c_simps \<open>evaluation of the C library functions the sources use\<close>
named_theorems handler_defs \<open>definitions of the request handlers of a server\<close>

section \<open>C strings and characters\<close>

text \<open>The string a character array holds: the bytes before the first NUL.\<close>

definition cstr :: "char list \<Rightarrow> string" where
  "cstr buf = takeWhile (\<lambda>c. c \<noteq> CHR 0x00) buf"

text \<open>\<open>strncpy (dst, src, n)\<close> into a zeroed array, as the bytes written: at most \<open>n\<close> of them.\<close>

definition strncpy :: "char list \<Rightarrow> nat \<Rightarrow> char list" where
  "strncpy src n = take n (cstr src)"

text \<open>A plain \<open>char\<close> converted to \<open>int\<close>: i386 chars are signed.\<close>

definition schar :: "char \<Rightarrow> int" where
  "schar c = (let n = of_char c in if n < 128 then n else n - 256)"

text \<open>An \<open>int\<close> converted back to \<open>char\<close>.\<close>

definition char_of_sint :: "int \<Rightarrow> char" where
  "char_of_sint i = char_of (i mod 256)"

text \<open>Reading element \<open>i\<close> of a string literal, whose array ends in a NUL.\<close>

definition c_index :: "string \<Rightarrow> nat \<Rightarrow> char" where
  "c_index lit i = (if i < length lit then lit ! i else CHR 0x00)"

section \<open>Error numbers\<close>

text \<open>Servers are compiled with \<open>_SYSTEM\<close>, which makes the error numbers negative.\<close>

abbreviation OK :: int where "OK \<equiv> 0"
abbreviation EPERM :: int where "EPERM \<equiv> -1"
abbreviation ESRCH :: int where "ESRCH \<equiv> -3"
abbreviation EIO :: int where "EIO \<equiv> -5"
abbreviation ENOMEM :: int where "ENOMEM \<equiv> -12"
abbreviation EINVAL :: int where "EINVAL \<equiv> -22"

section \<open>Walking a linked list\<close>

text \<open>
  A singly linked list of nodes is an Isabelle list together with one bit, whether the link of
  its last node is NULL. The walk looks for the first node that satisfies a predicate: the index
  of that node, \<open>None\<close> inside when it reaches NULL, and no defined result when it runs past the
  last node over a link that is not NULL.
\<close>

fun list_walk :: "('a \<Rightarrow> bool) \<Rightarrow> 'a list \<Rightarrow> bool \<Rightarrow> nat option option" where
  "list_walk P [] tail_null = Some None"
| "list_walk P [x] tail_null =
     (if P x then Some (Some 0) else if tail_null then Some None else None)"
| "list_walk P (x # y # ys) tail_null =
     (if P x then Some (Some 0) else map_option (map_option Suc) (list_walk P (y # ys) tail_null))"

text \<open>A loop over an array that stops at the first element satisfying a predicate.\<close>

fun first_index :: "('a \<Rightarrow> bool) \<Rightarrow> 'a list \<Rightarrow> nat option" where
  "first_index P [] = None"
| "first_index P (x # xs) = (if P x then Some 0 else map_option Suc (first_index P xs))"

section \<open>Transition systems\<close>

text \<open>
  Runs of a component over a list of inputs. A step without a defined result ends the run without
  one.
\<close>

fun run_steps :: "('i \<Rightarrow> 's \<Rightarrow> 's option) \<Rightarrow> 'i list \<Rightarrow> 's \<Rightarrow> 's option" where
  "run_steps step [] s = Some s"
| "run_steps step (i # is) s = Option.bind (step i s) (run_steps step is)"

lemma run_steps_append:
  "run_steps step (is @ js) s = Option.bind (run_steps step is s) (run_steps step js)"
  by (induction "is" arbitrary: s) (auto simp: Option.bind_eq_Some_conv split: bind_splits)

lemma run_steps_snoc:
  "run_steps step (is @ [j]) s = Option.bind (run_steps step is s) (step j)"
proof -
  have "run_steps step [j] t = step j t" for t by (cases "step j t") simp_all
  then have "run_steps step [j] = step j" by (rule ext)
  then show ?thesis by (simp add: run_steps_append)
qed

text \<open>
  The contract of a server loop: an invariant of the state that the handling of every admissible
  input keeps, and a set of admissible inputs. What a client may conclude is proved once here.
\<close>

locale step_invariant =
  fixes step :: "'i \<Rightarrow> 's \<Rightarrow> 's option"
    and admissible :: "'i \<Rightarrow> bool"
    and inv :: "'s \<Rightarrow> bool"
  assumes step_inv: "inv s \<Longrightarrow> admissible i \<Longrightarrow> step i s = Some s' \<Longrightarrow> inv s'"
begin

lemma run_inv:
  assumes "inv s" and "list_all admissible is" and "run_steps step is s = Some s'"
  shows "inv s'"
  using assms
proof (induction "is" arbitrary: s)
  case Nil
  then show ?case by simp
next
  case (Cons i "is")
  from Cons.prems(3) obtain t where "step i s = Some t" and t: "run_steps step is t = Some s'"
    by (auto simp: bind_eq_Some_conv)
  with Cons.prems have "inv t" by (auto intro: step_inv)
  with Cons.IH Cons.prems(2) t show ?case by simp
qed

end

text \<open>
  A step that moreover always has a defined result where the invariant holds: then every run over
  admissible inputs has one.
\<close>

locale total_step = step_invariant +
  assumes step_total: "inv s \<Longrightarrow> admissible i \<Longrightarrow> \<exists>s'. step i s = Some s'"
begin

lemma run_total:
  assumes "inv s" and "list_all admissible is"
  shows "\<exists>s'. run_steps step is s = Some s'"
  using assms
proof (induction "is" arbitrary: s)
  case Nil
  then show ?case by simp
next
  case (Cons i "is")
  from step_total [of s i] Cons.prems obtain t where t: "step i s = Some t" by auto
  with Cons.prems have "inv t" by (auto intro: step_inv)
  with Cons.IH Cons.prems(2) t show ?case by simp
qed

end

section \<open>Lemmas\<close>

lemma cstr_Nil [simp]: "cstr [] = []"
  by (simp add: cstr_def)

lemma cstr_id [simp]: "CHR 0x00 \<notin> set s \<Longrightarrow> cstr s = s"
  by (auto simp: cstr_def takeWhile_eq_all_conv)

lemma cstr_no_nul [simp]: "CHR 0x00 \<notin> set (cstr s)"
  by (auto simp: cstr_def dest: set_takeWhileD)

lemma cstr_idem [simp]: "cstr (cstr s) = cstr s"
  by simp

lemma set_cstr: "set (cstr s) \<subseteq> set s"
  by (auto simp: cstr_def dest: set_takeWhileD)

lemma length_cstr_le: "length (cstr s) \<le> length s"
  by (simp add: cstr_def length_takeWhile_le)

lemma cstr_append_nul: "CHR 0x00 \<notin> set s \<Longrightarrow> cstr (s @ CHR 0x00 # t) = s"
  by (induction s) (auto simp: cstr_def)

lemma cstr_snoc_nul: "cstr (s @ [CHR 0x00]) = cstr s"
  by (induction s) (auto simp: cstr_def)

lemma length_strncpy: "length (strncpy s n) \<le> n"
  by (simp add: strncpy_def)

lemma strncpy_id: "length s \<le> n \<Longrightarrow> CHR 0x00 \<notin> set s \<Longrightarrow> strncpy s n = s"
  by (simp add: strncpy_def)

lemma of_char_int_bounds: "0 \<le> (of_char c :: int)" "(of_char c :: int) < 256"
proof -
  have eq: "(of_char c :: int) mod 256 = of_char c"
    by simp
  then show "0 \<le> (of_char c :: int)" and "(of_char c :: int) < 256"
    using pos_mod_sign [of 256 "of_char c :: int"] pos_mod_bound [of 256 "of_char c :: int"]
    by simp_all
qed

lemma char_of_schar [simp]: "char_of_sint (schar c) = c"
proof -
  have "(of_char c - 256) mod 256 = (of_char c :: int)"
    by (subst minus_mod_self2) simp
  then show ?thesis
    by (auto simp: char_of_sint_def schar_def Let_def simp del: char_of_mod_256)
qed

lemma schar_bounds: "-128 \<le> schar c" "schar c < 128"
  using of_char_int_bounds [of c] by (auto simp: schar_def Let_def)

subsection \<open>Walks\<close>

lemma list_walk_null:
  "list_walk P xs True = Some None \<longleftrightarrow> list_all (\<lambda>x. \<not> P x) xs"
  by (induction P xs True rule: list_walk.induct) auto

lemma list_walk_defined: "\<exists>r. list_walk P xs True = Some r"
  by (induction P xs True rule: list_walk.induct) auto

lemma list_walk_index:
  "list_walk P xs tn = Some (Some i) \<Longrightarrow>
     i < length xs \<and> P (xs ! i) \<and> (\<forall>j < i. \<not> P (xs ! j))"
proof (induction P xs tn arbitrary: i rule: list_walk.induct)
  case (3 P x y ys tn)
  then show ?case
    by (cases i) (auto split: if_splits simp: less_Suc_eq_0_disj)
qed (auto split: if_splits)

lemma first_index_None: "first_index P xs = None \<longleftrightarrow> (\<forall>i < length xs. \<not> P (xs ! i))"
proof -
  have "first_index P xs = None \<longleftrightarrow> (\<forall>x \<in> set xs. \<not> P x)" by (induction xs) auto
  then show ?thesis by (simp add: all_set_conv_all_nth)
qed

lemma first_index_SomeD:
  "first_index P xs = Some i \<Longrightarrow> i < length xs \<and> P (xs ! i) \<and> (\<forall>j < i. \<not> P (xs ! j))"
proof (induction xs arbitrary: i)
  case (Cons x xs)
  then show ?case by (cases i) (auto simp: less_Suc_eq_0_disj split: if_splits)
qed simp

lemma first_index_unique:
  assumes "i < length xs" and "P (xs ! i)" and "\<And>j. j < length xs \<Longrightarrow> P (xs ! j) \<Longrightarrow> j = i"
  shows "first_index P xs = Some i"
proof (cases "first_index P xs")
  case None
  with assms(1,2) show ?thesis by (simp add: first_index_None)
next
  case (Some j)
  with first_index_SomeD [OF Some] assms(3) show ?thesis by simp
qed

lemma list_walk_end: "list_walk P xs tn = Some None \<Longrightarrow> list_all (\<lambda>x. \<not> P x) xs"
  by (induction P xs tn rule: list_walk.induct) (auto split: if_splits)

end
