(* ===== verification/Ls_Types.thy ===== *)
theory Ls_Types
  imports Prelude
begin

text \<open>
  The data of the logging server (servers/ls/proto.h), the message it is sent (minix/com.h,
  minix/ipc.h) and the system it calls.

  The server reaches the rest of the system through system calls only. Each call is recorded in a
  trace together with its result, and what a call returns is a function, a field of \<open>ls_os\<close>, of the
  trace so far and of the call's arguments. The results hold for every such system.

  Diagnostics (the \<open>LS_LOG_PRINTF\<close> and \<open>LS_LOG_PUTS\<close> macros, which print to the kernel log) have no
  effect on the state of the server and are left out.
\<close>

abbreviation (input) LS_MAX_LOGGER_NAME_LEN :: nat where "LS_MAX_LOGGER_NAME_LEN \<equiv> 32"
abbreviation (input) LS_MAX_LOGGER_LOGFILE_PATH_LEN :: nat where
  "LS_MAX_LOGGER_LOGFILE_PATH_LEN \<equiv> 64"
abbreviation (input) LS_MAX_LOGGER_FORMAT_LEN :: nat where "LS_MAX_LOGGER_FORMAT_LEN \<equiv> 128"
abbreviation (input) LS_MAX_MESSAGE_LEN :: nat where "LS_MAX_MESSAGE_LEN \<equiv> 2048"
abbreviation (input) LS_IPC_LOGGER_MAX_NAME_LEN :: nat where "LS_IPC_LOGGER_MAX_NAME_LEN \<equiv> 48"

abbreviation LS_PROC_NR :: int where "LS_PROC_NR \<equiv> 10"

abbreviation LS_BASE :: int where "LS_BASE \<equiv> 0x1700"
abbreviation LS_INITIALIZE :: int where "LS_INITIALIZE \<equiv> 0x1700"
abbreviation LS_START_LOG :: int where "LS_START_LOG \<equiv> 0x1701"
abbreviation LS_SET_SEVERITY :: int where "LS_SET_SEVERITY \<equiv> 0x1702"
abbreviation LS_WRITE_LOG :: int where "LS_WRITE_LOG \<equiv> 0x1704"
abbreviation LS_CLOSE_LOG :: int where "LS_CLOSE_LOG \<equiv> 0x1705"
abbreviation LS_CLEAR_LOG :: int where "LS_CLEAR_LOG \<equiv> 0x1706"
abbreviation LS_CLEAR_ALL :: int where "LS_CLEAR_ALL \<equiv> 0x1707"
abbreviation LS_END :: int where "LS_END \<equiv> 0x1708"

abbreviation LS_ERR_NO_SUCH_LOGGER :: int where "LS_ERR_NO_SUCH_LOGGER \<equiv> -5889"
abbreviation LS_ERR_LOGGER_OPEN :: int where "LS_ERR_LOGGER_OPEN \<equiv> -5890"
abbreviation LS_ERR_PERMISSION_DENIED :: int where "LS_ERR_PERMISSION_DENIED \<equiv> -5891"
abbreviation LS_ERR_LOGGER_NOT_OPEN :: int where "LS_ERR_LOGGER_NOT_OPEN \<equiv> -5892"
abbreviation LS_ERR_INIT_FAILED :: int where "LS_ERR_INIT_FAILED \<equiv> -5893"
abbreviation LS_ERR_EXTERNAL :: int where "LS_ERR_EXTERNAL \<equiv> -5894"

section \<open>Loggers\<close>

datatype ls_log_destination_t = LS_DESTINATION_FILE | LS_DESTINATION_STDERR | LS_DESTINATION_STDOUT

datatype ls_severity_level_t = LS_SEV_TRACE | LS_SEV_DEBUG | LS_SEV_INFO | LS_SEV_WARN

text \<open>The enumerators have the values 0 to 3, and severities are compared as integers.\<close>

fun sev_code :: "ls_severity_level_t \<Rightarrow> int" where
  "sev_code LS_SEV_TRACE = 0"
| "sev_code LS_SEV_DEBUG = 1"
| "sev_code LS_SEV_INFO = 2"
| "sev_code LS_SEV_WARN = 3"

instantiation ls_severity_level_t :: linorder
begin

definition less_eq_ls_severity_level_t :: "ls_severity_level_t \<Rightarrow> ls_severity_level_t \<Rightarrow> bool" where
  "less_eq_ls_severity_level_t a b = (sev_code a \<le> sev_code b)"

definition less_ls_severity_level_t :: "ls_severity_level_t \<Rightarrow> ls_severity_level_t \<Rightarrow> bool" where
  "less_ls_severity_level_t a b = (sev_code a < sev_code b)"

instance
proof
  fix a b c :: ls_severity_level_t
  show "(a < b) = (a \<le> b \<and> \<not> b \<le> a)"
    by (auto simp: less_eq_ls_severity_level_t_def less_ls_severity_level_t_def)
  show "a \<le> a" by (simp add: less_eq_ls_severity_level_t_def)
  show "a \<le> b \<Longrightarrow> b \<le> c \<Longrightarrow> a \<le> c" by (simp add: less_eq_ls_severity_level_t_def)
  show "a \<le> b \<Longrightarrow> b \<le> a \<Longrightarrow> a = b"
    by (cases a; cases b) (simp_all add: less_eq_ls_severity_level_t_def)
  show "a \<le> b \<or> b \<le> a" by (auto simp: less_eq_ls_severity_level_t_def)
qed

end

text \<open>The cast of an integer to the enumeration type; the code casts valid values only.\<close>

definition sev_of_code :: "int \<Rightarrow> ls_severity_level_t" where
  "sev_of_code i =
     (if i = 0 then LS_SEV_TRACE else if i = 1 then LS_SEV_DEBUG
      else if i = 2 then LS_SEV_INFO else LS_SEV_WARN)"

text \<open>
  Character arrays that are only read as C strings hold the string. The array sizes are kept as the
  invariant \<open>logger_fits\<close>.
\<close>

record ls_logger_t =
  logger_name :: string
  dest_type :: ls_log_destination_t
  logger_severity :: ls_severity_level_t
  dest_filename :: string
  logger_format :: string
  logger_append :: bool

record ls_logger_state_t =
  is_open :: bool
  state_severity :: ls_severity_level_t
  opened_by :: int
  state_fd :: int
  msg_buf :: "char list"

record ls_logger_list_t =
  logger :: ls_logger_t
  lstate :: ls_logger_state_t

text \<open>The values \<open>memset (..., 0, ...)\<close> leaves in the two structures.\<close>

definition zero_logger :: ls_logger_t where
  "zero_logger = \<lparr>logger_name = [], dest_type = LS_DESTINATION_FILE,
     logger_severity = LS_SEV_TRACE, dest_filename = [], logger_format = [],
     logger_append = False\<rparr>"

definition zero_logger_state :: ls_logger_state_t where
  "zero_logger_state = \<lparr>is_open = False, state_severity = LS_SEV_TRACE, opened_by = 0,
     state_fd = 0, msg_buf = []\<rparr>"

section \<open>Messages\<close>

text \<open>
  The members of the message union that the server reads: the logger name at the start of the
  payload, then a severity and a length of 16 bits each and a pointer.
\<close>

record ls_message =
  m_source :: int
  m_type :: int
  m_logger :: "char list"
  m_severity :: "16 word"
  m_message_len :: "16 word"
  m_message :: int

section \<open>The system the server calls\<close>

datatype ls_io =
    IoOpen string int int
  | IoClose int int
  | IoRead int "char list option"
  | IoWrite int "char list" int
  | IoFsync int
  | IoPrintf string
  | IoMalloc "bool option"
  | IoGetsysinfo int
  | IoVircopy int int int int
  | IoLookup int
  | IoClock int
  | IoReceive int ls_message
  | IoReply "int option" int

type_synonym ls_trace = "ls_io list"

text \<open>\<open>struct tm\<close> as far as the server reads it.\<close>

record tm =
  tm_year :: int
  tm_mon :: int
  tm_mday :: int
  tm_hour :: int
  tm_min :: int
  tm_sec :: int

text \<open>
  The calls: \<open>open\<close>, \<open>close\<close>, \<open>read\<close> (\<open>None\<close> for -1), \<open>write\<close>; \<open>malloc\<close> (\<open>None\<close> for NULL, otherwise
  whether the word where a list node keeps its link happens to be NULL in the fresh block);
  \<open>getsysinfo\<close> for the process table of PM (return code and pairs of endpoint and name);
  \<open>sys_vircopy\<close> from a process (return code and bytes); the RS lookup of the clock driver; the clock
  driver (whether the call succeeded, and the time); \<open>mini_snprintf\<close> of the time stamp's six numbers,
  whose sources (the mini-printf submodule) are not part of the repository.
\<close>

record ls_os =
  os_open :: "ls_trace \<Rightarrow> string \<Rightarrow> int \<Rightarrow> int"
  os_close :: "ls_trace \<Rightarrow> int \<Rightarrow> int"
  os_read :: "ls_trace \<Rightarrow> int \<Rightarrow> char list option"
  os_write :: "ls_trace \<Rightarrow> int \<Rightarrow> char list \<Rightarrow> int"
  os_malloc :: "ls_trace \<Rightarrow> bool option"
  os_getsysinfo :: "ls_trace \<Rightarrow> int \<times> (int \<times> string) list"
  os_vircopy :: "ls_trace \<Rightarrow> int \<Rightarrow> int \<Rightarrow> int \<Rightarrow> int \<times> char list"
  os_lookup :: "ls_trace \<Rightarrow> int"
  os_clock :: "ls_trace \<Rightarrow> int \<times> tm"
  os_snprintf :: "int list \<Rightarrow> string"

text \<open>Flags of \<open>open\<close>.\<close>

abbreviation (input) O_RDONLY :: int where "O_RDONLY \<equiv> 0x000"
abbreviation (input) O_WRONLY :: int where "O_WRONLY \<equiv> 0x001"
abbreviation (input) O_APPEND :: int where "O_APPEND \<equiv> 0x008"
abbreviation (input) O_CREAT :: int where "O_CREAT \<equiv> 0x200"
abbreviation (input) O_TRUNC :: int where "O_TRUNC \<equiv> 0x400"

section \<open>The state of the server\<close>

text \<open>
  The globals of main.c and requests.c, the bit that says whether the last list node's link is NULL,
  and the trace.
\<close>

record ls_state =
  g_loggers :: "ls_logger_list_t list"
  g_tail_null :: bool
  g_is_initialized :: bool
  proctable :: "(int \<times> string) list"
  io_trace :: ls_trace

definition ls_init_state :: ls_state where
  "ls_init_state = \<lparr>g_loggers = [], g_tail_null = True, g_is_initialized = False, proctable = [],
     io_trace = []\<rparr>"

text \<open>Adding an event to the trace.\<close>

definition emit :: "ls_io \<Rightarrow> ls_state \<Rightarrow> ls_state" where
  "emit e s = s\<lparr>io_trace := io_trace s @ [e]\<rparr>"

text \<open>Updating the list node with index \<open>i\<close>.\<close>

definition upd_state :: "nat \<Rightarrow> (ls_logger_state_t \<Rightarrow> ls_logger_state_t) \<Rightarrow> ls_state \<Rightarrow> ls_state" where
  "upd_state i f s =
     s\<lparr>g_loggers := (g_loggers s)[i := (g_loggers s ! i)\<lparr>lstate := f (lstate (g_loggers s ! i))\<rparr>]\<rparr>"

text \<open>What the array bounds of \<open>ls_logger_t\<close> demand, and what the option parser establishes.\<close>

definition logger_fits :: "ls_logger_t \<Rightarrow> bool" where
  "logger_fits l \<longleftrightarrow>
     length (logger_name l) < LS_MAX_LOGGER_NAME_LEN \<and>
     length (dest_filename l) < LS_MAX_LOGGER_LOGFILE_PATH_LEN \<and>
     length (logger_format l) < LS_MAX_LOGGER_FORMAT_LEN \<and>
     CHR 0x00 \<notin> set (logger_name l) \<and> CHR 0x00 \<notin> set (dest_filename l) \<and>
     CHR 0x00 \<notin> set (logger_format l)"

abbreviation names_of :: "ls_logger_list_t list \<Rightarrow> string list" where
  "names_of ls \<equiv> map (\<lambda>n. logger_name (logger n)) ls"

section \<open>Lemmas\<close>

lemma sev_of_code_code [simp]: "sev_of_code (sev_code s) = s"
  by (cases s) (simp_all add: sev_of_code_def)

lemma sev_code_range: "0 \<le> sev_code s \<and> sev_code s \<le> 3"
  by (cases s) simp_all

lemma sev_code_of_code: "0 \<le> i \<Longrightarrow> i \<le> 3 \<Longrightarrow> sev_code (sev_of_code i) = i"
  by (auto simp: sev_of_code_def)

lemma emit_simps [simp]:
  "g_loggers (emit e s) = g_loggers s" "g_tail_null (emit e s) = g_tail_null s"
  "g_is_initialized (emit e s) = g_is_initialized s" "proctable (emit e s) = proctable s"
  "io_trace (emit e s) = io_trace s @ [e]"
  by (simp_all add: emit_def)

lemma upd_state_simps [simp]:
  "g_tail_null (upd_state i f s) = g_tail_null s"
  "g_is_initialized (upd_state i f s) = g_is_initialized s"
  "proctable (upd_state i f s) = proctable s" "io_trace (upd_state i f s) = io_trace s"
  "length (g_loggers (upd_state i f s)) = length (g_loggers s)"
  by (simp_all add: upd_state_def)

lemma nth_upd_state [simp]:
  "j < length (g_loggers s) \<Longrightarrow>
     g_loggers (upd_state i f s) ! j =
       (if j = i then (g_loggers s ! i)\<lparr>lstate := f (lstate (g_loggers s ! i))\<rparr> else g_loggers s ! j)"
  by (auto simp: upd_state_def)

lemma logger_upd_state [simp]:
  "map logger (g_loggers (upd_state i f s)) = map logger (g_loggers s)"
proof (cases "i < length (g_loggers s)")
  case True
  then show ?thesis
    by (simp add: upd_state_def map_update list_update_same_conv)
next
  case False
  then show ?thesis by (simp add: upd_state_def list_update_beyond)
qed

lemma names_upd_state [simp]:
  "names_of (g_loggers (upd_state i f s)) = names_of (g_loggers s)"
proof -
  have "map logger_name (map logger (g_loggers (upd_state i f s))) =
        map logger_name (map logger (g_loggers s))"
    by (simp only: logger_upd_state)
  then show ?thesis by (simp only: map_map comp_def)
qed

lemma logger_fits_zero: "logger_fits zero_logger"
  by (simp add: logger_fits_def zero_logger_def)

end
