(* ===== verification/Bufio.thy ===== *)
theory Bufio
  imports Ls_Types
begin

text \<open>
  The buffered reader of the configuration parser (servers/ls/bufio.c, bufio.h). The buffer holds
  the bytes that have been read into it; a read that delivers fewer bytes leaves the others in
  place, as it does in the array.
\<close>

definition BUFFER_SIZE :: nat where "BUFFER_SIZE = 4096"

text \<open>The macros are unsigned constants; compared with an \<open>int\<close> they are -1 and -2.\<close>

abbreviation BUFIO_EOF :: int where "BUFIO_EOF \<equiv> -1"
abbreviation BUFIO_ERR :: int where "BUFIO_ERR \<equiv> -2"

record bufio_t =
  bfd :: int
  buffer :: "char list"
  boff :: nat
  bsize :: nat

text \<open>Storing what \<open>read\<close> delivered at the start of the array.\<close>

definition fill :: "char list \<Rightarrow> char list \<Rightarrow> char list" where
  "fill old new = new @ drop (length new) old"

definition bufio_init :: "ls_os \<Rightarrow> int \<Rightarrow> ls_trace \<Rightarrow> bufio_t option \<times> ls_trace" where
  "bufio_init os fd tr =
     (let m = os_malloc os tr; tr1 = tr @ [IoMalloc m] in
      if m = None then (None, tr1)
      else
        (let r = os_read os tr1 fd; tr2 = tr1 @ [IoRead fd r] in
         case r of
           None \<Rightarrow> (None, tr2)
         | Some bytes \<Rightarrow>
             (Some \<lparr>bfd = fd, buffer = bytes, boff = 0, bsize = length bytes\<rparr>, tr2)))"

definition bufio_next_char :: "ls_os \<Rightarrow> bufio_t \<Rightarrow> ls_trace \<Rightarrow> int \<times> bufio_t \<times> ls_trace" where
  "bufio_next_char os ctx tr =
     (if boff ctx \<ge> bsize ctx \<and> bsize ctx < BUFFER_SIZE then (BUFIO_EOF, ctx, tr)
      else if boff ctx \<ge> bsize ctx then
        (let r = os_read os tr (bfd ctx); tr1 = tr @ [IoRead (bfd ctx) r] in
         case r of
           None \<Rightarrow> (BUFIO_ERR, ctx\<lparr>bsize := 0, boff := 0\<rparr>, tr1)
         | Some bytes \<Rightarrow>
             (let buf = fill (buffer ctx) bytes in
              (schar (buf ! 0), ctx\<lparr>buffer := buf, boff := 1, bsize := length bytes\<rparr>, tr1)))
      else (schar (buffer ctx ! boff ctx), ctx\<lparr>boff := boff ctx + 1\<rparr>, tr))"

text \<open>
  The invariant of the reader: the bytes between the offset and the size have been read, and a full
  chunk, after which the offset can be reset to 0 by an empty read, fills the array.
\<close>

definition bufio_inv :: "bufio_t \<Rightarrow> bool" where
  "bufio_inv ctx \<longleftrightarrow>
     bsize ctx \<le> length (buffer ctx) \<and> length (buffer ctx) \<le> BUFFER_SIZE"

section \<open>Lemmas\<close>

text \<open>A read never delivers more bytes than the array holds.\<close>

definition read_bounded :: "ls_os \<Rightarrow> bool" where
  "read_bounded os \<longleftrightarrow>
     (\<forall>tr fd bytes. os_read os tr fd = Some bytes \<longrightarrow> length bytes \<le> BUFFER_SIZE)"

lemma length_fill: "length new \<le> BUFFER_SIZE \<Longrightarrow> length old \<le> BUFFER_SIZE \<Longrightarrow>
    length new \<le> length (fill old new) \<and> length (fill old new) \<le> BUFFER_SIZE"
  by (simp add: fill_def)

lemma bufio_next_char_inv:
  assumes "bufio_inv ctx" and "read_bounded os"
    and "bufio_next_char os ctx tr = (c, ctx', tr')"
  shows "bufio_inv ctx'"
  using assms length_fill [of _ "buffer ctx"]
  by (auto simp: bufio_next_char_def bufio_inv_def read_bounded_def Let_def
      split: if_splits option.splits)

lemma bufio_init_inv:
  assumes "read_bounded os" and "bufio_init os fd tr = (Some ctx, tr')"
  shows "bufio_inv ctx"
  using assms
  by (auto simp: bufio_init_def bufio_inv_def read_bounded_def Let_def
      split: if_splits option.splits)

section \<open>Reading a file\<close>

text \<open>
  How many bytes have been read from a descriptor since it was opened, and a descriptor on a regular
  file: a read delivers the bytes that follow, as many as the buffer holds or the file has left.
\<close>

fun bytes_read :: "int \<Rightarrow> ls_trace \<Rightarrow> nat \<Rightarrow> nat" where
  "bytes_read fd [] n = n"
| "bytes_read fd (IoOpen _ _ fd' # tr) n = bytes_read fd tr (if fd' = fd then 0 else n)"
| "bytes_read fd (IoRead fd' (Some bytes) # tr) n =
     bytes_read fd tr (if fd' = fd then n + length bytes else n)"
| "bytes_read fd (_ # tr) n = bytes_read fd tr n"

definition regular_file :: "ls_os \<Rightarrow> int \<Rightarrow> string \<Rightarrow> bool" where
  "regular_file os fd content \<longleftrightarrow>
     (\<forall>tr. os_read os tr fd = Some (take BUFFER_SIZE (drop (bytes_read fd tr 0) content)))"

text \<open>The reader stands before the bytes \<open>rest\<close> of the file.\<close>

definition reader_at :: "int \<Rightarrow> string \<Rightarrow> bufio_t \<Rightarrow> ls_trace \<Rightarrow> string \<Rightarrow> bool" where
  "reader_at fd content ctx tr rest \<longleftrightarrow>
     bfd ctx = fd \<and> boff ctx \<le> bsize ctx \<and> bsize ctx \<le> BUFFER_SIZE \<and>
     bsize ctx \<le> length (buffer ctx) \<and>
     (let n = bytes_read fd tr 0 in
      rest = drop (boff ctx) (take (bsize ctx) (buffer ctx)) @ drop n content \<and>
      (if bsize ctx = BUFFER_SIZE then n mod BUFFER_SIZE = 0 \<and> 0 < n \<and> n \<le> length content
       else drop n content = []))"

lemma BUFFER_SIZE_pos [simp]: "0 < BUFFER_SIZE" "BUFFER_SIZE \<noteq> 0"
  by (simp_all add: BUFFER_SIZE_def)

lemma bytes_read_append: "bytes_read fd (tr @ tr') n = bytes_read fd tr' (bytes_read fd tr n)"
  by (induction fd tr n rule: bytes_read.induct) auto

lemma bytes_read_snoc [simp]:
  "bytes_read fd (tr @ [IoOpen p f fd']) n = (if fd' = fd then 0 else bytes_read fd tr n)"
  "bytes_read fd (tr @ [IoRead fd (Some bytes)]) n = bytes_read fd tr n + length bytes"
  "bytes_read fd (tr @ [IoMalloc m]) n = bytes_read fd tr n"
  by (simp_all add: bytes_read_append)

lemma reader_at_malloc [simp]:
  "reader_at fd content ctx (tr @ [IoMalloc m]) rest = reader_at fd content ctx tr rest"
  by (simp add: reader_at_def)

lemma take_fill [simp]: "take (length new) (fill old new) = new"
  by (simp add: fill_def)

lemma take_drop_length: "xs = take k xs @ drop (length (take k xs)) xs"
  by (cases "length xs \<le> k") simp_all

text \<open>A read at a chunk boundary puts the reader before the new chunk.\<close>

lemma reader_at_chunk:
  assumes n: "bytes_read fd tr 0 = n" "n mod BUFFER_SIZE = 0" "n \<le> length content"
    and new: "new = take BUFFER_SIZE (drop n content)"
    and fd: "bfd ctx = fd" and k: "k \<le> length new"
  shows "reader_at fd content (ctx\<lparr>buffer := fill old new, boff := k, bsize := length new\<rparr>)
           (tr @ [IoRead fd (Some new)]) (drop k (drop n content))"
proof -
  have cut: "drop k (drop n content) = drop k new @ drop (n + length new) content"
  proof -
    have "drop n content = new @ drop (length new) (drop n content)"
      unfolding new by (rule take_drop_length)
    then have "drop k (drop n content) = drop k (new @ drop (length new) (drop n content))"
      by simp
    also have "\<dots> = drop k new @ drop (n + length new) content"
      using k by (simp add: add.commute)
    finally show ?thesis .
  qed
  have "if length new = BUFFER_SIZE
      then (n + length new) mod BUFFER_SIZE = 0 \<and> 0 < n + length new \<and>
        n + length new \<le> length content
      else drop (n + length new) content = []"
    using n(2,3) by (auto simp: new min_def split: if_splits)
  moreover have "length new \<le> BUFFER_SIZE" by (simp add: new)
  moreover have "length new \<le> length (fill old new)" by (simp add: fill_def)
  ultimately show ?thesis
    unfolding reader_at_def Let_def cut using fd n(1) k by (auto split: if_splits)
qed

lemma reader_at_init:
  assumes "regular_file os fd content" and "bytes_read fd tr 0 = 0"
    and "bufio_init os fd tr = (Some ctx, tr')"
  shows "reader_at fd content ctx tr' content"
proof -
  define new where "new = take BUFFER_SIZE content"
  obtain b where m: "os_malloc os tr = Some b"
    using assms(3) by (cases "os_malloc os tr") (auto simp: bufio_init_def)
  let ?tr1 = "tr @ [IoMalloc (Some b)]"
  have rd: "os_read os ?tr1 fd = Some new"
    using assms(1,2) by (simp add: regular_file_def new_def)
  let ?c = "\<lparr>bfd = fd, buffer = [], boff = 0, bsize = 0\<rparr>"
  have "reader_at fd content (?c\<lparr>buffer := fill [] new, boff := 0, bsize := length new\<rparr>)
          (?tr1 @ [IoRead fd (Some new)]) (drop 0 (drop 0 content))"
    by (rule reader_at_chunk) (simp_all add: assms(2) new_def)
  with assms(3) m rd show ?thesis
    by (simp add: bufio_init_def Let_def fill_def)
qed

text \<open>The next character of the file, and the end of the file when its length is no multiple of
  the buffer's size.\<close>

lemma bufio_next_char_Cons:
  assumes "regular_file os fd content" and "reader_at fd content ctx tr (c # rest)"
  shows "\<exists>ctx' tr'. bufio_next_char os ctx tr = (schar c, ctx', tr') \<and>
           reader_at fd content ctx' tr' rest"
proof (cases "boff ctx < bsize ctx")
  case True
  let ?b = "buffer ctx" and ?o = "boff ctx" and ?z = "bsize ctx"
  have z: "?o < length (take ?z ?b)" using True assms(2) by (simp add: reader_at_def)
  have "drop ?o (take ?z ?b) = ?b ! ?o # drop (Suc ?o) (take ?z ?b)"
    using Cons_nth_drop_Suc [OF z] True by simp
  with assms(2) have "c = ?b ! ?o"
    and "rest = drop (Suc ?o) (take ?z ?b) @ drop (bytes_read fd tr 0) content"
    by (auto simp: reader_at_def Let_def)
  with True assms(2) show ?thesis
    by (auto simp: bufio_next_char_def reader_at_def Let_def)
next
  case False
  define n where "n = bytes_read fd tr 0"
  define new where "new = take BUFFER_SIZE (drop n content)"
  have full: "bsize ctx = BUFFER_SIZE" and n: "n mod BUFFER_SIZE = 0" "n \<le> length content"
    and off: "boff ctx = bsize ctx" and cont: "drop n content = c # rest" and fd: "bfd ctx = fd"
    using assms(2) False by (auto simp: reader_at_def Let_def n_def split: if_splits)
  have hd: "new = c # take (BUFFER_SIZE - 1) rest"
    by (simp add: new_def cont take_Cons')
  have rd: "os_read os tr fd = Some new"
    using assms(1) by (simp add: regular_file_def new_def n_def)
  let ?ctx' = "ctx\<lparr>buffer := fill (buffer ctx) new, boff := 1, bsize := length new\<rparr>"
  have step: "bufio_next_char os ctx tr = (schar c, ?ctx', tr @ [IoRead fd (Some new)])"
    using full off rd fd hd by (simp add: bufio_next_char_def Let_def fill_def)
  have "reader_at fd content ?ctx' (tr @ [IoRead fd (Some new)]) (drop 1 (drop n content))"
    by (rule reader_at_chunk) (use n fd hd in \<open>simp_all add: n_def new_def\<close>)
  with step cont show ?thesis by auto
qed

lemma bufio_next_char_Nil:
  assumes "reader_at fd content ctx tr []" and "length content mod BUFFER_SIZE \<noteq> 0 \<or> content = []"
    and "bufio_next_char os ctx tr = (c, ctx', tr')"
  shows "c = BUFIO_EOF \<and> ctx' = ctx \<and> tr' = tr"
  using assms
  by (auto simp: bufio_next_char_def reader_at_def Let_def split: if_splits)

text \<open>
  When the length of the file is a positive multiple of the buffer's size the reader does not stop
  there: the read that finds the end of the file leaves the last chunk in the buffer, and its first
  byte is delivered once more.
\<close>

lemma bufio_next_char_stale:
  assumes "regular_file os fd content" and "reader_at fd content ctx tr []"
    and "bsize ctx = BUFFER_SIZE"
  shows "fst (bufio_next_char os ctx tr) = schar (buffer ctx ! 0)"
proof -
  have rd: "os_read os tr fd = Some []"
    using assms by (auto simp: regular_file_def reader_at_def Let_def)
  with assms show ?thesis
    by (auto simp: bufio_next_char_def reader_at_def fill_def Let_def)
qed

end
