(* ===== verification/Config_Parse.thy ===== *)
theory Config_Parse
  imports Bufio
begin

text \<open>
  The parser of /etc/logs.conf (servers/ls/config-parse.c): a state machine that is fed one
  character at a time and hands over a logger at every closing brace, and the loop around it.

  \<open>curr_value\<close> holds the characters written to the array so far, in order; the code writes at
  \<open>curr_value_offset\<close> and puts a NUL there before it reads the array, so what an earlier, longer
  value has left behind it is never read.
\<close>

definition MAX_VALUE_LEN :: nat where "MAX_VALUE_LEN = 2048"

datatype parser_state_kind_t =
    PARSE_LOGGER_KEYWORD | PARSE_LOGGER_NAME | PARSE_OPEN_BRACE | PARSE_OPEN_BRACE_NEWLINE
  | PARSE_CONFIG_OPTION_NAME | PARSE_CONFIG_OPTION_EQUALS | PARSE_CONFIG_VALUE

datatype parser_result_t = PARSE_OK | PARSE_GOT_LOGGER | PARSE_ERROR nat nat

record parser_state_t =
  pkind :: parser_state_kind_t
  line_no :: nat
  char_no :: nat
  consume_offset :: nat
  curr_value :: "char list"
  option_name :: string
  curr_value_offset :: nat
  did_set_filename :: bool
  did_set_append :: bool
  did_set_type :: bool
  did_set_format :: bool
  current_logger :: ls_logger_t

text \<open>
  \<open>parse_init\<close> means to clear \<open>current_logger\<close> but passes \<open>memset\<close> a length of 0, so the structure
  keeps whatever the fresh block holds: the argument \<open>junk\<close>. The arrays are not initialised either.
\<close>

definition parse_init :: "ls_logger_t \<Rightarrow> parser_state_t" where
  "parse_init junk =
     \<lparr>pkind = PARSE_LOGGER_KEYWORD, line_no = 1, char_no = 1, consume_offset = 0, curr_value = [],
      option_name = [], curr_value_offset = 0, did_set_filename = False, did_set_append = False,
      did_set_type = False, did_set_format = False, current_logger = junk\<rparr>"

text \<open>Writing \<open>ch\<close> at the offset and advancing it, and reading the array as a C string.\<close>

definition push_char :: "char \<Rightarrow> parser_state_t \<Rightarrow> parser_state_t" where
  "push_char ch state =
     state\<lparr>curr_value := take (curr_value_offset state) (curr_value state) @ [ch],
           curr_value_offset := curr_value_offset state + 1\<rparr>"

definition curr_string :: "parser_state_t \<Rightarrow> string" where
  "curr_string state = cstr (take (curr_value_offset state) (curr_value state))"

definition parse_consumption ::
  "parser_state_t \<Rightarrow> string \<Rightarrow> char \<Rightarrow> parser_state_kind_t \<Rightarrow> int \<times> parser_state_t" where
  "parse_consumption state literal ch nxt =
     (if c_index literal (consume_offset state) = ch then
        (let state1 = state\<lparr>consume_offset := consume_offset state + 1\<rparr> in
         if consume_offset state1 \<ge> length literal
         then (0, state1\<lparr>pkind := nxt, consume_offset := 0, curr_value_offset := 0\<rparr>)
         else (0, state1))
      else (-1, state))"

definition is_white :: "char \<Rightarrow> bool" where
  "is_white ch \<longleftrightarrow> ch = CHR '' '' \<or> ch = CHR 0x09"

definition is_whitespace_invariant :: "parser_state_t \<Rightarrow> bool" where
  "is_whitespace_invariant state =
     (if pkind state = PARSE_LOGGER_NAME \<and> curr_value_offset state > 0 then False
      else if pkind state = PARSE_LOGGER_KEYWORD \<and> consume_offset state > 0 then False
      else if pkind state = PARSE_CONFIG_OPTION_NAME \<and> curr_value_offset state > 0 then False
      else if pkind state = PARSE_CONFIG_VALUE \<and> curr_value_offset state > 0 then False
      else True)"

definition is_newline_invariant :: "parser_state_t \<Rightarrow> bool" where
  "is_newline_invariant state =
     (if pkind state = PARSE_OPEN_BRACE \<and> consume_offset state = 0 then True
      else if pkind state = PARSE_LOGGER_KEYWORD \<and> consume_offset state = 0 then True
      else if pkind state = PARSE_CONFIG_OPTION_NAME \<and> curr_value_offset state = 0 then True
      else False)"

definition char_in :: "char \<Rightarrow> char \<Rightarrow> char \<Rightarrow> bool" where
  "char_in lo ch hi \<longleftrightarrow> schar lo \<le> schar ch \<and> schar ch \<le> schar hi"

definition is_allowed_in_logger_name :: "char \<Rightarrow> bool" where
  "is_allowed_in_logger_name ch \<longleftrightarrow>
     char_in (CHR ''A'') ch (CHR ''Z'') \<or> char_in (CHR ''a'') ch (CHR ''z'') \<or>
     char_in (CHR ''0'') ch (CHR ''9'') \<or> ch = CHR ''_''"

definition is_allowed_in_config_option_name :: "char \<Rightarrow> bool" where
  "is_allowed_in_config_option_name ch \<longleftrightarrow>
     char_in (CHR ''a'') ch (CHR ''z'') \<or> char_in (CHR ''0'') ch (CHR ''9'')"

definition set_parse_error :: "parser_state_t \<Rightarrow> parser_result_t" where
  "set_parse_error state = PARSE_ERROR (line_no state) (char_no state)"

definition set_parse_ok :: parser_result_t where
  "set_parse_ok = PARSE_OK"

text \<open>The macro \<open>TRY_PARSE\<close>.\<close>

definition try_parse :: "int \<times> parser_state_t \<Rightarrow> parser_result_t \<times> parser_state_t" where
  "try_parse x =
     (let (ret, state) = x in
      if ret < 0 then (set_parse_error state, state) else (set_parse_ok, state))"

definition set_logger_dest_type :: "string \<Rightarrow> ls_logger_t \<Rightarrow> int \<times> ls_logger_t" where
  "set_logger_dest_type dest l =
     (if dest = ''file'' then (0, l\<lparr>dest_type := LS_DESTINATION_FILE\<rparr>)
      else if dest = ''stdout'' then (0, l\<lparr>dest_type := LS_DESTINATION_STDOUT\<rparr>)
      else if dest = ''stderr'' then (0, l\<lparr>dest_type := LS_DESTINATION_STDERR\<rparr>)
      else (-1, l))"

definition set_logger_severity :: "string \<Rightarrow> ls_logger_t \<Rightarrow> int \<times> ls_logger_t" where
  "set_logger_severity severity l =
     (if severity = ''trace'' then (0, l\<lparr>logger_severity := LS_SEV_TRACE\<rparr>)
      else if severity = ''debug'' then (0, l\<lparr>logger_severity := LS_SEV_DEBUG\<rparr>)
      else if severity = ''info'' then (0, l\<lparr>logger_severity := LS_SEV_INFO\<rparr>)
      else if severity = ''warn'' then (0, l\<lparr>logger_severity := LS_SEV_WARN\<rparr>)
      else (-1, l))"

definition set_logger_append :: "string \<Rightarrow> ls_logger_t \<Rightarrow> int \<times> ls_logger_t" where
  "set_logger_append app l =
     (if app = ''true'' then (0, l\<lparr>logger_append := True\<rparr>)
      else if app = ''false'' then (0, l\<lparr>logger_append := False\<rparr>)
      else (-1, l))"

fun trim :: "string \<Rightarrow> string" where
  "trim [] = []"
| "trim (c # s) = (if is_white c then trim s else c # s)"

text \<open>
  The code passes the name and value arrays and a pointer to \<open>current_logger\<close> of the same parser
  state; the option is set there.
\<close>

definition set_logger_option :: "string \<Rightarrow> string \<Rightarrow> parser_state_t \<Rightarrow> int \<times> parser_state_t" where
  "set_logger_option name0 value0 state =
     (let name = trim name0; val = trim value0; l = current_logger state in
      if name = ''destination'' then
        (let (ret, l') = set_logger_dest_type val l
         in (ret, state\<lparr>did_set_type := True, current_logger := l'\<rparr>))
      else if name = ''severity'' then
        (let (ret, l') = set_logger_severity val l in (ret, state\<lparr>current_logger := l'\<rparr>))
      else if name = ''format'' then
        (if length val > LS_MAX_LOGGER_FORMAT_LEN - 1
         then (-1, state\<lparr>did_set_format := True\<rparr>)
         else (0, state\<lparr>did_set_format := True, current_logger := l\<lparr>logger_format := val\<rparr>\<rparr>))
      else if name = ''filename'' then
        (if length val > LS_MAX_LOGGER_LOGFILE_PATH_LEN - 1
         then (-1, state\<lparr>did_set_filename := True\<rparr>)
         else (0, state\<lparr>did_set_filename := True, current_logger := l\<lparr>dest_filename := val\<rparr>\<rparr>))
      else if name = ''append'' then
        (let (ret, l') = set_logger_append val l
         in (ret, state\<lparr>did_set_append := True, current_logger := l'\<rparr>))
      else (-1, state))"

text \<open>The branches of \<open>parse_advance\<close> that consume values.\<close>

definition advance_logger_name :: "parser_state_t \<Rightarrow> char \<Rightarrow> parser_result_t \<times> parser_state_t" where
  "advance_logger_name state ch =
     (if is_allowed_in_logger_name ch \<and> curr_value_offset state < LS_MAX_LOGGER_NAME_LEN - 1
      then (set_parse_ok, push_char ch state)
      else if is_white ch \<or> ch = CHR 0x0A then
        (set_parse_ok,
         state\<lparr>current_logger := zero_logger\<lparr>logger_name := curr_string state\<rparr>,
               pkind := PARSE_OPEN_BRACE, consume_offset := 0\<rparr>)
      else (set_parse_error state, state))"

definition advance_option_name :: "parser_state_t \<Rightarrow> char \<Rightarrow> parser_result_t \<times> parser_state_t" where
  "advance_option_name state ch =
     (if is_allowed_in_config_option_name ch \<and> curr_value_offset state < MAX_VALUE_LEN - 1
      then (set_parse_ok, push_char ch state)
      else if ch = CHR ''}'' then
        (PARSE_GOT_LOGGER, state\<lparr>pkind := PARSE_LOGGER_KEYWORD, consume_offset := 0\<rparr>)
      else if (ch = CHR ''='' \<or> is_white ch) \<and> curr_value_offset state > 0 then
        (set_parse_ok,
         state\<lparr>pkind := (if ch = CHR ''='' then PARSE_CONFIG_VALUE else PARSE_CONFIG_OPTION_EQUALS),
               option_name := curr_string state, consume_offset := 0, curr_value_offset := 0\<rparr>)
      else (set_parse_error state, state))"

definition advance_value :: "parser_state_t \<Rightarrow> char \<Rightarrow> parser_result_t \<times> parser_state_t" where
  "advance_value state ch =
     (if ch = CHR 0x0A then
        (let state0 = state\<lparr>pkind := PARSE_CONFIG_OPTION_NAME\<rparr>;
             (ret, state1) = set_logger_option (option_name state0) (curr_string state0) state0 in
         if ret \<noteq> 0 then (set_parse_error state1, state1)
         else (set_parse_ok, state1\<lparr>curr_value_offset := 0, consume_offset := 0\<rparr>))
      else if curr_value_offset state < MAX_VALUE_LEN - 1 then (set_parse_ok, push_char ch state)
      else (set_parse_error state, state))"

definition count_char :: "char \<Rightarrow> parser_state_t \<Rightarrow> parser_state_t" where
  "count_char ch state =
     (if ch = CHR 0x0A then state\<lparr>line_no := line_no state + 1, char_no := 0\<rparr>
      else state\<lparr>char_no := char_no state + 1\<rparr>)"

definition parse_advance :: "parser_state_t \<Rightarrow> char \<Rightarrow> parser_result_t \<times> parser_state_t" where
  "parse_advance state0 ch =
     (let state = count_char ch state0 in
      if is_white ch \<and> is_whitespace_invariant state \<or> ch = CHR 0x0A \<and> is_newline_invariant state
      then (set_parse_ok, state)
      else
        (case pkind state of
           PARSE_LOGGER_KEYWORD \<Rightarrow>
             try_parse (parse_consumption
               (state\<lparr>did_set_filename := False, did_set_append := False, did_set_type := False,
                      did_set_format := False\<rparr>) ''logger'' ch PARSE_LOGGER_NAME)
         | PARSE_OPEN_BRACE \<Rightarrow>
             try_parse (parse_consumption state ''{'' ch PARSE_OPEN_BRACE_NEWLINE)
         | PARSE_OPEN_BRACE_NEWLINE \<Rightarrow>
             try_parse (parse_consumption state [CHR 0x0A] ch PARSE_CONFIG_OPTION_NAME)
         | PARSE_CONFIG_OPTION_EQUALS \<Rightarrow>
             try_parse (parse_consumption state ''='' ch PARSE_CONFIG_VALUE)
         | PARSE_LOGGER_NAME \<Rightarrow> advance_logger_name state ch
         | PARSE_CONFIG_OPTION_NAME \<Rightarrow> advance_option_name state ch
         | PARSE_CONFIG_VALUE \<Rightarrow> advance_value state ch))"

text \<open>
  The walk over the loggers accepted so far follows the links, and the link of the last one has
  never been written: \<open>tail_null\<close> says whether it is NULL.
\<close>

definition is_logger_valid ::
  "parser_state_t \<Rightarrow> ls_logger_list_t list \<Rightarrow> bool \<Rightarrow> bool option" where
  "is_logger_valid state head tail_null =
     (let l = current_logger state in
      case list_walk (\<lambda>pl. logger_name l = logger_name (logger pl)) head tail_null of
        None \<Rightarrow> None
      | Some (Some _) \<Rightarrow> Some False
      | Some None \<Rightarrow>
          Some (if \<not> did_set_format state then False
                else if \<not> did_set_type state then False
                else if did_set_filename state \<and> dest_type l \<noteq> LS_DESTINATION_FILE then False
                else if did_set_append state \<and> dest_type l \<noteq> LS_DESTINATION_FILE then False
                else if dest_type l = LS_DESTINATION_FILE \<and> \<not> did_set_filename state then False
                else True))"

text \<open>The loop that frees a list of loggers follows every link, the last one included.\<close>

definition free_loggers :: "'a list \<Rightarrow> bool \<Rightarrow> unit option" where
  "free_loggers ls tail_null = (if ls = [] \<or> tail_null then Some () else None)"

text \<open>
  The loop of \<open>parse_config_file\<close>. It ends with the return code, the list it has built when that
  code is OK, and the trace; a configuration file without an end makes it run forever.
\<close>

partial_function (option) parse_loop ::
  "ls_os \<Rightarrow> bufio_t \<Rightarrow> parser_state_t \<Rightarrow> ls_logger_list_t list \<Rightarrow> bool \<Rightarrow> ls_trace \<Rightarrow> int \<Rightarrow>
   (int \<times> (ls_logger_list_t list \<times> bool) option \<times> ls_trace) option" where
  "parse_loop os ctx state head tail_null tr c =
     (if c = BUFIO_EOF then Some (OK, Some (head, tail_null), tr)
      else if c = BUFIO_ERR then
        Option.bind (free_loggers head tail_null) (\<lambda>_. Some (EIO, None, tr))
      else
        (let (res, state1) = parse_advance state (char_of_sint c) in
         case res of
           PARSE_ERROR line ch \<Rightarrow> Some (EINVAL, None, tr)
         | PARSE_OK \<Rightarrow>
             (let (c', ctx', tr') = bufio_next_char os ctx tr
              in parse_loop os ctx' state1 head tail_null tr' c')
         | PARSE_GOT_LOGGER \<Rightarrow>
             Option.bind (is_logger_valid state1 head tail_null) (\<lambda>valid.
               if \<not> valid then
                 Option.bind (free_loggers head tail_null) (\<lambda>_. Some (EINVAL, None, tr))
               else
                 (let m = os_malloc os tr; tr1 = tr @ [IoMalloc m] in
                  case m of
                    None \<Rightarrow>
                      Option.bind (free_loggers head tail_null) (\<lambda>_. Some (ENOMEM, None, tr1))
                  | Some link_null \<Rightarrow>
                      (let node = \<lparr>logger = current_logger state1, lstate = zero_logger_state\<rparr>;
                           (c', ctx', tr') = bufio_next_char os ctx tr1
                       in parse_loop os ctx' state1 (head @ [node]) link_null tr' c')))))"

text \<open>
  \<open>parse_config_file\<close>; \<open>junk\<close> is what the fresh parser state holds. The result is the return code,
  the new list when there is one, and the trace.
\<close>

definition parse_config_file ::
  "ls_os \<Rightarrow> ls_logger_t \<Rightarrow> string \<Rightarrow> ls_trace \<Rightarrow>
   (int \<times> (ls_logger_list_t list \<times> bool) option \<times> ls_trace) option" where
  "parse_config_file os junk filename tr =
     (let fd = os_open os tr filename O_RDONLY; tr1 = tr @ [IoOpen filename O_RDONLY fd] in
      if fd < 0 then Some (fd, None, tr1)
      else
        (let (bufio, tr2) = bufio_init os fd tr1 in
         case bufio of
           None \<Rightarrow> (let tr3 = tr2 @ [IoClose fd (os_close os tr2 fd)] in Some (ENOMEM, None, tr3))
         | Some ctx \<Rightarrow>
             (let m = os_malloc os tr2; tr3 = tr2 @ [IoMalloc m] in
              if m = None
              then (let tr4 = tr3 @ [IoClose fd (os_close os tr3 fd)] in Some (ENOMEM, None, tr4))
              else
                (let (c, ctx', tr4) = bufio_next_char os ctx tr3 in
                 Option.bind (parse_loop os ctx' (parse_init junk) [] True tr4 c)
                   (\<lambda>(ret, dest, tr5).
                      Some (ret, dest, tr5 @ [IoClose fd (os_close os tr5 fd)]))))))"

end
