(* ===== verification/Config_Parse_Props.thy ===== *)
theory Config_Parse_Props
  imports Config_Parse
begin

text \<open>
  What the configuration parser guarantees: the memory safety of its buffers, the well-formedness of
  the loggers it hands over, the distinctness of their names, and that it reads back what a
  configuration file written in its format says.
\<close>

section \<open>The parser state\<close>

text \<open>The literal a state consumes.\<close>

fun literal_of :: "parser_state_kind_t \<Rightarrow> string option" where
  "literal_of PARSE_LOGGER_KEYWORD = Some ''logger''"
| "literal_of PARSE_OPEN_BRACE = Some ''{''"
| "literal_of PARSE_OPEN_BRACE_NEWLINE = Some [CHR 0x0A]"
| "literal_of PARSE_CONFIG_OPTION_EQUALS = Some ''=''"
| "literal_of _ = None"

text \<open>
  The invariant of the parser. The bounds are those of the arrays: an offset is always below the
  array's size, so the NUL that ends the string has room as well.
\<close>

definition parser_inv :: "parser_state_t \<Rightarrow> bool" where
  "parser_inv st \<longleftrightarrow>
     (case literal_of (pkind st) of Some lit \<Rightarrow> consume_offset st < length lit | None \<Rightarrow> True) \<and>
     curr_value_offset st \<le> length (curr_value st) \<and>
     curr_value_offset st < MAX_VALUE_LEN \<and>
     (pkind st = PARSE_LOGGER_NAME \<longrightarrow>
        curr_value_offset st < LS_MAX_LOGGER_NAME_LEN \<and>
        list_all is_allowed_in_logger_name (take (curr_value_offset st) (curr_value st))) \<and>
     (pkind st \<noteq> PARSE_LOGGER_KEYWORD \<longrightarrow> pkind st \<noteq> PARSE_LOGGER_NAME \<longrightarrow>
        logger_fits (current_logger st) \<and>
        list_all is_allowed_in_logger_name (logger_name (current_logger st)))"

text \<open>The parser as a step function on characters, for the runs of the prelude.\<close>

definition parser_step :: "char \<Rightarrow> parser_state_t \<Rightarrow> parser_state_t option" where
  "parser_step ch st = Some (snd (parse_advance st ch))"

lemma allowed_not_nul: "list_all is_allowed_in_logger_name s \<Longrightarrow> CHR 0x00 \<notin> set s"
  by (auto simp: list_all_iff is_allowed_in_logger_name_def char_in_def schar_def)

lemma set_trim: "set (trim s) \<subseteq> set s"
  by (induction s) auto

lemma trim_cstr_no_nul [simp]: "CHR 0x00 \<notin> set (trim (cstr s))"
  using set_trim cstr_no_nul by blast

lemma set_logger_dest_type_frame:
  "set_logger_dest_type v l = (ret, l') \<Longrightarrow>
     logger_name l' = logger_name l \<and> dest_filename l' = dest_filename l \<and>
     logger_format l' = logger_format l"
  by (auto simp: set_logger_dest_type_def split: if_splits)

lemma set_logger_severity_frame:
  "set_logger_severity v l = (ret, l') \<Longrightarrow>
     logger_name l' = logger_name l \<and> dest_filename l' = dest_filename l \<and>
     logger_format l' = logger_format l"
  by (auto simp: set_logger_severity_def split: if_splits)

lemma set_logger_append_frame:
  "set_logger_append v l = (ret, l') \<Longrightarrow>
     logger_name l' = logger_name l \<and> dest_filename l' = dest_filename l \<and>
     logger_format l' = logger_format l"
  by (auto simp: set_logger_append_def split: if_splits)

lemmas set_option_frames =
  set_logger_dest_type_frame set_logger_severity_frame set_logger_append_frame

lemma set_logger_option_fits:
  assumes "logger_fits (current_logger st)"
    and "set_logger_option name (cstr v) st = (ret, st')"
  shows "logger_fits (current_logger st')"
  using assms
  by (auto simp: set_logger_option_def logger_fits_def Let_def
      split: if_splits prod.splits dest!: set_option_frames)

lemma set_logger_option_frame:
  assumes "set_logger_option name v st = (ret, st')"
  shows "pkind st' = pkind st" "curr_value st' = curr_value st"
    "curr_value_offset st' = curr_value_offset st" "consume_offset st' = consume_offset st"
    "logger_name (current_logger st') = logger_name (current_logger st)"
  using assms
  by (auto simp: set_logger_option_def Let_def split: if_splits prod.splits
      dest!: set_option_frames)

lemma parser_inv_init: "parser_inv (parse_init junk)"
  by (simp add: parser_inv_def parse_init_def MAX_VALUE_LEN_def)

lemma count_char_simps [simp]:
  "pkind (count_char ch st) = pkind st" "consume_offset (count_char ch st) = consume_offset st"
  "curr_value (count_char ch st) = curr_value st" "option_name (count_char ch st) = option_name st"
  "curr_value_offset (count_char ch st) = curr_value_offset st"
  "current_logger (count_char ch st) = current_logger st"
  "did_set_filename (count_char ch st) = did_set_filename st"
  "did_set_append (count_char ch st) = did_set_append st"
  "did_set_type (count_char ch st) = did_set_type st"
  "did_set_format (count_char ch st) = did_set_format st"
  by (simp_all add: count_char_def)

lemma parser_inv_count_char [simp]: "parser_inv (count_char ch st) = parser_inv st"
  by (simp add: parser_inv_def split: option.split)

lemma parser_inv_consumption:
  assumes "parser_inv st" and "literal_of (pkind st) = Some lit"
    and "parse_consumption st lit ch nxt = (ret, st')"
    and "nxt = PARSE_LOGGER_NAME \<or> literal_of nxt \<noteq> None \<and> pkind st \<noteq> PARSE_LOGGER_KEYWORD \<or>
         nxt = PARSE_CONFIG_OPTION_NAME \<and> pkind st \<noteq> PARSE_LOGGER_KEYWORD \<or>
         nxt = PARSE_CONFIG_VALUE \<and> pkind st \<noteq> PARSE_LOGGER_KEYWORD"
    and "nxt \<noteq> PARSE_LOGGER_KEYWORD"
  shows "parser_inv st'"
proof -
  have "pkind st \<noteq> PARSE_LOGGER_NAME" using assms(2) by auto
  then show ?thesis
    using assms
    by (cases nxt) (auto simp: parse_consumption_def parser_inv_def MAX_VALUE_LEN_def Let_def
        split: if_splits)
qed

lemma parser_inv_logger_name:
  assumes "parser_inv st" and "pkind st = PARSE_LOGGER_NAME"
    and "advance_logger_name st ch = (res, st')"
  shows "parser_inv st'"
proof (cases "is_allowed_in_logger_name ch \<and> curr_value_offset st < LS_MAX_LOGGER_NAME_LEN - 1")
  case True
  with assms show ?thesis
    by (auto simp: advance_logger_name_def parser_inv_def push_char_def MAX_VALUE_LEN_def)
next
  case False
  have "CHR 0x00 \<notin> set (take (curr_value_offset st) (curr_value st))"
    using assms(1,2) by (auto simp: parser_inv_def dest: allowed_not_nul)
  with False assms show ?thesis
    by (auto simp: advance_logger_name_def parser_inv_def curr_string_def logger_fits_def
        zero_logger_def split: if_splits)
qed

lemma parser_inv_option_name:
  assumes "parser_inv st" and "pkind st = PARSE_CONFIG_OPTION_NAME"
    and "advance_option_name st ch = (res, st')"
  shows "parser_inv st'"
  using assms
  by (auto simp: advance_option_name_def parser_inv_def push_char_def MAX_VALUE_LEN_def
      split: if_splits)

lemma parser_inv_value:
  assumes "parser_inv st" and "pkind st = PARSE_CONFIG_VALUE"
    and "advance_value st ch = (res, st')"
  shows "parser_inv st'"
proof (cases "ch = CHR 0x0A")
  case True
  let ?st0 = "st\<lparr>pkind := PARSE_CONFIG_OPTION_NAME\<rparr>"
  obtain ret st1 where s: "set_logger_option (option_name st) (curr_string ?st0) ?st0 = (ret, st1)"
    by fastforce
  have "logger_fits (current_logger st1)"
    using set_logger_option_fits [OF _ s [unfolded curr_string_def]] assms(1,2)
    by (auto simp: parser_inv_def)
  with s True assms set_logger_option_frame [OF s] show ?thesis
    by (auto simp: advance_value_def parser_inv_def Let_def split: if_splits)
next
  case False
  with assms show ?thesis
    by (auto simp: advance_value_def parser_inv_def push_char_def MAX_VALUE_LEN_def
        split: if_splits)
qed

lemma parser_inv_reset_flags:
  "parser_inv (st\<lparr>did_set_filename := a, did_set_append := b, did_set_type := c,
     did_set_format := d\<rparr>) = parser_inv st"
  by (simp add: parser_inv_def split: option.split)

lemma parse_advance_inv:
  assumes "parser_inv st0"
  shows "parser_inv (snd (parse_advance st0 ch))"
proof -
  define st where "st = count_char ch st0"
  have inv: "parser_inv st" using assms by (simp add: st_def)
  obtain res st' where adv: "parse_advance st0 ch = (res, st')" by fastforce
  have consume: "parser_inv st'"
    if "parser_inv st1" and "literal_of (pkind st1) = Some lit"
      and "try_parse (parse_consumption st1 lit ch nxt) = (res, st')"
      and "nxt = PARSE_LOGGER_NAME \<or> literal_of nxt \<noteq> None \<and> pkind st1 \<noteq> PARSE_LOGGER_KEYWORD \<or>
         nxt = PARSE_CONFIG_OPTION_NAME \<and> pkind st1 \<noteq> PARSE_LOGGER_KEYWORD \<or>
         nxt = PARSE_CONFIG_VALUE \<and> pkind st1 \<noteq> PARSE_LOGGER_KEYWORD"
      and "nxt \<noteq> PARSE_LOGGER_KEYWORD"
    for st1 lit nxt
    using that parser_inv_consumption [OF that(1,2) _ that(4,5)]
    by (auto simp: try_parse_def split: prod.splits if_splits)
  show ?thesis
  proof (cases "is_white ch \<and> is_whitespace_invariant st \<or> ch = CHR 0x0A \<and> is_newline_invariant st")
    case True
    with inv show ?thesis by (simp add: parse_advance_def Let_def st_def)
  next
    case False
    with adv inv have "parser_inv st'"
      unfolding parse_advance_def Let_def st_def [symmetric]
      by (cases "pkind st")
        (auto simp: parser_inv_reset_flags
          intro: parser_inv_logger_name parser_inv_option_name parser_inv_value
          elim!: consume [rotated 2])
    with adv show ?thesis by simp
  qed
qed

interpretation parser: total_step parser_step "\<lambda>_. True" parser_inv
  by unfold_locales (auto simp: parser_step_def intro: parse_advance_inv)

text \<open>A closing brace hands over a logger that fits its arrays.\<close>

lemma parse_advance_got_logger:
  assumes "parser_inv st" and "parse_advance st ch = (PARSE_GOT_LOGGER, st')"
  shows "logger_fits (current_logger st')"
    and "list_all is_allowed_in_logger_name (logger_name (current_logger st'))"
  using assms
  by (auto simp: parse_advance_def try_parse_def set_parse_ok_def set_parse_error_def
      advance_logger_name_def advance_option_name_def advance_value_def parser_inv_def Let_def
      split: if_splits parser_state_kind_t.splits prod.splits)

section \<open>The text of a configuration file\<close>

text \<open>
  The loop of \<open>parse_config_file\<close> without the reader and the allocator: the loggers a text defines,
  or the error number.
\<close>

definition logger_ok :: "parser_state_t \<Rightarrow> bool" where
  "logger_ok st \<longleftrightarrow>
     did_set_format st \<and> did_set_type st \<and>
     (did_set_filename st \<longleftrightarrow> dest_type (current_logger st) = LS_DESTINATION_FILE) \<and>
     (did_set_append st \<longrightarrow> dest_type (current_logger st) = LS_DESTINATION_FILE)"

definition new_node :: "ls_logger_t \<Rightarrow> ls_logger_list_t" where
  "new_node l = \<lparr>logger = l, lstate = zero_logger_state\<rparr>"

fun parse_text ::
  "parser_state_t \<Rightarrow> ls_logger_t list \<Rightarrow> string \<Rightarrow> int + parser_state_t \<times> ls_logger_t list" where
  "parse_text st ls [] = Inr (st, ls)"
| "parse_text st ls (c # cs) =
     (case parse_advance st c of
        (PARSE_OK, st') \<Rightarrow> parse_text st' ls cs
      | (PARSE_ERROR _ _, st') \<Rightarrow> Inl EINVAL
      | (PARSE_GOT_LOGGER, st') \<Rightarrow>
          if logger_ok st' \<and> logger_name (current_logger st') \<notin> set (map logger_name ls)
          then parse_text st' (ls @ [current_logger st']) cs else Inl EINVAL)"

lemma is_logger_valid_Some_True:
  "is_logger_valid st head tn = Some True \<Longrightarrow>
     logger_ok st \<and> logger_name (current_logger st) \<notin> set (names_of head)"
  by (auto simp: is_logger_valid_def logger_ok_def Let_def list_all_iff
      split: option.splits if_splits dest!: list_walk_end)

lemma is_logger_valid_terminated:
  "is_logger_valid st head True =
     Some (logger_ok st \<and> logger_name (current_logger st) \<notin> set (names_of head))"
proof -
  let ?P = "\<lambda>pl. logger_name (current_logger st) = logger_name (logger pl)"
  obtain r where r: "list_walk ?P head True = Some r"
    using list_walk_defined by blast
  show ?thesis
  proof (cases r)
    case None
    with r have "list_all (\<lambda>x. \<not> ?P x) head" by (simp add: list_walk_null)
    with r None show ?thesis
      by (auto simp: is_logger_valid_def logger_ok_def Let_def list_all_iff)
  next
    case (Some i)
    with r list_walk_index [of ?P head True i]
    have "logger_name (current_logger st) \<in> set (names_of head)"
      by (auto intro: nth_mem)
    with r Some show ?thesis
      by (auto simp: is_logger_valid_def Let_def)
  qed
qed

text \<open>The loggers that a run of the loop has accepted.\<close>

definition loggers_wf :: "ls_logger_list_t list \<Rightarrow> bool" where
  "loggers_wf ls \<longleftrightarrow>
     distinct (names_of ls) \<and>
     list_all (\<lambda>n. logger_fits (logger n) \<and> lstate n = zero_logger_state) ls"

lemma loggers_wf_snoc:
  assumes "loggers_wf head" and "logger_fits l" and "logger_name l \<notin> set (names_of head)"
  shows "loggers_wf (head @ [\<lparr>logger = l, lstate = zero_logger_state\<rparr>])"
  using assms by (auto simp: loggers_wf_def zero_logger_state_def)

text \<open>What reading a configuration file adds to the trace.\<close>

fun reading_io :: "ls_io \<Rightarrow> bool" where
  "reading_io (IoRead _ _) = True"
| "reading_io (IoMalloc _) = True"
| "reading_io (IoOpen _ flags _) = (flags = O_RDONLY)"
| "reading_io (IoClose _ _) = True"
| "reading_io _ = False"

definition extends_by :: "(ls_io \<Rightarrow> bool) \<Rightarrow> ls_trace \<Rightarrow> ls_trace \<Rightarrow> bool" where
  "extends_by P tr tr' \<longleftrightarrow> take (length tr) tr' = tr \<and> list_all P (drop (length tr) tr')"

lemma extends_by_refl [simp, intro]: "extends_by P tr tr"
  by (simp add: extends_by_def)

lemma extends_by_iff: "extends_by P tr tr' \<longleftrightarrow> (\<exists>ext. tr' = tr @ ext \<and> list_all P ext)"
  by (metis append_eq_conv_conj append_take_drop_id extends_by_def)

lemma extends_by_trans [trans]:
  "extends_by P a b \<Longrightarrow> extends_by P b c \<Longrightarrow> extends_by P a c"
  by (fastforce simp: extends_by_iff)

lemma extends_by_snoc [simp]: "extends_by P tr (tr @ [e]) = P e"
  by (auto simp: extends_by_iff)

lemma extends_by_append:
  "extends_by P tr tr' \<Longrightarrow> list_all P ext \<Longrightarrow> extends_by P tr (tr' @ ext)"
  by (auto simp: extends_by_iff)

lemma extends_by_drop: "extends_by P (tr @ ext) tr' \<Longrightarrow> list_all P ext \<Longrightarrow> extends_by P tr tr'"
  by (auto simp: extends_by_iff)

lemma extends_by_mono: "extends_by P a b \<Longrightarrow> (\<And>e. P e \<Longrightarrow> Q e) \<Longrightarrow> extends_by Q a b"
  by (auto simp: extends_by_iff list_all_iff)

lemma bufio_next_char_trace:
  "bufio_next_char os ctx tr = (c, ctx', tr') \<Longrightarrow> extends_by reading_io tr tr'"
  by (auto simp: bufio_next_char_def Let_def split: if_splits option.splits)

lemma bufio_init_trace: "bufio_init os fd tr = (b, tr') \<Longrightarrow> extends_by reading_io tr tr'"
  by (auto simp: bufio_init_def Let_def extends_by_iff split: if_splits option.splits)

text \<open>The codes a failure returns: three error numbers, or what the failed \<open>open\<close> returned.\<close>

definition parse_failure :: "ls_os \<Rightarrow> int \<Rightarrow> bool" where
  "parse_failure os ret \<longleftrightarrow>
     ret \<in> {EINVAL, EIO, ENOMEM} \<or> (\<exists>tr p. ret = os_open os tr p O_RDONLY \<and> ret < 0)"

lemma parse_failure_simps [simp]:
  "parse_failure os EINVAL" "parse_failure os EIO" "parse_failure os ENOMEM"
  "os_open os tr p O_RDONLY < 0 \<Longrightarrow> parse_failure os (os_open os tr p O_RDONLY)"
  "\<not> parse_failure os OK"
  by (auto simp: parse_failure_def)

text \<open>The contract of the loop, whatever the system does.\<close>

definition loop_post ::
  "ls_os \<Rightarrow> ls_trace \<Rightarrow> int \<times> (ls_logger_list_t list \<times> bool) option \<times> ls_trace \<Rightarrow> bool" where
  "loop_post os tr r \<longleftrightarrow>
     (case r of (ret, dest, tr') \<Rightarrow>
        extends_by reading_io tr tr' \<and>
        (case dest of None \<Rightarrow> parse_failure os ret | Some (ls, _) \<Rightarrow> ret = OK \<and> loggers_wf ls))"

lemma parse_loop_post:
  assumes "parse_loop os ctx st head tn tr c = Some r"
    and "parser_inv st" and "loggers_wf head"
  shows "loop_post os tr r"
proof -
  have "parser_inv st \<longrightarrow> loggers_wf head \<longrightarrow> loop_post os tr r"
  proof (rule parse_loop.raw_induct [OF _ assms(1), of
      "\<lambda>os ctx st head tn tr c r. parser_inv st \<longrightarrow> loggers_wf head \<longrightarrow> loop_post os tr r"],
      goal_cases)
    case (1 loop os ctx st head tn tr c r)
    note IH = "1"(1) and eq = "1"(2)
    show ?case
    proof (intro impI)
      assume inv: "parser_inv st" and wf: "loggers_wf head"
      obtain res st1 where adv: "parse_advance st (char_of_sint c) = (res, st1)" by fastforce
      have inv1: "parser_inv st1"
        using parse_advance_inv [OF inv, of "char_of_sint c"] adv by simp
      obtain c' ctx' tr' where nc: "bufio_next_char os ctx tr = (c', ctx', tr')"
        by (metis prod_cases3)
      obtain c2 ctx2 tr2 where
        nc2: "bufio_next_char os ctx (tr @ [IoMalloc (os_malloc os tr)]) = (c2, ctx2, tr2)"
        by (metis prod_cases3)
      have malloc: "extends_by reading_io tr tr2"
        using bufio_next_char_trace [OF nc2] by (rule extends_by_trans [rotated]) simp
      have node: "loggers_wf (head @ [\<lparr>logger = current_logger st1, lstate = zero_logger_state\<rparr>])"
        if "res = PARSE_GOT_LOGGER" and "is_logger_valid st1 head tn = Some True"
        using that adv inv wf parse_advance_got_logger(1) is_logger_valid_Some_True
        by (auto intro: loggers_wf_snoc)
      show "loop_post os tr r"
        using eq adv inv1 wf nc nc2 malloc node bufio_next_char_trace [OF nc]
        by (auto simp: loop_post_def bind_eq_Some_conv Let_def
            split: if_splits parser_result_t.splits option.splits
            intro: extends_by_trans
            dest!: IH)
    qed
  qed
  with assms show ?thesis by blast
qed

text \<open>The contract carries over to \<open>parse_config_file\<close>.\<close>

lemma parse_config_file_post:
  assumes "parse_config_file os junk filename tr = Some r"
  shows "loop_post os tr r"
proof -
  define fd where "fd = os_open os tr filename O_RDONLY"
  obtain b tr2 where ini: "bufio_init os fd (tr @ [IoOpen filename O_RDONLY fd]) = (b, tr2)"
    by fastforce
  have tr2: "extends_by reading_io tr tr2"
    using bufio_init_trace [OF ini] by (rule extends_by_drop) simp
  let ?tr3 = "tr2 @ [IoMalloc (os_malloc os tr2)]"
  have main: "loop_post os tr r" if "b = Some ctx" and "0 \<le> fd" and "os_malloc os tr2 \<noteq> None" for ctx
  proof -
    obtain c ctx' tr4 where nc: "bufio_next_char os ctx ?tr3 = (c, ctx', tr4)"
      by (metis prod_cases3)
    have tr4: "extends_by reading_io tr tr4"
      using tr2 bufio_next_char_trace [OF nc] by (auto intro: extends_by_trans dest: extends_by_drop)
    from assms that ini nc obtain ret dest tr5
      where loop: "parse_loop os ctx' (parse_init junk) [] True tr4 c = Some (ret, dest, tr5)"
        and r: "r = (ret, dest, tr5 @ [IoClose fd (os_close os tr5 fd)])"
      by (auto simp: parse_config_file_def fd_def Let_def bind_eq_Some_conv)
    have "loop_post os tr4 (ret, dest, tr5)"
      by (rule parse_loop_post [OF loop parser_inv_init]) (simp add: loggers_wf_def)
    with tr4 r show ?thesis
      by (auto simp: loop_post_def intro: extends_by_trans intro!: extends_by_append)
  qed
  show ?thesis
  proof (cases "0 \<le> fd \<and> b \<noteq> None \<and> os_malloc os tr2 \<noteq> None")
    case True
    with main show ?thesis by auto
  next
    case False
    with assms ini tr2 show ?thesis
      by (auto simp: parse_config_file_def fd_def Let_def loop_post_def
          split: if_splits option.splits intro!: extends_by_append)
  qed
qed

section \<open>The loop reads the text of the file\<close>

text \<open>
  A system whose allocator succeeds and hands out blocks in which the link word is NULL.
\<close>

definition memory_ok :: "ls_os \<Rightarrow> bool" where
  "memory_ok os \<longleftrightarrow> (\<forall>tr. os_malloc os tr = Some True)"

text \<open>Bytes that the loop can tell from the reader's two special results.\<close>

definition plain_char :: "char \<Rightarrow> bool" where
  "plain_char c \<longleftrightarrow> schar c \<noteq> BUFIO_EOF \<and> schar c \<noteq> BUFIO_ERR"

definition loop_result ::
  "int + parser_state_t \<times> ls_logger_t list \<Rightarrow> int \<times> (ls_logger_list_t list \<times> bool) option" where
  "loop_result r =
     (case r of Inl e \<Rightarrow> (e, None) | Inr (_, ls) \<Rightarrow> (OK, Some (map new_node ls, True)))"

lemma parse_loop_text:
  assumes "regular_file os fd content" and "memory_ok os"
    and "length content mod BUFFER_SIZE \<noteq> 0 \<or> content = []"
    and "reader_at fd content ctx tr rest" and "list_all plain_char rest"
    and "bufio_next_char os ctx tr = (c, ctx', tr')"
  shows "\<exists>tr''. parse_loop os ctx' st (map new_node ls) True tr' c =
           Some (fst (loop_result (parse_text st ls rest)),
                 snd (loop_result (parse_text st ls rest)), tr'')"
  using assms(4-)
proof (induction rest arbitrary: ctx tr c ctx' tr' st ls)
  case Nil
  with bufio_next_char_Nil [OF Nil.prems(1) assms(3) Nil.prems(3)] show ?case
    by (subst parse_loop.simps) (simp add: loop_result_def)
next
  case (Cons x rest)
  from bufio_next_char_Cons [OF assms(1) Cons.prems(1)] Cons.prems(3)
  have c: "c = schar x" and at: "reader_at fd content ctx' tr' rest" by auto
  obtain res st1 where adv: "parse_advance st x = (res, st1)" by fastforce
  obtain c1 ctx1 tr1 where nc: "bufio_next_char os ctx' tr' = (c1, ctx1, tr1)"
    by (metis prod_cases3)
  let ?tm = "tr' @ [IoMalloc (Some True)]"
  obtain c2 ctx2 tr2 where nc2: "bufio_next_char os ctx' ?tm = (c2, ctx2, tr2)"
    by (metis prod_cases3)
  have plain: "schar x \<noteq> BUFIO_EOF" "schar x \<noteq> BUFIO_ERR" "list_all plain_char rest"
    using Cons.prems(2) by (auto simp: plain_char_def list_all_iff)
  have malloc: "os_malloc os tr' = Some True" using assms(2) by (simp add: memory_ok_def)
  have at2: "reader_at fd content ctx' ?tm rest" using at by simp
  have names: "set (names_of (map new_node ls)) = set (map logger_name ls)"
    by (auto simp: new_node_def)
  have snoc: "map new_node ls @ [\<lparr>logger = current_logger st1, lstate = zero_logger_state\<rparr>] =
      map new_node (ls @ [current_logger st1])"
    by (simp add: new_node_def)
  show ?case
  proof (cases res)
    case PARSE_OK
    with Cons.IH [OF at plain(3) nc] c adv plain nc show ?thesis
      by (subst parse_loop.simps) simp
  next
    case PARSE_GOT_LOGGER
    with Cons.IH [OF at2 plain(3) nc2, of st1 "ls @ [current_logger st1]"] c adv plain nc2 malloc snoc names show ?thesis
      by (subst parse_loop.simps)
        (auto simp: is_logger_valid_terminated free_loggers_def loop_result_def Let_def)
  next
    case (PARSE_ERROR l ch)
    with c adv plain show ?thesis
      by (subst parse_loop.simps) (simp add: loop_result_def)
  qed
qed

text \<open>Hence what \<open>parse_config_file\<close> returns is what the text of the file says.\<close>

lemma parse_config_file_text:
  assumes "os_open os tr filename O_RDONLY = fd" and "0 \<le> fd"
    and "regular_file os fd content" and "memory_ok os"
    and "length content mod BUFFER_SIZE \<noteq> 0 \<or> content = []" and "list_all plain_char content"
  shows "\<exists>tr'. parse_config_file os junk filename tr =
           Some (fst (loop_result (parse_text (parse_init junk) [] content)),
                 snd (loop_result (parse_text (parse_init junk) [] content)), tr')"
proof -
  let ?tr1 = "tr @ [IoOpen filename O_RDONLY fd]"
  have mem: "\<And>tr. os_malloc os tr = Some True" using assms(4) by (simp add: memory_ok_def)
  have rd: "\<And>tr. \<exists>b. os_read os tr fd = Some b" using assms(3) by (simp add: regular_file_def)
  obtain ctx tr2 where ini: "bufio_init os fd ?tr1 = (Some ctx, tr2)"
    using mem rd [of "?tr1 @ [IoMalloc (Some True)]"]
    by (auto simp: bufio_init_def Let_def)
  have "reader_at fd content ctx tr2 content"
    by (rule reader_at_init [OF assms(3) _ ini]) simp
  then have at: "reader_at fd content ctx (tr2 @ [IoMalloc (Some True)]) content" by simp
  obtain c ctx' tr4 where nc: "bufio_next_char os ctx (tr2 @ [IoMalloc (Some True)]) = (c, ctx', tr4)"
    by (metis prod_cases3)
  from parse_loop_text [OF assms(3,4,5) at assms(6) nc, of "parse_init junk" "[]"]
  show ?thesis
    using assms(1,2) ini mem nc by (auto simp: parse_config_file_def Let_def)
qed

end
