(* ===== verification/Ls_Log.thy ===== *)
theory Ls_Log
  imports Ls_Types
begin

text \<open>
  Formatting a log line (servers/ls/log.c). The output buffer is the list of characters written so
  far; \<open>cap\<close> is the distance between the buffer's start and the pointer \<open>pend\<close>.
\<close>

fun severity_to_str :: "ls_severity_level_t \<Rightarrow> string" where
  "severity_to_str LS_SEV_TRACE = ''trace''"
| "severity_to_str LS_SEV_DEBUG = ''debug''"
| "severity_to_str LS_SEV_INFO = ''info''"
| "severity_to_str LS_SEV_WARN = ''warn''"

text \<open>
  The macros \<open>PUTC\<close> and \<open>PUTS\<close>, and the loop that copies the message: the buffer after it and
  whether everything fitted. Where it did not, the macro returns from the function.
\<close>

fun puts_buf :: "nat \<Rightarrow> string \<Rightarrow> char list \<Rightarrow> char list \<times> bool" where
  "puts_buf cap [] out = (out, True)"
| "puts_buf cap (c # cs) out =
     (if length out < cap then puts_buf cap cs (out @ [c]) else (out, False))"

text \<open>
  \<open>lookup_proc\<close> asks RS for the clock driver, \<open>put_time\<close> asks the driver for the time and prints it.
  Its \<open>PUTS\<close> returns the buffer position when the buffer is full, as it does otherwise.
\<close>

definition lookup_proc :: "ls_os \<Rightarrow> ls_trace \<Rightarrow> int \<times> ls_trace" where
  "lookup_proc os tr = (let r = os_lookup os tr in (if r \<noteq> -1 then OK else -1, tr @ [IoLookup r]))"

definition time_fields :: "tm \<Rightarrow> int list" where
  "time_fields t = [tm_year t + 1900, tm_mon t + 1, tm_mday t + 1, tm_hour t, tm_min t, tm_sec t]"

definition put_time :: "ls_os \<Rightarrow> nat \<Rightarrow> char list \<Rightarrow> ls_trace \<Rightarrow> char list \<times> ls_trace" where
  "put_time os cap out tr =
     (let (r, tr1) = lookup_proc os tr in
      if r \<noteq> OK then (fst (puts_buf cap ''unknown-time'' out), tr1)
      else
        (let (r2, t) = os_clock os tr1; tr2 = tr1 @ [IoClock r2] in
         if r2 \<noteq> 0 then (fst (puts_buf cap ''unknown-time'' out), tr2)
         else
           (let buffer = take 1023 (os_snprintf os (time_fields t))
            in (fst (puts_buf cap (cstr buffer) out), tr2))))"

text \<open>What the escape sequences other than \<open>%t\<close> put into the buffer.\<close>

definition escape_text :: "char \<Rightarrow> char list \<Rightarrow> ls_severity_level_t \<Rightarrow> string \<Rightarrow> char list" where
  "escape_text g msg sev procname =
     (if g = CHR ''l'' then severity_to_str sev
      else if g = CHR ''n'' then procname
      else if g = CHR ''m'' then msg
      else if g = CHR ''%'' then [CHR ''%'']
      else [CHR ''%'', g])"

text \<open>
  \<open>print_log\<close>: the value returned, the buffer and the trace. In the \<open>l\<close> case the code returns
  \<open>pb - pend\<close> when the buffer is full, where every other case returns \<open>pb - buffer\<close>; as \<open>pb\<close> equals
  \<open>pend\<close> there, that is 0.
\<close>

fun print_log ::
  "ls_os \<Rightarrow> string \<Rightarrow> char list \<Rightarrow> ls_severity_level_t \<Rightarrow> string \<Rightarrow> nat \<Rightarrow> char list \<Rightarrow> ls_trace \<Rightarrow>
   nat \<times> char list \<times> ls_trace" where
  "print_log os [] msg sev procname cap out tr =
     (let (out', ok) = puts_buf cap [CHR 0x0A] out in (length out', out', tr))"
| "print_log os (f # fs) msg sev procname cap out tr =
     (if f = CHR ''%'' then
        (case fs of
           [] \<Rightarrow> (length out, out, tr)
         | g # gs \<Rightarrow>
             if g = CHR ''t'' then
               (let (out', tr') = put_time os cap out tr
                in print_log os gs msg sev procname cap out' tr')
             else
               (let (out', ok) = puts_buf cap (escape_text g msg sev procname) out in
                if ok then print_log os gs msg sev procname cap out' tr
                else (if g = CHR ''l'' then 0 else length out', out', tr)))
      else
        (let (out', ok) = puts_buf cap [f] out in
         if ok then print_log os fs msg sev procname cap out' tr else (length out', out', tr)))"

section \<open>The line a format describes\<close>

text \<open>The text \<open>%t\<close> stands for.\<close>

definition time_text :: "ls_os \<Rightarrow> ls_trace \<Rightarrow> string \<times> ls_trace" where
  "time_text os tr =
     (let (r, tr1) = lookup_proc os tr in
      if r \<noteq> OK then (''unknown-time'', tr1)
      else
        (let (r2, t) = os_clock os tr1; tr2 = tr1 @ [IoClock r2] in
         (if r2 \<noteq> 0 then ''unknown-time'' else cstr (take 1023 (os_snprintf os (time_fields t))), tr2)))"

text \<open>The line without regard to the buffer's size; a format that ends in a lone \<open>%\<close> has no newline.\<close>

fun expand ::
  "ls_os \<Rightarrow> string \<Rightarrow> char list \<Rightarrow> ls_severity_level_t \<Rightarrow> string \<Rightarrow> ls_trace \<Rightarrow> string" where
  "expand os [] msg sev procname tr = [CHR 0x0A]"
| "expand os (f # fs) msg sev procname tr =
     (if f = CHR ''%'' then
        (case fs of
           [] \<Rightarrow> []
         | g # gs \<Rightarrow>
             if g = CHR ''t'' then
               (let (s, tr') = time_text os tr in s @ expand os gs msg sev procname tr')
             else escape_text g msg sev procname @ expand os gs msg sev procname tr)
      else f # expand os fs msg sev procname tr)"

section \<open>Lemmas\<close>

lemma puts_buf_eq:
  "length out \<le> cap \<Longrightarrow>
     puts_buf cap s out = (take cap (out @ s), length out + length s \<le> cap)"
  by (induction cap s out rule: puts_buf.induct) auto

declare puts_buf.simps [simp del]

lemma put_time_eq:
  assumes "length out \<le> cap"
  shows "put_time os cap out tr =
           (take cap (out @ fst (time_text os tr)), snd (time_text os tr))"
  using assms
  by (auto simp: put_time_def time_text_def puts_buf_eq Let_def split: prod.splits)

lemma take_take_append: "take cap (take cap a @ b) = take cap (a @ b)"
  by (simp add: take_append min_def)

text \<open>The buffer holds the line the format describes, cut off at the buffer's size.\<close>

lemma print_log_buffer:
  assumes "length out \<le> cap"
    and "print_log os fmt msg sev procname cap out tr = (sz, out', tr')"
  shows "out' = take cap (out @ expand os fmt msg sev procname tr)"
  using assms
proof (induction os fmt msg sev procname cap out tr rule: print_log.induct)
  case (1 os msg sev procname cap out tr)
  then show ?case by (auto simp: puts_buf_eq)
next
  case (2 os f fs msg sev procname cap out tr)
  note len = "2.prems"(1) and eq = "2.prems"(2)
  consider (plain) "f \<noteq> CHR ''%''" | (lone) "f = CHR ''%''" "fs = []"
    | (time) gs where "f = CHR ''%''" "fs = CHR ''t'' # gs"
    | (esc) g gs where "f = CHR ''%''" "fs = g # gs" "g \<noteq> CHR ''t''"
    by (cases fs) auto
  then show ?case
  proof cases
    case plain
    show ?thesis
    proof (cases "length out < cap")
      case True
      have "out' = take cap (take cap (out @ [f]) @ expand os fs msg sev procname tr)"
        using plain True eq len by (intro "2.IH"(3)) (auto simp: puts_buf_eq)
      from this [unfolded take_take_append] plain show ?thesis by simp
    next
      case False
      with plain eq len show ?thesis by (auto simp: puts_buf_eq)
    qed
  next
    case lone
    with eq len show ?thesis by simp
  next
    case time
    obtain t tr1 where t: "time_text os tr = (t, tr1)" by fastforce
    have "out' = take cap (take cap (out @ t) @ expand os gs msg sev procname tr1)"
      using time t eq len by (intro "2.IH"(1)) (auto simp: put_time_eq)
    from this [unfolded take_take_append] time t show ?thesis by simp
  next
    case esc
    let ?s = "escape_text g msg sev procname"
    show ?thesis
    proof (cases "length out + length ?s \<le> cap")
      case True
      have "out' = take cap (take cap (out @ ?s) @ expand os gs msg sev procname tr)"
        using esc True eq len by (intro "2.IH"(2)) (auto simp: puts_buf_eq)
      from this [unfolded take_take_append] esc show ?thesis by simp
    next
      case False
      with esc eq len show ?thesis by (auto simp: puts_buf_eq)
    qed
  qed
qed

text \<open>The size returned is the number of characters in the buffer, or 0 when the buffer filled up
  within the text of a \<open>%l\<close>.\<close>

lemma print_log_size:
  assumes "length out \<le> cap"
    and "print_log os fmt msg sev procname cap out tr = (sz, out', tr')"
  shows "sz = length out' \<or> sz = 0 \<and> length out' = cap"
  using assms
proof (induction os fmt msg sev procname cap out tr rule: print_log.induct)
  case (1 os msg sev procname cap out tr)
  then show ?case by (auto simp: puts_buf_eq)
next
  case (2 os f fs msg sev procname cap out tr)
  then show ?case
    by (auto simp: puts_buf_eq put_time_eq split: if_splits list.splits prod.splits)
qed

end
