(* ===== verification/Ls_Requests.thy ===== *)
theory Ls_Requests
  imports Config_Parse_Props Ls_Log
begin

text \<open>
  The request handlers of the logging server (servers/ls/requests.c) and the helpers of
  servers/ls/main.c that they call. A handler takes the state of the server and returns the result
  code and the new state.
\<close>

type_synonym ls_result = "(int \<times> ls_state) option"

definition get_process_table :: "ls_os \<Rightarrow> ls_state \<Rightarrow> int \<times> ls_state" where
  "get_process_table os s =
     (let (ret, tab) = os_getsysinfo os (io_trace s); s1 = emit (IoGetsysinfo ret) s in
      if ret \<noteq> OK then (LS_ERR_EXTERNAL, s1) else (OK, s1\<lparr>proctable := tab\<rparr>))"

text \<open>The first entry of the process table with the endpoint; the name is cut to the buffer.\<close>

fun procname_from_pid :: "(int \<times> string) list \<Rightarrow> int \<Rightarrow> nat \<Rightarrow> string option" where
  "procname_from_pid [] pid buffer_len = None"
| "procname_from_pid ((ep, name) # tab) pid buffer_len =
     (if ep = pid then Some (strncpy name (buffer_len - 1)) else procname_from_pid tab pid buffer_len)"

text \<open>
  \<open>do_initialize\<close> frees the old list, which follows its links, and reads the configuration file.
  \<open>junk\<close> is what the fresh parser state holds.
\<close>

definition do_initialize :: "ls_os \<Rightarrow> ls_logger_t \<Rightarrow> ls_state \<Rightarrow> ls_result" where
  "do_initialize os junk s = do {
     _ \<leftarrow> free_loggers (g_loggers s) (g_tail_null s);
     let s1 = s\<lparr>g_loggers := [], g_tail_null := True\<rparr>;
     (ret, dest, tr) \<leftarrow> parse_config_file os junk ''/etc/logs.conf'' (io_trace s1);
     let s2 = s1\<lparr>io_trace := tr\<rparr>;
     case dest of
       None \<Rightarrow> Some (ret, s2)
     | Some (ls, tn) \<Rightarrow>
         Some (get_process_table os (s2\<lparr>g_loggers := ls, g_tail_null := tn\<rparr>))
   }"

definition ensure_initialized :: "ls_os \<Rightarrow> ls_logger_t \<Rightarrow> ls_state \<Rightarrow> ls_result" where
  "ensure_initialized os junk s =
     (if g_is_initialized s then Some (OK, s)
      else do {
        (ret, s1) \<leftarrow> do_initialize os junk s;
        if ret \<noteq> OK then Some (LS_ERR_INIT_FAILED, s1)
        else Some (OK, s1\<lparr>g_is_initialized := True\<rparr>)
      })"

text \<open>\<open>find_logger\<close> compares names with \<open>strcmp\<close>; the result is the index of the node.\<close>

definition find_logger :: "char list \<Rightarrow> ls_state \<Rightarrow> nat option option" where
  "find_logger name s =
     list_walk (\<lambda>l. logger_name (logger l) = cstr name) (g_loggers s) (g_tail_null s)"

text \<open>The macros \<open>TRY_ENSURE_INITIALIZED\<close> and \<open>TRY_FIND_LOGGER\<close> in front of a handler's body.\<close>

definition with_initialized ::
  "ls_os \<Rightarrow> ls_logger_t \<Rightarrow> (ls_state \<Rightarrow> ls_result) \<Rightarrow> ls_state \<Rightarrow> ls_result" where
  "with_initialized os junk body s = do {
     (ret, s1) \<leftarrow> ensure_initialized os junk s;
     if ret \<noteq> OK then Some (LS_ERR_INIT_FAILED, s1) else body s1
   }"

definition with_logger ::
  "ls_os \<Rightarrow> ls_logger_t \<Rightarrow> char list \<Rightarrow> (nat \<Rightarrow> ls_state \<Rightarrow> ls_result) \<Rightarrow> ls_state \<Rightarrow> ls_result" where
  "with_logger os junk name body =
     with_initialized os junk (\<lambda>s. do {
       l \<leftarrow> find_logger name s;
       case l of None \<Rightarrow> Some (LS_ERR_NO_SUCH_LOGGER, s) | Some i \<Rightarrow> body i s
     })"

definition do_start_log :: "ls_os \<Rightarrow> ls_logger_t \<Rightarrow> char list \<Rightarrow> int \<Rightarrow> ls_state \<Rightarrow> ls_result" where
  "do_start_log os junk name who =
     with_logger os junk name (\<lambda>i s.
       let l = g_loggers s ! i in
       if is_open (lstate l) then Some (LS_ERR_LOGGER_OPEN, s)
       else
         (let flags = O_WRONLY + O_CREAT + (if logger_append (logger l) then O_APPEND else O_TRUNC);
              path = dest_filename (logger l);
              file = (dest_type (logger l) = LS_DESTINATION_FILE);
              fd = os_open os (io_trace s) path flags;
              s1 = (if file then emit (IoOpen path flags fd) s else s) in
          if file \<and> fd < 0 then Some (LS_ERR_EXTERNAL, s1)
          else
            (let s2 = (if file then upd_state i (\<lambda>st. st\<lparr>state_fd := fd\<rparr>) s1 else s1);
                 s3 = upd_state i (\<lambda>st. st\<lparr>state_severity := logger_severity (logger l),
                        is_open := True, opened_by := who\<rparr>) s2
             in Some (get_process_table os s3))))"

text \<open>A \<open>close\<close> that fails is reported on the kernel log only.\<close>

definition do_close_log :: "ls_os \<Rightarrow> ls_logger_t \<Rightarrow> char list \<Rightarrow> int \<Rightarrow> ls_state \<Rightarrow> ls_result" where
  "do_close_log os junk name who =
     with_logger os junk name (\<lambda>i s.
       let l = g_loggers s ! i in
       if \<not> is_open (lstate l) then Some (LS_ERR_LOGGER_NOT_OPEN, s)
       else if opened_by (lstate l) \<noteq> who then Some (LS_ERR_PERMISSION_DENIED, s)
       else
         (let fd = state_fd (lstate l);
              s1 = (if dest_type (logger l) = LS_DESTINATION_FILE
                    then emit (IoClose fd (os_close os (io_trace s) fd)) s else s)
          in Some (OK, upd_state i (\<lambda>st. st\<lparr>is_open := False, opened_by := -1, state_fd := -1\<rparr>) s1)))"

text \<open>
  \<open>sys_vircopy\<close> puts exactly \<open>n\<close> bytes at the start of the logger's message buffer.
\<close>

definition pad :: "nat \<Rightarrow> char list \<Rightarrow> char list" where
  "pad n bs = take n (bs @ replicate n (CHR 0x00))"

definition LOGBUF_LEN :: nat where "LOGBUF_LEN = 4096"

definition do_write_log ::
  "ls_os \<Rightarrow> ls_logger_t \<Rightarrow> char list \<Rightarrow> ls_severity_level_t \<Rightarrow> int \<Rightarrow> nat \<Rightarrow> int \<Rightarrow> ls_state \<Rightarrow>
   ls_result" where
  "do_write_log os junk name sev msg msg_len who =
     with_logger os junk name (\<lambda>i s.
       let l = g_loggers s ! i in
       if \<not> is_open (lstate l) then Some (LS_ERR_LOGGER_NOT_OPEN, s)
       else if opened_by (lstate l) \<noteq> who then Some (LS_ERR_PERMISSION_DENIED, s)
       else
         (let (ret, bytes) = os_vircopy os (io_trace s) who msg (int msg_len);
              s1 = emit (IoVircopy who msg (int msg_len) ret) s in
          if ret \<noteq> OK then Some (ret, s1)
          else
            (let s2 = upd_state i (\<lambda>st. st\<lparr>msg_buf := fill (msg_buf st) (pad msg_len bytes)\<rparr>) s1 in
             if sev < state_severity (lstate l) then Some (OK, s2)
             else
               (let procname = (case procname_from_pid (proctable s2) who 256 of
                                  None \<Rightarrow> ''unknown-pid'' | Some n \<Rightarrow> n);
                    (sz, buf, tr) = print_log os (logger_format (logger l))
                                      (take msg_len (msg_buf (lstate (g_loggers s2 ! i)))) sev
                                      procname (LOGBUF_LEN - 1) [] (io_trace s2);
                    s3 = s2\<lparr>io_trace := tr\<rparr> in
                if dest_type (logger l) = LS_DESTINATION_FILE then
                  (let fd = state_fd (lstate l);
                       w = os_write os (io_trace s3) fd (take sz buf);
                       s4 = emit (IoWrite fd (take sz buf) w) s3 in
                   if w = -1 \<or> w < int sz then Some (LS_ERR_EXTERNAL, s4)
                   else Some (OK, emit (IoFsync fd) s4))
                else Some (OK, emit (IoPrintf (''[L] '' @ cstr (take sz buf))) s3)))))"

definition do_set_severity ::
  "ls_os \<Rightarrow> ls_logger_t \<Rightarrow> char list \<Rightarrow> ls_severity_level_t \<Rightarrow> ls_state \<Rightarrow> ls_result" where
  "do_set_severity os junk name sev =
     with_logger os junk name (\<lambda>i s.
       if is_open (lstate (g_loggers s ! i)) then Some (LS_ERR_LOGGER_OPEN, s)
       else Some (OK, upd_state i (\<lambda>st. st\<lparr>state_severity := sev\<rparr>) s))"

definition do_clear_log :: "ls_os \<Rightarrow> ls_logger_t \<Rightarrow> char list \<Rightarrow> ls_state \<Rightarrow> ls_result" where
  "do_clear_log os junk name =
     with_logger os junk name (\<lambda>i s.
       let l = g_loggers s ! i in
       if is_open (lstate l) then Some (LS_ERR_LOGGER_OPEN, s)
       else if dest_type (logger l) = LS_DESTINATION_FILE then
         (let path = dest_filename (logger l);
              flags = O_WRONLY + O_TRUNC + O_CREAT;
              fd = os_open os (io_trace s) path flags;
              s1 = emit (IoOpen path flags fd) s in
          if fd < 0 then Some (LS_ERR_EXTERNAL, s1)
          else
            (let ret = os_close os (io_trace s1) fd; s2 = emit (IoClose fd ret) s1 in
             if ret \<noteq> OK then Some (LS_ERR_EXTERNAL, s2) else Some (OK, s2)))
       else Some (OK, s))"

text \<open>
  The loop of \<open>do_clear_logs\<close> over the list. After the last node it follows that node's link.
\<close>

fun clear_logs_from :: "ls_os \<Rightarrow> ls_logger_t \<Rightarrow> string list \<Rightarrow> int \<Rightarrow> ls_state \<Rightarrow> ls_result" where
  "clear_logs_from os junk [] ret s = Some (ret, s)"
| "clear_logs_from os junk (name # names) ret s = do {
     (r, s1) \<leftarrow> do_clear_log os junk name s;
     clear_logs_from os junk names (if r \<noteq> OK then LS_ERR_LOGGER_OPEN else ret) s1
   }"

definition do_clear_logs :: "ls_os \<Rightarrow> ls_logger_t \<Rightarrow> ls_state \<Rightarrow> ls_result" where
  "do_clear_logs os junk =
     with_initialized os junk (\<lambda>s. do {
       (ret, s1) \<leftarrow> clear_logs_from os junk (names_of (g_loggers s)) OK s;
       if g_loggers s = [] \<or> g_tail_null s then Some (ret, s1) else None
     })"

end
