(* ===== verification/Ls_Main.thy ===== *)
theory Ls_Main
  imports Ls_Requests
begin

text \<open>
  The main loop of the logging server (servers/ls/main.c): receive a message, dispatch on its type,
  send the result back.
\<close>

definition valid_severity :: "int \<Rightarrow> bool" where
  "valid_severity sev \<longleftrightarrow> sev = 0 \<or> sev = 1 \<or> sev = 3 \<or> sev = 2"

text \<open>What \<open>sef_receive\<close> delivers: its status and the message.\<close>

record ls_request =
  rcv_status :: int
  rcv_msg :: ls_message

text \<open>
  \<open>wait_request\<close>: its result, and the source and type it stores in the request. When the receive
  fails it stores neither, and the caller goes on with an uninitialised source.
\<close>

definition wait_request :: "ls_request \<Rightarrow> int \<times> int option \<times> int option" where
  "wait_request r =
     (if rcv_status r \<noteq> OK then (rcv_status r, None, None)
      else if m_type (rcv_msg r) < LS_BASE \<or> m_type (rcv_msg r) \<ge> LS_END
      then (-1, Some (m_source (rcv_msg r)), None)
      else (OK, Some (m_source (rcv_msg r)), Some (m_type (rcv_msg r))))"

definition dispatch :: "ls_os \<Rightarrow> ls_logger_t \<Rightarrow> int \<Rightarrow> ls_message \<Rightarrow> ls_state \<Rightarrow> ls_result" where
  "dispatch os junk type m s =
     (if type = LS_INITIALIZE then do_initialize os junk s
      else if type = LS_START_LOG then do_start_log os junk (m_logger m) (m_source m) s
      else if type = LS_CLOSE_LOG then do_close_log os junk (m_logger m) (m_source m) s
      else if type = LS_WRITE_LOG then
        (if unat (m_message_len m) > LS_MAX_MESSAGE_LEN \<or> \<not> valid_severity (uint (m_severity m))
         then Some (EINVAL, s)
         else do_write_log os junk (m_logger m) (sev_of_code (uint (m_severity m))) (m_message m)
                (unat (m_message_len m)) (m_source m) s)
      else if type = LS_CLEAR_LOG then do_clear_log os junk (m_logger m) s
      else if type = LS_SET_SEVERITY then
        (if valid_severity (uint (m_severity m))
         then do_set_severity os junk (m_logger m) (sev_of_code (uint (m_severity m))) s
         else Some (EINVAL, s))
      else if type = LS_CLEAR_ALL then do_clear_logs os junk s
      else Some (EINVAL, s))"

abbreviation EDONTREPLY :: int where "EDONTREPLY \<equiv> -201"

definition reply :: "int option \<Rightarrow> int \<Rightarrow> ls_state \<Rightarrow> ls_state" where
  "reply dest result s = emit (IoReply dest result) s"

text \<open>One round of the loop.\<close>

definition main_step :: "ls_os \<Rightarrow> ls_logger_t \<Rightarrow> ls_request \<Rightarrow> ls_state \<Rightarrow> ls_state option" where
  "main_step os junk r s0 =
     (let s = emit (IoReceive (rcv_status r) (rcv_msg r)) s0;
          (status, src, type) = wait_request r in do {
      (result, s1) \<leftarrow> (case type of
                         None \<Rightarrow> Some (EINVAL, s)
                       | Some t \<Rightarrow> dispatch os junk t (rcv_msg r) s);
      if result \<noteq> EDONTREPLY then Some (reply src result s1) else Some s1
    })"

end
