(* ===== verification/Ls_Example.thy ===== *)
theory Ls_Example
  imports Ls_Main
begin

text \<open>
  A concrete system and concrete messages, on which the results about the logging server are
  applied.
\<close>

definition example_os :: "string \<Rightarrow> ls_os" where
  "example_os content = \<lparr>
     os_open = (\<lambda>tr path flags. 3),
     os_close = (\<lambda>tr fd. OK),
     os_read = (\<lambda>tr fd. Some (take BUFFER_SIZE (drop (bytes_read fd tr 0) content))),
     os_write = (\<lambda>tr fd data. int (length data)),
     os_malloc = (\<lambda>tr. Some True),
     os_getsysinfo = (\<lambda>tr. (OK, [(42, ''demo'')])),
     os_vircopy = (\<lambda>tr who addr n. (OK, ''hello'')),
     os_lookup = (\<lambda>tr. OK),
     os_clock = (\<lambda>tr. (OK, \<lparr>tm_year = 116, tm_mon = 0, tm_mday = 1, tm_hour = 12, tm_min = 0, tm_sec = 0\<rparr>)),
     os_snprintf = (\<lambda>fields. ''now'')\<rparr>"

lemma example_os_simps [simp]:
  "os_open (example_os content) tr path flags = 3"
  "os_close (example_os content) tr fd = OK"
  "os_read (example_os content) tr fd = Some (take BUFFER_SIZE (drop (bytes_read fd tr 0) content))"
  "os_write (example_os content) tr fd data = int (length data)"
  "os_malloc (example_os content) tr = Some True"
  "os_getsysinfo (example_os content) tr = (OK, [(42, ''demo'')])"
  "os_vircopy (example_os content) tr who addr n = (OK, ''hello'')"
  by (simp_all add: example_os_def)

definition example_config :: string where
  "example_config = ''logger a {'' @ [CHR 0x0A] @ ''destination = file'' @ [CHR 0x0A] @
     ''filename = f'' @ [CHR 0x0A] @ ''format = %m'' @ [CHR 0x0A] @ ''}'' @ [CHR 0x0A]"

definition example_message :: "int \<Rightarrow> ls_message" where
  "example_message type = \<lparr>m_source = 42, m_type = type, m_logger = ''a'', m_severity = 2,
     m_message_len = 5, m_message = 4096\<rparr>"

abbreviation example_request :: "int \<Rightarrow> ls_request" where
  "example_request type \<equiv> \<lparr>rcv_status = OK, rcv_msg = example_message type\<rparr>"

definition example_logger :: ls_logger_t where
  "example_logger = \<lparr>logger_name = ''a'', dest_type = LS_DESTINATION_FILE,
     logger_severity = LS_SEV_TRACE, dest_filename = ''f'', logger_format = ''%m'',
     logger_append = False\<rparr>"

text \<open>The table and the trace after the first message, which opens the logger.\<close>

definition example_node :: "char list \<Rightarrow> ls_logger_list_t" where
  "example_node buf = \<lparr>logger = example_logger, lstate = \<lparr>is_open = True,
     state_severity = LS_SEV_TRACE, opened_by = 42, state_fd = 3, msg_buf = buf\<rparr>\<rparr>"

definition example_open :: ls_state where
  "example_open = \<lparr>g_loggers = [example_node []], g_tail_null = True, g_is_initialized = True,
     proctable = [(42, ''demo'')],
     io_trace = [IoReceive OK (example_message LS_START_LOG),
       IoOpen ''/etc/logs.conf'' 0 3, IoMalloc (Some True), IoRead 3 (Some example_config),
       IoMalloc (Some True), IoMalloc (Some True), IoClose 3 OK, IoGetsysinfo OK,
       IoOpen ''f'' 1537 3, IoGetsysinfo OK, IoReply (Some 42) OK]\<rparr>"

text \<open>The state after a second message, which writes a line.\<close>

definition example_written :: ls_state where
  "example_written = example_open\<lparr>g_loggers := [example_node ''hello''],
     io_trace := io_trace example_open @ [IoReceive OK (example_message LS_WRITE_LOG),
       IoVircopy 42 4096 5 OK, IoWrite 3 (''hello'' @ [CHR 0x0A]) 6, IoFsync 3,
       IoReply (Some 42) OK]\<rparr>"

declare parse_loop.simps [code]

lemma example_start:
  "run_steps (main_step (example_os example_config) zero_logger) [example_request LS_START_LOG]
     ls_init_state = Some example_open"
  by code_simp

lemma example_write:
  "main_step (example_os example_config) zero_logger (example_request LS_WRITE_LOG) example_open =
     Some example_written"
  by code_simp

lemma example_start_write:
  "run_steps (main_step (example_os example_config) zero_logger)
     [example_request LS_START_LOG, example_request LS_WRITE_LOG] ls_init_state = Some example_written"
  using run_steps_snoc [of "main_step (example_os example_config) zero_logger"
      "[example_request LS_START_LOG]" "example_request LS_WRITE_LOG" ls_init_state]
  by (simp add: example_start example_write del: run_steps.simps)

end
