(* ===== verification/Config_Roundtrip.thy ===== *)
theory Config_Roundtrip
  imports Config_Parse_Props Ls_Log
begin

text \<open>
  Writing loggers in the format of the configuration file, and that the parser reads them back.
\<close>

abbreviation newline :: char where "newline \<equiv> CHR 0x0A"

fun dest_to_str :: "ls_log_destination_t \<Rightarrow> string" where
  "dest_to_str LS_DESTINATION_FILE = ''file''"
| "dest_to_str LS_DESTINATION_STDERR = ''stderr''"
| "dest_to_str LS_DESTINATION_STDOUT = ''stdout''"

definition render_option :: "string \<Rightarrow> string \<Rightarrow> string" where
  "render_option name val = name @ '' = '' @ val @ [newline]"

definition render_options :: "ls_logger_t \<Rightarrow> string" where
  "render_options l =
     render_option ''destination'' (dest_to_str (dest_type l)) @
     (if dest_type l = LS_DESTINATION_FILE
      then render_option ''filename'' (dest_filename l) @
           render_option ''append'' (if logger_append l then ''true'' else ''false'')
      else []) @
     render_option ''severity'' (severity_to_str (logger_severity l)) @
     render_option ''format'' (logger_format l)"

definition render_logger :: "ls_logger_t \<Rightarrow> string" where
  "render_logger l =
     ''logger '' @ logger_name l @ '' {'' @ [newline] @ render_options l @ ''}'' @ [newline]"

text \<open>
  The loggers that the format can express: a name of allowed characters, values without newlines,
  NULs or leading white space, everything within the bounds of the arrays, and no file options
  where the destination is not a file.
\<close>

definition plain_value :: "nat \<Rightarrow> string \<Rightarrow> bool" where
  "plain_value n v \<longleftrightarrow>
     length v < n \<and> newline \<notin> set v \<and> CHR 0x00 \<notin> set v \<and> (v \<noteq> [] \<longrightarrow> \<not> is_white (hd v))"

definition expressible :: "ls_logger_t \<Rightarrow> bool" where
  "expressible l \<longleftrightarrow>
     logger_name l \<noteq> [] \<and> length (logger_name l) < LS_MAX_LOGGER_NAME_LEN \<and>
     list_all is_allowed_in_logger_name (logger_name l) \<and>
     plain_value LS_MAX_LOGGER_FORMAT_LEN (logger_format l) \<and>
     plain_value LS_MAX_LOGGER_LOGFILE_PATH_LEN (dest_filename l) \<and>
     (dest_type l \<noteq> LS_DESTINATION_FILE \<longrightarrow> dest_filename l = [] \<and> \<not> logger_append l)"

section \<open>Feeding text to the parser\<close>

fun feed :: "parser_state_t \<Rightarrow> string \<Rightarrow> parser_state_t option" where
  "feed st [] = Some st"
| "feed st (c # cs) = (case parse_advance st c of (PARSE_OK, st') \<Rightarrow> feed st' cs | _ \<Rightarrow> None)"

text \<open>The part of the parser state that the options set.\<close>

definition opts :: "parser_state_t \<Rightarrow> ls_logger_t \<times> bool \<times> bool \<times> bool \<times> bool" where
  "opts st = (current_logger st, did_set_filename st, did_set_append st, did_set_type st,
     did_set_format st)"

definition at_kind :: "parser_state_kind_t \<Rightarrow> parser_state_t \<Rightarrow> bool" where
  "at_kind k st \<longleftrightarrow> pkind st = k \<and> consume_offset st = 0 \<and>
     (k \<noteq> PARSE_LOGGER_KEYWORD \<longrightarrow> curr_value_offset st = 0)"

lemma feed_append: "feed st (a @ b) = Option.bind (feed st a) (\<lambda>st'. feed st' b)"
  by (induction a arbitrary: st) (auto split: prod.splits parser_result_t.splits)

lemma parse_text_feed:
  "feed st a = Some st' \<Longrightarrow> parse_text st ls (a @ b) = parse_text st' ls b"
  by (induction a arbitrary: st) (auto split: prod.splits parser_result_t.splits)

lemmas advance_defs = parse_advance_def parse_consumption_def try_parse_def set_parse_ok_def
  set_parse_error_def is_whitespace_invariant_def is_newline_invariant_def c_index_def

lemma white_space [simp]: "is_white (CHR '' '')"
  by (simp add: is_white_def)

lemma allowed_not_white:
  "is_allowed_in_logger_name c \<Longrightarrow> \<not> is_white c \<and> c \<noteq> newline"
  by (auto simp: is_allowed_in_logger_name_def is_white_def char_in_def schar_def)

lemma allowed_option_not_white:
  "is_allowed_in_config_option_name c \<Longrightarrow> \<not> is_white c \<and> c \<noteq> newline"
  by (auto simp: is_allowed_in_config_option_name_def is_white_def char_in_def schar_def)

lemma feed_keyword:
  assumes "at_kind PARSE_LOGGER_KEYWORD st"
  shows "\<exists>st'. feed st ''logger'' = Some st' \<and> at_kind PARSE_LOGGER_NAME st' \<and>
    snd (opts st') = (False, False, False, False)"
  using assms
  by (simp add: advance_defs at_kind_def opts_def is_white_def Let_def)

lemma feed_name:
  assumes "pkind st = PARSE_LOGGER_NAME" and "list_all is_allowed_in_logger_name s"
    and "curr_value_offset st + length s < LS_MAX_LOGGER_NAME_LEN"
    and "take (curr_value_offset st) (curr_value st) = pre" and "curr_value_offset st = length pre"
  shows "\<exists>st'. feed st s = Some st' \<and> pkind st' = PARSE_LOGGER_NAME \<and>
    take (curr_value_offset st') (curr_value st') = pre @ s \<and>
    curr_value_offset st' = length (pre @ s) \<and> opts st' = opts st"
  using assms
proof (induction s arbitrary: st pre)
  case Nil
  then show ?case by simp
next
  case (Cons c s)
  let ?st1 = "push_char c (count_char c st)"
  have adv: "parse_advance st c = (PARSE_OK, ?st1)"
    using Cons.prems allowed_not_white [of c]
    by (simp add: parse_advance_def Let_def advance_logger_name_def set_parse_ok_def)
  have "\<exists>st'. feed ?st1 s = Some st' \<and> pkind st' = PARSE_LOGGER_NAME \<and>
    take (curr_value_offset st') (curr_value st') = (pre @ [c]) @ s \<and>
    curr_value_offset st' = length ((pre @ [c]) @ s) \<and> opts st' = opts ?st1"
    by (rule Cons.IH) (use Cons.prems in \<open>simp_all add: push_char_def\<close>)
  moreover have "opts ?st1 = opts st" by (simp add: opts_def push_char_def)
  ultimately show ?case using adv by simp
qed

text \<open>The transitions on single characters.\<close>

lemma not_allowed_simps [simp]:
  "\<not> is_allowed_in_logger_name (CHR '' '')" "\<not> is_allowed_in_config_option_name (CHR '' '')"
  "\<not> is_allowed_in_config_option_name (CHR ''='')"
  "\<not> is_allowed_in_config_option_name (CHR ''}'')"
  by (simp_all add: is_allowed_in_logger_name_def is_allowed_in_config_option_name_def char_in_def
      schar_def)

lemma advance_name_space:
  "pkind st = PARSE_LOGGER_NAME \<Longrightarrow> 0 < curr_value_offset st \<Longrightarrow>
     parse_advance st (CHR '' '') =
       (PARSE_OK, (count_char (CHR '' '') st)
          \<lparr>current_logger := zero_logger\<lparr>logger_name := curr_string (count_char (CHR '' '') st)\<rparr>,
           pkind := PARSE_OPEN_BRACE, consume_offset := 0\<rparr>)"
  by (simp add: parse_advance_def is_whitespace_invariant_def advance_logger_name_def
      set_parse_ok_def Let_def)

lemma advance_brace:
  "pkind st = PARSE_OPEN_BRACE \<Longrightarrow> consume_offset st = 0 \<Longrightarrow>
     parse_advance st (CHR ''{'') =
       (PARSE_OK, (count_char (CHR ''{'') st)\<lparr>consume_offset := 1, pkind := PARSE_OPEN_BRACE_NEWLINE,
          consume_offset := 0, curr_value_offset := 0\<rparr>)"
  by (simp add: advance_defs is_white_def Let_def)

lemma advance_brace_newline:
  "pkind st = PARSE_OPEN_BRACE_NEWLINE \<Longrightarrow> consume_offset st = 0 \<Longrightarrow>
     parse_advance st newline =
       (PARSE_OK, (count_char newline st)\<lparr>consume_offset := 1, pkind := PARSE_CONFIG_OPTION_NAME,
          consume_offset := 0, curr_value_offset := 0\<rparr>)"
  by (simp add: advance_defs is_white_def Let_def)

lemma advance_option_space:
  "pkind st = PARSE_CONFIG_OPTION_NAME \<Longrightarrow> 0 < curr_value_offset st \<Longrightarrow>
     parse_advance st (CHR '' '') =
       (PARSE_OK, (count_char (CHR '' '') st)
          \<lparr>pkind := PARSE_CONFIG_OPTION_EQUALS, option_name := curr_string (count_char (CHR '' '') st),
           consume_offset := 0, curr_value_offset := 0\<rparr>)"
  by (simp add: parse_advance_def is_whitespace_invariant_def advance_option_name_def
      set_parse_ok_def Let_def)

lemma advance_equals:
  "pkind st = PARSE_CONFIG_OPTION_EQUALS \<Longrightarrow> consume_offset st = 0 \<Longrightarrow>
     parse_advance st (CHR ''='') =
       (PARSE_OK, (count_char (CHR ''='') st)\<lparr>consume_offset := 1, pkind := PARSE_CONFIG_VALUE,
          consume_offset := 0, curr_value_offset := 0\<rparr>)"
  by (simp add: advance_defs is_white_def Let_def)

lemma advance_value_space:
  "pkind st = PARSE_CONFIG_VALUE \<Longrightarrow> curr_value_offset st = 0 \<Longrightarrow>
     parse_advance st (CHR '' '') = (PARSE_OK, count_char (CHR '' '') st)"
  by (simp add: parse_advance_def is_whitespace_invariant_def set_parse_ok_def Let_def)

lemma advance_close:
  "pkind st = PARSE_CONFIG_OPTION_NAME \<Longrightarrow>
     parse_advance st (CHR ''}'') =
       (PARSE_GOT_LOGGER, (count_char (CHR ''}'') st)
          \<lparr>pkind := PARSE_LOGGER_KEYWORD, consume_offset := 0\<rparr>)"
  by (simp add: parse_advance_def is_white_def advance_option_name_def Let_def)

lemma advance_keyword_newline:
  "at_kind PARSE_LOGGER_KEYWORD st \<Longrightarrow> parse_advance st newline = (PARSE_OK, count_char newline st)"
  by (simp add: parse_advance_def is_newline_invariant_def set_parse_ok_def at_kind_def Let_def)

lemma curr_string_count_char [simp]: "curr_string (count_char c st) = curr_string st"
  by (simp add: curr_string_def)

text \<open>From the keyword to the first option.\<close>

lemma feed_header:
  assumes "at_kind PARSE_LOGGER_KEYWORD st" and "name \<noteq> []" and "length name < LS_MAX_LOGGER_NAME_LEN"
    and "list_all is_allowed_in_logger_name name"
  shows "\<exists>st'. feed st (''logger '' @ name @ '' {'' @ [newline]) = Some st' \<and>
    at_kind PARSE_CONFIG_OPTION_NAME st' \<and>
    opts st' = (zero_logger\<lparr>logger_name := name\<rparr>, False, False, False, False)"
proof -
  from feed_keyword [OF assms(1)] obtain s1 where s1: "feed st ''logger'' = Some s1"
    "at_kind PARSE_LOGGER_NAME s1" "snd (opts s1) = (False, False, False, False)" by blast
  let ?s2 = "count_char (CHR '' '') s1"
  have s2: "feed s1 '' '' = Some ?s2"
    using s1(2) by (simp add: advance_defs at_kind_def Let_def)
  have "\<exists>s3. feed ?s2 name = Some s3 \<and> pkind s3 = PARSE_LOGGER_NAME \<and>
      take (curr_value_offset s3) (curr_value s3) = name \<and>
      curr_value_offset s3 = length name \<and> opts s3 = opts ?s2"
    using feed_name [of ?s2 name "[]"] s1(2) assms(3,4) by (simp add: at_kind_def)
  then obtain s3 where s3: "feed ?s2 name = Some s3" "pkind s3 = PARSE_LOGGER_NAME"
    "take (curr_value_offset s3) (curr_value s3) = name" "curr_value_offset s3 = length name"
    "opts s3 = opts ?s2" by blast
  have name: "curr_string s3 = name"
    using s3(3) assms(4) by (simp add: curr_string_def allowed_not_nul)
  have flags: "snd (opts s3) = (False, False, False, False)"
    using s3(5) s1(3) by (simp add: opts_def)
  have "\<exists>st'. feed s3 ('' {'' @ [newline]) = Some st' \<and> at_kind PARSE_CONFIG_OPTION_NAME st' \<and>
    opts st' = (zero_logger\<lparr>logger_name := name\<rparr>, False, False, False, False)"
    using s3(2,4) name flags assms(2)
    by (simp add: advance_name_space advance_brace advance_brace_newline at_kind_def opts_def)
  then show ?thesis
    using s1(1) s2 s3(1) feed_append [of st "''logger''"] feed_append [of s1 "'' ''"]
      feed_append [of ?s2 name]
    by (auto simp del: feed.simps)
qed

text \<open>An option.\<close>

lemma set_logger_option_opts:
  assumes "opts st1 = opts st2"
  shows "fst (set_logger_option n v st1) = fst (set_logger_option n v st2)"
    and "opts (snd (set_logger_option n v st1)) = opts (snd (set_logger_option n v st2))"
  using assms
  by (auto simp: set_logger_option_def opts_def Let_def split: prod.splits)

lemma feed_option_name:
  assumes "pkind st = PARSE_CONFIG_OPTION_NAME" and "list_all is_allowed_in_config_option_name s"
    and "curr_value_offset st + length s < MAX_VALUE_LEN"
    and "take (curr_value_offset st) (curr_value st) = pre" and "curr_value_offset st = length pre"
  shows "\<exists>st'. feed st s = Some st' \<and> pkind st' = PARSE_CONFIG_OPTION_NAME \<and>
    take (curr_value_offset st') (curr_value st') = pre @ s \<and>
    curr_value_offset st' = length (pre @ s) \<and> opts st' = opts st"
  using assms
proof (induction s arbitrary: st pre)
  case Nil
  then show ?case by simp
next
  case (Cons c s)
  let ?st1 = "push_char c (count_char c st)"
  have adv: "parse_advance st c = (PARSE_OK, ?st1)"
    using Cons.prems allowed_option_not_white [of c]
    by (auto simp: parse_advance_def Let_def advance_option_name_def set_parse_ok_def)
  have "\<exists>st'. feed ?st1 s = Some st' \<and> pkind st' = PARSE_CONFIG_OPTION_NAME \<and>
    take (curr_value_offset st') (curr_value st') = (pre @ [c]) @ s \<and>
    curr_value_offset st' = length ((pre @ [c]) @ s) \<and> opts st' = opts ?st1"
    by (rule Cons.IH) (use Cons.prems in \<open>simp_all add: push_char_def\<close>)
  moreover have "opts ?st1 = opts st" by (simp add: opts_def push_char_def)
  ultimately show ?case using adv by simp
qed

lemma feed_value:
  assumes "pkind st = PARSE_CONFIG_VALUE" and "newline \<notin> set s"
    and "curr_value_offset st + length s < MAX_VALUE_LEN"
    and "take (curr_value_offset st) (curr_value st) = pre" and "curr_value_offset st = length pre"
    and "pre = [] \<longrightarrow> s \<noteq> [] \<longrightarrow> \<not> is_white (hd s)"
  shows "\<exists>st'. feed st s = Some st' \<and> pkind st' = PARSE_CONFIG_VALUE \<and>
    take (curr_value_offset st') (curr_value st') = pre @ s \<and>
    curr_value_offset st' = length (pre @ s) \<and> opts st' = opts st \<and>
    option_name st' = option_name st"
  using assms
proof (induction s arbitrary: st pre)
  case Nil
  then show ?case by simp
next
  case (Cons c s)
  let ?st1 = "push_char c (count_char c st)"
  have adv: "parse_advance st c = (PARSE_OK, ?st1)"
    using Cons.prems
    by (auto simp: parse_advance_def Let_def advance_value_def set_parse_ok_def
        is_whitespace_invariant_def)
  have "\<exists>st'. feed ?st1 s = Some st' \<and> pkind st' = PARSE_CONFIG_VALUE \<and>
    take (curr_value_offset st') (curr_value st') = (pre @ [c]) @ s \<and>
    curr_value_offset st' = length ((pre @ [c]) @ s) \<and> opts st' = opts ?st1 \<and>
    option_name st' = option_name ?st1"
    by (rule Cons.IH) (use Cons.prems in \<open>simp_all add: push_char_def\<close>)
  moreover have "opts ?st1 = opts st" by (simp add: opts_def push_char_def)
  moreover have "option_name ?st1 = option_name st" by (simp add: push_char_def)
  ultimately show ?case using adv by simp
qed

lemma feed_option:
  assumes "at_kind PARSE_CONFIG_OPTION_NAME st"
    and "name \<noteq> []" and "length name < MAX_VALUE_LEN"
    and "list_all is_allowed_in_config_option_name name"
    and "plain_value MAX_VALUE_LEN v"
    and "fst (set_logger_option name v st) = 0"
  shows "\<exists>st'. feed st (render_option name v) = Some st' \<and> at_kind PARSE_CONFIG_OPTION_NAME st' \<and>
    opts st' = opts (snd (set_logger_option name v st))"
proof -
  have "\<exists>s1. feed st name = Some s1 \<and> pkind s1 = PARSE_CONFIG_OPTION_NAME \<and>
      take (curr_value_offset s1) (curr_value s1) = name \<and>
      curr_value_offset s1 = length name \<and> opts s1 = opts st"
    using feed_option_name [of st name "[]"] assms by (simp add: at_kind_def)
  then obtain s1 where s1: "feed st name = Some s1" "pkind s1 = PARSE_CONFIG_OPTION_NAME"
    "take (curr_value_offset s1) (curr_value s1) = name" "curr_value_offset s1 = length name"
    "opts s1 = opts st" by blast
  have "CHR 0x00 \<notin> set name"
    using assms(4)
    by (auto simp: list_all_iff is_allowed_in_config_option_name_def char_in_def schar_def)
  then have name: "curr_string s1 = name" using s1(3) by (simp add: curr_string_def)
  have "\<exists>s2. feed s1 '' = '' = Some s2 \<and> pkind s2 = PARSE_CONFIG_VALUE \<and>
      curr_value_offset s2 = 0 \<and> consume_offset s2 = 0 \<and> opts s2 = opts s1 \<and> option_name s2 = name"
    using s1(2,4) name assms(2)
    by (simp add: advance_option_space advance_equals advance_value_space opts_def)
  then obtain s2 where s2: "feed s1 '' = '' = Some s2" "pkind s2 = PARSE_CONFIG_VALUE"
    "curr_value_offset s2 = 0" "opts s2 = opts s1" "option_name s2 = name" by blast
  have "\<exists>s3. feed s2 v = Some s3 \<and> pkind s3 = PARSE_CONFIG_VALUE \<and>
      take (curr_value_offset s3) (curr_value s3) = v \<and> opts s3 = opts s2 \<and> option_name s3 = name"
    using feed_value [of s2 v "[]"] s2 assms(5) by (auto simp: plain_value_def)
  then obtain s3 where s3: "feed s2 v = Some s3" "pkind s3 = PARSE_CONFIG_VALUE"
    "take (curr_value_offset s3) (curr_value s3) = v" "opts s3 = opts s2"
    "option_name s3 = name" by blast
  let ?s4 = "(count_char newline s3)\<lparr>pkind := PARSE_CONFIG_OPTION_NAME\<rparr>"
  have val: "curr_string ?s4 = v"
    using s3(3) assms(5) by (simp add: curr_string_def plain_value_def)
  have eq: "opts ?s4 = opts st" using s1(5) s2(4) s3(4) by (simp add: opts_def)
  obtain ret s5 where s5: "set_logger_option name v ?s4 = (ret, s5)" by fastforce
  have ret: "ret = 0" and o5: "opts s5 = opts (snd (set_logger_option name v st))"
    using set_logger_option_opts [OF eq, of name v] s5 assms(6) by auto
  have last: "feed s3 [newline] = Some (s5\<lparr>curr_value_offset := 0, consume_offset := 0\<rparr>)"
    using s3(2,5) val s5 ret
    by (simp add: parse_advance_def is_newline_invariant_def is_white_def advance_value_def
        set_parse_ok_def Let_def)
  have kind: "pkind s5 = PARSE_CONFIG_OPTION_NAME"
    using set_logger_option_frame(1) [OF s5] by simp
  show ?thesis
    using last kind o5 s1(1) s2(1) s3(1) feed_append [of st name] feed_append [of s1 "'' = ''"]
      feed_append [of s2 v]
    by (auto simp: render_option_def at_kind_def opts_def simp del: feed.simps)
qed

section \<open>Loggers\<close>

lemma trim_plain: "plain_value n v \<Longrightarrow> trim v = v"
  by (cases v) (simp_all add: plain_value_def)

definition valid_option_name :: "string \<Rightarrow> bool" where
  "valid_option_name name \<longleftrightarrow>
     name \<noteq> [] \<and> length name < MAX_VALUE_LEN \<and> list_all is_allowed_in_config_option_name name \<and>
     trim name = name"

lemma valid_option_names [simp]:
  "valid_option_name ''destination''" "valid_option_name ''filename''"
  "valid_option_name ''append''" "valid_option_name ''severity''" "valid_option_name ''format''"
  by (simp_all add: valid_option_name_def MAX_VALUE_LEN_def is_allowed_in_config_option_name_def
      char_in_def schar_def is_white_def)

text \<open>One option of the file, as a step on the options read so far.\<close>

definition reads_option ::
  "string \<Rightarrow> string \<Rightarrow> ls_logger_t \<times> bool \<times> bool \<times> bool \<times> bool \<Rightarrow>
   ls_logger_t \<times> bool \<times> bool \<times> bool \<times> bool \<Rightarrow> bool" where
  "reads_option name v x y \<longleftrightarrow>
     (\<forall>st. at_kind PARSE_CONFIG_OPTION_NAME st \<longrightarrow> opts st = x \<longrightarrow>
        (\<exists>st'. feed st (render_option name v) = Some st' \<and> at_kind PARSE_CONFIG_OPTION_NAME st' \<and>
           opts st' = y))"

text \<open>The values that the five options of a well-formed logger have.\<close>

lemma plain_value_mono: "plain_value n v \<Longrightarrow> n \<le> m \<Longrightarrow> plain_value m v"
  by (auto simp: plain_value_def)

lemma plain_values [simp]:
  "plain_value LS_MAX_LOGGER_LOGFILE_PATH_LEN (dest_to_str d)"
  "plain_value LS_MAX_LOGGER_LOGFILE_PATH_LEN (severity_to_str s)"
  "plain_value LS_MAX_LOGGER_LOGFILE_PATH_LEN (if b then ''true'' else ''false'')"
  by (cases d, simp_all add: plain_value_def is_white_def)
    (cases s, simp_all add: plain_value_def is_white_def)

lemma reads_optionI:
  assumes "valid_option_name name" and "plain_value n v" and "n \<le> MAX_VALUE_LEN"
    and "\<And>st. opts st = x \<Longrightarrow> trim name = name \<Longrightarrow> trim v = v \<Longrightarrow>
           fst (set_logger_option name v st) = 0 \<and> opts (snd (set_logger_option name v st)) = y"
  shows "reads_option name v x y"
proof -
  have "plain_value MAX_VALUE_LEN v" using assms(2,3) by (rule plain_value_mono)
  with assms(1) assms(4) [OF _ _ trim_plain [OF assms(2)]] show ?thesis
    unfolding reads_option_def valid_option_name_def
    by (metis feed_option)
qed

lemma option_lens:
  "LS_MAX_LOGGER_LOGFILE_PATH_LEN \<le> MAX_VALUE_LEN" "LS_MAX_LOGGER_FORMAT_LEN \<le> MAX_VALUE_LEN"
  by (simp_all add: MAX_VALUE_LEN_def)

lemma reads_destination:
  "reads_option ''destination'' (dest_to_str d) (l, f, a, t, m) (l\<lparr>dest_type := d\<rparr>, f, a, True, m)"
  by (rule reads_optionI [OF _ _ option_lens(1)], simp, simp, cases d)
    (auto simp: set_logger_option_def set_logger_dest_type_def opts_def simp del: trim.simps)

lemma reads_severity:
  "reads_option ''severity'' (severity_to_str s) (l, f, a, t, m) (l\<lparr>logger_severity := s\<rparr>, f, a, t, m)"
  by (rule reads_optionI [OF _ _ option_lens(1)], simp, simp, cases s)
    (auto simp: set_logger_option_def set_logger_severity_def opts_def simp del: trim.simps)

lemma reads_append:
  "reads_option ''append'' (if b then ''true'' else ''false'') (l, f, a, t, m)
     (l\<lparr>logger_append := b\<rparr>, f, True, t, m)"
  by (rule reads_optionI [OF _ _ option_lens(1)], simp, rule plain_values, cases b)
    (auto simp: set_logger_option_def set_logger_append_def opts_def simp del: trim.simps)

lemma reads_filename:
  "plain_value LS_MAX_LOGGER_LOGFILE_PATH_LEN v \<Longrightarrow>
     reads_option ''filename'' v (l, f, a, t, m) (l\<lparr>dest_filename := v\<rparr>, True, a, t, m)"
  by (rule reads_optionI [OF _ _ option_lens(1)], simp, assumption)
    (auto simp: set_logger_option_def opts_def plain_value_def Let_def simp del: trim.simps)

lemma reads_format:
  "plain_value LS_MAX_LOGGER_FORMAT_LEN v \<Longrightarrow>
     reads_option ''format'' v (l, f, a, t, m) (l\<lparr>logger_format := v\<rparr>, f, a, t, True)"
  by (rule reads_optionI [OF _ _ option_lens(2)], simp, assumption)
    (auto simp: set_logger_option_def opts_def plain_value_def Let_def simp del: trim.simps)

lemma reads_options_chain:
  assumes "reads_option n v x y" and "at_kind PARSE_CONFIG_OPTION_NAME st" and "opts st = x"
    and "\<And>st'. at_kind PARSE_CONFIG_OPTION_NAME st' \<Longrightarrow> opts st' = y \<Longrightarrow>
      \<exists>st''. feed st' rest = Some st'' \<and> at_kind PARSE_CONFIG_OPTION_NAME st'' \<and> opts st'' = z"
  shows "\<exists>st''. feed st (render_option n v @ rest) = Some st'' \<and>
    at_kind PARSE_CONFIG_OPTION_NAME st'' \<and> opts st'' = z"
proof -
  from assms(1-3) obtain st' where st': "feed st (render_option n v) = Some st'"
    "at_kind PARSE_CONFIG_OPTION_NAME st'" "opts st' = y"
    unfolding reads_option_def by blast
  from assms(4) [OF st'(2,3)] st'(1) show ?thesis by (simp add: feed_append)
qed

lemma reads_options_last:
  assumes "reads_option n v x y" and "at_kind PARSE_CONFIG_OPTION_NAME st" and "opts st = x"
  shows "\<exists>st'. feed st (render_option n v) = Some st' \<and> at_kind PARSE_CONFIG_OPTION_NAME st' \<and>
    opts st' = y"
  using assms unfolding reads_option_def by blast

lemma feed_options:
  assumes "expressible l" and "at_kind PARSE_CONFIG_OPTION_NAME st"
    and "opts st = (zero_logger\<lparr>logger_name := logger_name l\<rparr>, False, False, False, False)"
  shows "\<exists>st'. feed st (render_options l) = Some st' \<and> at_kind PARSE_CONFIG_OPTION_NAME st' \<and>
    opts st' = (l, dest_type l = LS_DESTINATION_FILE, dest_type l = LS_DESTINATION_FILE, True, True)"
proof -
  have fmt: "plain_value LS_MAX_LOGGER_FORMAT_LEN (logger_format l)"
    and path: "plain_value LS_MAX_LOGGER_LOGFILE_PATH_LEN (dest_filename l)"
    using assms(1) by (auto simp: expressible_def)
  let ?l0 = "zero_logger\<lparr>logger_name := logger_name l\<rparr>"
  show ?thesis
  proof (cases "dest_type l = LS_DESTINATION_FILE")
    case True
    let ?l = "?l0\<lparr>dest_type := dest_type l, dest_filename := dest_filename l,
        logger_append := logger_append l, logger_severity := logger_severity l,
        logger_format := logger_format l\<rparr>"
    have "\<exists>st'. feed st (render_options l) = Some st' \<and> at_kind PARSE_CONFIG_OPTION_NAME st' \<and>
      opts st' = (?l, True, True, True, True)"
      unfolding render_options_def if_P [OF True] append_assoc
      by (intro reads_options_chain [OF reads_destination assms(2,3)]
          reads_options_chain [OF reads_filename [OF path]]
          reads_options_chain [OF reads_append] reads_options_chain [OF reads_severity]
          reads_options_last [OF reads_format [OF fmt]])
    moreover have "?l = l" by (simp add: zero_logger_def)
    ultimately have "\<exists>st'. feed st (render_options l) = Some st' \<and>
      at_kind PARSE_CONFIG_OPTION_NAME st' \<and> opts st' = (l, True, True, True, True)"
      by (simp only:)
    with True show ?thesis by simp
  next
    case False
    let ?l = "?l0\<lparr>dest_type := dest_type l, logger_severity := logger_severity l,
        logger_format := logger_format l\<rparr>"
    have "\<exists>st'. feed st (render_options l) = Some st' \<and> at_kind PARSE_CONFIG_OPTION_NAME st' \<and>
      opts st' = (?l, False, False, True, True)"
      unfolding render_options_def if_not_P [OF False] append_assoc append_Nil
      by (intro reads_options_chain [OF reads_destination assms(2,3)]
          reads_options_chain [OF reads_severity] reads_options_last [OF reads_format [OF fmt]])
    moreover have "?l = l" using assms(1) False by (simp add: zero_logger_def expressible_def)
    ultimately show ?thesis using False by simp
  qed
qed

lemma parse_text_logger:
  assumes "expressible l" and "at_kind PARSE_LOGGER_KEYWORD st"
    and "logger_name l \<notin> set (map logger_name ls)"
  shows "\<exists>st'. at_kind PARSE_LOGGER_KEYWORD st' \<and>
    parse_text st ls (render_logger l @ rest) = parse_text st' (ls @ [l]) rest"
proof -
  let ?head = "''logger '' @ logger_name l @ '' {'' @ [newline]"
  obtain s1 where s1: "feed st ?head = Some s1" "at_kind PARSE_CONFIG_OPTION_NAME s1"
    "opts s1 = (zero_logger\<lparr>logger_name := logger_name l\<rparr>, False, False, False, False)"
    using feed_header [OF assms(2), of "logger_name l"] assms(1)
    unfolding expressible_def by blast
  from feed_options [OF assms(1) s1(2,3)] obtain s2 where
    s2: "feed s1 (render_options l) = Some s2" "at_kind PARSE_CONFIG_OPTION_NAME s2"
      "opts s2 = (l, dest_type l = LS_DESTINATION_FILE, dest_type l = LS_DESTINATION_FILE, True, True)"
    by blast
  let ?s3 = "(count_char (CHR ''}'') s2)\<lparr>pkind := PARSE_LOGGER_KEYWORD, consume_offset := 0\<rparr>"
  let ?s4 = "count_char newline ?s3"
  have s3: "at_kind PARSE_LOGGER_KEYWORD ?s3" "opts ?s3 = opts s2"
    by (simp_all add: at_kind_def opts_def)
  have ok: "logger_ok ?s3" and cl: "current_logger ?s3 = l"
    using s2(3) by (auto simp: logger_ok_def opts_def)
  have "render_logger l @ rest = ?head @ render_options l @ CHR ''}'' # newline # rest"
    by (simp add: render_logger_def)
  then have "parse_text st ls (render_logger l @ rest) = parse_text s2 ls (CHR ''}'' # newline # rest)"
    using parse_text_feed [OF s1(1)] parse_text_feed [OF s2(1)] by simp
  also have "\<dots> = parse_text ?s3 (ls @ [l]) (newline # rest)"
    using advance_close [of s2] s2(2) ok cl assms(3) by (simp add: at_kind_def)
  also have "\<dots> = parse_text ?s4 (ls @ [l]) rest"
    using advance_keyword_newline [OF s3(1)] by simp
  finally have "parse_text st ls (render_logger l @ rest) = parse_text ?s4 (ls @ [l]) rest" .
  moreover have "at_kind PARSE_LOGGER_KEYWORD ?s4" by (simp add: at_kind_def)
  ultimately show ?thesis by blast
qed

lemma parse_text_loggers:
  assumes "list_all expressible ms" and "at_kind PARSE_LOGGER_KEYWORD st"
    and "distinct (map logger_name (ls @ ms))"
  shows "\<exists>st'. parse_text st ls (concat (map render_logger ms)) = Inr (st', ls @ ms)"
  using assms
proof (induction ms arbitrary: st ls)
  case Nil
  then show ?case by simp
next
  case (Cons l ms)
  have "\<exists>st'. at_kind PARSE_LOGGER_KEYWORD st' \<and>
    parse_text st ls (render_logger l @ concat (map render_logger ms)) =
      parse_text st' (ls @ [l]) (concat (map render_logger ms))"
    using Cons.prems by (intro parse_text_logger) auto
  then obtain st' where st': "at_kind PARSE_LOGGER_KEYWORD st'"
    "parse_text st ls (render_logger l @ concat (map render_logger ms)) =
      parse_text st' (ls @ [l]) (concat (map render_logger ms))" by blast
  from Cons.IH [OF _ st'(1), of "ls @ [l]"] Cons.prems st'(2) show ?case by simp
qed

end
