(* ===== verification/Ls_Props.thy ===== *)
theory Ls_Props
  imports Ls_Example Config_Roundtrip
begin

text \<open>
  What the logging server guarantees: the invariant of its logger table, exclusive ownership of
  open loggers, which messages reach a log, replies, and initialisation.
\<close>

section \<open>The logger table\<close>

text \<open>
  The invariant of the table: distinct names, every logger within its arrays, the message buffers
  within theirs, and an open logger that writes to a file has a descriptor.
\<close>

definition node_inv :: "ls_logger_list_t \<Rightarrow> bool" where
  "node_inv n \<longleftrightarrow>
     logger_fits (logger n) \<and> length (msg_buf (lstate n)) \<le> LS_MAX_MESSAGE_LEN \<and>
     (is_open (lstate n) \<longrightarrow> dest_type (logger n) = LS_DESTINATION_FILE \<longrightarrow> 0 \<le> state_fd (lstate n))"

definition ls_inv :: "ls_state \<Rightarrow> bool" where
  "ls_inv s \<longleftrightarrow> distinct (names_of (g_loggers s)) \<and> list_all node_inv (g_loggers s)"

lemma ls_inv_simps [simp]:
  "ls_inv (emit e s) = ls_inv s" "ls_inv (s\<lparr>io_trace := tr\<rparr>) = ls_inv s"
  "ls_inv (s\<lparr>g_is_initialized := b\<rparr>) = ls_inv s" "ls_inv (s\<lparr>proctable := p\<rparr>) = ls_inv s"
  by (simp_all add: ls_inv_def)

lemma ls_inv_upd_state:
  assumes "ls_inv s" and "i < length (g_loggers s) \<Longrightarrow> node_inv (g_loggers s ! i) \<Longrightarrow>
    node_inv ((g_loggers s ! i)\<lparr>lstate := f (lstate (g_loggers s ! i))\<rparr>)"
  shows "ls_inv (upd_state i f s)"
proof -
  have "distinct (names_of (g_loggers (upd_state i f s)))"
    using assms(1) by (simp only: names_upd_state ls_inv_def)
  moreover have "list_all node_inv (g_loggers (upd_state i f s))"
    using assms by (auto simp: ls_inv_def list_all_length)
  ultimately show ?thesis by (simp add: ls_inv_def)
qed

lemma get_process_table_simps:
  assumes "get_process_table os s = (r, s')"
  shows "g_loggers s' = g_loggers s" "g_tail_null s' = g_tail_null s"
    "g_is_initialized s' = g_is_initialized s" "\<exists>x. io_trace s' = io_trace s @ [IoGetsysinfo x]"
    "r = OK \<or> r = LS_ERR_EXTERNAL"
  using assms by (auto simp: get_process_table_def Let_def split: prod.splits if_splits)

lemma ls_inv_get_process_table: "get_process_table os s = (r, s') \<Longrightarrow> ls_inv s' = ls_inv s"
  by (simp add: ls_inv_def get_process_table_simps)

lemma loggers_wf_inv: "loggers_wf ls \<Longrightarrow> distinct (names_of ls) \<and> list_all node_inv ls"
  by (auto simp: loggers_wf_def list_all_iff node_inv_def zero_logger_state_def)

lemma do_initialize_post:
  assumes "do_initialize os junk s = Some (r, s')"
  shows "loggers_wf (g_loggers s')" "g_is_initialized s' = g_is_initialized s"
    "g_loggers s' = [] \<or> r = OK \<or> r = LS_ERR_EXTERNAL"
    "extends_by (\<lambda>e. reading_io e \<or> (\<exists>x. e = IoGetsysinfo x)) (io_trace s) (io_trace s')"
    "r = OK \<Longrightarrow> \<exists>tr. io_trace s' = tr @ [IoGetsysinfo OK]"
    "r = OK \<or> r = LS_ERR_EXTERNAL \<or> parse_failure os r"
proof -
  from assms obtain ret dest tr
    where p: "parse_config_file os junk ''/etc/logs.conf'' (io_trace s) = Some (ret, dest, tr)"
      and rest: "(case dest of
       None \<Rightarrow> Some (ret, s\<lparr>g_loggers := [], g_tail_null := True, io_trace := tr\<rparr>)
     | Some (ls, tn) \<Rightarrow>
         Some (get_process_table os (s\<lparr>g_loggers := [], g_tail_null := True, io_trace := tr,
           g_loggers := ls, g_tail_null := tn\<rparr>)))
       = Some (r, s')"
    unfolding do_initialize_def Let_def bind_eq_Some_conv by auto
  note post = parse_config_file_post [OF p, unfolded loop_post_def prod.case]
  have tr: "extends_by (\<lambda>e. reading_io e \<or> (\<exists>x. e = IoGetsysinfo x)) (io_trace s) tr"
    using post by (auto intro: extends_by_mono)
  have "loggers_wf (g_loggers s') \<and> g_is_initialized s' = g_is_initialized s \<and>
      (g_loggers s' = [] \<or> r = OK \<or> r = LS_ERR_EXTERNAL) \<and>
      extends_by (\<lambda>e. reading_io e \<or> (\<exists>x. e = IoGetsysinfo x)) (io_trace s) (io_trace s') \<and>
      (r = OK \<longrightarrow> (\<exists>tr. io_trace s' = tr @ [IoGetsysinfo OK])) \<and>
      (r = OK \<or> r = LS_ERR_EXTERNAL \<or> parse_failure os r)"
  proof (cases dest)
    case None
    with rest post tr show ?thesis by (auto simp: loggers_wf_def)
  next
    case (Some a)
    obtain ls tn where a: "a = (ls, tn)" by fastforce
    let ?s = "s\<lparr>g_loggers := [], g_tail_null := True, io_trace := tr, g_loggers := ls,
      g_tail_null := tn\<rparr>"
    have g: "get_process_table os ?s = (r, s')" using rest Some a by simp
    obtain x where x: "io_trace s' = tr @ [IoGetsysinfo x]"
      using get_process_table_simps(4) [OF g] by auto
    have ext: "extends_by (\<lambda>e. reading_io e \<or> (\<exists>x. e = IoGetsysinfo x)) (io_trace s) (io_trace s')"
      unfolding x using tr by (rule extends_by_append) simp
    have ok: "r = OK \<longrightarrow> (\<exists>tr. io_trace s' = tr @ [IoGetsysinfo OK])"
      using g by (auto simp: get_process_table_def Let_def split: if_splits prod.splits)
    from get_process_table_simps(1,3,5) [OF g] post Some a ext ok show ?thesis by auto
  qed
  then show "loggers_wf (g_loggers s')" "g_is_initialized s' = g_is_initialized s"
    "g_loggers s' = [] \<or> r = OK \<or> r = LS_ERR_EXTERNAL"
    "extends_by (\<lambda>e. reading_io e \<or> (\<exists>x. e = IoGetsysinfo x)) (io_trace s) (io_trace s')"
    "r = OK \<Longrightarrow> \<exists>tr. io_trace s' = tr @ [IoGetsysinfo OK]"
    "r = OK \<or> r = LS_ERR_EXTERNAL \<or> parse_failure os r"
    by simp_all
qed

lemma ls_inv_do_initialize: "do_initialize os junk s = Some (r, s') \<Longrightarrow> ls_inv s'"
  using loggers_wf_inv [OF do_initialize_post(1)] by (simp add: ls_inv_def)

section \<open>The prefix of the handlers\<close>

text \<open>Events that are neither a reply nor output to a log.\<close>

fun quiet_io :: "ls_io \<Rightarrow> bool" where
  "quiet_io (IoReply _ _) = False"
| "quiet_io (IoReceive _ _) = False"
| "quiet_io (IoWrite _ _ _) = False"
| "quiet_io (IoPrintf _) = False"
| "quiet_io _ = True"

lemma reading_io_quiet: "reading_io e \<or> (\<exists>x. e = IoGetsysinfo x) \<Longrightarrow> quiet_io e"
  by (cases e) auto

lemma do_initialize_quiet:
  "do_initialize os junk s = Some (r, s') \<Longrightarrow> extends_by quiet_io (io_trace s) (io_trace s')"
  by (rule extends_by_mono [OF do_initialize_post(4) reading_io_quiet])

lemma find_logger_Some:
  assumes "find_logger name s = Some (Some i)"
  shows "i < length (g_loggers s)" "logger_name (logger (g_loggers s ! i)) = cstr name"
  using assms unfolding find_logger_def by (auto dest: list_walk_index)

lemma ensure_initialized_cases:
  assumes "ensure_initialized os junk s = Some (r, s')"
  obtains (already) "g_is_initialized s" "r = OK" "s' = s"
  | (init) s1 where "\<not> g_is_initialized s" "do_initialize os junk s = Some (OK, s1)" "r = OK"
      "s' = s1\<lparr>g_is_initialized := True\<rparr>"
  | (failed) r1 where "\<not> g_is_initialized s" "do_initialize os junk s = Some (r1, s')" "r1 \<noteq> OK"
      "r = LS_ERR_INIT_FAILED"
proof (cases "g_is_initialized s")
  case True
  with assms have "r = OK" and "s' = s" by (simp_all add: ensure_initialized_def)
  with True show ?thesis by (rule already)
next
  case False
  with assms obtain r1 s1 where i: "do_initialize os junk s = Some (r1, s1)"
    and e: "(if r1 \<noteq> OK then Some (LS_ERR_INIT_FAILED, s1)
        else Some (OK, s1\<lparr>g_is_initialized := True\<rparr>)) = Some (r, s')"
    by (auto simp: ensure_initialized_def bind_eq_Some_conv)
  show ?thesis
  proof (cases "r1 = OK")
    case True
    with i e False show ?thesis by (intro init [of s1]) simp_all
  next
    case r1: False
    with i e False show ?thesis by (intro failed [of r1]) simp_all
  qed
qed

lemma with_initialized_ready [simp]: "g_is_initialized s \<Longrightarrow> with_initialized os junk body s = body s"
  by (simp add: with_initialized_def ensure_initialized_def)

text \<open>
  What a handler has done when its body starts: the server is initialised, and either it was before or
  the table is fresh.
\<close>

lemma ensure_initialized_post:
  assumes "ensure_initialized os junk s = Some (r, s')"
  shows "ls_inv s \<Longrightarrow> ls_inv s'" "extends_by quiet_io (io_trace s) (io_trace s')"
    "r = OK \<Longrightarrow> g_is_initialized s'" "r = OK \<or> r = LS_ERR_INIT_FAILED"
    "r = OK \<Longrightarrow> s' = s \<or> loggers_wf (g_loggers s')"
proof -
  have *: "(ls_inv s \<longrightarrow> ls_inv s') \<and> extends_by quiet_io (io_trace s) (io_trace s') \<and>
      (r = OK \<longrightarrow> g_is_initialized s' \<and> (s' = s \<or> loggers_wf (g_loggers s'))) \<and>
      (r = OK \<or> r = LS_ERR_INIT_FAILED)"
    using assms
  proof (cases rule: ensure_initialized_cases)
    case already
    then show ?thesis by simp
  next
    case (init s1)
    with ls_inv_do_initialize [OF init(2)] do_initialize_quiet [OF init(2)]
      do_initialize_post(1) [OF init(2)]
    show ?thesis by simp
  next
    case (failed r1)
    with ls_inv_do_initialize [OF failed(2)] do_initialize_quiet [OF failed(2)] show ?thesis by simp
  qed
  from * show "ls_inv s \<Longrightarrow> ls_inv s'" by blast
  from * show "extends_by quiet_io (io_trace s) (io_trace s')" by blast
  from * show "r = OK \<Longrightarrow> g_is_initialized s'" by blast
  from * show "r = OK \<or> r = LS_ERR_INIT_FAILED" by blast
  from * show "r = OK \<Longrightarrow> s' = s \<or> loggers_wf (g_loggers s')" by blast
qed

lemma with_initialized_cases:
  assumes "with_initialized os junk body s = Some (r, s')"
  obtains (failed) "ensure_initialized os junk s = Some (LS_ERR_INIT_FAILED, s')"
      "r = LS_ERR_INIT_FAILED"
  | (ready) s1 where "ensure_initialized os junk s = Some (OK, s1)" "body s1 = Some (r, s')"
proof -
  from assms obtain ret s1 where e: "ensure_initialized os junk s = Some (ret, s1)"
    and b: "(if ret \<noteq> OK then Some (LS_ERR_INIT_FAILED, s1) else body s1) = Some (r, s')"
    by (auto simp: with_initialized_def bind_eq_Some_conv)
  show ?thesis
  proof (cases "ret = OK")
    case True
    with e b show ?thesis by (intro ready) simp_all
  next
    case False
    with e b ensure_initialized_post(4) [OF e] show ?thesis by (intro failed) simp_all
  qed
qed

lemma with_logger_cases:
  assumes "with_logger os junk name body s = Some (r, s')"
  obtains (failed) "ensure_initialized os junk s = Some (LS_ERR_INIT_FAILED, s')"
      "r = LS_ERR_INIT_FAILED"
  | (missing) "ensure_initialized os junk s = Some (OK, s')" "r = LS_ERR_NO_SUCH_LOGGER"
      "cstr name \<notin> set (names_of (g_loggers s'))"
  | (found) s1 i where "ensure_initialized os junk s = Some (OK, s1)" "i < length (g_loggers s1)"
      "logger_name (logger (g_loggers s1 ! i)) = cstr name" "body i s1 = Some (r, s')"
  using assms unfolding with_logger_def
proof (cases rule: with_initialized_cases)
  case failed
  then show ?thesis by (rule that(1))
next
  case (ready s1)
  from ready(2) obtain l where l: "find_logger name s1 = Some l"
    and b: "(case l of None \<Rightarrow> Some (LS_ERR_NO_SUCH_LOGGER, s1) | Some i \<Rightarrow> body i s1) = Some (r, s')"
    by (auto simp: bind_eq_Some_conv)
  show ?thesis
  proof (cases l)
    case None
    with l have "cstr name \<notin> set (names_of (g_loggers s1))"
      by (auto simp: find_logger_def list_all_iff dest!: list_walk_end)
    with None b ready(1) show ?thesis by (intro that(2)) simp_all
  next
    case (Some i)
    with l b ready(1) find_logger_Some [of name s1 i] show ?thesis
      by (intro that(3) [of s1 i]) simp_all
  qed
qed

section \<open>The handlers\<close>

text \<open>A step that keeps the table's invariant and neither replies nor writes to a log.\<close>

definition quiet_step :: "ls_state \<Rightarrow> ls_state \<Rightarrow> bool" where
  "quiet_step s s' \<longleftrightarrow> (ls_inv s \<longrightarrow> ls_inv s') \<and> extends_by quiet_io (io_trace s) (io_trace s')"

named_theorems quiet_intros

lemma quiet_step_refl [quiet_intros]: "quiet_step s s"
  by (simp add: quiet_step_def)

lemma quiet_step_trans: "quiet_step s s1 \<Longrightarrow> quiet_step s1 s2 \<Longrightarrow> quiet_step s s2"
  by (auto simp: quiet_step_def intro: extends_by_trans)

lemma quiet_step_emit [quiet_intros]: "quiet_step s s1 \<Longrightarrow> quiet_io e \<Longrightarrow> quiet_step s (emit e s1)"
  by (auto simp: quiet_step_def intro: extends_by_append)

lemma quiet_step_upd_state [quiet_intros]:
  assumes "quiet_step s s1" and "\<And>n. n = g_loggers s1 ! i \<Longrightarrow> node_inv n \<Longrightarrow> node_inv (n\<lparr>lstate := f (lstate n)\<rparr>)"
  shows "quiet_step s (upd_state i f s1)"
  using assms by (auto simp: quiet_step_def intro: ls_inv_upd_state)

lemma quiet_step_get_process_table:
  "get_process_table os s1 = (r, s2) \<Longrightarrow> quiet_step s s1 \<Longrightarrow> quiet_step s s2"
  using ls_inv_get_process_table [of os s1 r s2] get_process_table_simps(4) [of os s1 r s2]
  by (auto simp: quiet_step_def intro!: extends_by_append)

lemma quiet_step_ensure_initialized:
  "ensure_initialized os junk s = Some (r, s1) \<Longrightarrow> quiet_step s s1"
  using ensure_initialized_post(1,2) [of os junk s r s1] by (simp add: quiet_step_def)

lemma quiet_step_with_logger:
  assumes "with_logger os junk name body s = Some (r, s')"
    and "\<And>i s1. body i s1 = Some (r, s') \<Longrightarrow> i < length (g_loggers s1) \<Longrightarrow> quiet_step s1 s'"
  shows "quiet_step s s'"
  using assms(1)
proof (cases rule: with_logger_cases)
  case (found s1 i)
  with assms(2) show ?thesis by (blast intro: quiet_step_trans quiet_step_ensure_initialized)
qed (auto intro: quiet_step_ensure_initialized)

lemma do_start_log_quiet:
  assumes "do_start_log os junk name who s = Some (r, s')"
  shows "quiet_step s s'"
  using assms unfolding do_start_log_def
  by (rule quiet_step_with_logger)
    (auto simp: Let_def node_inv_def split: if_splits
      intro!: quiet_intros elim!: quiet_step_get_process_table)

lemma do_close_log_quiet:
  assumes "do_close_log os junk name who s = Some (r, s')"
  shows "quiet_step s s'"
  using assms unfolding do_close_log_def
  by (rule quiet_step_with_logger)
    (auto simp: Let_def node_inv_def split: if_splits intro!: quiet_intros)

lemma do_set_severity_quiet:
  assumes "do_set_severity os junk name sev s = Some (r, s')"
  shows "quiet_step s s'"
  using assms unfolding do_set_severity_def
  by (rule quiet_step_with_logger)
    (auto simp: node_inv_def split: if_splits intro!: quiet_intros)

lemma do_clear_log_quiet:
  assumes "do_clear_log os junk name s = Some (r, s')"
  shows "quiet_step s s'"
  using assms unfolding do_clear_log_def
  by (rule quiet_step_with_logger)
    (auto simp: Let_def split: if_splits intro!: quiet_intros)

lemma clear_logs_from_quiet:
  "clear_logs_from os junk names ret s = Some (r, s') \<Longrightarrow> quiet_step s s'"
proof (induction os junk names ret s rule: clear_logs_from.induct)
  case 1
  then show ?case by (simp add: quiet_step_refl)
next
  case (2 os junk name names ret s)
  from "2.prems" obtain r1 s1 where "do_clear_log os junk name s = Some (r1, s1)"
    and "clear_logs_from os junk names (if r1 \<noteq> OK then LS_ERR_LOGGER_OPEN else ret) s1 = Some (r, s')"
    by (auto simp: bind_eq_Some_conv)
  with "2.IH" [of "(r1, s1)"] do_clear_log_quiet [of os junk name s r1 s1] show ?case
    by (auto intro: quiet_step_trans)
qed

lemma do_clear_logs_quiet:
  assumes "do_clear_logs os junk s = Some (r, s')"
  shows "quiet_step s s'"
  using assms unfolding do_clear_logs_def
proof (cases rule: with_initialized_cases)
  case failed
  then show ?thesis by (auto intro: quiet_step_ensure_initialized)
next
  case (ready s1)
  then have "quiet_step s1 s'"
    by (auto simp: bind_eq_Some_conv split: if_splits dest: clear_logs_from_quiet)
  with ready(1) show ?thesis by (blast intro: quiet_step_trans quiet_step_ensure_initialized)
qed

subsection \<open>Writing\<close>

lemma put_time_quiet:
  "put_time os cap out tr = (out', tr') \<Longrightarrow> extends_by quiet_io tr tr'"
  by (auto simp: put_time_def lookup_proc_def Let_def extends_by_iff split: prod.splits if_splits)

lemma print_log_quiet:
  assumes "print_log os fmt msg sev procname cap out tr = (sz, out', tr')"
  shows "extends_by quiet_io tr tr'"
  using assms
proof (induction os fmt msg sev procname cap out tr rule: print_log.induct)
  case (2 os f fs msg sev procname cap out tr)
  then show ?case
    by (auto split: if_splits list.splits prod.splits
        intro: extends_by_trans [OF put_time_quiet])
qed (auto split: prod.splits)

text \<open>
  Everything \<open>do_write_log\<close> may do for a caller: nothing for a logger that is closed or belongs to
  someone else; otherwise a copy of the message, and the line when the severity suffices.
\<close>

definition log_line :: "ls_os \<Rightarrow> ls_logger_t \<Rightarrow> char list \<Rightarrow> ls_severity_level_t \<Rightarrow> (int \<times> string) list \<Rightarrow>
    int \<Rightarrow> ls_trace \<Rightarrow> string" where
  "log_line os l msg sev tab who tr =
     take (LOGBUF_LEN - 1) (expand os (logger_format l) msg sev
       (case procname_from_pid tab who 256 of None \<Rightarrow> ''unknown-pid'' | Some n \<Rightarrow> n) tr)"

definition output_io :: "ls_logger_list_t \<Rightarrow> string \<Rightarrow> ls_io \<Rightarrow> bool" where
  "output_io l line e \<longleftrightarrow>
     (case e of
        IoWrite fd data w \<Rightarrow> dest_type (logger l) = LS_DESTINATION_FILE \<and> fd = state_fd (lstate l) \<and>
          (data = line \<or> data = [] \<and> length line = LOGBUF_LEN - 1)
      | IoPrintf t \<Rightarrow> dest_type (logger l) \<noteq> LS_DESTINATION_FILE \<and>
          (t = ''[L] '' @ cstr line \<or> t = ''[L] '' \<and> length line = LOGBUF_LEN - 1)
      | _ \<Rightarrow> False)"

text \<open>The state once the message is copied into the logger's buffer.\<close>

definition copied :: "nat \<Rightarrow> int \<Rightarrow> int \<Rightarrow> nat \<Rightarrow> char list \<Rightarrow> ls_state \<Rightarrow> ls_state" where
  "copied i who msg msg_len bytes s =
     upd_state i (\<lambda>st. st\<lparr>msg_buf := fill (msg_buf st) (pad msg_len bytes)\<rparr>)
       (emit (IoVircopy who msg (int msg_len) OK) s)"

lemma length_pad [simp]: "length (pad n bs) = n"
  by (simp add: pad_def)

lemma pad_id: "length bs = n \<Longrightarrow> pad n bs = bs"
  by (simp add: pad_def)

lemma take_fill_pad [simp]: "take n (fill old (pad n bs)) = pad n bs"
  by (metis length_pad take_fill)

lemma copied_simps [simp]:
  "g_tail_null (copied i who msg n bs s) = g_tail_null s"
  "g_is_initialized (copied i who msg n bs s) = g_is_initialized s"
  "proctable (copied i who msg n bs s) = proctable s"
  "io_trace (copied i who msg n bs s) = io_trace s @ [IoVircopy who msg (int n) OK]"
  "length (g_loggers (copied i who msg n bs s)) = length (g_loggers s)"
  by (simp_all add: copied_def)

lemma copied_msg_buf:
  "i < length (g_loggers s) \<Longrightarrow>
     take n (msg_buf (lstate (g_loggers (copied i who msg n bs s) ! i))) = pad n bs"
  by (simp add: copied_def)

lemma ls_inv_copied:
  assumes "ls_inv s" and "n \<le> LS_MAX_MESSAGE_LEN"
  shows "ls_inv (copied i who msg n bs s)"
  unfolding copied_def
  by (rule ls_inv_upd_state) (use assms in \<open>auto simp: node_inv_def fill_def\<close>)

text \<open>What follows the check of the severity: the line goes to the logger's destination.\<close>

definition output_line :: "ls_os \<Rightarrow> ls_logger_list_t \<Rightarrow> string \<Rightarrow> ls_state \<Rightarrow> int \<times> ls_state" where
  "output_line os l data s =
     (if dest_type (logger l) = LS_DESTINATION_FILE then
        (let fd = state_fd (lstate l); w = os_write os (io_trace s) fd data;
             s4 = emit (IoWrite fd data w) s in
         if w = -1 \<or> w < int (length data) then (LS_ERR_EXTERNAL, s4)
         else (OK, emit (IoFsync fd) s4))
      else (OK, emit (IoPrintf (''[L] '' @ cstr data)) s))"

definition may_write :: "ls_logger_list_t \<Rightarrow> int \<Rightarrow> bool" where
  "may_write l who \<longleftrightarrow> is_open (lstate l) \<and> opened_by (lstate l) = who"

lemma do_write_log_cases:
  assumes "do_write_log os junk name sev msg n who s = Some (r, s')"
  obtains (failed) "ensure_initialized os junk s = Some (LS_ERR_INIT_FAILED, s')"
      "r = LS_ERR_INIT_FAILED"
  | (missing) "ensure_initialized os junk s = Some (OK, s')" "r = LS_ERR_NO_SUCH_LOGGER"
      "cstr name \<notin> set (names_of (g_loggers s'))"
  | (refused) i where "ensure_initialized os junk s = Some (OK, s')" "i < length (g_loggers s')"
      "logger_name (logger (g_loggers s' ! i)) = cstr name" "\<not> may_write (g_loggers s' ! i) who"
      "r = (if is_open (lstate (g_loggers s' ! i)) then LS_ERR_PERMISSION_DENIED
            else LS_ERR_LOGGER_NOT_OPEN)"
  | (uncopied) s1 i bytes where "ensure_initialized os junk s = Some (OK, s1)"
      "i < length (g_loggers s1)" "logger_name (logger (g_loggers s1 ! i)) = cstr name"
      "may_write (g_loggers s1 ! i) who"
      "os_vircopy os (io_trace s1) who msg (int n) = (r, bytes)" "r \<noteq> OK"
      "s' = emit (IoVircopy who msg (int n) r) s1"
  | (ignored) s1 i bytes where "ensure_initialized os junk s = Some (OK, s1)"
      "i < length (g_loggers s1)" "logger_name (logger (g_loggers s1 ! i)) = cstr name"
      "may_write (g_loggers s1 ! i) who"
      "os_vircopy os (io_trace s1) who msg (int n) = (OK, bytes)" "r = OK"
      "sev < state_severity (lstate (g_loggers s1 ! i))" "s' = copied i who msg n bytes s1"
  | (written) s1 i bytes data line tr where "ensure_initialized os junk s = Some (OK, s1)"
      "i < length (g_loggers s1)" "logger_name (logger (g_loggers s1 ! i)) = cstr name"
      "may_write (g_loggers s1 ! i) who"
      "os_vircopy os (io_trace s1) who msg (int n) = (OK, bytes)"
      "state_severity (lstate (g_loggers s1 ! i)) \<le> sev"
      "line = log_line os (logger (g_loggers s1 ! i)) (pad n bytes) sev (proctable s1) who
                (io_trace s1 @ [IoVircopy who msg (int n) OK])"
      "data = line \<or> data = [] \<and> length line = LOGBUF_LEN - 1"
      "extends_by quiet_io (io_trace s1 @ [IoVircopy who msg (int n) OK]) tr"
      "output_line os (g_loggers s1 ! i) data ((copied i who msg n bytes s1)\<lparr>io_trace := tr\<rparr>) = (r, s')"
  using assms unfolding do_write_log_def
proof (cases rule: with_logger_cases)
  case failed
  then show ?thesis by (rule that(1))
next
  case missing
  then show ?thesis by (rule that(2))
next
  case (found s1 i)
  let ?l = "g_loggers s1 ! i"
  obtain ret bytes where vc: "os_vircopy os (io_trace s1) who msg (int n) = (ret, bytes)" by fastforce
  consider (r) "\<not> may_write ?l who" | (u) "may_write ?l who" "ret \<noteq> OK"
    | (i) "may_write ?l who" "ret = OK" "sev < state_severity (lstate ?l)"
    | (w) "may_write ?l who" "ret = OK" "\<not> sev < state_severity (lstate ?l)" by blast
  then show ?thesis
  proof cases
    case r
    with found show ?thesis
      by (intro that(3) [of i]) (auto simp: may_write_def Let_def split: if_splits)
  next
    case u
    with found vc show ?thesis
      by (intro that(4) [of s1 i bytes]) (auto simp: may_write_def Let_def)
  next
    case i
    with found vc show ?thesis
      by (intro that(5) [of s1 i bytes]) (auto simp: may_write_def Let_def copied_def)
  next
    case w
    let ?p = "case procname_from_pid (proctable s1) who 256 of None \<Rightarrow> ''unknown-pid'' | Some n \<Rightarrow> n"
    let ?tr = "io_trace s1 @ [IoVircopy who msg (int n) OK]"
    obtain sz buf tr where pl: "print_log os (logger_format (logger ?l)) (pad n bytes) sev ?p
        (LOGBUF_LEN - 1) [] ?tr = (sz, buf, tr)" by (metis prod_cases3)
    define line where
      "line = log_line os (logger ?l) (pad n bytes) sev (proctable s1) who ?tr"
    have buf: "buf = line"
      using print_log_buffer [OF _ pl] by (simp add: line_def log_line_def)
    have sz: "sz = length line \<or> sz = 0 \<and> length line = LOGBUF_LEN - 1"
      using print_log_size [OF _ pl] by (simp add: buf)
    have len: "length (take sz line) = sz" using sz by auto
    have out: "output_line os ?l (take sz line) ((copied i who msg n bytes s1)\<lparr>io_trace := tr\<rparr>) = (r, s')"
      using found(2,4) w vc pl len
      by (auto simp: may_write_def Let_def output_line_def copied_def buf)
    have "take sz line = line \<or> take sz line = [] \<and> length line = LOGBUF_LEN - 1" using sz by auto
    with found vc w out print_log_quiet [OF pl] show ?thesis
      by (intro that(6) [of s1 i bytes line "take sz line" tr]) (auto simp: line_def)
  qed
qed

lemma output_line_trace:
  assumes "output_line os l data s = (r, s')"
  shows "\<exists>e ext. io_trace s' = io_trace s @ e # ext \<and> list_all quiet_io ext \<and>
    (data = line \<or> data = [] \<and> length line = LOGBUF_LEN - 1 \<longrightarrow> output_io l line e)"
    "g_loggers s' = g_loggers s" "g_is_initialized s' = g_is_initialized s"
  using assms by (auto simp: output_line_def output_io_def Let_def split: if_splits)

text \<open>
  Output of \<open>do_write_log\<close>: at most one line, for the owner of an open logger whose threshold the
  severity reaches.
\<close>

definition authorised_output ::
  "ls_os \<Rightarrow> char list \<Rightarrow> ls_severity_level_t \<Rightarrow> int \<Rightarrow> ls_state \<Rightarrow> ls_io \<Rightarrow> bool" where
  "authorised_output os name sev who s e \<longleftrightarrow>
     list_ex (\<lambda>l. logger_name (logger l) = cstr name \<and> may_write l who \<and>
       state_severity (lstate l) \<le> sev \<and> 
       (case e of IoWrite fd _ _ \<Rightarrow> dest_type (logger l) = LS_DESTINATION_FILE \<and> fd = state_fd (lstate l)
        | IoPrintf _ \<Rightarrow> dest_type (logger l) \<noteq> LS_DESTINATION_FILE | _ \<Rightarrow> False)) (g_loggers s)"

lemma do_write_log_post:
  assumes "do_write_log os junk name sev msg n who s = Some (r, s')" and "n \<le> LS_MAX_MESSAGE_LEN"
  shows "(ls_inv s \<longrightarrow> ls_inv s') \<and>
    extends_by (\<lambda>e. quiet_io e \<or> authorised_output os name sev who s e) (io_trace s) (io_trace s')"
  using assms(1)
proof (cases rule: do_write_log_cases)
  case failed
  then show ?thesis
    using quiet_step_ensure_initialized by (fastforce simp: quiet_step_def elim: extends_by_mono)
next
  case missing
  then show ?thesis
    using quiet_step_ensure_initialized by (fastforce simp: quiet_step_def elim: extends_by_mono)
next
  case refused
  then show ?thesis
    using quiet_step_ensure_initialized by (fastforce simp: quiet_step_def elim: extends_by_mono)
next
  case (uncopied s1 i bytes)
  have "quiet_step s s'"
    unfolding uncopied(7) using quiet_step_ensure_initialized [OF uncopied(1)]
    by (rule quiet_step_emit) simp
  then show ?thesis by (auto simp: quiet_step_def elim: extends_by_mono)
next
  case (ignored s1 i bytes)
  have "quiet_step s1 s'"
    unfolding ignored(8) using assms(2) by (simp add: quiet_step_def ls_inv_copied)
  then have "quiet_step s s'"
    using quiet_step_ensure_initialized [OF ignored(1)] by (blast intro: quiet_step_trans)
  then show ?thesis by (auto simp: quiet_step_def elim: extends_by_mono)
next
  case (written s1 i bytes data line tr)
  let ?s2 = "(copied i who msg n bytes s1)\<lparr>io_trace := tr\<rparr>" and ?l = "g_loggers s1 ! i"
  let ?P = "\<lambda>e. quiet_io e \<or> authorised_output os name sev who s e"
  have s1: "s1 = s"
    using ensure_initialized_post(5) [OF written(1)] written(2,4)
    by (auto simp: loggers_wf_def list_all_length may_write_def zero_logger_state_def)
  from output_line_trace(1) [OF written(10), of line] output_line_trace(2) [OF written(10)] written(8)
  obtain e ext
    where tr': "io_trace s' = tr @ e # ext" and ext: "list_all quiet_io ext"
      and e: "output_io ?l line e" and g: "g_loggers s' = g_loggers ?s2"
    by auto
  have "ls_inv s \<longrightarrow> ls_inv s'"
    using ls_inv_copied [OF _ assms(2), of s1 i who msg bytes] g s1 by (simp add: ls_inv_def)
  moreover have "authorised_output os name sev who s e"
    using e written(2-6) s1
    by (auto simp: authorised_output_def output_io_def list_ex_length split: ls_io.splits)
  then have "extends_by ?P (io_trace s) (io_trace s')"
    unfolding tr' using written(9) ext s1
    by (intro extends_by_append extends_by_mono [of quiet_io _ _ ?P])
       (auto simp: list_all_iff dest: extends_by_drop)
  ultimately show ?thesis by blast
qed

section \<open>The server loop\<close>

lemma do_initialize_quiet_step: "do_initialize os junk s = Some (r, s') \<Longrightarrow> quiet_step s s'"
  using ls_inv_do_initialize do_initialize_quiet by (simp add: quiet_step_def)

lemmas handlers_quiet = do_initialize_quiet_step do_start_log_quiet do_close_log_quiet
  do_set_severity_quiet do_clear_log_quiet do_clear_logs_quiet

lemma dispatch_quiet:
  "dispatch os junk type m s = Some (r, s') \<Longrightarrow> type \<noteq> LS_WRITE_LOG \<Longrightarrow> quiet_step s s'"
  by (auto simp: dispatch_def quiet_step_refl split: if_splits dest: handlers_quiet)

abbreviation request_severity :: "ls_message \<Rightarrow> ls_severity_level_t" where
  "request_severity m \<equiv> sev_of_code (uint (m_severity m))"

text \<open>The events that handling a message may add to the trace.\<close>

definition request_io :: "ls_os \<Rightarrow> int \<Rightarrow> ls_message \<Rightarrow> ls_state \<Rightarrow> ls_io \<Rightarrow> bool" where
  "request_io os type m s e \<longleftrightarrow> quiet_io e \<or>
     type = LS_WRITE_LOG \<and> authorised_output os (m_logger m) (request_severity m) (m_source m) s e"

lemma dispatch_post:
  assumes "dispatch os junk type m s = Some (r, s')"
  shows "(ls_inv s \<longrightarrow> ls_inv s') \<and> extends_by (request_io os type m s) (io_trace s) (io_trace s')"
proof (cases "type = LS_WRITE_LOG")
  case True
  with assms do_write_log_post [of os junk "m_logger m" "request_severity m" "m_message m"
      "unat (m_message_len m)" "m_source m" s r s']
  show ?thesis by (auto simp: dispatch_def request_io_def [abs_def] split: if_splits)
next
  case False
  with dispatch_quiet [OF assms] show ?thesis
    by (auto simp: quiet_step_def request_io_def elim: extends_by_mono)
qed

text \<open>A round of the loop: the message, what its handling adds, and the reply.\<close>

lemma main_step_post:
  assumes "main_step os junk r s = Some s'"
  shows "(ls_inv s \<longrightarrow> ls_inv s') \<and>
    (\<exists>ext res. io_trace s' = io_trace s @ IoReceive (rcv_status r) (rcv_msg r) # ext @
         (if res \<noteq> EDONTREPLY then [IoReply (fst (snd (wait_request r))) res] else []) \<and>
       (if fst (wait_request r) = OK
        then list_all (request_io os (m_type (rcv_msg r)) (rcv_msg r)
               (emit (IoReceive (rcv_status r) (rcv_msg r)) s)) ext \<and>
             (\<exists>s1. dispatch os junk (m_type (rcv_msg r)) (rcv_msg r)
               (emit (IoReceive (rcv_status r) (rcv_msg r)) s) = Some (res, s1))
        else ext = [] \<and> res = EINVAL))"
proof -
  let ?s = "emit (IoReceive (rcv_status r) (rcv_msg r)) s"
  obtain status src type where w: "wait_request r = (status, src, type)" by (metis prod_cases3)
  show ?thesis
  proof (cases type)
    case None
    with w assms show ?thesis
      by (intro conjI exI [of _ "[]"] exI [of _ EINVAL])
        (auto simp: main_step_def reply_def wait_request_def split: if_splits)
  next
    case (Some t)
    then have t: "t = m_type (rcv_msg r)" "status = OK"
      using w by (auto simp: wait_request_def split: if_splits)
    from assms w Some obtain res s1 where d: "dispatch os junk t (rcv_msg r) ?s = Some (res, s1)"
      and s': "s' = (if res \<noteq> EDONTREPLY then reply src res s1 else s1)"
      by (auto simp: main_step_def bind_eq_Some_conv split: if_splits)
    from dispatch_post [OF d] obtain ext where "io_trace s1 = io_trace ?s @ ext"
      and "list_all (request_io os t (rcv_msg r) ?s) ext" and "ls_inv ?s \<longrightarrow> ls_inv s1"
      by (auto simp: extends_by_iff)
    with s' t w d show ?thesis by (auto simp: reply_def intro!: exI [of _ ext] exI [of _ res])
  qed
qed

lemma ls_inv_init: "ls_inv ls_init_state"
  by (simp add: ls_inv_def ls_init_state_def)

interpretation server: step_invariant "main_step os junk" "\<lambda>_. True" ls_inv for os junk
  using main_step_post by unfold_locales blast

text \<open>
  C7. The table of loggers stays consistent whatever messages arrive and however the system calls
  turn out: names are distinct, every logger's strings fit their arrays, message buffers stay within
  \<open>LS_MAX_MESSAGE_LEN\<close>, and an open logger that writes to a file has a valid descriptor.
\<close>

theorem ls_table_invariant:
  assumes "run_steps (main_step os junk) rs ls_init_state = Some s"
  shows "distinct (names_of (g_loggers s)) \<and>
    list_all (\<lambda>n. logger_fits (logger n) \<and> length (msg_buf (lstate n)) \<le> LS_MAX_MESSAGE_LEN \<and>
      (is_open (lstate n) \<longrightarrow> dest_type (logger n) = LS_DESTINATION_FILE \<longrightarrow>
        0 \<le> state_fd (lstate n))) (g_loggers s)"
  using server.run_inv [OF ls_inv_init _ assms]
  by (auto simp: ls_inv_def node_inv_def list_all_iff)

definition is_output :: "ls_io \<Rightarrow> bool" where
  "is_output e \<longleftrightarrow> (case e of IoWrite _ _ _ \<Rightarrow> True | IoPrintf _ \<Rightarrow> True | _ \<Rightarrow> False)"

lemma output_not_quiet: "is_output e \<Longrightarrow> \<not> quiet_io e"
  by (cases e) (auto simp: is_output_def)

lemma authorised_output_emit [simp]:
  "authorised_output os name sev who (emit x s) e = authorised_output os name sev who s e"
  by (simp add: authorised_output_def)

lemma main_step_trace: "main_step os junk r s = Some s' \<Longrightarrow> \<exists>ext. io_trace s' = io_trace s @ ext"
  using main_step_post by blast

lemma main_step_output:
  assumes "main_step os junk r s = Some s'" and "e \<in> set (drop (length (io_trace s)) (io_trace s'))"
    and "is_output e"
  shows "rcv_status r = OK \<and> m_type (rcv_msg r) = LS_WRITE_LOG \<and>
    authorised_output os (m_logger (rcv_msg r)) (request_severity (rcv_msg r)) (m_source (rcv_msg r)) s e"
proof -
  have ne: "e \<noteq> IoReceive x y" "e \<noteq> IoReply d v" for x y d v using assms(3) by (auto simp: is_output_def)
  from main_step_post [OF assms(1)] assms(2) ne output_not_quiet [OF assms(3)] show ?thesis
    by (auto simp: wait_request_def list_all_iff request_io_def split: if_splits)
qed


theorem ls_table_invariant_witness:
  "run_steps (main_step (example_os example_config) zero_logger)
     [example_request LS_START_LOG, example_request LS_WRITE_LOG] ls_init_state = Some example_written \<and>
   distinct (names_of (g_loggers example_written)) \<and> length (g_loggers example_written) = 1"
  using ls_table_invariant [OF example_start_write] example_start_write
  by (simp add: example_written_def)


section \<open>Replies\<close>

text \<open>The destinations of the replies in a trace.\<close>

definition reply_dests :: "ls_trace \<Rightarrow> int option list" where
  "reply_dests tr = concat (map (\<lambda>e. case e of IoReply d _ \<Rightarrow> [d] | _ \<Rightarrow> []) tr)"

lemma reply_dests_append [simp]: "reply_dests (tr @ tr') = reply_dests tr @ reply_dests tr'"
  by (simp add: reply_dests_def)

lemma reply_dests_simps [simp]:
  "reply_dests [] = []" "reply_dests (IoReply d v # tr) = d # reply_dests tr"
  "reply_dests (IoReceive st m # tr) = reply_dests tr"
  by (simp_all add: reply_dests_def)

lemma request_io_no_reply: "\<not> request_io os type m s (IoReply d v)"
  by (simp add: request_io_def authorised_output_def list_ex_iff)

lemma reply_dests_request_io:
  assumes "list_all (request_io os type m s) tr"
  shows "reply_dests tr = []"
  using assms
proof (induction tr)
  case Nil
  then show ?case by simp
next
  case (Cons e tr)
  then show ?case by (cases e) (auto simp: reply_dests_def request_io_no_reply)
qed

text \<open>
  The only result that suppresses the reply is \<open>EDONTREPLY\<close>. No handler returns it unless a system
  call does: \<open>open\<close> returns -1 when it fails, and \<open>sys_vircopy\<close> the error numbers of the kernel.
\<close>

definition reports_errors :: "ls_os \<Rightarrow> bool" where
  "reports_errors os \<longleftrightarrow>
     (\<forall>tr path flags. -1 \<le> os_open os tr path flags) \<and>
     (\<forall>tr who addr n. fst (os_vircopy os tr who addr n) \<noteq> EDONTREPLY)"

lemma parse_failure_result: "reports_errors os \<Longrightarrow> \<not> parse_failure os EDONTREPLY"
proof
  assume os: "reports_errors os" and "parse_failure os EDONTREPLY"
  then obtain tr p where "os_open os tr p O_RDONLY = EDONTREPLY"
    by (auto simp: parse_failure_def)
  moreover have "-1 \<le> os_open os tr p O_RDONLY" using os by (simp add: reports_errors_def)
  ultimately show False by simp
qed

lemma do_initialize_result:
  "reports_errors os \<Longrightarrow> do_initialize os junk s = Some (r, s') \<Longrightarrow> r \<noteq> EDONTREPLY"
  using do_initialize_post(6) [of os junk s r s']
  by (auto dest: parse_failure_result)

lemma with_logger_result:
  assumes "with_logger os junk name body s = Some (r, s')"
    and "\<And>i s1 r s2. body i s1 = Some (r, s2) \<Longrightarrow> P r"
    and "P LS_ERR_INIT_FAILED" and "P LS_ERR_NO_SUCH_LOGGER"
  shows "P r"
  using assms(1) by (cases rule: with_logger_cases) (use assms(2-4) in blast)+

lemma get_process_table_result: "get_process_table os s = (EDONTREPLY, s') \<Longrightarrow> False"
  using get_process_table_simps(5) by fastforce

lemma clear_logs_from_result:
  "clear_logs_from os junk names ret s = Some (r, s') \<Longrightarrow> r = ret \<or> r = LS_ERR_LOGGER_OPEN"
proof (induction os junk names ret s rule: clear_logs_from.induct)
  case (2 os junk name names ret s)
  then show ?case by (fastforce simp: bind_eq_Some_conv split: if_splits)
qed simp

lemma handler_results:
  "do_start_log os junk name who s = Some (r, s') \<Longrightarrow> r \<noteq> EDONTREPLY"
  "do_close_log os junk name who s = Some (r, s') \<Longrightarrow> r \<noteq> EDONTREPLY"
  "do_set_severity os junk name sev s = Some (r, s') \<Longrightarrow> r \<noteq> EDONTREPLY"
  "do_clear_log os junk name s = Some (r, s') \<Longrightarrow> r \<noteq> EDONTREPLY"
  unfolding do_start_log_def do_close_log_def do_set_severity_def do_clear_log_def
  by (erule with_logger_result;
      auto simp: Let_def split: if_splits dest: get_process_table_result)+

lemma do_clear_logs_result: "do_clear_logs os junk s = Some (r, s') \<Longrightarrow> r \<noteq> EDONTREPLY"
  unfolding do_clear_logs_def
  by (erule with_initialized_cases)
    (auto simp: bind_eq_Some_conv split: if_splits dest!: clear_logs_from_result)

lemma do_write_log_result:
  assumes "reports_errors os" and "do_write_log os junk name sev msg n who s = Some (r, s')"
  shows "r \<noteq> EDONTREPLY"
  using assms(2)
proof (cases rule: do_write_log_cases)
  case (uncopied s1 i bytes)
  with assms(1) show ?thesis by (metis reports_errors_def fst_conv)
next
  case (written s1 i bytes data line tr)
  then show ?thesis by (auto simp: output_line_def Let_def split: if_splits)
qed auto

lemma dispatch_result:
  assumes "reports_errors os" and "dispatch os junk type m s = Some (r, s')"
  shows "r \<noteq> EDONTREPLY"
  using assms
  by (auto simp: dispatch_def split: if_splits
      dest: do_initialize_result handler_results do_clear_logs_result do_write_log_result)

text \<open>
  C31. The server answers every message exactly once, to its sender and in order, whatever the
  message asks for and whether or not it succeeds.
\<close>

theorem one_reply_per_request:
  assumes "run_steps (main_step os junk) rs ls_init_state = Some s"
    and "list_all (\<lambda>r. rcv_status r = OK) rs" and "reports_errors os"
  shows "reply_dests (io_trace s) = map (\<lambda>r. Some (m_source (rcv_msg r))) rs"
  using assms(1,2)
proof (induction rs arbitrary: s rule: rev_induct)
  case Nil
  then show ?case by (auto simp: ls_init_state_def)
next
  case (snoc r rs)
  from snoc.prems(1) obtain t where t: "run_steps (main_step os junk) rs ls_init_state = Some t"
    and r: "main_step os junk r t = Some s"
    by (auto simp: run_steps_snoc bind_eq_Some_conv)
  from snoc.prems(2) have ok: "rcv_status r = OK" and oks: "list_all (\<lambda>r. rcv_status r = OK) rs"
    by simp_all
  have "reply_dests (io_trace s) = reply_dests (io_trace t) @ [Some (m_source (rcv_msg r))]"
    using main_step_post [OF r] ok
    by (auto simp: wait_request_def reply_dests_request_io split: if_splits
        dest: dispatch_result [OF assms(3)])
  with snoc.IH [OF t oks] show ?case by simp
qed

theorem one_reply_per_request_witness:
  "reply_dests (io_trace example_written) = [Some 42, Some 42]"
  using one_reply_per_request [OF example_start_write]
  by (simp add: reports_errors_def example_os_def example_message_def)

end
