(* ===== verification/Ls_Spec.thy ===== *)
theory Ls_Spec
  imports Ls_Props
begin

text \<open>
  The contract of the logging service as its clients see it (minix/ls.h), and the proof that the
  request handlers implement it. A client sees loggers that are closed, or open for one process with
  a severity threshold; the list of nodes, descriptors and buffers do not show.
\<close>

section \<open>The contract\<close>

datatype log_status = Closed | OpenBy int ls_severity_level_t

type_synonym ls_view = "string \<Rightarrow> log_status option"

abbreviation named_request :: "int \<Rightarrow> bool" where
  "named_request type \<equiv>
     type = LS_START_LOG \<or> type = LS_CLOSE_LOG \<or> type = LS_WRITE_LOG \<or> type = LS_CLEAR_LOG \<or>
     type = LS_SET_SEVERITY"

text \<open>The messages that pass the checks of the main loop and reach a handler other than initialisation.\<close>

definition handled :: "int \<Rightarrow> ls_message \<Rightarrow> bool" where
  "handled type m \<longleftrightarrow>
     type = LS_START_LOG \<or> type = LS_CLOSE_LOG \<or> type = LS_CLEAR_LOG \<or> type = LS_CLEAR_ALL \<or>
     type = LS_WRITE_LOG \<and> unat (m_message_len m) \<le> LS_MAX_MESSAGE_LEN \<and> uint (m_severity m) \<le> 3 \<or>
     type = LS_SET_SEVERITY \<and> uint (m_severity m) \<le> 3"

lemma valid_severity_iff: "valid_severity (uint (sev :: 16 word)) \<longleftrightarrow> uint sev \<le> 3"
proof -
  have "0 \<le> uint sev" by simp
  then show ?thesis unfolding valid_severity_def by presburger
qed

text \<open>
  \<open>ls_contract cfg type m r v v'\<close>: a request of the given type with message \<open>m\<close> may be answered with
  \<open>r\<close> and take the view \<open>v\<close> to \<open>v'\<close>; \<open>cfg\<close> gives the severity that the configuration file sets.
\<close>

inductive ls_contract ::
  "(string \<Rightarrow> ls_severity_level_t) \<Rightarrow> int \<Rightarrow> ls_message \<Rightarrow> int \<Rightarrow> ls_view \<Rightarrow> ls_view \<Rightarrow> bool"
  for cfg :: "string \<Rightarrow> ls_severity_level_t" and type :: int and m :: ls_message where
  no_such: "named_request type \<Longrightarrow> v (cstr (m_logger m)) = None \<Longrightarrow>
     ls_contract cfg type m LS_ERR_NO_SUCH_LOGGER v v"
| invalid: "\<not> handled type m \<Longrightarrow> ls_contract cfg type m EINVAL v v"
| start: "type = LS_START_LOG \<Longrightarrow> v (cstr (m_logger m)) = Some Closed \<Longrightarrow>
     r = OK \<or> r = LS_ERR_EXTERNAL \<Longrightarrow>
     ls_contract cfg type m r v
       (v(cstr (m_logger m) \<mapsto> OpenBy (m_source m) (cfg (cstr (m_logger m)))))"
| start_failed: "type = LS_START_LOG \<Longrightarrow> v (cstr (m_logger m)) = Some Closed \<Longrightarrow>
     ls_contract cfg type m LS_ERR_EXTERNAL v v"
| close: "type = LS_CLOSE_LOG \<Longrightarrow> v (cstr (m_logger m)) = Some (OpenBy (m_source m) q) \<Longrightarrow>
     ls_contract cfg type m OK v (v(cstr (m_logger m) \<mapsto> Closed))"
| accepted: "type = LS_WRITE_LOG \<Longrightarrow> v (cstr (m_logger m)) = Some (OpenBy (m_source m) q) \<Longrightarrow>
     ls_contract cfg type m r v v"
| denied: "type = LS_CLOSE_LOG \<or> type = LS_WRITE_LOG \<Longrightarrow>
     v (cstr (m_logger m)) = Some (OpenBy who q) \<Longrightarrow> who \<noteq> m_source m \<Longrightarrow>
     ls_contract cfg type m LS_ERR_PERMISSION_DENIED v v"
| not_open: "type = LS_CLOSE_LOG \<or> type = LS_WRITE_LOG \<Longrightarrow> v (cstr (m_logger m)) = Some Closed \<Longrightarrow>
     ls_contract cfg type m LS_ERR_LOGGER_NOT_OPEN v v"
| set_severity: "type = LS_SET_SEVERITY \<Longrightarrow> v (cstr (m_logger m)) = Some Closed \<Longrightarrow>
     ls_contract cfg type m OK v v"
| clear: "type = LS_CLEAR_LOG \<Longrightarrow> v (cstr (m_logger m)) = Some Closed \<Longrightarrow>
     r = OK \<or> r = LS_ERR_EXTERNAL \<Longrightarrow> ls_contract cfg type m r v v"
| is_opened: "type = LS_START_LOG \<or> type = LS_SET_SEVERITY \<or> type = LS_CLEAR_LOG \<Longrightarrow>
     v (cstr (m_logger m)) = Some (OpenBy who q) \<Longrightarrow>
     ls_contract cfg type m LS_ERR_LOGGER_OPEN v v"
| clear_all: "type = LS_CLEAR_ALL \<Longrightarrow> r = OK \<and> (\<forall>n who q. v n \<noteq> Some (OpenBy who q)) \<or> r = LS_ERR_LOGGER_OPEN \<Longrightarrow>
     ls_contract cfg type m r v v"

text \<open>Whatever the message, only its sender's loggers and closed ones change hands.\<close>

lemma ls_contract_owner:
  assumes "ls_contract cfg type m r v v'" and "v n = Some (OpenBy who q)" and "who \<noteq> m_source m"
  shows "v' n = Some (OpenBy who q)"
  using assms by (cases rule: ls_contract.cases) auto

section \<open>The view of a state\<close>

definition status_of :: "ls_logger_list_t \<Rightarrow> log_status" where
  "status_of n = (if is_open (lstate n) then OpenBy (opened_by (lstate n)) (state_severity (lstate n))
                  else Closed)"

definition view :: "ls_state \<Rightarrow> ls_view" where
  "view s = map_of (map (\<lambda>n. (logger_name (logger n), status_of n)) (g_loggers s))"

definition config_severity :: "ls_state \<Rightarrow> string \<Rightarrow> ls_severity_level_t" where
  "config_severity s n =
     (case find (\<lambda>l. logger_name (logger l) = n) (g_loggers s) of
        Some l \<Rightarrow> logger_severity (logger l) | None \<Rightarrow> LS_SEV_TRACE)"

lemma view_cong: "g_loggers s' = g_loggers s \<Longrightarrow> view s' = view s"
  by (simp add: view_def)

lemma view_emit [simp]: "view (emit e s) = view s"
  by (simp add: view_def)

lemma view_get_process_table: "get_process_table os s = (r, s') \<Longrightarrow> view s' = view s"
  using get_process_table_simps(1) by (metis view_cong)

lemma map_fst_view: "map fst (map (\<lambda>n. (logger_name (logger n), status_of n)) ls) = names_of ls"
  by simp

lemma view_nth:
  assumes "ls_inv s" and "i < length (g_loggers s)"
  shows "view s (logger_name (logger (g_loggers s ! i))) = Some (status_of (g_loggers s ! i))"
  unfolding view_def
  by (rule map_of_is_SomeI) (use assms in \<open>auto simp: ls_inv_def comp_def\<close>)

lemma view_None: "n \<notin> set (names_of (g_loggers s)) \<Longrightarrow> view s n = None"
  by (auto simp: view_def map_of_eq_None_iff)

lemma view_cases:
  assumes "view s n = Some st"
  obtains i where "i < length (g_loggers s)" "logger_name (logger (g_loggers s ! i)) = n"
    "st = status_of (g_loggers s ! i)"
  using map_of_SomeD [OF assms [unfolded view_def]] by (auto simp: in_set_conv_nth)

lemma map_of_update_nth:
  assumes "distinct (map fst xs)" and "i < length xs" and "fst (xs ! i) = k"
  shows "map_of (xs[i := (k, v)]) = (map_of xs)(k \<mapsto> v)"
  using assms
proof (induction xs arbitrary: i)
  case (Cons x xs)
  then show ?case
  proof (cases i)
    case (Suc j)
    with Cons.prems have "xs ! j \<in> set xs" by simp
    with Suc Cons.prems have "fst x \<noteq> k" by force
    with Suc Cons show ?thesis by (cases x) (auto simp: fun_upd_twist)
  qed auto
qed simp

lemma view_upd_state:
  assumes "distinct (names_of (g_loggers s))" and "i < length (g_loggers s)"
  shows "view (upd_state i f s) = (view s)(logger_name (logger (g_loggers s ! i)) \<mapsto>
           status_of ((g_loggers s ! i)\<lparr>lstate := f (lstate (g_loggers s ! i))\<rparr>))"
  unfolding view_def upd_state_def using assms
  by (simp add: map_update map_of_update_nth comp_def)

lemma config_severity_nth:
  assumes "ls_inv s" and "i < length (g_loggers s)"
  shows "config_severity s (logger_name (logger (g_loggers s ! i))) = logger_severity (logger (g_loggers s ! i))"
proof -
  let ?P = "\<lambda>l. logger_name (logger l) = logger_name (logger (g_loggers s ! i))"
  have "find ?P (g_loggers s) = Some (g_loggers s ! i)"
    using assms by (auto simp: find_Some_iff ls_inv_def distinct_conv_nth intro!: exI [of _ i])
  then show ?thesis by (simp add: config_severity_def)
qed

section \<open>The handlers implement the contract\<close>

lemma ensure_initialized_ready [simp]: "g_is_initialized s \<Longrightarrow> ensure_initialized os junk s = Some (OK, s)"
  by (simp add: ensure_initialized_def)

lemma with_logger_ready_cases:
  assumes "with_logger os junk name body s = Some (r, s')" and "g_is_initialized s" and "ls_inv s"
  obtains (missing) "s' = s" "r = LS_ERR_NO_SUCH_LOGGER" "view s (cstr name) = None"
  | (found) i where "i < length (g_loggers s)" "logger_name (logger (g_loggers s ! i)) = cstr name"
      "view s (cstr name) = Some (status_of (g_loggers s ! i))"
      "config_severity s (cstr name) = logger_severity (logger (g_loggers s ! i))"
      "body i s = Some (r, s')"
  using assms(1)
proof (cases rule: with_logger_cases)
  case failed
  with assms(2) show ?thesis by simp
next
  case missing
  with assms(2) have "s' = s" by simp
  with missing view_None [of "cstr name" s] show ?thesis by (intro that(1)) simp_all
next
  case (found s1 i)
  with assms(2) have "s1 = s" by simp
  with found view_nth [OF assms(3), of i] config_severity_nth [OF assms(3), of i] show ?thesis
    by (intro that(2) [of i]) simp_all
qed

lemma ls_inv_distinct: "ls_inv s \<Longrightarrow> distinct (names_of (g_loggers s))"
  by (simp add: ls_inv_def)

lemma distinct_names_upd_state: 
  "distinct (names_of (g_loggers s)) \<Longrightarrow> distinct (names_of (g_loggers (upd_state i f s)))"
  by (simp only: names_upd_state)

lemma start_refines:
  assumes "do_start_log os junk (m_logger m) (m_source m) s = Some (r, s')"
    and ready: "g_is_initialized s" "ls_inv s"
  shows "ls_contract (config_severity s) LS_START_LOG m r (view s) (view s')"
  using assms(1) unfolding do_start_log_def
proof (cases rule: with_logger_ready_cases [OF _ ready, consumes 1, case_names missing found])
  case missing
  then show ?thesis by (simp add: no_such)
next
  case (found i)
  let ?l = "g_loggers s ! i" and ?f = "\<lambda>st. st\<lparr>state_severity := logger_severity (logger (g_loggers s ! i)),
    is_open := True, opened_by := m_source m\<rparr>"
  define flags where "flags = O_WRONLY + O_CREAT + (if logger_append (logger ?l) then O_APPEND else O_TRUNC)"
  define fd where "fd = os_open os (io_trace s) (dest_filename (logger ?l)) flags"
  define s1 where "s1 = emit (IoOpen (dest_filename (logger ?l)) flags fd) s"
  define s2 where "s2 = upd_state i (\<lambda>st. st\<lparr>state_fd := fd\<rparr>) s1"
  let ?v = "(view s)(cstr (m_logger m) \<mapsto> OpenBy (m_source m) (logger_severity (logger ?l)))"
  note d = ls_inv_distinct [OF ready(2)]
  have v2: "view (upd_state i ?f s2) = ?v" and v1: "view (upd_state i ?f s) = ?v"
    using d found(1,2)
    by (simp_all add: view_upd_state distinct_names_upd_state s2_def s1_def status_of_def)
  have res: "view s' = view t \<and> (r = OK \<or> r = LS_ERR_EXTERNAL)" if "get_process_table os t = (r, s')" for t
    using view_get_process_table [OF that] get_process_table_simps(5) [OF that] by simp
  have eq: "(if is_open (lstate ?l) then Some (LS_ERR_LOGGER_OPEN, s)
      else if dest_type (logger ?l) = LS_DESTINATION_FILE
        then if fd < 0 then Some (LS_ERR_EXTERNAL, s1) else Some (get_process_table os (upd_state i ?f s2))
        else Some (get_process_table os (upd_state i ?f s))) = Some (r, s')"
    using found(5) by (simp add: Let_def flags_def fd_def s1_def s2_def split: if_splits)
  show ?thesis
  proof (cases "is_open (lstate ?l)")
    case True
    with eq found(3) show ?thesis by (auto simp: status_of_def intro: is_opened)
  next
    case False
    then have closed: "view s (cstr (m_logger m)) = Some Closed" using found(3) by (simp add: status_of_def)
    from False eq v1 v2 have "r = LS_ERR_EXTERNAL \<and> view s' = view s \<or> view s' = ?v \<and> (r = OK \<or> r = LS_ERR_EXTERNAL)"
      by (auto split: if_splits dest!: res simp: s1_def)
    with closed found(4) start [of LS_START_LOG "view s" m r "config_severity s"]
      start_failed [of LS_START_LOG "view s" m "config_severity s"]
    show ?thesis by auto
  qed
qed

lemma close_refines:
  assumes "do_close_log os junk (m_logger m) (m_source m) s = Some (r, s')"
    and ready: "g_is_initialized s" "ls_inv s"
  shows "ls_contract (config_severity s) LS_CLOSE_LOG m r (view s) (view s')"
  using assms(1) unfolding do_close_log_def
proof (cases rule: with_logger_ready_cases [OF _ ready, consumes 1, case_names missing found])
  case missing
  then show ?thesis by (simp add: no_such)
next
  case (found i)
  let ?l = "g_loggers s ! i" and ?f = "\<lambda>st. st\<lparr>is_open := False, opened_by := -1, state_fd := -1\<rparr>"
  note d = ls_inv_distinct [OF ready(2)]
  have v: "view (upd_state i ?f s) = (view s)(cstr (m_logger m) \<mapsto> Closed)"
    "view (upd_state i ?f (emit e s)) = (view s)(cstr (m_logger m) \<mapsto> Closed)" for e
    using d found(1,2) by (simp_all add: view_upd_state status_of_def)
  show ?thesis
    using found(3,5) v close [of LS_CLOSE_LOG "view s" m "state_severity (lstate ?l)"]
    by (auto simp: Let_def status_of_def split: if_splits intro: not_open denied)
qed

lemma set_severity_refines:
  assumes "do_set_severity os junk (m_logger m) sev s = Some (r, s')"
    and ready: "g_is_initialized s" "ls_inv s"
  shows "ls_contract (config_severity s) LS_SET_SEVERITY m r (view s) (view s')"
  using assms(1) unfolding do_set_severity_def
proof (cases rule: with_logger_ready_cases [OF _ ready, consumes 1, case_names missing found])
  case missing
  then show ?thesis by (simp add: no_such)
next
  case (found i)
  have "view (upd_state i (\<lambda>st. st\<lparr>state_severity := sev\<rparr>) s) = view s"
    if "\<not> is_open (lstate (g_loggers s ! i))"
    using that found(1-3) ls_inv_distinct [OF ready(2)]
    by (auto simp: view_upd_state status_of_def)
  with found(3,5) show ?thesis
    by (auto simp: status_of_def split: if_splits intro: is_opened set_severity)
qed

lemma clear_log_refines:
  assumes "do_clear_log os junk (m_logger m) s = Some (r, s')"
    and ready: "g_is_initialized s" "ls_inv s"
  shows "ls_contract (config_severity s) LS_CLEAR_LOG m r (view s) (view s')"
  using assms(1) unfolding do_clear_log_def
proof (cases rule: with_logger_ready_cases [OF _ ready, consumes 1, case_names missing found])
  case missing
  then show ?thesis by (simp add: no_such)
next
  case (found i)
  then show ?thesis
    by (auto simp: Let_def status_of_def split: if_splits intro: is_opened clear)
qed

lemma write_refines:
  assumes "do_write_log os junk (m_logger m) sev msg n (m_source m) s = Some (r, s')"
    and ready: "g_is_initialized s" "ls_inv s"
  shows "ls_contract (config_severity s) LS_WRITE_LOG m r (view s) (view s')"
proof -
  have cp: "view (copied i who msg n bytes s) = view s" if "i < length (g_loggers s)" for i who msg n bytes
    using that ls_inv_distinct [OF ready(2)] view_nth [OF ready(2) that]
    by (auto simp: copied_def view_upd_state status_of_def)
  have may: "\<exists>q. view s (cstr (m_logger m)) = Some (OpenBy (m_source m) q)"
    if "i < length (g_loggers s)" "logger_name (logger (g_loggers s ! i)) = cstr (m_logger m)"
      "may_write (g_loggers s ! i) (m_source m)" for i
    using that view_nth [OF ready(2), of i] by (auto simp: may_write_def status_of_def)
  from assms(1) show ?thesis
  proof (cases rule: do_write_log_cases)
    case failed
    with ready show ?thesis by simp
  next
    case missing
    with ready view_None [of "cstr (m_logger m)" s] show ?thesis by (auto intro: no_such)
  next
    case (refused i)
    with ready have "s' = s" by simp
    with refused view_nth [OF ready(2), of i] show ?thesis
      by (auto simp: may_write_def status_of_def split: if_splits intro: denied not_open)
  next
    case (uncopied s1 i bytes)
    with ready have "s1 = s" by simp
    with uncopied may [of i] show ?thesis by (auto intro: accepted)
  next
    case (ignored s1 i bytes)
    with ready have "s1 = s" by simp
    with ignored may [of i] cp show ?thesis by (auto intro: accepted)
  next
    case (written s1 i bytes data line tr)
    with ready have "s1 = s" by simp
    moreover have "view s' = view (copied i (m_source m) msg n bytes s1)"
      using output_line_trace(2) [OF written(10)] by (auto intro: view_cong)
    ultimately show ?thesis using written(2-4) may [of i] cp by (auto intro: accepted)
  qed
qed

subsection \<open>Clearing all logs\<close>

text \<open>The files a stretch of the trace truncates.\<close>

definition truncated_paths :: "ls_trace \<Rightarrow> string list" where
  "truncated_paths tr = concat (map (\<lambda>e. case e of
     IoOpen path flags _ \<Rightarrow> if flags = O_WRONLY + O_TRUNC + O_CREAT then [path] else [] | _ \<Rightarrow> []) tr)"

definition clearable :: "ls_logger_list_t \<Rightarrow> bool" where
  "clearable n \<longleftrightarrow> \<not> is_open (lstate n) \<and> dest_type (logger n) = LS_DESTINATION_FILE"

lemma find_logger_nth:
  assumes "ls_inv s" and "n \<in> set (g_loggers s)" and "find_logger (logger_name (logger n)) s = Some (Some i)"
  shows "i < length (g_loggers s)" "g_loggers s ! i = n"
proof -
  have "logger_fits (logger n)" using assms(1,2) by (auto simp: ls_inv_def node_inv_def list_all_iff)
  then have "cstr (logger_name (logger n)) = logger_name (logger n)" by (simp add: logger_fits_def)
  with find_logger_Some [OF assms(3)] ls_inv_distinct [OF assms(1)] assms(2)
  show "i < length (g_loggers s)" "g_loggers s ! i = n"
    by (auto simp: distinct_map inj_on_def)
qed

lemma find_logger_member:
  assumes "ls_inv s" and "n \<in> set (g_loggers s)"
  shows "\<exists>i. find_logger (logger_name (logger n)) s = Some (Some i)"
proof -
  have *: "\<exists>i. list_walk P xs tn = Some (Some i)" if "\<exists>x \<in> set xs. P x" for P and xs :: "'a list" and tn
    using that by (induction P xs tn rule: list_walk.induct) auto
  have "logger_fits (logger n)" using assms by (auto simp: ls_inv_def node_inv_def list_all_iff)
  with assms(2) show ?thesis unfolding find_logger_def by (intro *) (auto simp: logger_fits_def)
qed

lemma do_clear_log_ready:
  assumes ready: "g_is_initialized s" "ls_inv s" and n: "n \<in> set (g_loggers s)"
    and "do_clear_log os junk (logger_name (logger n)) s = Some (r, s')"
  shows "\<exists>ext. s' = s\<lparr>io_trace := io_trace s @ ext\<rparr> \<and>
    truncated_paths ext = (if clearable n then [dest_filename (logger n)] else []) \<and>
    (r = OK \<longrightarrow> \<not> is_open (lstate n)) \<and> (r \<noteq> OK \<longrightarrow> is_open (lstate n) \<or> clearable n)"
proof -
  from find_logger_member [OF ready(2) n] obtain i
    where f: "find_logger (logger_name (logger n)) s = Some (Some i)" by blast
  from find_logger_nth [OF ready(2) n f] have i: "g_loggers s ! i = n" by simp
  from assms(4) ready(1) f i show ?thesis
    by (intro exI [of _ "drop (length (io_trace s)) (io_trace s')"])
      (auto simp: do_clear_log_def with_logger_def Let_def clearable_def truncated_paths_def emit_def
        split: if_splits)
qed

lemma do_clear_log_total:
  assumes ready: "g_is_initialized s" "ls_inv s" and n: "n \<in> set (g_loggers s)"
  shows "\<exists>r s'. do_clear_log os junk (logger_name (logger n)) s = Some (r, s')"
  using find_logger_member [OF ready(2) n] ready(1)
  by (auto simp: do_clear_log_def with_logger_def Let_def)

lemma clear_logs_from_ready:
  assumes ready: "g_is_initialized s" "ls_inv s" and "set ns \<subseteq> set (g_loggers s)"
    and "clear_logs_from os junk (names_of ns) ret s = Some (r, s')"
  shows "\<exists>ext. s' = s\<lparr>io_trace := io_trace s @ ext\<rparr> \<and>
    truncated_paths ext = map (\<lambda>n. dest_filename (logger n)) (filter clearable ns) \<and>
    (r = OK \<longrightarrow> ret = OK \<and> list_all (\<lambda>n. \<not> is_open (lstate n)) ns)"
  using assms
proof (induction ns arbitrary: s ret)
  case Nil
  then show ?case by (auto simp: truncated_paths_def intro: exI [of _ "[]"])
next
  case (Cons n ns)
  from Cons.prems(4) obtain r1 s1 where c: "do_clear_log os junk (logger_name (logger n)) s = Some (r1, s1)"
    and rest: "clear_logs_from os junk (names_of ns) (if r1 \<noteq> OK then LS_ERR_LOGGER_OPEN else ret) s1 = Some (r, s')"
    by (auto simp: bind_eq_Some_conv)
  from do_clear_log_ready [OF Cons.prems(1,2) _ c] Cons.prems(3) obtain ext
    where e: "s1 = s\<lparr>io_trace := io_trace s @ ext\<rparr>"
      "truncated_paths ext = (if clearable n then [dest_filename (logger n)] else [])"
      "r1 = OK \<longrightarrow> \<not> is_open (lstate n)" by auto
  from Cons.IH [OF _ _ _ rest] e Cons.prems obtain ext2
    where e2: "s' = s1\<lparr>io_trace := io_trace s1 @ ext2\<rparr>"
      "truncated_paths ext2 = map (\<lambda>n. dest_filename (logger n)) (filter clearable ns)"
      "r = OK \<longrightarrow> (if r1 \<noteq> OK then LS_ERR_LOGGER_OPEN else ret) = OK \<and> list_all (\<lambda>n. \<not> is_open (lstate n)) ns"
    by auto
  have "truncated_paths (ext @ ext2) = truncated_paths ext @ truncated_paths ext2"
    by (simp add: truncated_paths_def)
  with e e2 show ?case by (intro exI [of _ "ext @ ext2"]) (auto split: if_splits)
qed

lemma do_clear_logs_ready:
  assumes "do_clear_logs os junk s = Some (r, s')" and ready: "g_is_initialized s" "ls_inv s"
  shows "\<exists>ext. s' = s\<lparr>io_trace := io_trace s @ ext\<rparr> \<and>
    truncated_paths ext = map (\<lambda>n. dest_filename (logger n)) (filter clearable (g_loggers s)) \<and>
    (r = OK \<longrightarrow> list_all (\<lambda>n. \<not> is_open (lstate n)) (g_loggers s))"
  using assms(1) clear_logs_from_ready [OF ready, of "g_loggers s" os junk OK r s'] ready(1)
  by (auto simp: do_clear_logs_def bind_eq_Some_conv split: if_splits)

lemma clear_all_refines:
  assumes "do_clear_logs os junk s = Some (r, s')" and ready: "g_is_initialized s" "ls_inv s"
  shows "ls_contract (config_severity s) LS_CLEAR_ALL m r (view s) (view s')"
proof -
  from do_clear_logs_ready [OF assms] have g: "g_loggers s' = g_loggers s"
    and ok: "r = OK \<Longrightarrow> list_all (\<lambda>n. \<not> is_open (lstate n)) (g_loggers s)" by auto
  have r: "r = OK \<or> r = LS_ERR_LOGGER_OPEN"
    using assms(1) ready(1)
    by (auto simp: do_clear_logs_def bind_eq_Some_conv split: if_splits dest: clear_logs_from_result)
  have "r = OK \<Longrightarrow> view s n \<noteq> Some (OpenBy who q)" for n who q
    using ok by (auto simp: list_all_length status_of_def elim!: view_cases split: if_splits)
  with r show ?thesis unfolding view_cong [OF g] by (intro clear_all) auto
qed

subsection \<open>The table keeps its shape\<close>

text \<open>Only initialisation changes which loggers there are and how they are configured.\<close>

definition same_table :: "ls_state \<Rightarrow> ls_state \<Rightarrow> bool" where
  "same_table s s' \<longleftrightarrow> map logger (g_loggers s') = map logger (g_loggers s) \<and>
     g_tail_null s' = g_tail_null s \<and> g_is_initialized s' = g_is_initialized s"

named_theorems same_table_intros

lemma same_table_refl [same_table_intros]: "same_table s s"
  by (simp add: same_table_def)

lemma same_table_trans: "same_table s s1 \<Longrightarrow> same_table s1 s2 \<Longrightarrow> same_table s s2"
  by (simp add: same_table_def)

lemma same_table_emit [same_table_intros]: "same_table s s1 \<Longrightarrow> same_table s (emit e s1)"
  by (simp add: same_table_def)

lemma same_table_upd_state [same_table_intros]: "same_table s s1 \<Longrightarrow> same_table s (upd_state i f s1)"
  by (simp add: same_table_def)

lemma same_table_get_process_table:
  "get_process_table os s1 = (r, s2) \<Longrightarrow> same_table s s1 \<Longrightarrow> same_table s s2"
  using get_process_table_simps(1-3) [of os s1 r s2] by (simp add: same_table_def)

lemma same_table_with_logger:
  assumes "with_logger os junk name body s = Some (r, s')" and "g_is_initialized s" and "ls_inv s"
    and "\<And>i. body i s = Some (r, s') \<Longrightarrow> same_table s s'"
  shows "same_table s s'"
  using assms(1-3)
  by (cases rule: with_logger_ready_cases) (use assms(4) in \<open>auto intro: same_table_refl\<close>)

lemma handlers_same_table:
  assumes ready: "g_is_initialized s" "ls_inv s"
  shows "do_start_log os junk name who s = Some (r, s') \<Longrightarrow> same_table s s'"
    "do_close_log os junk name who s = Some (r, s') \<Longrightarrow> same_table s s'"
    "do_set_severity os junk name sev s = Some (r, s') \<Longrightarrow> same_table s s'"
    "do_clear_log os junk name s = Some (r, s') \<Longrightarrow> same_table s s'"
  unfolding do_start_log_def do_close_log_def do_set_severity_def do_clear_log_def
  by (erule same_table_with_logger [OF _ ready];
      auto simp: Let_def split: if_splits intro!: same_table_intros
        elim!: same_table_get_process_table)+

lemma do_clear_logs_same_table:
  "do_clear_logs os junk s = Some (r, s') \<Longrightarrow> g_is_initialized s \<Longrightarrow> ls_inv s \<Longrightarrow> same_table s s'"
  using do_clear_logs_ready [of os junk s r s'] by (auto simp: same_table_def)

lemma do_write_log_same_table:
  assumes "do_write_log os junk name sev msg n who s = Some (r, s')"
    and ready: "g_is_initialized s" "ls_inv s"
  shows "same_table s s'"
  using assms(1) unfolding do_write_log_def
  by (rule same_table_with_logger [OF _ ready])
    (auto simp: Let_def same_table_def split: if_splits prod.splits)

lemma dispatch_same_table:
  assumes "dispatch os junk type m s = Some (r, s')" and "type \<noteq> LS_INITIALIZE"
    and "g_is_initialized s" and "ls_inv s"
  shows "same_table s s'"
  using assms
  by (auto simp: dispatch_def split: if_splits intro: same_table_refl handlers_same_table
      do_clear_logs_same_table do_write_log_same_table)

lemma dispatch_contract:
  assumes "dispatch os junk type m s = Some (r, s')" and "type \<noteq> LS_INITIALIZE"
    and "g_is_initialized s" and "ls_inv s"
  shows "ls_contract (config_severity s) type m r (view s) (view s')"
  using assms
  by (auto simp: dispatch_def handled_def valid_severity_iff split: if_splits
      intro: invalid start_refines close_refines write_refines set_severity_refines
        clear_log_refines clear_all_refines)


section \<open>Initialisation on demand\<close>

definition after_init ::
  "ls_os \<Rightarrow> ls_logger_t \<Rightarrow> (ls_state \<Rightarrow> ls_result) \<Rightarrow> ls_state \<Rightarrow> ls_result" where
  "after_init os junk h s = do {
     (ret, s1) \<leftarrow> ensure_initialized os junk s;
     if ret \<noteq> OK then Some (LS_ERR_INIT_FAILED, s1) else h s1
   }"

lemma with_initialized_ensure:
  "with_initialized os junk body s = after_init os junk (with_initialized os junk body) s"
proof (cases "ensure_initialized os junk s")
  case None
  then show ?thesis by (simp add: with_initialized_def after_init_def)
next
  case (Some a)
  obtain ret s1 where a: "a = (ret, s1)" by fastforce
  with Some ensure_initialized_post(3) [of os junk s ret s1] show ?thesis
    by (simp add: with_initialized_def after_init_def)
qed

lemma handlers_ensure:
  "do_start_log os junk name who s = after_init os junk (do_start_log os junk name who) s"
  "do_close_log os junk name who s = after_init os junk (do_close_log os junk name who) s"
  "do_write_log os junk name sev msg n who s = after_init os junk (do_write_log os junk name sev msg n who) s"
  "do_set_severity os junk name sev s = after_init os junk (do_set_severity os junk name sev) s"
  "do_clear_log os junk name s = after_init os junk (do_clear_log os junk name) s"
  "do_clear_logs os junk s = after_init os junk (do_clear_logs os junk) s"
  unfolding do_start_log_def do_close_log_def do_write_log_def do_clear_log_def do_set_severity_def
    do_clear_logs_def with_logger_def
  by (rule with_initialized_ensure)+

lemma dispatch_ensure:
  assumes "handled type m"
  shows "dispatch os junk type m s = after_init os junk (dispatch os junk type m) s"
proof -
  have *: "dispatch os junk type m = h" if "\<And>t. dispatch os junk type m t = h t" for h
    using that by (rule ext)
  from assms show ?thesis
    unfolding handled_def
  proof (elim disjE conjE)
    assume "type = LS_START_LOG"
    then have "dispatch os junk type m t = do_start_log os junk (m_logger m) (m_source m) t" for t
      by (simp add: dispatch_def)
    from * [OF this] show ?thesis by (metis handlers_ensure(1))
  next
    assume "type = LS_CLOSE_LOG"
    then have "dispatch os junk type m t = do_close_log os junk (m_logger m) (m_source m) t" for t
      by (simp add: dispatch_def)
    from * [OF this] show ?thesis by (metis handlers_ensure(2))
  next
    assume "type = LS_CLEAR_LOG"
    then have "dispatch os junk type m t = do_clear_log os junk (m_logger m) t" for t
      by (simp add: dispatch_def)
    from * [OF this] show ?thesis by (metis handlers_ensure(5))
  next
    assume "type = LS_CLEAR_ALL"
    then have "dispatch os junk type m t = do_clear_logs os junk t" for t by (simp add: dispatch_def)
    from * [OF this] show ?thesis by (metis handlers_ensure(6))
  next
    assume "type = LS_WRITE_LOG" "unat (m_message_len m) \<le> LS_MAX_MESSAGE_LEN" "uint (m_severity m) \<le> 3"
    then have "dispatch os junk type m t = do_write_log os junk (m_logger m) (request_severity m)
        (m_message m) (unat (m_message_len m)) (m_source m) t" for t
      by (simp add: dispatch_def valid_severity_iff)
    from * [OF this] show ?thesis by (metis handlers_ensure(3))
  next
    assume "type = LS_SET_SEVERITY" "uint (m_severity m) \<le> 3"
    then have "dispatch os junk type m t = do_set_severity os junk (m_logger m) (request_severity m) t" for t
      by (simp add: dispatch_def valid_severity_iff)
    from * [OF this] show ?thesis by (metis handlers_ensure(4))
  qed
qed

lemma dispatch_unhandled:
  "\<not> handled type m \<Longrightarrow> type \<noteq> LS_INITIALIZE \<Longrightarrow> dispatch os junk type m s = Some (EINVAL, s)"
  by (auto simp: handled_def dispatch_def valid_severity_iff)

section \<open>Ownership\<close>

text \<open>A logger is open in an initialised server only.\<close>

definition open_inv :: "ls_state \<Rightarrow> bool" where
  "open_inv s \<longleftrightarrow> ls_inv s \<and>
     (g_is_initialized s \<or> list_all (\<lambda>n. \<not> is_open (lstate n)) (g_loggers s))"

lemma loggers_wf_closed: "loggers_wf ls \<Longrightarrow> list_all (\<lambda>n. \<not> is_open (lstate n)) ls"
  by (auto simp: loggers_wf_def list_all_iff zero_logger_state_def)

lemma dispatch_open_inv:
  assumes "dispatch os junk type m s = Some (r, s')" and "open_inv s"
  shows "open_inv s'"
proof -
  have inv: "ls_inv s'" using dispatch_post [OF assms(1)] assms(2) by (simp add: open_inv_def)
  have init: "list_all (\<lambda>n. \<not> is_open (lstate n)) (g_loggers t)" if "do_initialize os junk s = Some (r1, t)" for r1 t
    using do_initialize_post(1) [OF that] by (rule loggers_wf_closed)
  consider "type = LS_INITIALIZE" | "type \<noteq> LS_INITIALIZE" "\<not> handled type m"
    | "type \<noteq> LS_INITIALIZE" "handled type m" by blast
  then have "g_is_initialized s' \<or> list_all (\<lambda>n. \<not> is_open (lstate n)) (g_loggers s')"
  proof cases
    case 1
    with assms(1) init show ?thesis by (simp add: dispatch_def)
  next
    case 2
    with assms dispatch_unhandled show ?thesis by (simp add: open_inv_def)
  next
    case 3
    from assms(1) obtain ret s1 where e: "ensure_initialized os junk s = Some (ret, s1)"
      and d: "(if ret \<noteq> OK then Some (LS_ERR_INIT_FAILED, s1) else dispatch os junk type m s1) = Some (r, s')"
      unfolding dispatch_ensure [OF 3(2), of os junk s] after_init_def by (auto simp: bind_eq_Some_conv)
    show ?thesis
    proof (cases "ret = OK")
      case True
      with d dispatch_same_table [of os junk type m s1 r s'] 3(1) ensure_initialized_post(1,3) [OF e] assms(2)
      show ?thesis by (auto simp: same_table_def open_inv_def)
    next
      case False
      with e d init show ?thesis by (auto elim: ensure_initialized_cases)
    qed
  qed
  with inv show ?thesis by (simp add: open_inv_def)
qed

lemma main_step_cases:
  assumes "main_step os junk r s = Some s'"
  obtains (rejected) dest where "s' = emit (IoReply dest EINVAL) (emit (IoReceive (rcv_status r) (rcv_msg r)) s)"
      "wait_request r \<noteq> (OK, Some (m_source (rcv_msg r)), Some (m_type (rcv_msg r)))"
  | (handled) res s1 where "wait_request r = (OK, Some (m_source (rcv_msg r)), Some (m_type (rcv_msg r)))"
      "dispatch os junk (m_type (rcv_msg r)) (rcv_msg r) (emit (IoReceive (rcv_status r) (rcv_msg r)) s) =
         Some (res, s1)"
      "s' = (if res \<noteq> EDONTREPLY then emit (IoReply (Some (m_source (rcv_msg r))) res) s1 else s1)"
proof (cases "wait_request r = (OK, Some (m_source (rcv_msg r)), Some (m_type (rcv_msg r)))")
  case True
  with assms that(2) show ?thesis
    by (auto simp: main_step_def bind_eq_Some_conv reply_def split: if_splits)
next
  case False
  then obtain status src where "wait_request r = (status, src, None)"
    by (auto simp: wait_request_def split: if_splits)
  with assms False show ?thesis by (intro that(1) [of src]) (auto simp: main_step_def reply_def)
qed

lemma open_inv_emit [simp]: "open_inv (emit e s) = open_inv s"
  by (simp add: open_inv_def)

interpretation openness: step_invariant "main_step os junk" "\<lambda>_. True" open_inv for os junk
proof
  fix s s' :: ls_state and r
  assume "open_inv s" and "main_step os junk r s = Some s'"
  from this(2,1) show "open_inv s'"
    by (cases rule: main_step_cases) (auto dest: dispatch_open_inv split: if_splits)
qed

text \<open>Messages from processes other than \<open>who\<close>, initialisation apart.\<close>

definition foreign :: "int \<Rightarrow> ls_request \<Rightarrow> bool" where
  "foreign who r \<longleftrightarrow> m_source (rcv_msg r) \<noteq> who \<and> m_type (rcv_msg r) \<noteq> LS_INITIALIZE"

definition owned :: "string \<Rightarrow> int \<Rightarrow> ls_severity_level_t \<Rightarrow> ls_state \<Rightarrow> bool" where
  "owned n who q s \<longleftrightarrow> ls_inv s \<and> g_is_initialized s \<and> view s n = Some (OpenBy who q)"

lemma owned_emit [simp]: "owned n who q (emit e s) = owned n who q s"
  by (simp add: owned_def)

interpretation ownership: step_invariant "main_step os junk" "foreign who" "owned n who q"
  for os junk n who q
proof
  fix s s' :: ls_state and r
  assume o: "owned n who q s" and f: "foreign who r"
  assume "main_step os junk r s = Some s'"
  then show "owned n who q s'"
  proof (cases rule: main_step_cases)
    case rejected
    with o show ?thesis by simp
  next
    case (handled res s1)
    let ?s = "emit (IoReceive (rcv_status r) (rcv_msg r)) s"
    note d = handled(2)
    have r: "g_is_initialized ?s" "ls_inv ?s" "view ?s n = Some (OpenBy who q)"
      using o by (simp_all add: owned_def)
    have t: "m_type (rcv_msg r) \<noteq> LS_INITIALIZE" "who \<noteq> m_source (rcv_msg r)"
      using f by (auto simp: foreign_def)
    have "owned n who q s1"
      using dispatch_same_table [OF d t(1) r(1,2)] dispatch_post [OF d] r
        ls_contract_owner [OF dispatch_contract [OF d t(1) r(1,2)] r(3) t(2)]
      by (simp add: owned_def same_table_def)
    with handled(3) show ?thesis by simp
  qed
qed


lemma example_view: "view example_open = [''a'' \<mapsto> OpenBy 42 LS_SEV_TRACE]"
  by (simp add: view_def example_open_def example_node_def example_logger_def status_of_def)

lemma example_open_inv: "g_is_initialized example_open" "ls_inv example_open"
  by (simp_all add: example_open_def example_node_def ls_inv_def node_inv_def logger_fits_def
      example_logger_def)



end
