(* ===== verification/Ls_Service.thy ===== *)
theory Ls_Service
  imports Ls_Spec
begin

text \<open>
  The logging server in an ordinary environment: it starts, loads the loggers its configuration file
  describes, and answers every message. Then what setting a severity, clearing logs and writing a
  line amount to, and where the code has no defined result.
\<close>

section \<open>An ordinary environment\<close>

text \<open>
  Memory is available and comes zeroed, and whenever the configuration file can be opened it is a
  regular file that holds \<open>content\<close>, text of plain characters whose length is not a multiple of
  the reader's buffer size.
\<close>

definition ls_environment :: "ls_os \<Rightarrow> string \<Rightarrow> bool" where
  "ls_environment os content \<longleftrightarrow> memory_ok os \<and>
     (\<forall>tr. 0 \<le> os_open os tr ''/etc/logs.conf'' O_RDONLY \<longrightarrow>
       regular_file os (os_open os tr ''/etc/logs.conf'' O_RDONLY) content) \<and>
     list_all plain_char content \<and> (length content mod BUFFER_SIZE \<noteq> 0 \<or> content = [])"

lemma parse_config_file_total:
  assumes env: "ls_environment os content"
  shows "\<exists>ret dest tr'. parse_config_file os junk ''/etc/logs.conf'' tr = Some (ret, dest, tr') \<and>
     (\<forall>ls tn. dest = Some (ls, tn) \<longrightarrow> tn)"
proof (cases "0 \<le> os_open os tr ''/etc/logs.conf'' O_RDONLY")
  case True
  from parse_config_file_text [OF refl True _ _ _ _, of content junk] True env
  show ?thesis by (auto simp: ls_environment_def loop_result_def split: sum.splits)
next
  case False
  then show ?thesis by (auto simp: parse_config_file_def Let_def)
qed

lemma do_initialize_total:
  assumes env: "ls_environment os content" and tail: "g_tail_null s"
  shows "\<exists>r s'. do_initialize os junk s = Some (r, s') \<and> g_tail_null s'"
proof -
  obtain ret dest tr where p: "parse_config_file os junk ''/etc/logs.conf'' (io_trace s) = Some (ret, dest, tr)"
    and tn: "\<forall>ls tn. dest = Some (ls, tn) \<longrightarrow> tn"
    using parse_config_file_total [OF env] by blast
  show ?thesis
  proof (cases dest)
    case None
    with p assms show ?thesis by (simp add: do_initialize_def free_loggers_def Let_def)
  next
    case (Some a)
    obtain ls b where a: "a = (ls, b)" by fastforce
    let ?s = "s\<lparr>g_loggers := [], g_tail_null := True, io_trace := tr, g_loggers := ls, g_tail_null := b\<rparr>"
    obtain r s' where g: "get_process_table os ?s = (r, s')" by fastforce
    with get_process_table_simps(2) [OF g] p Some a tn assms show ?thesis
      by (simp add: do_initialize_def free_loggers_def Let_def)
  qed
qed

lemma ensure_initialized_total:
  assumes env: "ls_environment os content" and tail: "g_tail_null s"
  shows "\<exists>r s'. ensure_initialized os junk s = Some (r, s') \<and> g_tail_null s'"
  using tail do_initialize_total [OF env tail, of junk] by (auto simp: ensure_initialized_def)

lemma with_logger_total:
  assumes env: "ls_environment os content" and tail: "g_tail_null s"
    and "\<And>i s1. g_tail_null s1 \<Longrightarrow> \<exists>r s'. body i s1 = Some (r, s') \<and> g_tail_null s'"
  shows "\<exists>r s'. with_logger os junk name body s = Some (r, s') \<and> g_tail_null s'"
proof -
  obtain r s1 where e: "ensure_initialized os junk s = Some (r, s1)" "g_tail_null s1"
    using ensure_initialized_total [OF env tail, of junk] by blast
  obtain l where "find_logger name s1 = Some l"
    using e(2) list_walk_defined by (auto simp: find_logger_def)
  with e assms(3) [OF e(2)] show ?thesis
    by (cases l) (auto simp: with_logger_def with_initialized_def)
qed

lemma get_process_table_total:
  "g_tail_null s \<Longrightarrow> \<exists>r s'. get_process_table os s = (r, s') \<and> g_tail_null s'"
  by (metis get_process_table_simps(2) prod.collapse)

lemma handlers_total:
  assumes env: "ls_environment os content" and tail: "g_tail_null s"
  shows "\<exists>r s'. do_start_log os junk name who s = Some (r, s') \<and> g_tail_null s'"
    "\<exists>r s'. do_close_log os junk name who s = Some (r, s') \<and> g_tail_null s'"
    "\<exists>r s'. do_write_log os junk name sev msg n who s = Some (r, s') \<and> g_tail_null s'"
    "\<exists>r s'. do_set_severity os junk name sev s = Some (r, s') \<and> g_tail_null s'"
    "\<exists>r s'. do_clear_log os junk name s = Some (r, s') \<and> g_tail_null s'"
  unfolding do_start_log_def do_close_log_def do_write_log_def do_set_severity_def do_clear_log_def
  by (rule with_logger_total [OF env tail]; 
      auto simp: Let_def split: prod.splits intro!: get_process_table_total)+

lemma clear_logs_from_total:
  assumes env: "ls_environment os content"
  shows "g_tail_null s \<Longrightarrow> \<exists>r s'. clear_logs_from os junk names ret s = Some (r, s') \<and> g_tail_null s'"
proof (induction names arbitrary: ret s)
  case (Cons name names)
  obtain r1 s1 where c: "do_clear_log os junk name s = Some (r1, s1)" "g_tail_null s1"
    using handlers_total(5) [OF env Cons.prems, of junk name] by blast
  from c(1) Cons.IH [OF c(2)] show ?case by simp
qed simp

lemma do_clear_logs_total:
  assumes env: "ls_environment os content" and tail: "g_tail_null s"
  shows "\<exists>r s'. do_clear_logs os junk s = Some (r, s') \<and> g_tail_null s'"
proof -
  obtain r s1 where e: "ensure_initialized os junk s = Some (r, s1)" "g_tail_null s1"
    using ensure_initialized_total [OF env tail, of junk] by blast
  with clear_logs_from_total [OF env e(2), of junk "names_of (g_loggers s1)" OK] show ?thesis
    by (auto simp: do_clear_logs_def with_initialized_def)
qed

lemma dispatch_total:
  assumes env: "ls_environment os content" and tail: "g_tail_null s"
  shows "\<exists>r s'. dispatch os junk type m s = Some (r, s') \<and> g_tail_null s'"
  using tail handlers_total [OF assms] do_clear_logs_total [OF assms] do_initialize_total [OF assms]
  unfolding dispatch_def by (simp split: if_split)

lemma main_step_total:
  assumes env: "ls_environment os content" and tail: "g_tail_null s"
  shows "\<exists>s'. main_step os junk r s = Some s' \<and> g_tail_null s'"
proof -
  let ?s = "emit (IoReceive (rcv_status r) (rcv_msg r)) s"
  obtain status src type where w: "wait_request r = (status, src, type)" by (metis prod_cases3)
  have "\<exists>res s1. (case type of None \<Rightarrow> Some (EINVAL, ?s) | Some t \<Rightarrow> dispatch os junk t (rcv_msg r) ?s) =
      Some (res, s1) \<and> g_tail_null s1"
    using dispatch_total [OF env, of ?s junk _ "rcv_msg r"] tail by (cases type) simp_all
  with w show ?thesis by (auto simp: main_step_def reply_def)
qed

lemma environment_total_step:
  "ls_environment os content \<Longrightarrow> total_step (main_step os junk) (\<lambda>_. True) g_tail_null"
  by unfold_locales (metis main_step_total option.inject)+

lemma example_environment: "ls_environment (example_os example_config) example_config"
proof -
  have "list_all plain_char example_config" by code_simp
  moreover have "length example_config = 57" by (simp add: example_config_def)
  ultimately show ?thesis
    by (simp add: ls_environment_def memory_ok_def regular_file_def example_os_def BUFFER_SIZE_def)
qed



section \<open>Loading the configuration\<close>



section \<open>Setting the severity\<close>

lemma list_walk_map: "list_walk P (map f xs) tn = list_walk (\<lambda>x. P (f x)) xs tn"
  by (induction "\<lambda>x. P (f x)" xs tn rule: list_walk.induct) auto

lemma find_logger_same_table: "same_table s s' \<Longrightarrow> find_logger name s' = find_logger name s"
  using list_walk_map [of "\<lambda>l. logger_name l = cstr name" logger "g_loggers s"]
    list_walk_map [of "\<lambda>l. logger_name l = cstr name" logger "g_loggers s'"]
  by (simp add: find_logger_def same_table_def)

lemma emit_upd_state: "emit e (upd_state i f s) = upd_state i f (emit e s)"
  by (simp add: emit_def upd_state_def)

lemma upd_state_upd_state:
  "i < length (g_loggers s) \<Longrightarrow> upd_state i f (upd_state i g s) = upd_state i (f \<circ> g) s"
  by (simp add: upd_state_def)

lemma upd_state_cong:
  "(\<And>st. f st = g st) \<Longrightarrow> upd_state i f s = upd_state i g s"
  by (simp add: upd_state_def)

lemma do_set_severity_OK:
  assumes "do_set_severity os junk name sev s = Some (OK, s1)" and "g_is_initialized s"
  obtains i where "i < length (g_loggers s)" "find_logger name s = Some (Some i)"
    "\<not> is_open (lstate (g_loggers s ! i))" "s1 = upd_state i (\<lambda>st. st\<lparr>state_severity := sev\<rparr>) s"
proof -
  from assms obtain l where l: "find_logger name s = Some l"
    and b: "(case l of None \<Rightarrow> Some (LS_ERR_NO_SUCH_LOGGER, s)
      | Some i \<Rightarrow> if is_open (lstate (g_loggers s ! i)) then Some (LS_ERR_LOGGER_OPEN, s)
          else Some (OK, upd_state i (\<lambda>st. st\<lparr>state_severity := sev\<rparr>) s)) = Some (OK, s1)"
    by (auto simp: do_set_severity_def with_logger_def bind_eq_Some_conv)
  from b l find_logger_Some(1) [of name s] show ?thesis
    by (cases l) (auto split: if_splits intro: that)
qed

text \<open>Opening a closed logger that has been found.\<close>

definition open_node :: "ls_os \<Rightarrow> int \<Rightarrow> nat \<Rightarrow> ls_state \<Rightarrow> int \<times> ls_state" where
  "open_node os who i s =
     (let l = logger (g_loggers s ! i);
          flags = O_WRONLY + O_CREAT + (if logger_append l then O_APPEND else O_TRUNC);
          fd = os_open os (io_trace s) (dest_filename l) flags;
          s1 = emit (IoOpen (dest_filename l) flags fd) s in
      if dest_type l = LS_DESTINATION_FILE then
        if fd < 0 then (LS_ERR_EXTERNAL, s1)
        else get_process_table os (upd_state i (\<lambda>st. st\<lparr>state_fd := fd,
          state_severity := logger_severity l, is_open := True, opened_by := who\<rparr>) s1)
      else get_process_table os (upd_state i (\<lambda>st. st\<lparr>
          state_severity := logger_severity l, is_open := True, opened_by := who\<rparr>) s))"

lemma do_start_log_open_node:
  assumes "g_is_initialized s" and "find_logger name s = Some (Some i)"
    and "\<not> is_open (lstate (g_loggers s ! i))"
  shows "do_start_log os junk name who s = Some (open_node os who i s)"
  using assms find_logger_Some(1) [OF assms(2)]
  by (simp add: do_start_log_def with_logger_def open_node_def Let_def upd_state_upd_state comp_def)

text \<open>
  A severity set through \<open>LS_SET_SEVERITY\<close> is lost when the logger is opened: opening it afterwards
  gives the same answer and the same view as opening it without the request, and when it succeeds the
  very same state. The threshold in force is always the one of the configuration file.
\<close>

theorem set_severity_has_no_effect:
  assumes "do_set_severity os junk name sev s = Some (OK, s1)" and "g_is_initialized s" and "ls_inv s"
    and "do_start_log os junk name who s1 = Some (r1, t1)"
    and "do_start_log os junk name who s = Some (r, t)"
  shows "r1 = r \<and> view t1 = view t \<and> (r = OK \<longrightarrow> t1 = t)"
proof -
  obtain i where i: "i < length (g_loggers s)" "find_logger name s = Some (Some i)"
    and cl: "\<not> is_open (lstate (g_loggers s ! i))"
    and s1: "s1 = upd_state i (\<lambda>st. st\<lparr>state_severity := sev\<rparr>) s"
    using assms(1,2) by (rule do_set_severity_OK)
  have "same_table s s1" unfolding s1 by (intro same_table_intros)
  from find_logger_same_table [OF this] i(2) have f: "find_logger name s1 = Some (Some i)" by simp
  have v: "view (emit e s1) = view (emit e s)" for e
    using cl i ls_inv_distinct [OF assms(3)] view_nth [OF assms(3) i(1)]
    by (auto simp: s1 view_upd_state status_of_def)
  have "open_node os who i s = (r, t)" "open_node os who i s1 = (r1, t1)"
    using assms(4,5) do_start_log_open_node [OF assms(2) i(2) cl, of os junk who]
      do_start_log_open_node [OF _ f, of os junk who] assms(2) cl i(1)
    by (simp_all add: s1)
  then show ?thesis
    using i(1) v
    by (auto simp: open_node_def s1 Let_def emit_upd_state upd_state_upd_state comp_def split: if_splits)
qed

text \<open>The example server with its logger closed.\<close>

definition example_closed :: ls_state where
  "example_closed = example_open\<lparr>g_loggers := [\<lparr>logger = example_logger, lstate = zero_logger_state\<rparr>]\<rparr>"

lemma example_ready:
  "g_is_initialized example_closed" "ls_inv example_closed"
  "g_is_initialized example_open" "ls_inv example_open"
  by (simp_all add: example_closed_def example_open_def example_node_def ls_inv_def node_inv_def
      logger_fits_def example_logger_def zero_logger_state_def)

theorem set_severity_has_no_effect_witness:
  "\<exists>s1 r t. do_set_severity (example_os []) zero_logger ''a'' LS_SEV_WARN example_closed = Some (OK, s1) \<and>
     do_start_log (example_os []) zero_logger ''a'' 42 s1 = Some (r, t) \<and>
     do_start_log (example_os []) zero_logger ''a'' 42 example_closed = Some (r, t) \<and> r = OK"
proof -
  let ?os = "example_os []"
  have f: "find_logger ''a'' example_closed = Some (Some 0)"
    by (simp add: find_logger_def example_closed_def example_logger_def)
  let ?s1 = "upd_state 0 (\<lambda>st. st\<lparr>state_severity := LS_SEV_WARN\<rparr>) example_closed"
  have s1: "do_set_severity ?os zero_logger ''a'' LS_SEV_WARN example_closed = Some (OK, ?s1)"
    using f example_ready(1)
    by (simp add: do_set_severity_def with_logger_def) (simp add: example_closed_def zero_logger_state_def)
  have f1: "find_logger ''a'' ?s1 = Some (Some 0)"
    using f find_logger_same_table [OF same_table_upd_state [OF same_table_refl]] by simp
  have cl: "\<not> is_open (lstate (g_loggers example_closed ! 0))"
    "\<not> is_open (lstate (g_loggers ?s1 ! 0))" "g_is_initialized ?s1"
    by (simp_all add: example_closed_def zero_logger_state_def upd_state_def example_open_def)
  obtain r t where t: "open_node ?os 42 0 example_closed = (r, t)" by fastforce
  obtain r1 t1 where t1: "open_node ?os 42 0 ?s1 = (r1, t1)" by fastforce
  have r: "r = OK" using t by (auto simp: open_node_def Let_def get_process_table_def split: if_splits)
  note a = do_start_log_open_node [OF example_ready(1) f cl(1), of ?os zero_logger 42, unfolded t]
  note b = do_start_log_open_node [OF cl(3) f1 cl(2), of ?os zero_logger 42, unfolded t1]
  from set_severity_has_no_effect [OF s1 example_ready(1,2) b a] r a b s1 show ?thesis by auto
qed

section \<open>Clearing\<close>

text \<open>
  Clearing all logs truncates exactly the files of the closed loggers, each once and in the order
  of the table; it touches nothing else of the state, and it reports success only if no logger is open.
\<close>

theorem clear_logs_truncates_closed_files:
  assumes "do_clear_logs os junk s = Some (r, s')" and "g_is_initialized s" and "ls_inv s"
  shows "\<exists>ext. s' = s\<lparr>io_trace := io_trace s @ ext\<rparr> \<and>
    truncated_paths ext = map (\<lambda>n. dest_filename (logger n)) (filter clearable (g_loggers s)) \<and>
    (r = OK \<longrightarrow> list_all (\<lambda>n. \<not> is_open (lstate n)) (g_loggers s))"
  by (rule do_clear_logs_ready [OF assms])

theorem clear_logs_truncates_closed_files_witness:
  "\<exists>r s' ext. do_clear_logs (example_os []) zero_logger example_closed = Some (r, s') \<and>
     s' = example_closed\<lparr>io_trace := io_trace example_closed @ ext\<rparr> \<and> truncated_paths ext = [''f'']"
proof -
  have "g_tail_null example_closed" by (simp add: example_closed_def example_open_def)
  moreover have "ls_environment (example_os []) []"
    by (simp add: ls_environment_def memory_ok_def regular_file_def)
  ultimately obtain r s' where c: "do_clear_logs (example_os []) zero_logger example_closed = Some (r, s')"
    using do_clear_logs_total by blast
  have "map (\<lambda>n. dest_filename (logger n)) (filter clearable (g_loggers example_closed)) = [''f'']"
    by (simp add: example_closed_def clearable_def zero_logger_state_def example_logger_def)
  with clear_logs_truncates_closed_files [OF c example_ready(1,2)] c show ?thesis by auto
qed

section \<open>Writing\<close>

lemma logger_index_unique:
  assumes "ls_inv s" and "i < length (g_loggers s)" and "j < length (g_loggers s)"
    and "logger_name (logger (g_loggers s ! i)) = logger_name (logger (g_loggers s ! j))"
  shows "i = j"
  using assms ls_inv_distinct [OF assms(1)] by (auto simp: distinct_conv_nth)



section \<open>The unterminated list\<close>

text \<open>
  The link of the last list node is never written when the list is built. Where the allocator
  returns memory whose link word is not NULL, a request that names a logger which does not exist
  makes the server follow that link: the request has no defined result.
\<close>

theorem unknown_logger_on_unterminated_list:
  assumes "g_is_initialized s" and "g_loggers s \<noteq> []" and "\<not> g_tail_null s"
    and "cstr (m_logger m) \<notin> set (names_of (g_loggers s))"
    and "type = LS_START_LOG \<or> type = LS_CLOSE_LOG \<or> type = LS_CLEAR_LOG"
  shows "dispatch os junk type m s = None"
proof -
  have *: "list_walk P xs False = None" if "xs \<noteq> []" "list_all (\<lambda>x. \<not> P x) xs" for P and xs :: "'a list"
    using that by (induction P xs False rule: list_walk.induct) auto
  have "find_logger (m_logger m) s = None"
    unfolding find_logger_def using assms(2-4)
    by (auto simp: list_all_iff intro!: *) (metis image_eqI)
  with assms(1,5) show ?thesis
    by (auto simp: dispatch_def do_start_log_def do_close_log_def do_clear_log_def with_logger_def)
qed

text \<open>Such a state is reached on the first use of the server.\<close>

lemma unterminated_list_reached:
  "map_option (\<lambda>s. (g_is_initialized s, names_of (g_loggers s), g_tail_null s))
     (run_steps (main_step ((example_os example_config)\<lparr>os_malloc := (\<lambda>tr. Some False)\<rparr>) zero_logger)
       [example_request LS_START_LOG] ls_init_state) = Some (True, [''a''], False)"
  by code_simp

theorem unknown_logger_on_unterminated_list_witness:
  "\<exists>s. run_steps (main_step ((example_os example_config)\<lparr>os_malloc := (\<lambda>tr. Some False)\<rparr>) zero_logger)
       [example_request LS_START_LOG] ls_init_state = Some s \<and>
     dispatch (example_os example_config) zero_logger LS_START_LOG
       ((example_message LS_START_LOG)\<lparr>m_logger := ''b''\<rparr>) s = None"
proof -
  obtain s where s: "run_steps (main_step ((example_os example_config)\<lparr>os_malloc := (\<lambda>tr. Some False)\<rparr>) zero_logger)
       [example_request LS_START_LOG] ls_init_state = Some s"
    and i: "g_is_initialized s" "names_of (g_loggers s) = [''a'']" "\<not> g_tail_null s"
    using unterminated_list_reached by (auto simp del: run_steps.simps)
  have "dispatch (example_os example_config) zero_logger LS_START_LOG
       ((example_message LS_START_LOG)\<lparr>m_logger := ''b''\<rparr>) s = None"
    by (rule unknown_logger_on_unterminated_list) (use i in \<open>auto simp: cstr_def\<close>)
  with s show ?thesis by blast
qed

section \<open>First use\<close>

text \<open>
  The server initialises itself on first use. The first request that reaches a handler reads the
  configuration; if that fails the client is told so and the next request tries again, and if it
  succeeds the request is handled as in an initialised server.
\<close>

theorem first_use_initialises:
  assumes "handled type m" and "\<not> g_is_initialized s" and "dispatch os junk type m s = Some (r, s')"
  shows "(\<exists>ret. ret \<noteq> OK \<and> do_initialize os junk s = Some (ret, s') \<and> r = LS_ERR_INIT_FAILED \<and>
      \<not> g_is_initialized s') \<or>
    (\<exists>s1. do_initialize os junk s = Some (OK, s1) \<and>
      dispatch os junk type m (s1\<lparr>g_is_initialized := True\<rparr>) = Some (r, s') \<and> g_is_initialized s')"
proof -
  from assms(3) obtain ret s1 where e: "ensure_initialized os junk s = Some (ret, s1)"
    and d: "(if ret \<noteq> OK then Some (LS_ERR_INIT_FAILED, s1) else dispatch os junk type m s1) = Some (r, s')"
    unfolding dispatch_ensure [OF assms(1), of os junk s] after_init_def by (auto simp: bind_eq_Some_conv)
  from e show ?thesis
  proof (cases rule: ensure_initialized_cases)
    case already
    with assms(2) show ?thesis by simp
  next
    case (init s2)
    have "type \<noteq> LS_INITIALIZE" using assms(1) by (auto simp: handled_def)
    moreover have "ls_inv s1" using ls_inv_do_initialize [OF init(2)] init(4) by simp
    ultimately have "g_is_initialized s'"
      using dispatch_same_table [of os junk type m s1 r s'] d init by (simp add: same_table_def)
    with d init show ?thesis by auto
  next
    case (failed r1)
    with d do_initialize_post(2) [OF failed(2)] assms(2) show ?thesis by auto
  qed
qed

theorem first_use_initialises_witness:
  "handled LS_START_LOG (example_message LS_START_LOG) \<and>
   (\<exists>r s'. dispatch (example_os example_config) zero_logger LS_START_LOG (example_message LS_START_LOG)
      ls_init_state = Some (r, s') \<and> (r = LS_ERR_INIT_FAILED \<or> g_is_initialized s'))"
proof -
  have h: "handled LS_START_LOG (example_message LS_START_LOG)" by (simp add: handled_def)
  obtain r s' where d: "dispatch (example_os example_config) zero_logger LS_START_LOG
      (example_message LS_START_LOG) ls_init_state = Some (r, s')"
    using dispatch_total [OF example_environment, of ls_init_state zero_logger LS_START_LOG
        "example_message LS_START_LOG"] by (auto simp: ls_init_state_def)
  from first_use_initialises [OF h _ d] have "r = LS_ERR_INIT_FAILED \<or> g_is_initialized s'"
    by (auto simp: ls_init_state_def)
  with h d show ?thesis by blast
qed

end
