(* ===== verification/Ls_Client.thy ===== *)
theory Ls_Client
  imports Ls_Service
begin

text \<open>
  The client library of the logging service (lib/libc/sys/minix_ls.c) on top of \<open>_syscall\<close>
  (lib/libc/sys/syscall.c). Sending a message and waiting for the reply is a parameter, a function from
  the destination, the message and the state of the system to the status, the message as it comes
  back and the new state; \<open>None\<close> when no reply ever arrives.

  The library is compiled without \<open>_SYSTEM\<close>: its \<open>-EINVAL\<close> is the number the server calls \<open>EINVAL\<close>.
\<close>

type_synonym 's sendrec = "int \<Rightarrow> ls_message \<Rightarrow> 's \<Rightarrow> (int \<times> ls_message \<times> 's) option"

text \<open>The result and the message after the call; \<open>errno\<close> is left out.\<close>

definition syscall :: "'s sendrec \<Rightarrow> int \<Rightarrow> int \<Rightarrow> ls_message \<Rightarrow> 's \<Rightarrow> (int \<times> ls_message \<times> 's) option" where
  "syscall sendrec who syscallnr m s = do {
     (status, m1, s1) \<leftarrow> sendrec who (m\<lparr>m_type := syscallnr\<rparr>) s;
     let m2 = (if status \<noteq> 0 then m1\<lparr>m_type := status\<rparr> else m1);
     if m_type m2 < 0 then Some (-1, m2, s1) else Some (m_type m2, m2, s1)
   }"

definition wrap_syscall :: "'s sendrec \<Rightarrow> int \<Rightarrow> ls_message \<Rightarrow> 's \<Rightarrow> (int \<times> 's) option" where
  "wrap_syscall sendrec nr m s = do {
     (ret, m1, s1) \<leftarrow> syscall sendrec LS_PROC_NR nr m s;
     if ret \<noteq> OK then Some (m_type m1, s1) else Some (OK, s1)
   }"

text \<open>A message cleared by \<open>memset\<close>.\<close>

definition zero_message :: ls_message where
  "zero_message = \<lparr>m_source = 0, m_type = 0, m_logger = [], m_severity = 0, m_message_len = 0,
     m_message = 0\<rparr>"

definition minix_ls_initialize :: "'s sendrec \<Rightarrow> 's \<Rightarrow> (int \<times> 's) option" where
  "minix_ls_initialize sendrec s = wrap_syscall sendrec LS_INITIALIZE zero_message s"

text \<open>C strings are passed without their NUL.\<close>

definition minix_ls_start_log :: "'s sendrec \<Rightarrow> string \<Rightarrow> 's \<Rightarrow> (int \<times> 's) option" where
  "minix_ls_start_log sendrec name s =
     (if length name \<ge> LS_IPC_LOGGER_MAX_NAME_LEN - 1 then Some (EINVAL, s)
      else wrap_syscall sendrec LS_START_LOG
        (zero_message\<lparr>m_logger := strncpy name LS_IPC_LOGGER_MAX_NAME_LEN\<rparr>) s)"

definition minix_ls_close_log :: "'s sendrec \<Rightarrow> string \<Rightarrow> 's \<Rightarrow> (int \<times> 's) option" where
  "minix_ls_close_log sendrec name s =
     (if length name \<ge> LS_IPC_LOGGER_MAX_NAME_LEN - 1 then Some (EINVAL, s)
      else wrap_syscall sendrec LS_CLOSE_LOG
        (zero_message\<lparr>m_logger := strncpy name LS_IPC_LOGGER_MAX_NAME_LEN\<rparr>) s)"

text \<open>
  The message text is passed by address; only its length goes into the message. Length and severity
  are stored in 16 bits.
\<close>

definition minix_ls_write_log ::
  "'s sendrec \<Rightarrow> string \<Rightarrow> int \<Rightarrow> string \<Rightarrow> int \<Rightarrow> 's \<Rightarrow> (int \<times> 's) option" where
  "minix_ls_write_log sendrec name addr msg message_level s =
     (if length name \<ge> LS_IPC_LOGGER_MAX_NAME_LEN - 1 then Some (EINVAL, s)
      else wrap_syscall sendrec LS_WRITE_LOG
        (zero_message\<lparr>m_logger := strncpy name LS_IPC_LOGGER_MAX_NAME_LEN, m_message := addr,
           m_message_len := word_of_nat (length msg), m_severity := word_of_int message_level\<rparr>) s)"

definition minix_ls_set_logger_level ::
  "'s sendrec \<Rightarrow> string \<Rightarrow> int \<Rightarrow> 's \<Rightarrow> (int \<times> 's) option" where
  "minix_ls_set_logger_level sendrec name new_level s =
     (if length name \<ge> LS_IPC_LOGGER_MAX_NAME_LEN - 1 then Some (EINVAL, s)
      else wrap_syscall sendrec LS_SET_SEVERITY
        (zero_message\<lparr>m_logger := strncpy name LS_IPC_LOGGER_MAX_NAME_LEN,
           m_severity := word_of_int new_level\<rparr>) s)"

definition MAX_LOGGERS_LEN :: nat where "MAX_LOGGERS_LEN = 1024"

text \<open>
  The first loop of \<open>minix_ls_clear_logs\<close>, over the characters that are left, the buffer and the index
  of the pointer into it. A comma ends the name in the buffer and sends the pointer back to its start.
  \<open>None\<close> is the early return of \<open>-EINVAL\<close>.
\<close>

fun check_names :: "string \<Rightarrow> char list \<Rightarrow> nat \<Rightarrow> (char list \<times> nat) option" where
  "check_names [] buf pb = Some (buf, pb)"
| "check_names (c # cs) buf pb =
     (if c = CHR '','' then
        (let buf1 = buf[pb := CHR 0x00] in
         if length (cstr buf1) > LS_IPC_LOGGER_MAX_NAME_LEN - 1 then None else check_names cs buf1 0)
      else check_names cs (buf[pb := c]) (pb + 1))"

definition clear_one :: "'s sendrec \<Rightarrow> char list \<Rightarrow> int \<Rightarrow> 's \<Rightarrow> (int \<times> 's) option" where
  "clear_one sendrec buf ret s = do {
     (ret_logger, s1) \<leftarrow> wrap_syscall sendrec LS_CLEAR_LOG (zero_message\<lparr>m_logger := cstr buf\<rparr>) s;
     Some (if ret_logger \<noteq> OK then ret_logger else ret, s1)
   }"

text \<open>The second loop, which sends a message at every comma.\<close>

fun clear_names ::
  "'s sendrec \<Rightarrow> string \<Rightarrow> char list \<Rightarrow> nat \<Rightarrow> int \<Rightarrow> 's \<Rightarrow> (char list \<times> nat \<times> int \<times> 's) option" where
  "clear_names sendrec [] buf pb ret s = Some (buf, pb, ret, s)"
| "clear_names sendrec (c # cs) buf pb ret s =
     (if c = CHR '','' then
        (let buf1 = buf[pb := CHR 0x00] in do {
           (ret1, s1) \<leftarrow> clear_one sendrec buf1 ret s;
           clear_names sendrec cs buf1 0 ret1 s1
         })
      else clear_names sendrec cs (buf[pb := c]) (pb + 1) ret s)"

definition minix_ls_clear_logs :: "'s sendrec \<Rightarrow> string option \<Rightarrow> 's \<Rightarrow> (int \<times> 's) option" where
  "minix_ls_clear_logs sendrec loggers_opt s =
     (case loggers_opt of
        None \<Rightarrow> wrap_syscall sendrec LS_CLEAR_ALL zero_message s
      | Some loggers \<Rightarrow>
          if length loggers > MAX_LOGGERS_LEN - 1 then Some (EINVAL, s)
          else
            (let zeros = replicate MAX_LOGGERS_LEN (CHR 0x00) in
             case check_names loggers zeros 0 of
               None \<Rightarrow> Some (EINVAL, s)
             | Some (buf, pb) \<Rightarrow>
                 if length (cstr (buf[pb := CHR 0x00])) > LS_IPC_LOGGER_MAX_NAME_LEN - 1 then Some (EINVAL, s)
                 else do {
                   (buf1, pb1, ret, s1) \<leftarrow> clear_names sendrec loggers zeros 0 OK s;
                   clear_one sendrec (buf1[pb1 := CHR 0x00]) ret s1
                 }))"

section \<open>Lemmas\<close>

text \<open>The wrapper returns the type of the reply, or the status when there is none.\<close>

lemma wrap_syscall_reply:
  "wrap_syscall sendrec nr m s =
     map_option (\<lambda>(status, m1, s1). (if status \<noteq> 0 then status else m_type m1, s1))
       (sendrec LS_PROC_NR (m\<lparr>m_type := nr\<rparr>) s)"
  by (cases "sendrec LS_PROC_NR (m\<lparr>m_type := nr\<rparr>) s")
    (auto simp: wrap_syscall_def syscall_def Let_def)

text \<open>The names between the commas; \<open>cur\<close> is what has been seen of the current one.\<close>

fun split_from :: "string \<Rightarrow> string \<Rightarrow> string list" where
  "split_from cur [] = [cur]"
| "split_from cur (c # cs) =
     (if c = CHR '','' then cur # split_from [] cs else split_from (cur @ [c]) cs)"

abbreviation names_in :: "string \<Rightarrow> string list" where
  "names_in cs \<equiv> split_from [] cs"

fun join_commas :: "string list \<Rightarrow> string" where
  "join_commas [] = []"
| "join_commas [n] = n"
| "join_commas (n # ns) = n @ CHR '','' # join_commas ns"

lemma split_from_Cons: "\<exists>n ns. split_from cur cs = n # ns"
  by (induction cur cs rule: split_from.induct) auto

lemma split_from_not_Nil [simp]: "split_from cur cs \<noteq> []"
  using split_from_Cons by (metis list.distinct(1))

lemma join_split: "join_commas (split_from cur cs) = cur @ cs"
proof (induction cur cs rule: split_from.induct)
  case (2 cur c cs)
  then show ?case
    by (cases "c = CHR '',''"; cases "split_from [] cs") (auto simp: split_from_Cons)
qed simp

text \<open>The buffer of the loops: it holds the current name before the pointer, and the text left fits.\<close>

definition name_buf :: "string \<Rightarrow> string \<Rightarrow> char list \<Rightarrow> nat \<Rightarrow> bool" where
  "name_buf cur cs buf pb \<longleftrightarrow>
     pb = length cur \<and> take pb buf = cur \<and> CHR 0x00 \<notin> set cur \<and> CHR 0x00 \<notin> set cs \<and>
     pb + length cs < length buf"

lemma cstr_terminated:
  assumes "take pb buf = cur" and "CHR 0x00 \<notin> set cur" and "pb < length buf"
  shows "cstr (buf[pb := CHR 0x00]) = cur"
  using upd_conv_take_nth_drop [OF assms(3), of "CHR 0x00"] assms(1) cstr_append_nul [OF assms(2)]
  by simp

lemma name_buf_comma:
  assumes "name_buf cur (c # cs) buf pb"
  shows "cstr (buf[pb := CHR 0x00]) = cur" "name_buf [] cs (buf[pb := CHR 0x00]) 0"
  using assms by (auto simp: name_buf_def intro: cstr_terminated)

lemma name_buf_end:
  "name_buf cur [] buf pb \<Longrightarrow> cstr (buf[pb := CHR 0x00]) = cur"
  by (auto simp: name_buf_def intro: cstr_terminated)

lemma name_buf_push:
  assumes "name_buf cur (c # cs) buf pb"
  shows "name_buf (cur @ [c]) cs (buf[pb := c]) (pb + 1)"
  using assms by (auto simp: name_buf_def take_Suc_conv_app_nth)

lemma name_buf_init:
  "CHR 0x00 \<notin> set cs \<Longrightarrow> length cs < n \<Longrightarrow> name_buf [] cs (replicate n (CHR 0x00)) 0"
  by (simp add: name_buf_def)

lemma check_names_split:
  assumes "name_buf cur cs buf pb"
  shows "check_names cs buf pb \<noteq> None \<longleftrightarrow>
      list_all (\<lambda>n. length n \<le> LS_IPC_LOGGER_MAX_NAME_LEN - 1) (butlast (split_from cur cs))"
    "check_names cs buf pb = Some (buf', pb') \<Longrightarrow> name_buf (last (split_from cur cs)) [] buf' pb'"
  using assms
proof (induction cur cs arbitrary: buf pb rule: split_from.induct)
  case (1 cur)
  {
    case 1
    then show ?case by simp
  next
    case 2
    then show ?case by simp
  }
next
  case (2 cur c cs)
  {
    case 1
    then show ?case
      using "2.IH" name_buf_comma [OF 1] name_buf_push [OF 1] by (auto simp: Let_def)
  next
    case 2
    then show ?case
      using "2.IH" name_buf_comma [OF 2(2)] name_buf_push [OF 2(2)]
      by (auto simp: Let_def split: if_splits)
  }
qed

text \<open>Sending the requests one after the other; the last failure counts.\<close>

fun clear_each :: "'s sendrec \<Rightarrow> string list \<Rightarrow> int \<Rightarrow> 's \<Rightarrow> (int \<times> 's) option" where
  "clear_each sendrec [] ret s = Some (ret, s)"
| "clear_each sendrec (n # ns) ret s = do {
     (r, s1) \<leftarrow> wrap_syscall sendrec LS_CLEAR_LOG (zero_message\<lparr>m_logger := n\<rparr>) s;
     clear_each sendrec ns (if r \<noteq> OK then r else ret) s1
   }"

lemma clear_names_split:
  assumes "name_buf cur cs buf pb"
  shows "do {
      (buf1, pb1, ret1, s1) \<leftarrow> clear_names sendrec cs buf pb ret s;
      clear_one sendrec (buf1[pb1 := CHR 0x00]) ret1 s1
    } = clear_each sendrec (split_from cur cs) ret s"
  using assms
proof (induction cur cs arbitrary: buf pb ret s rule: split_from.induct)
  case (1 cur)
  from name_buf_end [OF "1"] show ?case
    by (cases "wrap_syscall sendrec LS_CLEAR_LOG (zero_message\<lparr>m_logger := cur\<rparr>) s")
      (auto simp: clear_one_def)
next
  case (2 cur c cs)
  show ?case
  proof (cases "c = CHR '',''")
    case True
    with "2.IH"(1) [OF True name_buf_comma(2) [OF "2.prems"]] name_buf_comma(1) [OF "2.prems"] show ?thesis
      by (cases "wrap_syscall sendrec LS_CLEAR_LOG (zero_message\<lparr>m_logger := cur\<rparr>) s")
        (auto simp: clear_one_def Let_def)
  next
    case False
    with "2.IH"(2) [OF False name_buf_push [OF "2.prems"]] show ?thesis by simp
  qed
qed

lemma list_ex_butlast_last: "xs \<noteq> [] \<Longrightarrow> list_ex P xs \<longleftrightarrow> list_ex P (butlast xs) \<or> P (last xs)"
  by (induction xs) auto

text \<open>
  \<open>minix_ls_clear_logs\<close> asks the server to clear each of the loggers named in its comma-separated
  argument, once each and in order, and returns the last failure; when the argument or one of the names
  is too long it returns \<open>EINVAL\<close> before anything is sent.
\<close>

theorem client_clear_logs_sends_names:
  assumes "CHR 0x00 \<notin> set loggers"
  shows "minix_ls_clear_logs sendrec (Some loggers) s =
    (if length loggers > MAX_LOGGERS_LEN - 1 \<or>
        list_ex (\<lambda>n. length n > LS_IPC_LOGGER_MAX_NAME_LEN - 1) (names_in loggers)
     then Some (EINVAL, s) else clear_each sendrec (names_in loggers) OK s) \<and>
    join_commas (names_in loggers) = loggers"
proof -
  let ?z = "replicate MAX_LOGGERS_LEN (CHR 0x00)" and ?ns = "names_in loggers"
  let ?long = "\<lambda>n. length n > LS_IPC_LOGGER_MAX_NAME_LEN - 1"
  have main: "minix_ls_clear_logs sendrec (Some loggers) s =
      (if list_ex ?long ?ns then Some (EINVAL, s) else clear_each sendrec ?ns OK s)"
    if "\<not> length loggers > MAX_LOGGERS_LEN - 1"
  proof -
    have init: "name_buf [] loggers ?z 0"
      using assms that by (intro name_buf_init) (auto simp: MAX_LOGGERS_LEN_def)
    note chk = check_names_split [OF init]
    have ns: "list_ex ?long ?ns \<longleftrightarrow> list_ex ?long (butlast ?ns) \<or> ?long (last ?ns)"
      by (rule list_ex_butlast_last) simp
    show ?thesis
    proof (cases "check_names loggers ?z 0")
      case None
      with chk(1) have "list_ex ?long (butlast ?ns)" by (auto simp: list_all_iff list_ex_iff not_le)
      with None ns that show ?thesis by (simp add: minix_ls_clear_logs_def)
    next
      case (Some bp)
      obtain buf pb where bp: "bp = (buf, pb)" by fastforce
      from chk(2) Some bp have last: "cstr (buf[pb := CHR 0x00]) = last ?ns" by (auto dest: name_buf_end)
      from chk(1) Some have "\<not> list_ex ?long (butlast ?ns)" by (auto simp: list_all_iff list_ex_iff not_le)
      with ns have "list_ex ?long ?ns \<longleftrightarrow> ?long (last ?ns)" by simp
      with Some bp that last clear_names_split [OF init, of sendrec OK s] show ?thesis
        by (simp add: minix_ls_clear_logs_def)
    qed
  qed
  moreover have "minix_ls_clear_logs sendrec (Some loggers) s = Some (EINVAL, s)"
    if "length loggers > MAX_LOGGERS_LEN - 1"
    using that by (simp add: minix_ls_clear_logs_def)
  ultimately show ?thesis
    using join_split [of "[]" loggers] by (cases "length loggers > MAX_LOGGERS_LEN - 1") simp_all
qed

theorem client_clear_logs_sends_names_witness:
  "minix_ls_clear_logs (\<lambda>dst m sent. Some (0, m\<lparr>m_type := OK\<rparr>, sent @ [m_logger m])) (Some ''a,bc'') [] =
     Some (OK, [''a'', ''bc''])"
proof -
  have "list_ex (\<lambda>n. length n > LS_IPC_LOGGER_MAX_NAME_LEN - 1) (names_in ''a,bc'') = False"
    and "names_in ''a,bc'' = [''a'', ''bc'']" by simp_all
  then show ?thesis
    using client_clear_logs_sends_names [of "''a,bc''"
        "\<lambda>dst m sent. Some (0, m\<lparr>m_type := OK\<rparr>, sent @ [m_logger m])" "[]"]
    by (simp add: MAX_LOGGERS_LEN_def wrap_syscall_reply)
qed

section \<open>Client and server together\<close>

text \<open>
  Messages from a process \<open>who\<close> to the logging server: the kernel fills in the source, the server handles
  the message in one round of its loop, and the reply carries the result in its type. A message that is
  not answered leaves the client waiting.
\<close>

definition ls_sendrec :: "ls_os \<Rightarrow> ls_logger_t \<Rightarrow> int \<Rightarrow> ls_state sendrec" where
  "ls_sendrec os junk who dst m s = do {
     s' \<leftarrow> main_step os junk \<lparr>rcv_status = OK, rcv_msg = m\<lparr>m_source := who\<rparr>\<rparr> s;
     (case last (io_trace s') of
        IoReply _ result \<Rightarrow> Some (0, m\<lparr>m_source := LS_PROC_NR, m_type := result\<rparr>, s')
      | _ \<Rightarrow> None)
   }"

lemma ls_sendrec_Some:
  assumes "ls_sendrec os junk who dst m s = Some (status, m', s')"
  shows "status = 0" "main_step os junk \<lparr>rcv_status = OK, rcv_msg = m\<lparr>m_source := who\<rparr>\<rparr> s = Some s'"
    "\<exists>d. last (io_trace s') = IoReply d (m_type m')"
proof -
  from assms obtain t where t: "main_step os junk \<lparr>rcv_status = OK, rcv_msg = m\<lparr>m_source := who\<rparr>\<rparr> s = Some t"
    and l: "(case last (io_trace t) of
        IoReply _ result \<Rightarrow> Some (0, m\<lparr>m_source := LS_PROC_NR, m_type := result\<rparr>, t) | _ \<Rightarrow> None) =
      Some (status, m', s')"
    by (auto simp: ls_sendrec_def bind_eq_Some_conv)
  from t l show "status = 0" "main_step os junk \<lparr>rcv_status = OK, rcv_msg = m\<lparr>m_source := who\<rparr>\<rparr> s = Some s'"
    "\<exists>d. last (io_trace s') = IoReply d (m_type m')"
    by (cases "last (io_trace t)"; auto)+
qed

text \<open>What a client call amounts to: the server's handling of the message, and its result.\<close>

lemma wrap_syscall_ls:
  assumes "wrap_syscall (ls_sendrec os junk who) nr m s = Some (r, s')"
    and "LS_BASE \<le> nr" and "nr < LS_END"
  obtains s1 where
    "dispatch os junk nr (m\<lparr>m_type := nr, m_source := who\<rparr>)
       (emit (IoReceive OK (m\<lparr>m_type := nr, m_source := who\<rparr>)) s) = Some (r, s1)"
    "s' = emit (IoReply (Some who) r) s1"
proof -
  let ?m = "m\<lparr>m_type := nr, m_source := who\<rparr>" and ?r = "\<lparr>rcv_status = OK, rcv_msg = m\<lparr>m_type := nr, m_source := who\<rparr>\<rparr>"
  from assms(1) obtain status m' where sr: "ls_sendrec os junk who LS_PROC_NR (m\<lparr>m_type := nr\<rparr>) s = Some (status, m', s')"
    and r: "r = (if status \<noteq> 0 then status else m_type m')"
    by (auto simp: wrap_syscall_reply)
  from ls_sendrec_Some [OF sr] r obtain d where ms: "main_step os junk ?r s = Some s'"
    and l: "last (io_trace s') = IoReply d r"
    by auto
  have w: "wait_request ?r = (OK, Some who, Some nr)" using assms(2,3) by (simp add: wait_request_def)
  from ms show ?thesis
  proof (cases rule: main_step_cases)
    case rejected
    with w show ?thesis by simp
  next
    case (handled res s1)
    show ?thesis
    proof (cases "res = EDONTREPLY")
      case False
      with handled l that show ?thesis by simp
    next
      case True
      with handled(3) have s1: "s' = s1" by simp
      from handled(2) have "dispatch os junk nr ?m (emit (IoReceive OK ?m) s) = Some (res, s1)" by simp
      from dispatch_post [OF this] obtain ext where
        e: "io_trace s1 = io_trace s @ IoReceive OK ?m # ext"
        "list_all (request_io os nr ?m (emit (IoReceive OK ?m) s)) ext"
        by (auto simp: extends_by_iff)
      have "ext = [] \<or> last ext \<in> set ext" using last_in_set by blast
      with e l s1 show ?thesis by (auto simp: list_all_iff request_io_no_reply split: if_splits)
    qed
  qed
qed



text \<open>
  The client library stores the length of a message and its severity in 16 bits without a check. A
  call with a message of 65536 bytes or more is the same as one with only the first
  \<open>length mod 65536\<close> bytes, and a severity outside 16 bits the same as its remainder, so neither is
  rejected as the documentation of the call says.
\<close>

theorem client_write_truncates:
  "minix_ls_write_log sendrec name addr msg level s =
   minix_ls_write_log sendrec name addr (take (length msg mod 65536) msg) (level mod 65536) s"
proof -
  have "(word_of_nat (length msg) :: 16 word) = word_of_nat (length (take (length msg mod 65536) msg))"
    by (simp add: word_of_nat_eq_iff take_bit_eq_mod min_def)
  moreover have "(word_of_int level :: 16 word) = word_of_int (level mod 65536)"
    by (simp add: word_of_int_eq_iff take_bit_eq_mod)
  ultimately show ?thesis by (simp add: minix_ls_write_log_def)
qed

end
