(* ===== verification/Config_Claims.thy ===== *)
theory Config_Claims
  imports Config_Roundtrip Ls_Example
begin

text \<open>
  The correctness statements about reading the configuration file: the buffered reader, the parser's
  memory safety, and the meaning of the text it accepts.
\<close>

section \<open>The buffered reader\<close>

text \<open>The results of \<open>n\<close> calls of \<open>bufio_next_char\<close>.\<close>

fun next_chars :: "ls_os \<Rightarrow> nat \<Rightarrow> bufio_t \<Rightarrow> ls_trace \<Rightarrow> int list" where
  "next_chars os 0 ctx tr = []"
| "next_chars os (Suc n) ctx tr =
     (let (c, ctx', tr') = bufio_next_char os ctx tr in c # next_chars os n ctx' tr')"

lemma next_chars_reader_at:
  assumes "regular_file os fd content" and "length content mod BUFFER_SIZE \<noteq> 0 \<or> content = []"
    and "reader_at fd content ctx tr rest"
  shows "next_chars os (length rest + 1) ctx tr = map schar rest @ [BUFIO_EOF]"
  using assms(3)
proof (induction rest arbitrary: ctx tr)
  case Nil
  obtain c ctx' tr' where n: "bufio_next_char os ctx tr = (c, ctx', tr')" by (metis prod_cases3)
  from bufio_next_char_Nil [OF Nil.prems assms(2) n] n show ?case by simp
next
  case (Cons c rest)
  from bufio_next_char_Cons [OF assms(1) Cons.prems] obtain ctx' tr' where
    "bufio_next_char os ctx tr = (schar c, ctx', tr')" "reader_at fd content ctx' tr' rest" by blast
  with Cons.IH show ?case by simp
qed

text \<open>
  The reader delivers the bytes of a regular file, every one once and in order, and then the end
  of the file, provided that the length of the file is not a positive multiple of the buffer's size.
\<close>

theorem reader_delivers_file:
  assumes "regular_file os fd content" and "length content mod BUFFER_SIZE \<noteq> 0 \<or> content = []"
    and "bytes_read fd tr 0 = 0" and "bufio_init os fd tr = (Some ctx, tr')"
  shows "next_chars os (length content + 1) ctx tr' = map schar content @ [BUFIO_EOF]"
  by (rule next_chars_reader_at [OF assms(1,2) reader_at_init [OF assms(1,3,4)]])

theorem reader_delivers_file_witness:
  "\<exists>ctx tr'. bufio_init (example_os ''ab'') 3 [] = (Some ctx, tr') \<and>
     next_chars (example_os ''ab'') 3 ctx tr' = [97, 98, -1]"
proof -
  have r: "regular_file (example_os ''ab'') 3 ''ab''" by (simp add: regular_file_def)
  obtain ctx tr' where i: "bufio_init (example_os ''ab'') 3 [] = (Some ctx, tr')"
    by (simp add: bufio_init_def Let_def)
  have "map schar ''ab'' = [97, 98]" by code_simp
  with reader_delivers_file [OF r _ _ i] i show ?thesis by (auto simp: BUFFER_SIZE_def numeral_3_eq_3)
qed

lemma next_chars_buffered:
  assumes "boff ctx + n \<le> bsize ctx" and "bsize ctx \<le> length (buffer ctx)"
  shows "next_chars os (n + k) ctx tr =
    map schar (take n (drop (boff ctx) (buffer ctx))) @ next_chars os k (ctx\<lparr>boff := boff ctx + n\<rparr>) tr"
  using assms
proof (induction n arbitrary: ctx)
  case 0
  then show ?case by simp
next
  case (Suc n)
  let ?c = "ctx\<lparr>boff := boff ctx + 1\<rparr>"
  have "drop (boff ctx) (buffer ctx) = buffer ctx ! boff ctx # drop (Suc (boff ctx)) (buffer ctx)"
    using Suc.prems by (simp add: Cons_nth_drop_Suc)
  moreover have "bufio_next_char os ctx tr = (schar (buffer ctx ! boff ctx), ?c, tr)"
    using Suc.prems by (simp add: bufio_next_char_def)
  ultimately show ?case using Suc.IH [of ?c] Suc.prems by simp
qed

text \<open>
  The restriction is needed: of a file that fills the buffer exactly, the reader delivers the
  first byte once more in place of the end of the file.
\<close>

theorem full_buffer_file_repeats_first_byte:
  assumes "regular_file os fd content" and "length content = BUFFER_SIZE"
    and "bytes_read fd tr 0 = 0" and "bufio_init os fd tr = (Some ctx, tr')"
  shows "next_chars os (length content + 1) ctx tr' = map schar content @ [schar (content ! 0)]"
proof -
  obtain m where m: "os_malloc os tr = Some m"
    using assms(4) by (cases "os_malloc os tr") (auto simp: bufio_init_def Let_def)
  let ?tr = "tr @ [IoMalloc (Some m)]"
  have rd: "os_read os ?tr fd = Some content"
    using assms(1-3) by (simp add: regular_file_def)
  then have ctx: "ctx = \<lparr>bfd = fd, buffer = content, boff = 0, bsize = BUFFER_SIZE\<rparr>"
    and tr': "tr' = ?tr @ [IoRead fd (Some content)]"
    using assms(2,4) m by (auto simp: bufio_init_def Let_def)
  have "os_read os tr' fd = Some []"
    using assms(1-3) by (simp add: regular_file_def tr' bytes_read_append)
  then have "next_chars os 1 (ctx\<lparr>boff := BUFFER_SIZE\<rparr>) tr' = [schar (content ! 0)]"
    by (simp add: ctx bufio_next_char_def fill_def Let_def)
  with next_chars_buffered [of ctx BUFFER_SIZE os 1 tr'] assms(2) show ?thesis by (simp add: ctx)
qed

theorem full_buffer_file_repeats_first_byte_witness:
  "\<exists>ctx tr'. bufio_init (example_os (replicate BUFFER_SIZE (CHR ''x''))) 3 [] = (Some ctx, tr') \<and>
     last (next_chars (example_os (replicate BUFFER_SIZE (CHR ''x''))) (BUFFER_SIZE + 1) ctx tr') = schar (CHR ''x'')"
proof -
  let ?c = "replicate BUFFER_SIZE (CHR ''x'')"
  have r: "regular_file (example_os ?c) 3 ?c" by (simp add: regular_file_def)
  obtain ctx tr' where i: "bufio_init (example_os ?c) 3 [] = (Some ctx, tr')"
    by (simp add: bufio_init_def Let_def)
  from full_buffer_file_repeats_first_byte [OF r _ _ i] i show ?thesis by simp
qed

section \<open>The parser\<close>

text \<open>
  C29. The parser is memory safe on every input: whatever bytes it is fed, the offset into the value
  array stays below the array's size (below the size of the name array while a name is read), the
  offset into a literal stays within the literal, and a logger being filled fits its arrays.
\<close>

theorem parser_memory_safe:
  "\<exists>st. run_steps parser_step cs (parse_init junk) = Some st \<and>
     curr_value_offset st < MAX_VALUE_LEN \<and>
     (pkind st = PARSE_LOGGER_NAME \<longrightarrow> curr_value_offset st < LS_MAX_LOGGER_NAME_LEN) \<and>
     (case literal_of (pkind st) of Some lit \<Rightarrow> consume_offset st < length lit | None \<Rightarrow> True) \<and>
     (pkind st \<notin> {PARSE_LOGGER_KEYWORD, PARSE_LOGGER_NAME} \<longrightarrow> logger_fits (current_logger st))"
proof -
  have all: "list_all (\<lambda>_. True) cs" by (simp add: list_all_iff)
  obtain st where st: "run_steps parser_step cs (parse_init junk) = Some st"
    using parser.run_total [OF parser_inv_init all] by blast
  from parser.run_inv [OF parser_inv_init all st] st show ?thesis by (auto simp: parser_inv_def)
qed

theorem parser_memory_safe_witness:
  "\<exists>st. run_steps parser_step ''logger x'' (parse_init zero_logger) = Some st \<and>
     curr_value_offset st < MAX_VALUE_LEN"
  using parser_memory_safe [of "''logger x''" zero_logger] by blast

text \<open>
  Whatever the configuration file contains and however its reading goes, a table of loggers that
  \<open>parse_config_file\<close> hands over has different names and loggers that fit their arrays, all closed; and
  it hands over a table exactly when it returns OK.
\<close>

theorem parsed_loggers_well_formed:
  assumes "parse_config_file os junk filename tr = Some (ret, dest, tr')"
  shows "(dest \<noteq> None \<longleftrightarrow> ret = OK) \<and>
    (\<forall>ls tn. dest = Some (ls, tn) \<longrightarrow> distinct (names_of ls) \<and>
       list_all (\<lambda>n. logger_fits (logger n) \<and> \<not> is_open (lstate n)) ls)"
  using parse_config_file_post [OF assms]
  by (auto simp: loop_post_def loggers_wf_def list_all_iff zero_logger_state_def split: option.splits)

theorem parsed_loggers_well_formed_witness:
  "\<exists>ret dest tr'. parse_config_file (example_os (render_logger example_logger)) zero_logger ''c'' [] =
     Some (ret, dest, tr') \<and> (dest \<noteq> None \<longleftrightarrow> ret = OK)"
proof -
  let ?c = "render_logger example_logger"
  have len: "length ?c = 89" and pl: "list_all plain_char ?c" by code_simp+
  have "regular_file (example_os ?c) 3 ?c" and "memory_ok (example_os ?c)"
    by (simp_all add: regular_file_def memory_ok_def)
  with parse_config_file_text [of "example_os ?c" "[]" "''c''" 3 ?c zero_logger] len pl
  obtain ret dest tr' where p: "parse_config_file (example_os ?c) zero_logger ''c'' [] = Some (ret, dest, tr')"
    by (auto simp: BUFFER_SIZE_def)
  with parsed_loggers_well_formed [OF p] show ?thesis by blast
qed



text \<open>
  C8. The parser inverts the obvious printer of configuration files: the text of any list of loggers
  with different names, each within the limits of the format, is parsed to exactly that list.
\<close>

theorem configuration_round_trip:
  assumes "list_all expressible ms" and "distinct (map logger_name ms)"
  shows "\<exists>st. parse_text (parse_init junk) [] (concat (map render_logger ms)) = Inr (st, ms)"
proof -
  have "at_kind PARSE_LOGGER_KEYWORD (parse_init junk)" by (simp add: at_kind_def parse_init_def)
  from parse_text_loggers [OF assms(1) this, of "[]"] assms(2) show ?thesis by simp
qed

theorem configuration_round_trip_witness:
  "\<exists>st. parse_text (parse_init zero_logger) []
     (concat (map render_logger [example_logger, example_logger\<lparr>logger_name := ''b'', logger_append := True\<rparr>])) =
     Inr (st, [example_logger, example_logger\<lparr>logger_name := ''b'', logger_append := True\<rparr>])"
proof (rule configuration_round_trip)
  show "list_all expressible [example_logger, example_logger\<lparr>logger_name := ''b'', logger_append := True\<rparr>]"
    by code_simp
qed (simp add: example_logger_def)

section \<open>The log line\<close>

text \<open>
  \<open>print_log\<close> never writes past the line buffer, and what it leaves in the buffer is the line
  the format describes, cut off at the buffer's size. The size it returns is that of the text, or 0 when
  the buffer filled up inside the severity name.
\<close>

theorem print_log_correct:
  assumes "print_log os fmt msg sev procname cap [] tr = (sz, buf, tr')"
  shows "length buf \<le> cap \<and> buf = take cap (expand os fmt msg sev procname tr) \<and>
    (sz = length buf \<or> sz = 0 \<and> length buf = cap)"
  using print_log_buffer [OF _ assms] print_log_size [OF _ assms] by simp

theorem print_log_correct_witness:
  "\<exists>sz tr'. print_log (example_os []) ''%m!'' ''hello'' LS_SEV_INFO ''p'' 6 [] [] = (sz, ''hello!'', tr')"
proof -
  obtain sz buf tr' where p: "print_log (example_os []) ''%m!'' ''hello'' LS_SEV_INFO ''p'' 6 [] [] = (sz, buf, tr')"
    by (metis prod_cases3)
  have "take 6 (expand (example_os []) ''%m!'' ''hello'' LS_SEV_INFO ''p'' []) = ''hello!''" by code_simp
  with print_log_correct [OF p] p show ?thesis by simp
qed

end
