(* ===== verification/Endpoint.thy ===== *)
theory Endpoint
  imports Prelude
begin

unbundle bit_operations_syntax

text \<open>
  Endpoints (include/minix/endpoint.h): the numbers that name processes, made of a process slot and a
  generation number; and the result codes of the kernel and the servers.
\<close>

section \<open>Result codes\<close>

text \<open>
  The numbers of the error codes are in sys/errno.h, which is not part of the repository, so a result is
  a value of a data type. \<open>EOTHER\<close> stands for every other code a call may return.
\<close>

datatype result =
    ROK | RPERM | RINVAL | RNOMEM | RFAULT | REXIST | RSRCH | RNOSYS | RAGAIN | RINTR | RBUSY
  | RBADEPT | RDEADEPT | RBADCPU | RDEADSRCDST | RCALLDENIED | RTRAPDENIED | RBADCALL | RBADSRCDST
  | RLOCKED | RNOTREADY | RBADREQUEST | RDONTREPLY | RSUSPEND | RBADF | RNOLCK | RACCES | RNOENT
  | RDOM | RNOSPC | RLOOP | RFAULT_SRC | RFAULT_DST
  | EOTHER int

section \<open>Endpoints\<close>

text \<open>The endpoints of the boot processes that the components name (include/minix/com.h).\<close>

definition PM_PROC_NR :: int where "PM_PROC_NR = 0"
definition RS_PROC_NR :: int where "RS_PROC_NR = 2"
definition SCHED_PROC_NR :: int where "SCHED_PROC_NR = 4"
definition DS_PROC_NR :: int where "DS_PROC_NR = 6"
definition CLOCK :: int where "CLOCK = -3"

text \<open>Message types that more than one component knows (include/minix/com.h).\<close>

definition NOTIFY_MESSAGE :: int where "NOTIFY_MESSAGE = 0x1000"
definition SCHEDULING_BASE :: int where "SCHEDULING_BASE = 0xF00"
definition SCHEDULING_NO_QUANTUM :: int where "SCHEDULING_NO_QUANTUM = SCHEDULING_BASE + 1"

definition MAX_NR_TASKS :: int where "MAX_NR_TASKS = 1023"

definition NR_TASKS :: int where "NR_TASKS = 5"

definition NR_PROCS :: nat where "NR_PROCS = 256"

definition ENDPOINT_GENERATION_SHIFT :: nat where "ENDPOINT_GENERATION_SHIFT = 15"

definition ENDPOINT_GENERATION_SIZE :: int where
  "ENDPOINT_GENERATION_SIZE = push_bit ENDPOINT_GENERATION_SHIFT 1"

definition ENDPOINT_MAX_GENERATION :: int where
  "ENDPOINT_MAX_GENERATION = 2147483647 div ENDPOINT_GENERATION_SIZE - 1"

definition ENDPOINT_SLOT_TOP :: int where
  "ENDPOINT_SLOT_TOP = ENDPOINT_GENERATION_SIZE - MAX_NR_TASKS"

definition ANY :: int where "ANY = ENDPOINT_SLOT_TOP - 1"

definition NONE :: int where "NONE = ENDPOINT_SLOT_TOP - 2"

definition SELF :: int where "SELF = ENDPOINT_SLOT_TOP - 3"

definition MAX_NR_PROCS :: int where "MAX_NR_PROCS = ENDPOINT_SLOT_TOP - 3"

text \<open>The macros compute with the C type \<open>int\<close>; the round trip below stays within its range.\<close>

definition ENDPOINT :: "int \<Rightarrow> int \<Rightarrow> int" where
  "ENDPOINT g p = push_bit ENDPOINT_GENERATION_SHIFT g + p"

definition ENDPOINT_G :: "int \<Rightarrow> int" where
  "ENDPOINT_G e = drop_bit ENDPOINT_GENERATION_SHIFT (e + MAX_NR_TASKS)"

definition ENDPOINT_P :: "int \<Rightarrow> int" where
  "ENDPOINT_P e = (e + MAX_NR_TASKS AND (ENDPOINT_GENERATION_SIZE - 1)) - MAX_NR_TASKS"

lemmas endpoint_consts = MAX_NR_TASKS_def NR_TASKS_def NR_PROCS_def ENDPOINT_GENERATION_SHIFT_def
  ENDPOINT_GENERATION_SIZE_def ENDPOINT_MAX_GENERATION_def ENDPOINT_SLOT_TOP_def ANY_def NONE_def
  SELF_def MAX_NR_PROCS_def

lemma ENDPOINT_eq: "ENDPOINT g p = g * 32768 + p"
  by (simp add: ENDPOINT_def ENDPOINT_GENERATION_SHIFT_def push_bit_eq_mult)

lemma ENDPOINT_G_eq: "ENDPOINT_G e = (e + 1023) div 32768"
  by (simp add: ENDPOINT_G_def endpoint_consts drop_bit_eq_div)

lemma ENDPOINT_P_eq: "ENDPOINT_P e = (e + 1023) mod 32768 - 1023"
proof -
  have "(e + 1023) AND 32767 = (e + 1023) AND mask 15" by (simp add: mask_eq_exp_minus_1)
  also have "\<dots> = (e + 1023) mod 32768" by (simp add: take_bit_eq_mask [symmetric] take_bit_eq_mod)
  finally show ?thesis by (simp add: ENDPOINT_P_def endpoint_consts push_bit_eq_mult)
qed

lemma ENDPOINT_P_range: "- MAX_NR_TASKS \<le> ENDPOINT_P e" "ENDPOINT_P e < ENDPOINT_SLOT_TOP"
  using pos_mod_sign [of 32768 "e + 1023"] pos_mod_bound [of 32768 "e + 1023"]
  by (simp_all add: ENDPOINT_P_eq endpoint_consts push_bit_eq_mult)

lemma ENDPOINT_split: "ENDPOINT (ENDPOINT_G e) (ENDPOINT_P e) = e"
proof -
  have "(e + 1023) div 32768 * 32768 + (e + 1023) mod 32768 = e + 1023" by (rule div_mult_mod_eq)
  then show ?thesis unfolding ENDPOINT_eq ENDPOINT_G_eq ENDPOINT_P_eq by linarith
qed

lemma ENDPOINT_parts:
  assumes "- MAX_NR_TASKS \<le> p" and "p < ENDPOINT_SLOT_TOP"
  shows "ENDPOINT_P (ENDPOINT g p) = p" "ENDPOINT_G (ENDPOINT g p) = g"
proof -
  have r: "0 \<le> p + 1023" "p + 1023 < 32768"
    using assms by (simp_all add: endpoint_consts push_bit_eq_mult)
  have e: "g * 32768 + p + 1023 = (p + 1023) + g * 32768" by simp
  have "(p + 1023) mod 32768 = p + 1023" "(p + 1023) div 32768 = 0"
    using r by (simp_all add: mod_pos_pos_trivial div_pos_pos_trivial)
  then show "ENDPOINT_P (ENDPOINT g p) = p" "ENDPOINT_G (ENDPOINT g p) = g"
    unfolding ENDPOINT_eq ENDPOINT_P_eq ENDPOINT_G_eq e by simp_all
qed

text \<open>
  Endpoints encode slot and generation faithfully: for every slot number in the layout's range and
  every generation the macros recover both parts, the endpoint fits an \<open>int\<close>, and with generation 0 it
  is the slot number itself.
\<close>

theorem endpoint_round_trip:
  assumes "- MAX_NR_TASKS \<le> p" and "p < ENDPOINT_SLOT_TOP"
    and "0 \<le> g" and "g \<le> ENDPOINT_MAX_GENERATION"
  shows "ENDPOINT_P (ENDPOINT g p) = p \<and> ENDPOINT_G (ENDPOINT g p) = g \<and>
    - 2147483648 \<le> ENDPOINT g p \<and> ENDPOINT g p \<le> 2147483647 \<and> ENDPOINT 0 p = p"
  using assms ENDPOINT_parts [OF assms(1,2)]
  by (simp add: ENDPOINT_eq endpoint_consts push_bit_eq_mult)

theorem endpoint_round_trip_witness:
  "ENDPOINT_P (ENDPOINT 65534 31744) = 31744 \<and> ENDPOINT_G (ENDPOINT 65534 31744) = 65534"
  using endpoint_round_trip [of 31744 65534]
  by (simp add: endpoint_consts push_bit_eq_mult)

end
