(* ===== verification/Timers.thy ===== *)
theory Timers
  imports Prelude
begin

text \<open>
  The watchdog timers (lib/libtimers, include/minix/timers.h). Timers live in a store, a function from
  addresses to timer structures, and a queue is the address of its first timer; the functions follow and
  rewrite the \<open>tmr_next\<close> links as the code does. The lemmas relate this to the list of the addresses in
  the queue. A walk over a chain of links that is not a proper list need not end.
\<close>

section \<open>The store\<close>

type_synonym clock_t = "32 word"

type_synonym addr = nat

text \<open>\<open>tmr_func\<close> is the address of the watchdog function.\<close>

record minix_timer_t =
  tmr_next :: "addr option"
  tmr_exp_time :: clock_t
  tmr_func :: nat
  tmr_arg :: int

type_synonym heap = "addr \<Rightarrow> minix_timer_t"

definition TMR_NEVER :: clock_t where "TMR_NEVER = 0x7FFFFFFF"

definition tmr_inittimer :: "addr \<Rightarrow> heap \<Rightarrow> heap" where
  "tmr_inittimer tp h = h(tp := (h tp)\<lparr>tmr_exp_time := TMR_NEVER, tmr_next := None\<rparr>)"

text \<open>The expiration time of the first timer, or 0.\<close>

definition head_time :: "addr option \<Rightarrow> heap \<Rightarrow> clock_t" where
  "head_time tmrs h = (case tmrs of Some p \<Rightarrow> tmr_exp_time (h p) | None \<Rightarrow> 0)"

text \<open>
  The pointer \<open>atp\<close> of the loops points at the queue's head (\<open>None\<close>) or at the link in a timer. Writing
  through it changes the head or that link.
\<close>

definition store_link :: "addr option \<Rightarrow> addr option \<Rightarrow> addr option \<Rightarrow> heap \<Rightarrow> addr option \<times> heap" where
  "store_link atp new tmrs h =
     (case atp of None \<Rightarrow> (new, h) | Some q \<Rightarrow> (tmrs, h(q := (h q)\<lparr>tmr_next := new\<rparr>)))"

text \<open>The loop of \<open>tmrs_clrtimer\<close>: \<open>cur\<close> is \<open>*atp\<close>.\<close>

partial_function (option) clr_loop ::
  "addr \<Rightarrow> addr option \<Rightarrow> addr option \<Rightarrow> addr option \<Rightarrow> heap \<Rightarrow> (addr option \<times> heap) option" where
  "clr_loop tp atp cur tmrs h =
     (case cur of
        None \<Rightarrow> Some (tmrs, h)
      | Some p \<Rightarrow>
          if p = tp then Some (store_link atp (tmr_next (h tp)) tmrs h)
          else clr_loop tp (Some p) (tmr_next (h p)) tmrs h)"

text \<open>
  The result is the old head's time, the time stored through \<open>next_time\<close>, and the new queue.
\<close>

definition tmrs_clrtimer ::
  "addr option \<Rightarrow> addr \<Rightarrow> heap \<Rightarrow> (clock_t \<times> clock_t \<times> addr option \<times> heap) option" where
  "tmrs_clrtimer tmrs tp h =
     (let prev_time = head_time tmrs h; h1 = h(tp := (h tp)\<lparr>tmr_exp_time := TMR_NEVER\<rparr>) in do {
        (tmrs', h') \<leftarrow> clr_loop tp None tmrs tmrs h1;
        Some (prev_time, head_time tmrs' h', tmrs', h')
      })"

text \<open>The loop of \<open>tmrs_settimer\<close> that looks for the place: the link where it stops, and its contents.\<close>

partial_function (option) set_loop ::
  "clock_t \<Rightarrow> addr option \<Rightarrow> addr option \<Rightarrow> heap \<Rightarrow> (addr option \<times> addr option) option" where
  "set_loop exp_time atp cur h =
     (case cur of
        None \<Rightarrow> Some (atp, None)
      | Some p \<Rightarrow>
          if exp_time < tmr_exp_time (h p) then Some (atp, Some p)
          else set_loop exp_time (Some p) (tmr_next (h p)) h)"

definition tmrs_settimer ::
  "addr option \<Rightarrow> addr \<Rightarrow> clock_t \<Rightarrow> nat \<Rightarrow> heap \<Rightarrow> (clock_t \<times> clock_t \<times> addr option \<times> heap) option" where
  "tmrs_settimer tmrs tp exp_time watchdog h = do {
     let old_head = head_time tmrs h;
     (_, _, tmrs1, h1) \<leftarrow> tmrs_clrtimer tmrs tp h;
     let h2 = h1(tp := (h1 tp)\<lparr>tmr_exp_time := exp_time, tmr_func := watchdog\<rparr>);
     (atp, cur) \<leftarrow> set_loop exp_time None tmrs1 h2;
     let h3 = h2(tp := (h2 tp)\<lparr>tmr_next := cur\<rparr>);
     let (tmrs', h') = store_link atp (Some tp) tmrs1 h3;
     Some (old_head, head_time tmrs' h', tmrs', h')
   }"

text \<open>
  The loop of \<open>tmrs_exptimers\<close>. A watchdog function is arbitrary code that is handed the timer; it may
  change the queue and the store, and the rest \<open>'s\<close> of the program's state.
\<close>

type_synonym 's watchdogs = "nat \<Rightarrow> addr \<Rightarrow> addr option \<times> heap \<times> 's \<Rightarrow> (addr option \<times> heap \<times> 's) option"

partial_function (option) tmrs_exptimers ::
  "'s watchdogs \<Rightarrow> clock_t \<Rightarrow> addr option \<Rightarrow> heap \<Rightarrow> 's \<Rightarrow> (clock_t \<times> addr option \<times> heap \<times> 's) option" where
  "tmrs_exptimers run now tmrs h s =
     (case tmrs of
        None \<Rightarrow> Some (0, None, h, s)
      | Some tp \<Rightarrow>
          if tmr_exp_time (h tp) \<le> now then
            Option.bind
              (run (tmr_func (h tp)) tp
                 (tmr_next (h tp), h(tp := (h tp)\<lparr>tmr_exp_time := TMR_NEVER\<rparr>), s))
              (\<lambda>(tmrs', h', s'). tmrs_exptimers run now tmrs' h' s')
          else Some (tmr_exp_time (h tp), tmrs, h, s))"

declare clr_loop.simps [code] set_loop.simps [code] tmrs_exptimers.simps [code]

section \<open>Queues as lists\<close>

text \<open>The links lead from \<open>p\<close> through the timers of the list to \<open>q\<close>.\<close>

fun chain :: "heap \<Rightarrow> addr option \<Rightarrow> addr list \<Rightarrow> addr option \<Rightarrow> bool" where
  "chain h p [] q \<longleftrightarrow> p = q"
| "chain h p (x # xs) q \<longleftrightarrow> p = Some x \<and> chain h (tmr_next (h x)) xs q"

text \<open>A well-formed queue: no timer twice, sorted by expiration time.\<close>

definition timers_queue :: "addr option \<Rightarrow> heap \<Rightarrow> addr list \<Rightarrow> bool" where
  "timers_queue tmrs h xs \<longleftrightarrow>
     chain h tmrs xs None \<and> distinct xs \<and> sorted (map (\<lambda>x. tmr_exp_time (h x)) xs)"

lemma chain_append: "chain h p (xs @ ys) q \<longleftrightarrow> (\<exists>r. chain h p xs r \<and> chain h r ys q)"
  by (induction xs arbitrary: p) auto

lemma chain_cong:
  "(\<And>x. x \<in> set xs \<Longrightarrow> tmr_next (h' x) = tmr_next (h x)) \<Longrightarrow> chain h' p xs q = chain h p xs q"
  by (induction xs arbitrary: p) auto

lemma chain_head: "chain h p xs None \<Longrightarrow> head_time p h = (case xs of [] \<Rightarrow> 0 | x # _ \<Rightarrow> tmr_exp_time (h x))"
  by (cases xs) (auto simp: head_time_def)

text \<open>Splicing: redirecting the link of the last timer of a stretch.\<close>

lemma chain_snoc_update:
  assumes "chain h p (xs @ [x]) q" and "distinct (xs @ [x])"
  shows "chain (h(x := (h x)\<lparr>tmr_next := r\<rparr>)) p (xs @ [x]) r"
proof -
  let ?h = "h(x := (h x)\<lparr>tmr_next := r\<rparr>)"
  have c: "chain h p xs (Some x)" using assms(1) by (auto simp: chain_append)
  have "chain ?h p xs (Some x) = chain h p xs (Some x)"
    by (rule chain_cong) (use assms(2) in auto)
  with c show ?thesis by (auto simp: chain_append)
qed

text \<open>The link that leads out of a stretch \<open>ys\<close> at the start of the queue.\<close>

definition link_after :: "addr list \<Rightarrow> addr option" where
  "link_after ys = (if ys = [] then None else Some (last ys))"

lemma link_after_simps [simp]: "link_after [] = None" "link_after (ys @ [y]) = Some y"
  by (simp_all add: link_after_def)

text \<open>Writing through that link splices a new rest behind the stretch.\<close>

lemma store_link_chain:
  assumes "chain h tmrs ys q" and "distinct ys" and "chain h new zs None" and "set ys \<inter> set zs = {}"
    and "store_link (link_after ys) new tmrs h = (tmrs', h')"
  shows "chain h' tmrs' (ys @ zs) None"
    "tmr_exp_time (h' x) = tmr_exp_time (h x)" "tmr_func (h' x) = tmr_func (h x)"
    "x \<notin> set ys \<Longrightarrow> h' x = h x"
proof -
  have "chain h' tmrs' (ys @ zs) None \<and>
    (\<forall>x. tmr_exp_time (h' x) = tmr_exp_time (h x) \<and> tmr_func (h' x) = tmr_func (h x) \<and>
      (x \<notin> set ys \<longrightarrow> h' x = h x))"
  proof (cases ys rule: rev_cases)
    case Nil
    with assms show ?thesis by (simp add: store_link_def)
  next
    case (snoc as y)
    let ?h = "h(y := (h y)\<lparr>tmr_next := new\<rparr>)"
    have h': "h' = ?h" "tmrs' = tmrs" using assms(5) snoc by (simp_all add: store_link_def)
    have "chain ?h tmrs ys new" using chain_snoc_update [of h tmrs as y q new] assms(1,2) snoc by simp
    moreover have "chain ?h new zs None = chain h new zs None"
      by (rule chain_cong) (use assms(4) snoc in auto)
    ultimately show ?thesis using assms(3) h' snoc by (auto simp: chain_append)
  qed
  then show "chain h' tmrs' (ys @ zs) None"
    "tmr_exp_time (h' x) = tmr_exp_time (h x)" "tmr_func (h' x) = tmr_func (h x)"
    "x \<notin> set ys \<Longrightarrow> h' x = h x" by auto
qed

lemma clr_loop_list:
  assumes "chain h tmrs ys cur" and "chain h cur zs None" and "distinct (ys @ zs)" and "tp \<notin> set ys"
  shows "\<exists>tmrs' h'. clr_loop tp (link_after ys) cur tmrs h = Some (tmrs', h') \<and>
    chain h' tmrs' (ys @ remove1 tp zs) None \<and>
    (\<forall>x. tmr_exp_time (h' x) = tmr_exp_time (h x) \<and> tmr_func (h' x) = tmr_func (h x))"
  using assms
proof (induction zs arbitrary: ys cur)
  case Nil
  then show ?case by (subst clr_loop.simps) (simp add: chain_append)
next
  case (Cons z zs)
  then have cur: "cur = Some z" by simp
  show ?case
  proof (cases "z = tp")
    case True
    obtain tmrs' h' where l: "store_link (link_after ys) (tmr_next (h tp)) tmrs h = (tmrs', h')" by fastforce
    have z: "chain h (tmr_next (h tp)) zs None" "set ys \<inter> set zs = {}" "distinct ys"
      using Cons.prems True by auto
    from store_link_chain [OF Cons.prems(1) z(3,1,2) l] cur True l show ?thesis
      by (subst clr_loop.simps) simp
  next
    case False
    have "chain h tmrs (ys @ [z]) (tmr_next (h z))"
      using Cons.prems(1) cur by (auto simp: chain_append)
    from Cons.IH [OF this] Cons.prems False have
      "\<exists>tmrs' h'. clr_loop tp (link_after (ys @ [z])) (tmr_next (h z)) tmrs h = Some (tmrs', h') \<and>
        chain h' tmrs' ((ys @ [z]) @ remove1 tp zs) None \<and>
        (\<forall>x. tmr_exp_time (h' x) = tmr_exp_time (h x) \<and> tmr_func (h' x) = tmr_func (h x))"
      by simp
    with cur False show ?thesis by (subst clr_loop.simps) simp
  qed
qed

lemma set_loop_list:
  assumes "chain h tmrs ys cur" and "chain h cur zs None" 
  shows "\<exists>nxt. set_loop e (link_after ys) cur h =
      Some (link_after (ys @ takeWhile (\<lambda>x. tmr_exp_time (h x) \<le> e) zs), nxt) \<and>
    chain h tmrs (ys @ takeWhile (\<lambda>x. tmr_exp_time (h x) \<le> e) zs) nxt \<and>
    chain h nxt (dropWhile (\<lambda>x. tmr_exp_time (h x) \<le> e) zs) None"
  using assms
proof (induction zs arbitrary: ys cur)
  case Nil
  then show ?case by (subst set_loop.simps) simp
next
  case (Cons z zs)
  then have cur: "cur = Some z" by simp
  show ?case
  proof (cases "tmr_exp_time (h z) \<le> e")
    case True
    have "chain h tmrs (ys @ [z]) (tmr_next (h z))"
      using Cons.prems(1) cur by (auto simp: chain_append)
    from Cons.IH [OF this] Cons.prems True cur show ?thesis
      by (subst set_loop.simps) (simp add: not_less [symmetric])
  next
    case False
    then have "e < tmr_exp_time (h z)" by simp
    with False Cons.prems cur show ?thesis by (subst set_loop.simps) simp
  qed
qed

section \<open>The operations on queues\<close>

lemma sorted_map_cong:
  "sorted (map f xs) \<Longrightarrow> (\<And>x. x \<in> set xs \<Longrightarrow> g x = f x) \<Longrightarrow> sorted (map g xs)"
  by (metis map_cong)

lemma sorted_map_remove1:
  "sorted (map f xs) \<Longrightarrow> sorted (map f (remove1 x xs))"
proof (induction xs)
  case (Cons y xs)
  then show ?case by (auto dest: notin_set_remove1 in_set_remove1 intro: set_remove1_subset [THEN subsetD])
qed simp

lemma tmrs_clrtimer_list:
  assumes "timers_queue tmrs h xs"
  shows "\<exists>tmrs' h'. tmrs_clrtimer tmrs tp h = Some (head_time tmrs h, head_time tmrs' h', tmrs', h') \<and>
    timers_queue tmrs' h' (remove1 tp xs) \<and>
    (\<forall>x. tmr_exp_time (h' x) = (if x = tp then TMR_NEVER else tmr_exp_time (h x)) \<and>
       tmr_func (h' x) = tmr_func (h x))"
proof -
  let ?h1 = "h(tp := (h tp)\<lparr>tmr_exp_time := TMR_NEVER\<rparr>)"
  have q: "chain h tmrs xs None" "distinct xs" "sorted (map (\<lambda>x. tmr_exp_time (h x)) xs)"
    using assms by (simp_all add: timers_queue_def)
  have "chain ?h1 tmrs xs None = chain h tmrs xs None" by (rule chain_cong) simp
  with q clr_loop_list [of ?h1 tmrs "[]" tmrs xs tp] obtain tmrs' h'
    where l: "clr_loop tp None tmrs tmrs ?h1 = Some (tmrs', h')"
      and c: "chain h' tmrs' (remove1 tp xs) None"
      and e: "\<And>x. tmr_exp_time (h' x) = tmr_exp_time (?h1 x)" "\<And>x. tmr_func (h' x) = tmr_func (?h1 x)"
    by auto
  have "sorted (map (\<lambda>x. tmr_exp_time (h' x)) (remove1 tp xs))"
    by (rule sorted_map_cong [OF sorted_map_remove1 [OF q(3)]]) (use e q(2) in auto)
  with l c e q(2) show ?thesis by (auto simp: tmrs_clrtimer_def timers_queue_def)
qed

text \<open>The place of a timer that expires at \<open>e\<close>: behind all those that expire no later.\<close>

definition insert_timer :: "(addr \<Rightarrow> clock_t) \<Rightarrow> clock_t \<Rightarrow> addr \<Rightarrow> addr list \<Rightarrow> addr list" where
  "insert_timer exp e tp xs =
     (let ys = remove1 tp xs in
      takeWhile (\<lambda>x. exp x \<le> e) ys @ tp # dropWhile (\<lambda>x. exp x \<le> e) ys)"

lemma sorted_insert_timer:
  assumes "sorted (map f ys)" and "tp \<notin> set ys" and "f tp = e"
  shows "sorted (map f (takeWhile (\<lambda>x. f x \<le> e) ys @ tp # dropWhile (\<lambda>x. f x \<le> e) ys))"
  using assms(1,2)
proof (induction ys)
  case Nil
  then show ?case by simp
next
  case (Cons y ys)
  show ?case
  proof (cases "f y \<le> e")
    case True
    with Cons show ?thesis
      by (auto simp: assms(3) dest: set_takeWhileD set_dropWhileD)
  next
    case False
    with Cons show ?thesis by (auto simp: assms(3) not_le)
  qed
qed

lemma tmrs_settimer_list:
  assumes "timers_queue tmrs h xs"
  shows "\<exists>tmrs' h'. tmrs_settimer tmrs tp e watchdog h =
      Some (head_time tmrs h, head_time tmrs' h', tmrs', h') \<and>
    timers_queue tmrs' h' (insert_timer (\<lambda>x. tmr_exp_time (h x)) e tp xs) \<and>
    (\<forall>x. tmr_exp_time (h' x) = (if x = tp then e else tmr_exp_time (h x)) \<and>
       tmr_func (h' x) = (if x = tp then watchdog else tmr_func (h x)))"
proof -
  let ?ys = "remove1 tp xs"
  obtain tmrs1 h1 where c: "tmrs_clrtimer tmrs tp h = Some (head_time tmrs h, head_time tmrs1 h1, tmrs1, h1)"
    and q: "timers_queue tmrs1 h1 ?ys"
    and e1: "\<And>x. tmr_exp_time (h1 x) = (if x = tp then TMR_NEVER else tmr_exp_time (h x))"
      "\<And>x. tmr_func (h1 x) = tmr_func (h x)"
    using tmrs_clrtimer_list [OF assms, of tp] by blast
  have tp: "tp \<notin> set ?ys" using assms by (simp add: timers_queue_def)
  define h2 where "h2 = h1(tp := (h1 tp)\<lparr>tmr_exp_time := e, tmr_func := watchdog\<rparr>)"
  let ?P = "\<lambda>x. tmr_exp_time (h2 x) \<le> e"
  let ?as = "takeWhile ?P ?ys" and ?bs = "dropWhile ?P ?ys"
  have "chain h2 tmrs1 ?ys None = chain h1 tmrs1 ?ys None" by (rule chain_cong) (simp add: h2_def)
  with q have "chain h2 tmrs1 ?ys None" by (simp add: timers_queue_def)
  with set_loop_list [of h2 tmrs1 "[]" tmrs1 ?ys e] obtain nxt
    where l: "set_loop e None tmrs1 h2 = Some (link_after ?as, nxt)"
      and ca: "chain h2 tmrs1 ?as nxt" and cb: "chain h2 nxt ?bs None"
    by auto
  define h3 where "h3 = h2(tp := (h2 tp)\<lparr>tmr_next := nxt\<rparr>)"
  have d: "distinct ?ys" using q by (simp add: timers_queue_def)
  have ab: "distinct (?as @ ?bs)" by (simp only: takeWhile_dropWhile_id d)
  have dis: "distinct ?as" "set ?as \<inter> set (tp # ?bs) = {}" "tp \<notin> set ?as" "tp \<notin> set ?bs"
    using ab [unfolded distinct_append] tp by (auto dest: set_takeWhileD set_dropWhileD)
  have ca3: "chain h3 tmrs1 ?as nxt" and cb3: "chain h3 (Some tp) (tp # ?bs) None"
  proof -
    have "chain h3 tmrs1 ?as nxt = chain h2 tmrs1 ?as nxt" "chain h3 nxt ?bs None = chain h2 nxt ?bs None"
      using dis by (intro chain_cong; auto simp: h3_def)+
    with ca cb show "chain h3 tmrs1 ?as nxt" "chain h3 (Some tp) (tp # ?bs) None" by (simp_all add: h3_def)
  qed
  obtain tmrs' h' where st: "store_link (link_after ?as) (Some tp) tmrs1 h3 = (tmrs', h')" by fastforce
  note sp = store_link_chain [OF ca3 dis(1) cb3 dis(2) st]
  have ex: "tmr_exp_time (h' x) = (if x = tp then e else tmr_exp_time (h x))"
    "tmr_func (h' x) = (if x = tp then watchdog else tmr_func (h x))" for x
    using sp(2,3) [of x] e1 by (auto simp: h3_def h2_def)
  have P: "takeWhile ?P ?ys = takeWhile (\<lambda>x. tmr_exp_time (h x) \<le> e) ?ys"
    "dropWhile ?P ?ys = dropWhile (\<lambda>x. tmr_exp_time (h x) \<le> e) ?ys"
    by (rule takeWhile_cong [OF refl] dropWhile_cong [OF refl];
        use tp e1 in \<open>auto simp: h2_def\<close>)+
  have "tmrs_settimer tmrs tp e watchdog h = Some (head_time tmrs h, head_time tmrs' h', tmrs', h')"
    using c l st by (simp add: tmrs_settimer_def Let_def h2_def h3_def)
  moreover have "timers_queue tmrs' h' (?as @ tp # ?bs)"
  proof -
    let ?f = "\<lambda>x. tmr_exp_time (h' x)"
    have "sorted (map ?f ?ys)"
      by (rule sorted_map_cong [of "\<lambda>x. tmr_exp_time (h1 x)"])
        (use q tp e1 ex in \<open>auto simp: timers_queue_def\<close>)
    moreover have "?as = takeWhile (\<lambda>x. ?f x \<le> e) ?ys" "?bs = dropWhile (\<lambda>x. ?f x \<le> e) ?ys"
      by (rule takeWhile_cong [OF refl] dropWhile_cong [OF refl];
          use tp e1 ex in \<open>auto simp: h2_def\<close>)+
    ultimately have "sorted (map ?f (?as @ tp # ?bs))"
      using sorted_insert_timer [of ?f ?ys tp e] tp ex by simp
    with sp(1) ab [unfolded distinct_append] dis show ?thesis by (auto simp: timers_queue_def)
  qed
  ultimately show ?thesis using ex by (auto simp: insert_timer_def P Let_def)
qed

text \<open>Watchdogs that leave the queue alone: what they do to the rest of the state is \<open>act\<close>.\<close>

definition quiet_watchdogs :: "(nat \<Rightarrow> addr \<Rightarrow> 's \<Rightarrow> 's) \<Rightarrow> 's watchdogs" where
  "quiet_watchdogs act f tp = (\<lambda>(q, h, s). Some (q, h, act f tp s))"

lemma tmrs_exptimers_list:
  assumes "timers_queue tmrs h xs"
  shows "\<exists>tmrs' h'. tmrs_exptimers (quiet_watchdogs act) now tmrs h s =
      Some (head_time tmrs' h', tmrs', h',
        fold (\<lambda>tp. act (tmr_func (h tp)) tp) (takeWhile (\<lambda>x. tmr_exp_time (h x) \<le> now) xs) s) \<and>
    timers_queue tmrs' h' (dropWhile (\<lambda>x. tmr_exp_time (h x) \<le> now) xs) \<and>
    (\<forall>x. tmr_exp_time (h' x) =
       (if x \<in> set (takeWhile (\<lambda>x. tmr_exp_time (h x) \<le> now) xs) then TMR_NEVER else tmr_exp_time (h x)))"
  using assms
proof (induction xs arbitrary: tmrs h s)
  case Nil
  then show ?case
    by (subst tmrs_exptimers.simps) (auto simp: timers_queue_def head_time_def)
next
  case (Cons x xs)
  then have tmrs: "tmrs = Some x" and c: "chain h (tmr_next (h x)) xs None" and x: "x \<notin> set xs"
    and d: "distinct xs" and so: "sorted (map (\<lambda>x. tmr_exp_time (h x)) xs)"
    by (auto simp: timers_queue_def)
  show ?case
  proof (cases "tmr_exp_time (h x) \<le> now")
    case False
    with Cons.prems tmrs show ?thesis
      by (subst tmrs_exptimers.simps) (simp add: head_time_def)
  next
    case True
    let ?h = "h(x := (h x)\<lparr>tmr_exp_time := TMR_NEVER\<rparr>)" and ?q = "tmr_next (h x)"
    have "timers_queue ?q ?h xs"
      unfolding timers_queue_def
      using c d x so chain_cong [of xs ?h h ?q None] by (auto intro: sorted_map_cong)
    from Cons.IH [OF this, of "act (tmr_func (h x)) x s"] obtain tmrs' h' where
      IH: "tmrs_exptimers (quiet_watchdogs act) now ?q ?h (act (tmr_func (h x)) x s) =
        Some (head_time tmrs' h', tmrs', h', fold (\<lambda>tp. act (tmr_func (?h tp)) tp)
          (takeWhile (\<lambda>x. tmr_exp_time (?h x) \<le> now) xs) (act (tmr_func (h x)) x s))"
      "timers_queue tmrs' h' (dropWhile (\<lambda>x. tmr_exp_time (?h x) \<le> now) xs)"
      "\<forall>y. tmr_exp_time (h' y) = (if y \<in> set (takeWhile (\<lambda>x. tmr_exp_time (?h x) \<le> now) xs)
        then TMR_NEVER else tmr_exp_time (?h y))" by blast
    have same: "takeWhile (\<lambda>x. tmr_exp_time (?h x) \<le> now) xs = takeWhile (\<lambda>x. tmr_exp_time (h x) \<le> now) xs"
      "dropWhile (\<lambda>x. tmr_exp_time (?h x) \<le> now) xs = dropWhile (\<lambda>x. tmr_exp_time (h x) \<le> now) xs"
      by (rule takeWhile_cong [OF refl] dropWhile_cong [OF refl]; use x in auto)+
    have "tmr_func (?h y) = tmr_func (h y)" for y by simp
    with IH [unfolded same] True tmrs show ?thesis
      by (subst tmrs_exptimers.simps) (auto simp: quiet_watchdogs_def)
  qed
qed

lemma tmrs_exptimers_post:
  assumes "tmrs_exptimers run now tmrs h s = Some r"
  shows "case r of (new_head, tmrs', h', s') \<Rightarrow> new_head = head_time tmrs' h' \<and>
    (\<forall>p. tmrs' = Some p \<longrightarrow> now < tmr_exp_time (h' p))"
proof (rule tmrs_exptimers.raw_induct [OF _ assms, of "\<lambda>run now tmrs h s r. case r of
      (new_head, tmrs', h', s') \<Rightarrow> new_head = head_time tmrs' h' \<and>
      (\<forall>p. tmrs' = Some p \<longrightarrow> now < tmr_exp_time (h' p))"], goal_cases)
  case (1 exptimers run now tmrs h s r)
  note IH = "1"(1) and eq = "1"(2)
  show ?case
  proof (cases tmrs)
    case None
    with eq show ?thesis by (auto simp: head_time_def)
  next
    case (Some tp)
    show ?thesis
    proof (cases "tmr_exp_time (h tp) \<le> now")
      case True
      with eq Some obtain t where "exptimers run now (fst t) (fst (snd t)) (snd (snd t)) = Some r"
        by (auto simp: bind_eq_Some_conv)
      then show ?thesis by (rule IH)
    next
      case False
      with eq Some show ?thesis by (auto simp: head_time_def)
    qed
  qed
qed

lemma sorted_while_filter:
  assumes "sorted (map f xs)"
  shows "takeWhile (\<lambda>x. f x \<le> t) xs = filter (\<lambda>x. f x \<le> t) xs"
    "dropWhile (\<lambda>x. f x \<le> t) xs = filter (\<lambda>x. t < f x) xs"
proof -
  have "takeWhile (\<lambda>x. f x \<le> t) xs = filter (\<lambda>x. f x \<le> t) xs \<and>
    dropWhile (\<lambda>x. f x \<le> t) xs = filter (\<lambda>x. t < f x) xs"
    using assms
  proof (induction xs)
    case (Cons x xs)
    show ?case
    proof (cases "f x \<le> t")
      case True
      with Cons show ?thesis by auto
    next
      case False
      then have "t < f y" if "y \<in> set xs" for y using that Cons.prems by fastforce
      with False show ?thesis by (auto simp: not_le filter_empty_conv filter_id_conv)
    qed
  qed simp
  then show "takeWhile (\<lambda>x. f x \<le> t) xs = filter (\<lambda>x. f x \<le> t) xs"
    "dropWhile (\<lambda>x. f x \<le> t) xs = filter (\<lambda>x. t < f x) xs" by simp_all
qed

text \<open>
  C34. Setting a timer keeps the queue in order: on a well-formed queue \<open>tmrs_settimer\<close> returns, the queue
  afterwards is well-formed again and contains the timer exactly once, behind all timers that expire no
  later and before all that expire later, with the others in their old order; only this timer's time and
  function change; and the times returned are those of the old and the new first timer.
\<close>

theorem settimer_keeps_queue:
  assumes "timers_queue tmrs h xs"
  shows "\<exists>tmrs' h'. tmrs_settimer tmrs tp e watchdog h =
      Some (head_time tmrs h, head_time tmrs' h', tmrs', h') \<and>
    timers_queue tmrs' h' (insert_timer (\<lambda>x. tmr_exp_time (h x)) e tp xs) \<and>
    remove1 tp (insert_timer (\<lambda>x. tmr_exp_time (h x)) e tp xs) = remove1 tp xs \<and>
    (\<forall>x. tmr_exp_time (h' x) = (if x = tp then e else tmr_exp_time (h x)) \<and>
       tmr_func (h' x) = (if x = tp then watchdog else tmr_func (h x)))"
proof -
  have "tp \<notin> set (takeWhile P (remove1 tp xs))" for P
    using assms by (auto simp: timers_queue_def dest: set_takeWhileD)
  then have "remove1 tp (insert_timer (\<lambda>x. tmr_exp_time (h x)) e tp xs) = remove1 tp xs"
    by (simp add: insert_timer_def Let_def remove1_append)
  with tmrs_settimer_list [OF assms, of tp e watchdog] show ?thesis by auto
qed

text \<open>
  Clearing a timer removes it from the queue, wherever it is, and leaves the rest of the queue as it
  was; clearing a timer that is not in the queue changes no other timer.
\<close>

theorem clrtimer_removes:
  assumes "timers_queue tmrs h xs"
  shows "\<exists>tmrs' h'. tmrs_clrtimer tmrs tp h = Some (head_time tmrs h, head_time tmrs' h', tmrs', h') \<and>
    timers_queue tmrs' h' (remove1 tp xs) \<and> tmr_exp_time (h' tp) = TMR_NEVER \<and>
    (\<forall>x. x \<noteq> tp \<longrightarrow> tmr_exp_time (h' x) = tmr_exp_time (h x))"
  using tmrs_clrtimer_list [OF assms, of tp] by auto

text \<open>
  Expiring runs exactly the watchdogs that are due, once each and in the order of their expiration,
  when the watchdogs themselves leave the queue alone; the timers not due stay queued. Whatever the
  watchdogs do to the queue, when the function returns no timer at the head is due and the time it reports
  is that of the first timer left.
\<close>

theorem exptimers_runs_due_timers:
  assumes "timers_queue tmrs h xs"
  shows "(\<exists>tmrs' h'. tmrs_exptimers (quiet_watchdogs act) now tmrs h s =
      Some (head_time tmrs' h', tmrs', h',
        fold (\<lambda>tp. act (tmr_func (h tp)) tp) (filter (\<lambda>x. tmr_exp_time (h x) \<le> now) xs) s) \<and>
    timers_queue tmrs' h' (filter (\<lambda>x. now < tmr_exp_time (h x)) xs)) \<and>
    (\<forall>run new_head tmrs' h' s'. tmrs_exptimers run now tmrs h s = Some (new_head, tmrs', h', s') \<longrightarrow>
       new_head = head_time tmrs' h' \<and> (\<forall>p. tmrs' = Some p \<longrightarrow> now < tmr_exp_time (h' p)))"
proof -
  have so: "sorted (map (\<lambda>x. tmr_exp_time (h x)) xs)" using assms by (simp add: timers_queue_def)
  from tmrs_exptimers_list [OF assms, of act now s] sorted_while_filter [OF so, of now]
    tmrs_exptimers_post [of _ now tmrs h s]
  show ?thesis by fastforce
qed

text \<open>A queue of two timers, at addresses 1 and 2.\<close>

definition example_heap :: heap where
  "example_heap = (\<lambda>_. \<lparr>tmr_next = None, tmr_exp_time = 0, tmr_func = 0, tmr_arg = 0\<rparr>)
     (1 := \<lparr>tmr_next = Some 2, tmr_exp_time = 10, tmr_func = 7, tmr_arg = 0\<rparr>,
      2 := \<lparr>tmr_next = None, tmr_exp_time = 20, tmr_func = 8, tmr_arg = 0\<rparr>)"

lemma example_queue: "timers_queue (Some 1) example_heap [1, 2]"
  by (simp add: timers_queue_def example_heap_def)

theorem settimer_keeps_queue_witness:
  "\<exists>tmrs' h'. tmrs_settimer (Some 1) 3 15 9 example_heap = Some (10, head_time tmrs' h', tmrs', h') \<and>
     timers_queue tmrs' h' [1, 3, 2]"
  using settimer_keeps_queue [OF example_queue, of 3 15 9]
  by (auto simp: insert_timer_def head_time_def example_heap_def)

theorem clrtimer_removes_witness:
  "\<exists>next_time tmrs' h'. tmrs_clrtimer (Some 1) 1 example_heap = Some (10, next_time, tmrs', h') \<and>
     timers_queue tmrs' h' [2]"
  using clrtimer_removes [OF example_queue, of 1] by (auto simp: head_time_def example_heap_def)

theorem exptimers_runs_due_timers_witness:
  "\<exists>new_head tmrs' h'. tmrs_exptimers (quiet_watchdogs (\<lambda>f tp log. log @ [(f, tp)])) 15 (Some 1) example_heap [] =
     Some (new_head, tmrs', h', [(7, 1)]) \<and> timers_queue tmrs' h' [2]"
  using exptimers_runs_due_timers [OF example_queue, of "\<lambda>f tp log. log @ [(f, tp)]" 15 "[]"]
  by (auto simp: example_heap_def)

end
