(* ===== verification/Sys_Timers.thy ===== *)
theory Sys_Timers
  imports Timers
begin

text \<open>
  Watchdog timers for system processes (lib/libsys/timers.c): one queue per process, and the alarm that
  the process asks the kernel's clock task for. A panic ends the process: the result is \<open>None\<close>, as it is
  when a watchdog never returns.
\<close>

section \<open>The functions\<close>

text \<open>
  The two static variables, the store, and the alarm that is set at the clock task (0 for none).
\<close>

record timer_env =
  timers :: "addr option"
  timer_heap :: heap
  expiring :: bool
  alarm :: clock_t

text \<open>\<open>sys_setalarm\<close>, which may fail; an absolute time of 0 cancels the alarm.\<close>

definition sys_setalarm :: "(clock_t \<Rightarrow> bool) \<Rightarrow> clock_t \<Rightarrow> timer_env \<Rightarrow> timer_env option" where
  "sys_setalarm works exp_time env = (if works exp_time then Some (env\<lparr>alarm := exp_time\<rparr>) else None)"

definition init_timer :: "addr \<Rightarrow> timer_env \<Rightarrow> timer_env" where
  "init_timer tp env = env\<lparr>timer_heap := tmr_inittimer tp (timer_heap env)\<rparr>"

text \<open>\<open>uptime\<close> is what \<open>getticks\<close> delivers, \<open>None\<close> when it fails.\<close>

definition set_timer ::
  "(clock_t \<Rightarrow> bool) \<Rightarrow> clock_t option \<Rightarrow> addr \<Rightarrow> int \<Rightarrow> nat \<Rightarrow> int \<Rightarrow> timer_env \<Rightarrow> timer_env option" where
  "set_timer works uptime tp ticks watchdog arg env = do {
     now \<leftarrow> uptime;
     let h = (timer_heap env)(tp := (timer_heap env tp)\<lparr>tmr_arg := arg\<rparr>);
     (prev_time, next_time, q, h') \<leftarrow> tmrs_settimer (timers env) tp (now + word_of_int ticks) watchdog h;
     let env' = env\<lparr>timers := q, timer_heap := h'\<rparr>;
     if \<not> expiring env \<and> (prev_time = 0 \<or> prev_time > next_time)
     then sys_setalarm works next_time env' else Some env'
   }"

definition cancel_timer :: "(clock_t \<Rightarrow> bool) \<Rightarrow> addr \<Rightarrow> timer_env \<Rightarrow> timer_env option" where
  "cancel_timer works tp env = do {
     (prev_time, next_time, q, h') \<leftarrow> tmrs_clrtimer (timers env) tp (timer_heap env);
     let env' = env\<lparr>timers := q, timer_heap := h'\<rparr>;
     if \<not> expiring env \<and> (prev_time < next_time \<or> next_time = 0)
     then sys_setalarm works next_time env' else Some env'
   }"

text \<open>A watchdog works on the timers and on the rest \<open>'s\<close> of the process's state.\<close>

type_synonym 's watchdog_code = "nat \<Rightarrow> addr \<Rightarrow> timer_env \<times> 's \<Rightarrow> (timer_env \<times> 's) option"

definition as_watchdogs :: "'s watchdog_code \<Rightarrow> (timer_env \<times> 's) watchdogs" where
  "as_watchdogs run f tp = (\<lambda>(q, h, env, s). do {
     (env', s') \<leftarrow> run f tp (env\<lparr>timers := q, timer_heap := h\<rparr>, s);
     Some (timers env', timer_heap env', env', s')
   })"

definition expire_timers ::
  "(clock_t \<Rightarrow> bool) \<Rightarrow> 's watchdog_code \<Rightarrow> clock_t \<Rightarrow> timer_env \<times> 's \<Rightarrow> (timer_env \<times> 's) option" where
  "expire_timers works run now = (\<lambda>(env, s). do {
     let env1 = env\<lparr>expiring := True\<rparr>;
     (next_time, q, h, env2, s') \<leftarrow>
       tmrs_exptimers (as_watchdogs run) now (timers env1) (timer_heap env1) (env1, s);
     let env3 = env2\<lparr>timers := q, timer_heap := h, expiring := False\<rparr>;
     env4 \<leftarrow> (if next_time > 0 then sys_setalarm works next_time env3 else Some env3);
     Some (env4, s')
   })"

section \<open>The alarm is set in time\<close>

text \<open>
  The queue is well-formed and no timer expires at time 0, which the code takes for "none"; and unless
  the watchdogs are being run, an alarm is pending whenever a timer is, and it goes off no later than the
  first timer is due.
\<close>

definition queue_ok :: "timer_env \<Rightarrow> bool" where
  "queue_ok env \<longleftrightarrow> (\<exists>xs. timers_queue (timers env) (timer_heap env) xs \<and>
     list_all (\<lambda>x. tmr_exp_time (timer_heap env x) \<noteq> 0) xs)"

definition alarm_in_time :: "timer_env \<Rightarrow> bool" where
  "alarm_in_time env \<longleftrightarrow> timers env = None \<or>
     alarm env \<noteq> 0 \<and> alarm env \<le> head_time (timers env) (timer_heap env)"

lemma queue_ok_head: "queue_ok env \<Longrightarrow> head_time (timers env) (timer_heap env) = 0 \<longleftrightarrow> timers env = None"
  by (auto simp: queue_ok_def timers_queue_def head_time_def chain_head split: option.splits elim: chain.elims)

lemma timers_queue_cong:
  assumes "\<And>x. tmr_next (h' x) = tmr_next (h x)" and "\<And>x. tmr_exp_time (h' x) = tmr_exp_time (h x)"
  shows "timers_queue q h' xs = timers_queue q h xs"
  using assms chain_cong [of xs h' h q None] by (simp add: timers_queue_def)

lemma set_timer_list:
  assumes "timers_queue (timers env) (timer_heap env) xs"
    and "set_timer works (Some now) tp ticks watchdog arg env = Some env'"
  shows "timers_queue (timers env') (timer_heap env')
      (insert_timer (\<lambda>x. tmr_exp_time (timer_heap env x)) (now + word_of_int ticks) tp xs)"
    "tmr_exp_time (timer_heap env' x) =
      (if x = tp then now + word_of_int ticks else tmr_exp_time (timer_heap env x))"
    "expiring env' = expiring env"
    "\<not> expiring env \<Longrightarrow>
      alarm env' = (if head_time (timers env) (timer_heap env) = 0 \<or>
          head_time (timers env) (timer_heap env) > head_time (timers env') (timer_heap env')
        then head_time (timers env') (timer_heap env') else alarm env)"
proof -
  let ?h = "(timer_heap env)(tp := (timer_heap env tp)\<lparr>tmr_arg := arg\<rparr>)" and ?e = "now + word_of_int ticks"
  have q: "timers_queue (timers env) ?h xs"
    using assms(1) by (subst timers_queue_cong [of ?h "timer_heap env"]) auto
  have hd: "head_time (timers env) ?h = head_time (timers env) (timer_heap env)"
    by (auto simp: head_time_def split: option.splits)
  have ex: "tmr_exp_time (?h x) = tmr_exp_time (timer_heap env x)" for x by simp
  obtain q' h' where s: "tmrs_settimer (timers env) tp ?e watchdog ?h =
      Some (head_time (timers env) (timer_heap env), head_time q' h', q', h')"
    and q': "timers_queue q' h' (insert_timer (\<lambda>x. tmr_exp_time (timer_heap env x)) ?e tp xs)"
    and e: "\<And>x. tmr_exp_time (h' x) = (if x = tp then ?e else tmr_exp_time (timer_heap env x))"
    using tmrs_settimer_list [OF q, of tp ?e watchdog] unfolding hd ex by blast
  have env': "timers env' = q'" "timer_heap env' = h'" "expiring env' = expiring env"
    "\<not> expiring env \<Longrightarrow> alarm env' = (if head_time (timers env) (timer_heap env) = 0 \<or>
      head_time (timers env) (timer_heap env) > head_time q' h' then head_time q' h' else alarm env)"
    using assms(2) s by (auto simp: set_timer_def sys_setalarm_def Let_def split: if_splits)
  with q' e show "timers_queue (timers env') (timer_heap env')
      (insert_timer (\<lambda>x. tmr_exp_time (timer_heap env x)) (now + word_of_int ticks) tp xs)"
    "tmr_exp_time (timer_heap env' x) =
      (if x = tp then now + word_of_int ticks else tmr_exp_time (timer_heap env x))"
    "expiring env' = expiring env"
    "\<not> expiring env \<Longrightarrow>
      alarm env' = (if head_time (timers env) (timer_heap env) = 0 \<or>
          head_time (timers env) (timer_heap env) > head_time (timers env') (timer_heap env')
        then head_time (timers env') (timer_heap env') else alarm env)"
    by simp_all
qed

lemma set_insert_timer: "set (insert_timer exp e tp xs) \<subseteq> insert tp (set xs)"
  using set_remove1_subset [of tp xs]
  by (auto simp: insert_timer_def Let_def dest: set_takeWhileD set_dropWhileD)

lemma set_timer_in_time:
  assumes "queue_ok env" and "alarm_in_time env" and "\<not> expiring env"
    and "set_timer works (Some now) tp ticks watchdog arg env = Some env'"
    and "now + word_of_int ticks \<noteq> 0"
  shows "queue_ok env' \<and> alarm_in_time env'"
proof -
  obtain xs where xs: "timers_queue (timers env) (timer_heap env) xs"
    "list_all (\<lambda>x. tmr_exp_time (timer_heap env x) \<noteq> 0) xs"
    using assms(1) by (auto simp: queue_ok_def)
  note s = set_timer_list [OF xs(1) assms(4)]
  have "list_all (\<lambda>x. tmr_exp_time (timer_heap env' x) \<noteq> 0)
      (insert_timer (\<lambda>x. tmr_exp_time (timer_heap env x)) (now + word_of_int ticks) tp xs)"
    using xs(2) assms(5) s(2) set_insert_timer by (fastforce simp: list_all_iff)
  with s(1) have q: "queue_ok env'" by (auto simp: queue_ok_def)
  have "alarm_in_time env'"
    using s(4) [OF assms(3)] assms(2) queue_ok_head [OF q] queue_ok_head [OF assms(1)]
    by (auto simp: alarm_in_time_def not_less split: if_splits)
  with q show ?thesis by blast
qed

lemma cancel_timer_in_time:
  assumes "queue_ok env" and "alarm_in_time env" and "\<not> expiring env"
    and "cancel_timer works tp env = Some env'"
  shows "queue_ok env' \<and> alarm_in_time env'"
proof -
  obtain xs where xs: "timers_queue (timers env) (timer_heap env) xs"
    "list_all (\<lambda>x. tmr_exp_time (timer_heap env x) \<noteq> 0) xs"
    using assms(1) by (auto simp: queue_ok_def)
  obtain q h where c: "tmrs_clrtimer (timers env) tp (timer_heap env) =
      Some (head_time (timers env) (timer_heap env), head_time q h, q, h)"
    and q: "timers_queue q h (remove1 tp xs)"
    and e: "\<And>x. tmr_exp_time (h x) = (if x = tp then TMR_NEVER else tmr_exp_time (timer_heap env x))"
    using tmrs_clrtimer_list [OF xs(1), of tp] by blast
  have env': "timers env' = q" "timer_heap env' = h"
    "alarm env' = (if head_time (timers env) (timer_heap env) < head_time q h \<or> head_time q h = 0
      then head_time q h else alarm env)"
    using assms(3,4) c by (auto simp: cancel_timer_def sys_setalarm_def Let_def split: if_splits)
  have "list_all (\<lambda>x. tmr_exp_time (h x) \<noteq> 0) (remove1 tp xs)"
    using xs(2) e set_remove1_subset [of tp xs] by (auto simp: list_all_iff TMR_NEVER_def)
  with q env' have ok: "queue_ok env'" by (auto simp: queue_ok_def)
  have "head_time (timers env) (timer_heap env) \<le> head_time q h" if "q \<noteq> None"
  proof (cases "remove1 tp xs")
    case Nil
    with q that show ?thesis by (simp add: timers_queue_def)
  next
    case (Cons y ys)
    have "set (remove1 tp xs) = set xs - {tp}" using xs(1) by (simp add: timers_queue_def)
    with Cons have y: "y \<in> set xs" "y \<noteq> tp" by auto
    have "head_time q h = tmr_exp_time (timer_heap env y)"
      using q Cons y(2) e by (simp add: timers_queue_def head_time_def)
    moreover have "head_time (timers env) (timer_heap env) \<le> tmr_exp_time (timer_heap env y)"
      using xs(1) y(1) by (cases xs) (auto simp: timers_queue_def head_time_def)
    ultimately show ?thesis by simp
  qed
  then have "alarm_in_time env'"
    using env' assms(2) queue_ok_head [OF ok] queue_ok_head [OF assms(1)]
    by (auto simp: alarm_in_time_def not_less split: if_splits)
  with ok show ?thesis by blast
qed

text \<open>Watchdogs that keep the queue well-formed, as those that use only this interface do.\<close>

definition keeps_queue :: "'s watchdog_code \<Rightarrow> bool" where
  "keeps_queue run \<longleftrightarrow> (\<forall>f tp env s env' s'.
     queue_ok env \<longrightarrow> run f tp (env, s) = Some (env', s') \<longrightarrow> queue_ok env')"

lemma queue_ok_pop:
  assumes "queue_ok (env\<lparr>timers := Some tp, timer_heap := h\<rparr>)"
  shows "queue_ok (env'\<lparr>timers := tmr_next (h tp), timer_heap := h(tp := (h tp)\<lparr>tmr_exp_time := TMR_NEVER\<rparr>)\<rparr>)"
proof -
  let ?h = "h(tp := (h tp)\<lparr>tmr_exp_time := TMR_NEVER\<rparr>)"
  from assms obtain xs where x: "timers_queue (Some tp) h xs" "list_all (\<lambda>x. tmr_exp_time (h x) \<noteq> 0) xs"
    by (auto simp: queue_ok_def)
  then obtain ys where xs: "xs = tp # ys" by (cases xs) (auto simp: timers_queue_def)
  have "timers_queue (tmr_next (h tp)) ?h ys"
    using x(1) xs chain_cong [of ys ?h h "tmr_next (h tp)" None]
    by (auto simp: timers_queue_def intro: sorted_map_cong)
  moreover have "list_all (\<lambda>x. tmr_exp_time (?h x) \<noteq> 0) ys"
    using x(2) xs by (auto simp: list_all_iff TMR_NEVER_def)
  ultimately show ?thesis unfolding queue_ok_def by (intro exI [of _ ys]) simp
qed

text \<open>An invariant of the timers and the process's state that every watchdog keeps.\<close>

definition pop_timer :: "addr \<Rightarrow> timer_env \<Rightarrow> timer_env" where
  "pop_timer tp env = env\<lparr>timers := tmr_next (timer_heap env tp),
     timer_heap := (timer_heap env)(tp := (timer_heap env tp)\<lparr>tmr_exp_time := TMR_NEVER\<rparr>)\<rparr>"

lemma exptimers_invariant:
  assumes "tmrs_exptimers (as_watchdogs run) now q h (env, s) = Some (nt, q', h', env', s')"
    and "J (env\<lparr>timers := q, timer_heap := h\<rparr>, s)"
    and step: "\<And>env s tp env' s'. J (env, s) \<Longrightarrow> timers env = Some tp \<Longrightarrow>
      run (tmr_func (timer_heap env tp)) tp (pop_timer tp env, s) = Some (env', s') \<Longrightarrow> J (env', s')"
  shows "J (env'\<lparr>timers := q', timer_heap := h'\<rparr>, s')"
proof -
  have "as_watchdogs run = as_watchdogs run \<longrightarrow> J ((fst (env, s))\<lparr>timers := q, timer_heap := h\<rparr>, snd (env, s)) \<longrightarrow>
      (case (nt, q', h', env', s') of (_, q', h', env', s') \<Rightarrow> J (env'\<lparr>timers := q', timer_heap := h'\<rparr>, s'))"
  proof (rule tmrs_exptimers.raw_induct [OF _ assms(1), of "\<lambda>run' now q h es r.
      run' = as_watchdogs run \<longrightarrow> J ((fst es)\<lparr>timers := q, timer_heap := h\<rparr>, snd es) \<longrightarrow>
      (case r of (_, q', h', env', s') \<Rightarrow> J (env'\<lparr>timers := q', timer_heap := h'\<rparr>, s'))"], goal_cases)
    case (1 exptimers run' now q h es r)
    note IH = "1"(1) and eq = "1"(2)
    show ?case
    proof (intro impI)
      assume run': "run' = as_watchdogs run" and ok: "J ((fst es)\<lparr>timers := q, timer_heap := h\<rparr>, snd es)"
      show "case r of (_, q', h', env', s') \<Rightarrow> J (env'\<lparr>timers := q', timer_heap := h'\<rparr>, s')"
      proof (cases "\<exists>tp. q = Some tp \<and> tmr_exp_time (h tp) \<le> now")
        case False
        with eq ok show ?thesis by (cases es) (auto split: option.splits if_splits)
      next
        case True
        then obtain tp where tp: "q = Some tp" "tmr_exp_time (h tp) \<le> now" by blast
        from eq tp run' obtain env' s' where
          r: "run (tmr_func (h tp)) tp (pop_timer tp ((fst es)\<lparr>timers := q, timer_heap := h\<rparr>), snd es) = Some (env', s')"
          and rest: "exptimers run' now (timers env') (timer_heap env') (env', s') = Some r"
          by (cases es) (auto simp: as_watchdogs_def pop_timer_def bind_eq_Some_conv)
        have "J (env', s')" using step [OF ok, of tp env' s'] r tp(1) by simp
        with IH [OF rest] run' show ?thesis by simp
      qed
    qed
  qed
  with assms(2) show ?thesis by simp
qed

lemma expire_timers_invariant:
  assumes "expire_timers works run now (env, s) = Some (env', s')"
    and "J (env\<lparr>expiring := True\<rparr>, s)"
    and "\<And>env s tp env' s'. J (env, s) \<Longrightarrow> timers env = Some tp \<Longrightarrow>
      run (tmr_func (timer_heap env tp)) tp (pop_timer tp env, s) = Some (env', s') \<Longrightarrow> J (env', s')"
  shows "\<exists>env2. J (env2, s') \<and> timers env' = timers env2 \<and> timer_heap env' = timer_heap env2 \<and>
    \<not> expiring env' \<and>
    (head_time (timers env2) (timer_heap env2) \<noteq> 0 \<longrightarrow> alarm env' = head_time (timers env2) (timer_heap env2))"
proof -
  let ?e1 = "env\<lparr>expiring := True\<rparr>"
  from assms(1) obtain nt q h env2 where
    t: "tmrs_exptimers (as_watchdogs run) now (timers ?e1) (timer_heap ?e1) (?e1, s) = Some (nt, q, h, env2, s')"
    and e: "(if nt > 0 then sys_setalarm works nt (env2\<lparr>timers := q, timer_heap := h, expiring := False\<rparr>)
      else Some (env2\<lparr>timers := q, timer_heap := h, expiring := False\<rparr>)) = Some env'"
    by (auto simp: expire_timers_def Let_def bind_eq_Some_conv)
  have "J (env2\<lparr>timers := q, timer_heap := h\<rparr>, s')"
    by (rule exptimers_invariant [OF t, of J]) (use assms(2,3) in auto)
  moreover have "nt = head_time q h" using tmrs_exptimers_post [OF t] by simp
  moreover have "nt > 0 \<longleftrightarrow> nt \<noteq> 0" by (simp add: word_gt_0)
  ultimately show ?thesis using e
    by (intro exI [of _ "env2\<lparr>timers := q, timer_heap := h\<rparr>"]) (auto simp: sys_setalarm_def split: if_splits)
qed

lemma expire_timers_post:
  assumes "expire_timers works run now (env, s) = Some (env', s')"
  shows "\<forall>p. timers env' = Some p \<longrightarrow> now < tmr_exp_time (timer_heap env' p)"
proof -
  let ?e1 = "env\<lparr>expiring := True\<rparr>"
  from assms obtain nt q h env2 where
    t: "tmrs_exptimers (as_watchdogs run) now (timers ?e1) (timer_heap ?e1) (?e1, s) = Some (nt, q, h, env2, s')"
    and e: "timers env' = q" "timer_heap env' = h"
    by (auto simp: expire_timers_def Let_def bind_eq_Some_conv sys_setalarm_def split: if_splits)
  with tmrs_exptimers_post [OF t] show ?thesis by simp
qed

lemma expire_timers_in_time:
  assumes "queue_ok env" and "keeps_queue run"
    and "expire_timers works run now (env, s) = Some (env', s')"
  shows "queue_ok env' \<and> alarm_in_time env' \<and>
    (\<forall>p. timers env' = Some p \<longrightarrow> now < tmr_exp_time (timer_heap env' p))"
proof -
  have "\<exists>env2. (case (env2, s') of (e, _) \<Rightarrow> queue_ok e) \<and> timers env' = timers env2 \<and>
      timer_heap env' = timer_heap env2 \<and> \<not> expiring env' \<and>
      (head_time (timers env2) (timer_heap env2) \<noteq> 0 \<longrightarrow> alarm env' = head_time (timers env2) (timer_heap env2))"
  proof (rule expire_timers_invariant [OF assms(3), of "\<lambda>(e, _). queue_ok e"], goal_cases)
    case 1
    then show ?case using assms(1) by (simp add: queue_ok_def)
  next
    case (2 env s tp env' s')
    then have "queue_ok (pop_timer tp env)"
      using queue_ok_pop [where tp = tp and h = "timer_heap env" and env = env and env' = env] by (simp add: pop_timer_def queue_ok_def)
    with 2 assms(2) show ?case unfolding keeps_queue_def by blast
  qed
  then obtain env2 where "queue_ok env2" "timers env' = timers env2" "timer_heap env' = timer_heap env2"
    "head_time (timers env2) (timer_heap env2) \<noteq> 0 \<longrightarrow> alarm env' = head_time (timers env2) (timer_heap env2)"
    by auto
  then show ?thesis using expire_timers_post [OF assms(3)] queue_ok_head [of env2]
    by (auto simp: queue_ok_def alarm_in_time_def)
qed

lemma set_timer_returns:
  assumes "queue_ok env"
  shows "\<exists>env'. set_timer (\<lambda>_. True) (Some now) tp ticks watchdog arg env = Some env'"
proof -
  let ?h = "(timer_heap env)(tp := (timer_heap env tp)\<lparr>tmr_arg := arg\<rparr>)"
  from assms obtain xs where "timers_queue (timers env) (timer_heap env) xs" by (auto simp: queue_ok_def)
  then have "timers_queue (timers env) ?h xs"
    by (subst timers_queue_cong [of ?h "timer_heap env"]) auto
  from tmrs_settimer_list [OF this, of tp "now + word_of_int ticks" watchdog]
  obtain p n q h where "tmrs_settimer (timers env) tp (now + word_of_int ticks) watchdog ?h = Some (p, n, q, h)"
    by blast
  then show ?thesis by (simp add: set_timer_def sys_setalarm_def Let_def)
qed

text \<open>
  C22. A process that uses its watchdog timers through this interface never misses one: whenever a timer is
  pending, an alarm is set at the clock task that goes off no later than the first timer is due. Setting
  and cancelling timers keep this, and so does running the due watchdogs, after which moreover no timer
  that is due is left.
\<close>

theorem alarm_never_late:
  assumes "queue_ok env" and "alarm_in_time env" and "\<not> expiring env"
  shows "(set_timer works (Some now) tp ticks watchdog arg env = Some env' \<longrightarrow>
      now + word_of_int ticks \<noteq> 0 \<longrightarrow> queue_ok env' \<and> alarm_in_time env') \<and>
    (cancel_timer works tp env = Some env' \<longrightarrow> queue_ok env' \<and> alarm_in_time env') \<and>
    (expire_timers works run now (env, s) = Some (env', s') \<longrightarrow> keeps_queue run \<longrightarrow>
      queue_ok env' \<and> alarm_in_time env' \<and>
      (\<forall>p. timers env' = Some p \<longrightarrow> now < tmr_exp_time (timer_heap env' p)))"
  by (intro conjI [OF impI [OF impI] conjI [OF impI impI [OF impI]]] set_timer_in_time [OF assms]
    cancel_timer_in_time [OF assms] expire_timers_in_time [OF assms(1)])

theorem alarm_never_late_witness:
  "\<exists>env'. set_timer (\<lambda>_. True) (Some 5) 3 10 9 0
       \<lparr>timers = Some 1, timer_heap = example_heap, expiring = False, alarm = 10\<rparr> = Some env' \<and>
     alarm_in_time env'"
proof -
  let ?env = "\<lparr>timers = Some 1, timer_heap = example_heap, expiring = False, alarm = 10\<rparr>"
  have q: "queue_ok ?env" unfolding queue_ok_def
    by (rule exI [of _ "[1, 2]"]) (use example_queue in \<open>simp add: example_heap_def\<close>)
  have a: "alarm_in_time ?env" by (simp add: alarm_in_time_def head_time_def example_heap_def)
  obtain env' where s: "set_timer (\<lambda>_. True) (Some 5) 3 10 9 0 ?env = Some env'"
    using set_timer_returns [OF q] by blast
  have "alarm_in_time env'"
    by (rule alarm_never_late [OF q a, THEN conjunct1, rule_format, THEN conjunct2, OF _ s]) simp_all
  with s show ?thesis by blast
qed

end
