(* ===== verification/Sched.thy ===== *)
theory Sched
  imports Endpoint Sys_Timers
begin

unbundle bit_operations_syntax

text \<open>
  The user-space scheduler (servers/sched). Its process table and CPU loads are one record, its
  watchdog timer lives in the queue of the timer library, and the kernel is a parameter that answers each
  call knowing everything the server did before. A round of the main loop takes one received message.
\<close>

section \<open>Tables\<close>

definition NR_SCHED_QUEUES :: "32 word" where "NR_SCHED_QUEUES = 16"
definition MAX_USER_Q :: "32 word" where "MAX_USER_Q = 0"
definition MIN_USER_Q :: "32 word" where "MIN_USER_Q = NR_SCHED_QUEUES - 1"
definition USER_Q :: "32 word" where "USER_Q = (MIN_USER_Q - MAX_USER_Q) div 2 + MAX_USER_Q"

definition SCHEDULING_START :: int where "SCHEDULING_START = SCHEDULING_BASE + 2"
definition SCHEDULING_STOP :: int where "SCHEDULING_STOP = SCHEDULING_BASE + 3"
definition SCHEDULING_SET_NICE :: int where "SCHEDULING_SET_NICE = SCHEDULING_BASE + 4"
definition SCHEDULING_INHERIT :: int where "SCHEDULING_INHERIT = SCHEDULING_BASE + 5"

text \<open>The field \<open>cpu_mask\<close> of a slot is never used.\<close>

record schedproc =
  sp_endpoint :: int
  sp_parent :: int
  sp_flags :: "32 word"
  max_priority :: "32 word"
  sp_priority :: "32 word"
  time_slice :: "32 word"
  sp_cpu :: "32 word"

definition IN_USE :: "32 word" where "IN_USE = 1"

text \<open>\<open>config_smp\<close> says whether the server was compiled with \<open>CONFIG_SMP\<close>.\<close>

record machine =
  config_smp :: bool
  processors_count :: "32 word"
  bsp_id :: "32 word"

text \<open>
  The members of the message union that the server uses; which one a handler reads depends only on the
  type of the message.
\<close>

record sched_message =
  sm_source :: int
  sm_type :: int
  start_endpoint :: int
  start_parent :: int
  start_maxprio :: int
  start_quantum :: int
  stop_endpoint :: int
  nice_endpoint :: int
  nice_maxprio :: "32 word"
  start_scheduler :: int

text \<open>
  What the server does to the rest of the system: the kernel calls, the readings of
  the uptime, and the replies it sends.
\<close>

datatype sched_event =
    Schedctl int int int int int
  | Schedule int int int int
  | Getticks
  | SchedReply int result sched_message

record sched_vars =
  proc_table :: "schedproc list"
  cpu_proc :: "32 word list"
  balance_timeout :: "32 word"
  sched_trace :: "sched_event list"

record sched_kernel =
  k_machine :: machine
  k_answer :: "sched_event list \<Rightarrow> sched_event \<Rightarrow> result"
  k_getticks :: "sched_event list \<Rightarrow> clock_t option"
  k_setalarm :: "clock_t \<Rightarrow> bool"
  k_hz :: "32 word"

definition kernel_call :: "sched_kernel \<Rightarrow> sched_event \<Rightarrow> sched_vars \<Rightarrow> result \<times> sched_vars" where
  "kernel_call K ev v = (k_answer K (sched_trace v) ev, v\<lparr>sched_trace := sched_trace v @ [ev]\<rparr>)"

definition sys_schedule :: "sched_kernel \<Rightarrow> int \<Rightarrow> int \<Rightarrow> int \<Rightarrow> int \<Rightarrow> sched_vars \<Rightarrow> result \<times> sched_vars" where
  "sys_schedule K proc_ep priority quantum cpu = kernel_call K (Schedule proc_ep priority quantum cpu)"

definition sys_schedctl ::
  "sched_kernel \<Rightarrow> int \<Rightarrow> int \<Rightarrow> int \<Rightarrow> int \<Rightarrow> int \<Rightarrow> sched_vars \<Rightarrow> result \<times> sched_vars" where
  "sys_schedctl K flags proc_ep priority quantum cpu = kernel_call K (Schedctl flags proc_ep priority quantum cpu)"

section \<open>Utility functions\<close>

definition no_sys :: "int \<Rightarrow> int \<Rightarrow> result" where
  "no_sys who_e call_nr = RNOSYS"

text \<open>The second component is what the functions store through their pointer argument.\<close>

definition sched_isokendpt :: "int \<Rightarrow> schedproc list \<Rightarrow> result \<times> int" where
  "sched_isokendpt ep tab =
     (let proc = ENDPOINT_P ep in
      (if proc < 0 then RBADEPT
       else if proc \<ge> int NR_PROCS then RINVAL
       else if ep \<noteq> sp_endpoint (tab ! nat proc) then RDEADEPT
       else if sp_flags (tab ! nat proc) AND IN_USE = 0 then RDEADEPT
       else ROK, proc))"

definition sched_isemtyendpt :: "int \<Rightarrow> schedproc list \<Rightarrow> result \<times> int" where
  "sched_isemtyendpt ep tab =
     (let proc = ENDPOINT_P ep in
      (if proc < 0 then RBADEPT
       else if proc \<ge> int NR_PROCS then RINVAL
       else if sp_flags (tab ! nat proc) AND IN_USE \<noteq> 0 then RDEADEPT
       else ROK, proc))"

definition accept_message :: "sched_message \<Rightarrow> bool" where
  "accept_message m \<longleftrightarrow> sm_source m = PM_PROC_NR \<or> sm_source m = RS_PROC_NR"

section \<open>Scheduling policy\<close>

definition BALANCE_TIMEOUT :: "32 word" where "BALANCE_TIMEOUT = 5"
definition SCHEDULE_CHANGE_PRIO :: "32 word" where "SCHEDULE_CHANGE_PRIO = 1"
definition SCHEDULE_CHANGE_QUANTUM :: "32 word" where "SCHEDULE_CHANGE_QUANTUM = 2"
definition SCHEDULE_CHANGE_CPU :: "32 word" where "SCHEDULE_CHANGE_CPU = 4"
definition SCHEDULE_CHANGE_ALL :: "32 word" where
  "SCHEDULE_CHANGE_ALL = SCHEDULE_CHANGE_PRIO OR SCHEDULE_CHANGE_QUANTUM OR SCHEDULE_CHANGE_CPU"
definition CPU_DEAD :: "32 word" where "CPU_DEAD = -1"
definition DEFAULT_USER_TIME_SLICE :: "32 word" where "DEFAULT_USER_TIME_SLICE = 200"

text \<open>The test of the code, on the unsigned entry of the array.\<close>

definition cpu_is_available :: "32 word \<Rightarrow> bool" where
  "cpu_is_available load \<longleftrightarrow> load \<ge> 0"

definition is_system_proc :: "schedproc \<Rightarrow> bool" where
  "is_system_proc p \<longleftrightarrow> sp_parent p = RS_PROC_NR"

text \<open>The loop over the CPUs; an index outside the array has no defined result.\<close>

fun pick_loop :: "32 word \<Rightarrow> 32 word list \<Rightarrow> nat list \<Rightarrow> 32 word \<Rightarrow> 32 word \<Rightarrow> 32 word option" where
  "pick_loop bsp loads [] cpu_load cpu = Some cpu"
| "pick_loop bsp loads (c # cs) cpu_load cpu =
     (if c \<ge> length loads then None
      else if \<not> cpu_is_available (loads ! c) then pick_loop bsp loads cs cpu_load cpu
      else if of_nat c \<noteq> bsp \<and> cpu_load > loads ! c then pick_loop bsp loads cs (loads ! c) (of_nat c)
      else pick_loop bsp loads cs cpu_load cpu)"

definition pick_cpu :: "machine \<Rightarrow> schedproc \<Rightarrow> 32 word list \<Rightarrow> (schedproc \<times> 32 word list) option" where
  "pick_cpu mach p loads =
     (if config_smp mach then
        if processors_count mach = 1 then Some (p\<lparr>sp_cpu := bsp_id mach\<rparr>, loads)
        else if is_system_proc p then Some (p\<lparr>sp_cpu := bsp_id mach\<rparr>, loads)
        else do {
          cpu \<leftarrow> pick_loop (bsp_id mach) loads [0..<unat (processors_count mach)] (-1) (bsp_id mach);
          if unat cpu < length loads
          then Some (p\<lparr>sp_cpu := cpu\<rparr>, loads[unat cpu := loads ! unat cpu + 1])
          else None
        }
      else Some (p\<lparr>sp_cpu := 0\<rparr>, loads))"

text \<open>\<open>pick_cpu\<close> on slot \<open>i\<close> of the table.\<close>

definition pick_slot :: "sched_kernel \<Rightarrow> nat \<Rightarrow> sched_vars \<Rightarrow> sched_vars option" where
  "pick_slot K i v = do {
     (p, loads) \<leftarrow> pick_cpu (k_machine K) (proc_table v ! i) (cpu_proc v);
     Some (v\<lparr>proc_table := (proc_table v)[i := p], cpu_proc := loads\<rparr>)
   }"

definition schedule_process :: "sched_kernel \<Rightarrow> nat \<Rightarrow> 32 word \<Rightarrow> sched_vars \<Rightarrow> (result \<times> sched_vars) option" where
  "schedule_process K i flags v = do {
     v1 \<leftarrow> pick_slot K i v;
     let rmp = proc_table v1 ! i;
     let new_prio = (if flags AND SCHEDULE_CHANGE_PRIO \<noteq> 0 then sint (sp_priority rmp) else -1);
     let new_quantum = (if flags AND SCHEDULE_CHANGE_QUANTUM \<noteq> 0 then sint (time_slice rmp) else -1);
     let new_cpu = (if flags AND SCHEDULE_CHANGE_CPU \<noteq> 0 then sint (sp_cpu rmp) else -1);
     Some (sys_schedule K (sp_endpoint rmp) new_prio new_quantum new_cpu v1)
   }"

definition schedule_process_local :: "sched_kernel \<Rightarrow> nat \<Rightarrow> sched_vars \<Rightarrow> (result \<times> sched_vars) option" where
  "schedule_process_local K i = schedule_process K i (SCHEDULE_CHANGE_PRIO OR SCHEDULE_CHANGE_QUANTUM)"

definition set_slot :: "nat \<Rightarrow> (schedproc \<Rightarrow> schedproc) \<Rightarrow> sched_vars \<Rightarrow> sched_vars" where
  "set_slot i f v = v\<lparr>proc_table := (proc_table v)[i := f (proc_table v ! i)]\<rparr>"

definition do_noquantum :: "sched_kernel \<Rightarrow> sched_message \<Rightarrow> sched_vars \<Rightarrow> (result \<times> sched_vars) option" where
  "do_noquantum K m v =
     (case sched_isokendpt (sm_source m) (proc_table v) of (r, proc_nr_n) \<Rightarrow>
      if r \<noteq> ROK then Some (RBADEPT, v)
      else
        let i = nat proc_nr_n;
            v1 = (if sp_priority (proc_table v ! i) < MIN_USER_Q
                  then set_slot i (\<lambda>p. p\<lparr>sp_priority := sp_priority p + 1\<rparr>) v else v) in do {
          (rv, v2) \<leftarrow> schedule_process_local K i v1;
          if rv \<noteq> ROK then Some (rv, v2) else Some (ROK, v2)
        })"

definition do_stop_scheduling :: "sched_kernel \<Rightarrow> sched_message \<Rightarrow> sched_vars \<Rightarrow> (result \<times> sched_vars) option" where
  "do_stop_scheduling K m v =
     (if \<not> accept_message m then Some (RPERM, v)
      else case sched_isokendpt (stop_endpoint m) (proc_table v) of (r, proc_nr_n) \<Rightarrow>
        if r \<noteq> ROK then Some (RBADEPT, v)
        else
          let i = nat proc_nr_n; c = unat (sp_cpu (proc_table v ! i)) in
          if config_smp (k_machine K) \<and> c \<ge> length (cpu_proc v) then None
          else
            let v1 = (if config_smp (k_machine K)
                      then v\<lparr>cpu_proc := (cpu_proc v)[c := cpu_proc v ! c - 1]\<rparr> else v) in
            Some (ROK, set_slot i (\<lambda>p. p\<lparr>sp_flags := 0\<rparr>) v1))"

text \<open>
  The loop of \<open>do_start_scheduling\<close>, which goes on as long as the kernel refuses the CPU.
\<close>

partial_function (option) start_loop :: "sched_kernel \<Rightarrow> nat \<Rightarrow> sched_vars \<Rightarrow> (result \<times> sched_vars) option" where
  "start_loop K i v = do {
     (rv, v1) \<leftarrow> schedule_process K i SCHEDULE_CHANGE_ALL v;
     if rv = RBADCPU then do {
       let c = unat (sp_cpu (proc_table v1 ! i));
       v2 \<leftarrow> (if c < length (cpu_proc v1) then Some (v1\<lparr>cpu_proc := (cpu_proc v1)[c := CPU_DEAD]\<rparr>) else None);
       v3 \<leftarrow> pick_slot K i v2;
       start_loop K i v3
     } else Some (rv, v1)
   }"

declare start_loop.simps [code]

text \<open>The slot as the request fills it in, before priority and time slice are settled.\<close>

definition populate_slot :: "machine \<Rightarrow> sched_message \<Rightarrow> schedproc \<Rightarrow> schedproc" where
  "populate_slot mach m p =
     p\<lparr>sp_endpoint := start_endpoint m, sp_parent := start_parent m, max_priority := word_of_int (start_maxprio m)\<rparr>"

definition init_special_case :: "machine \<Rightarrow> schedproc \<Rightarrow> schedproc" where
  "init_special_case mach p =
     (if sp_endpoint p = sp_parent p
      then let p' = p\<lparr>sp_priority := USER_Q, time_slice := DEFAULT_USER_TIME_SLICE\<rparr> in
           if config_smp mach then p'\<lparr>sp_cpu := bsp_id mach\<rparr> else p'
      else p)"

text \<open>
  The \<open>switch\<close> on the kind of the request: an error code, or the priority and the time slice. The
  parent is looked up in the table that already holds the new slot.
\<close>

definition start_priority :: "sched_message \<Rightarrow> nat \<Rightarrow> sched_vars \<Rightarrow> result + (32 word \<times> 32 word)" where
  "start_priority m i v =
     (if sm_type m = SCHEDULING_START
      then Inr (max_priority (proc_table v ! i), word_of_int (start_quantum m))
      else case sched_isokendpt (start_parent m) (proc_table v) of (rv, parent_nr_n) \<Rightarrow>
        if rv \<noteq> ROK then Inl rv
        else Inr (sp_priority (proc_table v ! nat parent_nr_n), time_slice (proc_table v ! nat parent_nr_n)))"

definition start_process ::
  "sched_kernel \<Rightarrow> sched_message \<Rightarrow> nat \<Rightarrow> sched_vars \<Rightarrow> (result \<times> sched_message \<times> sched_vars) option" where
  "start_process K m i v =
     (case sys_schedctl K 0 (sp_endpoint (proc_table v ! i)) 0 0 0 v of (rv, v1) \<Rightarrow>
      if rv \<noteq> ROK then Some (rv, m, v1)
      else do {
        v2 \<leftarrow> pick_slot K i (set_slot i (\<lambda>p. p\<lparr>sp_flags := IN_USE\<rparr>) v1);
        (rv, v3) \<leftarrow> start_loop K i v2;
        if rv \<noteq> ROK then Some (rv, m, v3)
        else Some (ROK, m\<lparr>start_scheduler := SCHED_PROC_NR\<rparr>, v3)
      })"

definition do_start_scheduling ::
  "sched_kernel \<Rightarrow> sched_message \<Rightarrow> sched_vars \<Rightarrow> (result \<times> sched_message \<times> sched_vars) option" where
  "do_start_scheduling K m v =
     (if \<not> (sm_type m = SCHEDULING_START \<or> sm_type m = SCHEDULING_INHERIT) then None
      else if \<not> accept_message m then Some (RPERM, m, v)
      else case sched_isemtyendpt (start_endpoint m) (proc_table v) of (rv, proc_nr_n) \<Rightarrow>
        if rv \<noteq> ROK then Some (rv, m, v)
        else
          let i = nat proc_nr_n; v1 = set_slot i (populate_slot (k_machine K) m) v in
          if max_priority (proc_table v1 ! i) \<ge> NR_SCHED_QUEUES then Some (RINVAL, m, v1)
          else
            let v2 = set_slot i (init_special_case (k_machine K)) v1 in
            case start_priority m i v2 of
              Inl rv \<Rightarrow> Some (rv, m, v2)
            | Inr (prio, quantum) \<Rightarrow>
                start_process K m i (set_slot i (\<lambda>p. p\<lparr>sp_priority := prio, time_slice := quantum\<rparr>) v2))"

definition do_nice :: "sched_kernel \<Rightarrow> sched_message \<Rightarrow> sched_vars \<Rightarrow> (result \<times> sched_vars) option" where
  "do_nice K m v =
     (if \<not> accept_message m then Some (RPERM, v)
      else case sched_isokendpt (nice_endpoint m) (proc_table v) of (r, proc_nr_n) \<Rightarrow>
        if r \<noteq> ROK then Some (RBADEPT, v)
        else if nice_maxprio m \<ge> NR_SCHED_QUEUES then Some (RINVAL, v)
        else
          let i = nat proc_nr_n; new_q = nice_maxprio m;
              old_q = sp_priority (proc_table v ! i); old_max_q = max_priority (proc_table v ! i) in do {
            (rv, v1) \<leftarrow> schedule_process_local K i (set_slot i (\<lambda>p. p\<lparr>sp_priority := new_q, max_priority := new_q\<rparr>) v);
            if rv \<noteq> ROK
            then Some (rv, set_slot i (\<lambda>p. p\<lparr>sp_priority := old_q, max_priority := old_max_q\<rparr>) v1)
            else Some (rv, v1)
          })"

section \<open>Balancing\<close>

text \<open>The timer's address and that of its watchdog function.\<close>

definition sched_timer :: addr where "sched_timer = 0"
definition BALANCE_QUEUES :: nat where "BALANCE_QUEUES = 1"

fun balance_slots :: "sched_kernel \<Rightarrow> nat list \<Rightarrow> sched_vars \<Rightarrow> sched_vars option" where
  "balance_slots K [] v = Some v"
| "balance_slots K (proc_nr # rest) v =
     (let rmp = proc_table v ! proc_nr in
      if sp_flags rmp AND IN_USE \<noteq> 0 \<and> sp_priority rmp > max_priority rmp
      then do {
        (_, v') \<leftarrow> schedule_process_local K proc_nr
                   (set_slot proc_nr (\<lambda>p. p\<lparr>sp_priority := sp_priority p - 1\<rparr>) v);
        balance_slots K rest v'
      }
      else balance_slots K rest v)"

definition set_sched_timer :: "sched_kernel \<Rightarrow> timer_env \<times> sched_vars \<Rightarrow> (timer_env \<times> sched_vars) option" where
  "set_sched_timer K = (\<lambda>(env, v). do {
     env' \<leftarrow> set_timer (k_setalarm K) (k_getticks K (sched_trace v)) sched_timer
               (sint (balance_timeout v)) BALANCE_QUEUES 0 env;
     Some (env', v\<lparr>sched_trace := sched_trace v @ [Getticks]\<rparr>)
   })"

definition balance_queues :: "sched_kernel \<Rightarrow> addr \<Rightarrow> timer_env \<times> sched_vars \<Rightarrow> (timer_env \<times> sched_vars) option" where
  "balance_queues K tp = (\<lambda>(env, v). do {
     v' \<leftarrow> balance_slots K [0..<NR_PROCS] v;
     set_sched_timer K (env, v')
   })"

definition init_scheduling :: "sched_kernel \<Rightarrow> timer_env \<times> sched_vars \<Rightarrow> (timer_env \<times> sched_vars) option" where
  "init_scheduling K = (\<lambda>(env, v).
     set_sched_timer K (init_timer sched_timer env, v\<lparr>balance_timeout := BALANCE_TIMEOUT * k_hz K\<rparr>))"

text \<open>The only watchdog function the server has.\<close>

definition sched_watchdogs :: "sched_kernel \<Rightarrow> sched_vars watchdog_code" where
  "sched_watchdogs K f tp s = (if f = BALANCE_QUEUES then balance_queues K tp s else None)"

section \<open>The main loop\<close>

text \<open>
  What \<open>sef_receive_status\<close> delivers: an error, a notification with its time stamp, or a message that
  the kernel may have sent in the process's name.
\<close>

datatype sched_input =
    ReceiveFails
  | Notification int clock_t
  | Request sched_message bool

definition sched_reply :: "int \<Rightarrow> result \<Rightarrow> sched_message \<Rightarrow> sched_vars \<Rightarrow> sched_vars" where
  "sched_reply who_e result m v =
     (if result \<noteq> RSUSPEND then v\<lparr>sched_trace := sched_trace v @ [SchedReply who_e result m]\<rparr> else v)"

text \<open>The handler a request is dispatched to; no result to send is \<open>None\<close> in the first component.\<close>

definition sched_dispatch ::
  "sched_kernel \<Rightarrow> sched_message \<Rightarrow> bool \<Rightarrow> sched_vars \<Rightarrow> (result option \<times> sched_message \<times> sched_vars) option" where
  "sched_dispatch K m from_kernel v =
     (let call_nr = sm_type m; answer = map_option (\<lambda>(r, v'). (Some r, m, v')) in
      if call_nr = SCHEDULING_INHERIT \<or> call_nr = SCHEDULING_START then
        map_option (\<lambda>(r, m', v'). (Some r, m', v')) (do_start_scheduling K m v)
      else if call_nr = SCHEDULING_STOP then answer (do_stop_scheduling K m v)
      else if call_nr = SCHEDULING_SET_NICE then answer (do_nice K m v)
      else if call_nr = SCHEDULING_NO_QUANTUM then
        if from_kernel then map_option (\<lambda>(r, v'). (None, m, v')) (do_noquantum K m v)
        else Some (Some RPERM, m, v)
      else Some (Some (no_sys (sm_source m) call_nr), m, v))"

text \<open>
  One round of the loop. The reply to a notification carries the notification itself, of which only the
  sender matters here.
\<close>

definition notify_message :: "int \<Rightarrow> sched_message" where
  "notify_message who_e = \<lparr>sm_source = who_e, sm_type = 0, start_endpoint = 0, start_parent = 0,
     start_maxprio = 0, start_quantum = 0, stop_endpoint = 0, nice_endpoint = 0, nice_maxprio = 0,
     start_scheduler = 0\<rparr>"

definition sched_main_step ::
  "sched_kernel \<Rightarrow> sched_input \<Rightarrow> timer_env \<times> sched_vars \<Rightarrow> (timer_env \<times> sched_vars) option" where
  "sched_main_step K inp = (\<lambda>(env, v).
     case inp of
       ReceiveFails \<Rightarrow> None
     | Notification who_e timestamp \<Rightarrow>
         if who_e = CLOCK then expire_timers (k_setalarm K) (sched_watchdogs K) timestamp (env, v)
         else Some (env, sched_reply who_e RNOSYS (notify_message who_e) v)
     | Request m from_kernel \<Rightarrow> do {
         (r, m', v') \<leftarrow> sched_dispatch K m from_kernel v;
         Some (env, case r of None \<Rightarrow> v' | Some result \<Rightarrow> sched_reply (sm_source m) result m' v')
       })"

text \<open>The server's static data when it starts; \<open>sys_getmachine\<close> may fail.\<close>

definition empty_slot :: schedproc where
  "empty_slot = \<lparr>sp_endpoint = 0, sp_parent = 0, sp_flags = 0, max_priority = 0, sp_priority = 0,
     time_slice = 0, sp_cpu = 0\<rparr>"

definition sched_vars0 :: "nat \<Rightarrow> sched_vars" where
  "sched_vars0 max_cpus = \<lparr>proc_table = replicate NR_PROCS empty_slot, cpu_proc = replicate max_cpus 0,
     balance_timeout = 0, sched_trace = []\<rparr>"

definition timer_env0 :: timer_env where
  "timer_env0 = \<lparr>timers = None, timer_heap = (\<lambda>_. \<lparr>tmr_next = None, tmr_exp_time = 0, tmr_func = 0, tmr_arg = 0\<rparr>),
     expiring = False, alarm = 0\<rparr>"

definition sched_startup :: "sched_kernel \<Rightarrow> bool \<Rightarrow> nat \<Rightarrow> (timer_env \<times> sched_vars) option" where
  "sched_startup K getmachine_ok max_cpus =
     (if getmachine_ok then init_scheduling K (timer_env0, sched_vars0 max_cpus) else None)"

end
