(* ===== verification/Sched_Props.thy ===== *)
theory Sched_Props
  imports Sched
begin

unbundle bit_operations_syntax

text \<open>
  The properties of the scheduler: the invariant of its process table and of its timer, who may change
  the table, balancing, the choice of a CPU, and that it never gets stuck.
\<close>

section \<open>The effect of scheduling a process\<close>

abbreviation in_use :: "schedproc \<Rightarrow> bool" where
  "in_use p \<equiv> sp_flags p AND IN_USE \<noteq> 0"

lemma pick_cpu_slot:
  assumes "pick_cpu mach p loads = Some (p', loads')"
  shows "p' = p\<lparr>sp_cpu := sp_cpu p'\<rparr> \<and> length loads' = length loads"
  using assms by (auto simp: pick_cpu_def bind_eq_Some_conv split: if_splits)

lemma pick_slot_effect:
  assumes "pick_slot K i v = Some v'"
  obtains c where "proc_table v' = (proc_table v)[i := (proc_table v ! i)\<lparr>sp_cpu := c\<rparr>]"
    "sched_trace v' = sched_trace v" "balance_timeout v' = balance_timeout v"
    "length (cpu_proc v') = length (cpu_proc v)"
proof -
  from assms obtain p loads where p: "pick_cpu (k_machine K) (proc_table v ! i) (cpu_proc v) = Some (p, loads)"
    and v': "v' = v\<lparr>proc_table := (proc_table v)[i := p], cpu_proc := loads\<rparr>"
    by (auto simp: pick_slot_def bind_eq_Some_conv)
  from pick_cpu_slot [OF p] v' that [of "sp_cpu p"] show thesis by simp
qed

lemma schedule_process_effect:
  assumes "schedule_process K i flags v = Some (r, v')" and "i < length (proc_table v)"
    and "flags AND SCHEDULE_CHANGE_PRIO \<noteq> 0"
  obtains c q where "proc_table v' = (proc_table v)[i := (proc_table v ! i)\<lparr>sp_cpu := c\<rparr>]"
    "sched_trace v' = sched_trace v @ [Schedule (sp_endpoint (proc_table v ! i)) (sint (sp_priority (proc_table v ! i)))
       (if flags AND SCHEDULE_CHANGE_QUANTUM \<noteq> 0 then sint (time_slice (proc_table v ! i)) else -1) q]"
    "flags AND SCHEDULE_CHANGE_CPU = 0 \<Longrightarrow> q = -1" "flags AND SCHEDULE_CHANGE_CPU \<noteq> 0 \<Longrightarrow> q = sint c"
    "r = k_answer K (sched_trace v) (last (sched_trace v'))"
    "balance_timeout v' = balance_timeout v" "length (cpu_proc v') = length (cpu_proc v)"
proof -
  from assms(1) obtain v1 where v1: "pick_slot K i v = Some v1"
    by (auto simp: schedule_process_def Let_def bind_eq_Some_conv)
  from pick_slot_effect [OF this] obtain c where c: "proc_table v1 = (proc_table v)[i := (proc_table v ! i)\<lparr>sp_cpu := c\<rparr>]"
    "sched_trace v1 = sched_trace v" "balance_timeout v1 = balance_timeout v"
    "length (cpu_proc v1) = length (cpu_proc v)" by blast
  show thesis
    by (rule that [of c "if flags AND SCHEDULE_CHANGE_CPU \<noteq> 0 then sint c else -1"])
      (use assms v1 c in \<open>auto simp: schedule_process_def sys_schedule_def kernel_call_def Let_def\<close>)
qed

lemmas schedule_flags [simp] = SCHEDULE_CHANGE_PRIO_def SCHEDULE_CHANGE_QUANTUM_def SCHEDULE_CHANGE_CPU_def SCHEDULE_CHANGE_ALL_def

lemma local_flags:
  "(SCHEDULE_CHANGE_PRIO OR SCHEDULE_CHANGE_QUANTUM) AND SCHEDULE_CHANGE_PRIO \<noteq> 0"
  "(SCHEDULE_CHANGE_PRIO OR SCHEDULE_CHANGE_QUANTUM) AND SCHEDULE_CHANGE_QUANTUM \<noteq> 0"
  "(SCHEDULE_CHANGE_PRIO OR SCHEDULE_CHANGE_QUANTUM) AND SCHEDULE_CHANGE_CPU = 0"
  "SCHEDULE_CHANGE_ALL AND SCHEDULE_CHANGE_PRIO \<noteq> 0"
  "SCHEDULE_CHANGE_ALL AND SCHEDULE_CHANGE_QUANTUM \<noteq> 0"
  "SCHEDULE_CHANGE_ALL AND SCHEDULE_CHANGE_CPU \<noteq> 0"
  by simp_all

text \<open>A process rescheduled where it is: the table but for its CPU, and the call.\<close>

lemma schedule_process_local_effect:
  assumes "schedule_process_local K i v = Some (r, v')" and "i < length (proc_table v)"
  obtains c where "proc_table v' = (proc_table v)[i := (proc_table v ! i)\<lparr>sp_cpu := c\<rparr>]"
    "sched_trace v' = sched_trace v @ [Schedule (sp_endpoint (proc_table v ! i)) (sint (sp_priority (proc_table v ! i)))
       (sint (time_slice (proc_table v ! i))) (-1)]"
    "r = k_answer K (sched_trace v) (last (sched_trace v'))"
    "balance_timeout v' = balance_timeout v" "length (cpu_proc v') = length (cpu_proc v)"
  by (rule schedule_process_effect [OF assms(1) [unfolded schedule_process_local_def] assms(2)]) (auto intro: that)

section \<open>The process table\<close>

text \<open>
  A slot in use belongs to the process whose endpoint has its number, and its priorities are those of
  existing queues. The kernel is only ever asked for existing queues.
\<close>

definition slot_ok :: "nat \<Rightarrow> schedproc \<Rightarrow> bool" where
  "slot_ok i p \<longleftrightarrow> (in_use p \<longrightarrow> ENDPOINT_P (sp_endpoint p) = int i \<and>
     max_priority p < NR_SCHED_QUEUES \<and> sp_priority p < NR_SCHED_QUEUES)"

fun event_ok :: "sched_event \<Rightarrow> bool" where
  "event_ok (Schedule e prio q c) \<longleftrightarrow> 0 \<le> prio \<and> prio < 16"
| "event_ok _ \<longleftrightarrow> True"

definition sched_ok :: "sched_vars \<Rightarrow> bool" where
  "sched_ok v \<longleftrightarrow> length (proc_table v) = NR_PROCS \<and> (\<forall>i < NR_PROCS. slot_ok i (proc_table v ! i)) \<and>
     list_all event_ok (sched_trace v)"

lemma sched_ok_update [simp]:
  "sched_ok (v\<lparr>cpu_proc := cs\<rparr>) = sched_ok v" "sched_ok (v\<lparr>balance_timeout := b\<rparr>) = sched_ok v"
  "sched_ok (v\<lparr>sched_trace := sched_trace v @ es\<rparr>) \<longleftrightarrow> sched_ok v \<and> list_all event_ok es"
  by (auto simp: sched_ok_def)

lemma sched_ok_set_slot:
  "sched_ok v \<Longrightarrow> i < NR_PROCS \<Longrightarrow> slot_ok i (f (proc_table v ! i)) \<Longrightarrow> sched_ok (set_slot i f v)"
  by (auto simp: sched_ok_def set_slot_def nth_list_update)

lemma set_slot_nth [simp]:
  "i < length (proc_table v) \<Longrightarrow> proc_table (set_slot i f v) ! i = f (proc_table v ! i)"
  "length (proc_table (set_slot i f v)) = length (proc_table v)"
  "sched_trace (set_slot i f v) = sched_trace v" "cpu_proc (set_slot i f v) = cpu_proc v"
  "balance_timeout (set_slot i f v) = balance_timeout v"
  by (simp_all add: set_slot_def)

lemma sint_queue:
  assumes "(p :: 32 word) < NR_SCHED_QUEUES"
  shows "0 \<le> sint p \<and> sint p < 16"
proof -
  have "uint p < 16" using assms by (simp add: NR_SCHED_QUEUES_def word_less_def)
  moreover have "sint p = uint p"
    using calculation unfolding sint_uint
    by (intro signed_take_bit_int_eq_self) (auto intro: order_trans [OF _ uint_ge_0])
  ultimately show ?thesis by simp
qed

lemma schedule_process_ok:
  assumes "sched_ok v" and "i < NR_PROCS" and "in_use (proc_table v ! i)"
    and "schedule_process K i flags v = Some (r, v')" and "flags AND SCHEDULE_CHANGE_PRIO \<noteq> 0"
  shows "sched_ok v'" "in_use (proc_table v' ! i)" "balance_timeout v' = balance_timeout v"
proof -
  have i: "i < length (proc_table v)" using assms(1,2) by (simp add: sched_ok_def)
  have s: "slot_ok i (proc_table v ! i)" using assms(1,2) by (simp add: sched_ok_def)
  show "sched_ok v'" "in_use (proc_table v' ! i)" "balance_timeout v' = balance_timeout v"
    by (rule schedule_process_effect [OF assms(4) i assms(5)];
        use assms(1,3) s i sint_queue [of "sp_priority (proc_table v ! i)"] in
          \<open>auto simp: sched_ok_def slot_ok_def nth_list_update\<close>)+
qed

lemmas schedule_process_local_ok = schedule_process_ok
  [where flags = "SCHEDULE_CHANGE_PRIO OR SCHEDULE_CHANGE_QUANTUM", folded schedule_process_local_def, OF _ _ _ _ local_flags(1)]

lemma pick_slot_ok:
  assumes "sched_ok v" and "i < NR_PROCS" and "pick_slot K i v = Some v'"
  shows "sched_ok v'" "in_use (proc_table v' ! i) = in_use (proc_table v ! i)" "balance_timeout v' = balance_timeout v"
  by (rule pick_slot_effect [OF assms(3)]; use assms(1,2) in \<open>auto simp: sched_ok_def slot_ok_def nth_list_update\<close>)+

lemma start_loop_ok:
  assumes "start_loop K i v = Some (r, v')" and "sched_ok v" and "i < NR_PROCS" and "in_use (proc_table v ! i)"
  shows "sched_ok v' \<and> in_use (proc_table v' ! i) \<and> balance_timeout v' = balance_timeout v"
proof -
  have "sched_ok v \<longrightarrow> i < NR_PROCS \<longrightarrow> in_use (proc_table v ! i) \<longrightarrow>
      (case (r, v') of (_, v') \<Rightarrow> sched_ok v' \<and> in_use (proc_table v' ! i) \<and> balance_timeout v' = balance_timeout v)"
  proof (rule start_loop.raw_induct [OF _ assms(1), of "\<lambda>K i v rv. sched_ok v \<longrightarrow> i < NR_PROCS \<longrightarrow>
      in_use (proc_table v ! i) \<longrightarrow>
      (case rv of (_, v') \<Rightarrow> sched_ok v' \<and> in_use (proc_table v' ! i) \<and> balance_timeout v' = balance_timeout v)"], goal_cases)
    case (1 loop K i v rv)
    note IH = "1"(1) and eq = "1"(2)
    show ?case
    proof (intro impI)
      assume v: "sched_ok v" "i < NR_PROCS" "in_use (proc_table v ! i)"
      from eq obtain r1 v1 where s: "schedule_process K i SCHEDULE_CHANGE_ALL v = Some (r1, v1)"
        by (auto simp: bind_eq_Some_conv)
      note v1 = schedule_process_ok [OF v s local_flags(4)]
      show "case rv of (_, v') \<Rightarrow> sched_ok v' \<and> in_use (proc_table v' ! i) \<and> balance_timeout v' = balance_timeout v"
      proof (cases "r1 = RBADCPU")
        case False
        with eq s v1 show ?thesis by auto
      next
        case True
        define v2 where "v2 = v1\<lparr>cpu_proc := (cpu_proc v1)[unat (sp_cpu (proc_table v1 ! i)) := CPU_DEAD]\<rparr>"
        from eq s True obtain v3 where v3: "pick_slot K i v2 = Some v3" and l: "loop K i v3 = Some rv"
          by (auto simp: Let_def bind_eq_Some_conv v2_def split: if_splits)
        have "sched_ok v2" "in_use (proc_table v2 ! i)" "balance_timeout v2 = balance_timeout v"
          using v1 by (simp_all add: v2_def)
        with pick_slot_ok [OF _ v(2) v3] IH [OF l] v(2) show ?thesis by simp
      qed
    qed
  qed
  with assms(2-) show ?thesis by simp
qed

lemma sched_isokendpt_ROK:
  assumes "sched_isokendpt ep tab = (ROK, proc)"
  shows "proc = ENDPOINT_P ep" "0 \<le> proc" "nat proc < NR_PROCS" "sp_endpoint (tab ! nat proc) = ep" "in_use (tab ! nat proc)"
  using assms by (auto simp: sched_isokendpt_def Let_def split: if_splits)

lemma sched_isemtyendpt_ROK:
  assumes "sched_isemtyendpt ep tab = (ROK, proc)"
  shows "proc = ENDPOINT_P ep" "0 \<le> proc" "nat proc < NR_PROCS" "\<not> in_use (tab ! nat proc)"
  using assms by (auto simp: sched_isemtyendpt_def Let_def split: if_splits)

lemma in_use_IN_USE [simp]: "in_use (p\<lparr>sp_flags := IN_USE\<rparr>)" "\<not> in_use (p\<lparr>sp_flags := 0\<rparr>)"
  by (simp_all add: IN_USE_def)

lemma lower_priority: "(p :: 32 word) < MIN_USER_Q \<Longrightarrow> p + 1 < NR_SCHED_QUEUES"
  unfolding MIN_USER_Q_def NR_SCHED_QUEUES_def by (simp add: word_less_nat_alt unat_word_ariths)

lemma do_noquantum_ok:
  assumes "sched_ok v" and "do_noquantum K m v = Some (r, v')"
  shows "sched_ok v' \<and> balance_timeout v' = balance_timeout v"
proof -
  obtain r1 proc where e: "sched_isokendpt (sm_source m) (proc_table v) = (r1, proc)" by fastforce
  show ?thesis
  proof (cases "r1 = ROK")
    case False
    with assms e show ?thesis by (simp add: do_noquantum_def)
  next
    case True
    note p = sched_isokendpt_ROK [OF e [unfolded True]]
    define v1 where "v1 = (if sp_priority (proc_table v ! nat proc) < MIN_USER_Q
      then set_slot (nat proc) (\<lambda>p. p\<lparr>sp_priority := sp_priority p + 1\<rparr>) v else v)"
    have s: "slot_ok (nat proc) (proc_table v ! nat proc)" and l: "nat proc < length (proc_table v)"
      using assms(1) p(3) by (simp_all add: sched_ok_def)
    have "sched_ok v1" "in_use (proc_table v1 ! nat proc)" "balance_timeout v1 = balance_timeout v"
      using assms(1) p(3,5) s l lower_priority
      by (auto simp: v1_def slot_ok_def intro!: sched_ok_set_slot)
    moreover obtain r2 where "schedule_process_local K (nat proc) v1 = Some (r2, v')"
      using assms(2) e True by (auto simp: do_noquantum_def Let_def v1_def bind_eq_Some_conv split: if_splits)
    ultimately show ?thesis using schedule_process_local_ok [of v1 "nat proc" K r2 v'] p(3) by simp
  qed
qed

lemma do_stop_scheduling_ok:
  assumes "sched_ok v" and "do_stop_scheduling K m v = Some (r, v')"
  shows "sched_ok v' \<and> balance_timeout v' = balance_timeout v"
proof -
  obtain r1 proc where e: "sched_isokendpt (stop_endpoint m) (proc_table v) = (r1, proc)" by fastforce
  have "sched_ok (set_slot (nat proc) (\<lambda>p. p\<lparr>sp_flags := 0\<rparr>) (v\<lparr>cpu_proc := cs\<rparr>))" if "r1 = ROK" for cs
    using sched_isokendpt_ROK [OF e [unfolded that]] assms(1)
    by (intro sched_ok_set_slot) (simp_all add: slot_ok_def)
  from this [of "cpu_proc v"] this assms e show ?thesis
    by (auto simp: do_stop_scheduling_def Let_def split: if_splits)
qed

lemma do_nice_ok:
  assumes "sched_ok v" and "do_nice K m v = Some (r, v')"
  shows "sched_ok v' \<and> balance_timeout v' = balance_timeout v"
proof -
  obtain r1 proc where e: "sched_isokendpt (nice_endpoint m) (proc_table v) = (r1, proc)" by fastforce
  show ?thesis
  proof (cases "accept_message m \<and> r1 = ROK \<and> nice_maxprio m < NR_SCHED_QUEUES")
    case False
    with assms e show ?thesis by (auto simp: do_nice_def split: if_splits)
  next
    case True
    note p = sched_isokendpt_ROK [OF e [unfolded True [THEN conjunct2, THEN conjunct1]]]
    let ?i = "nat proc"
    have s: "slot_ok ?i (proc_table v ! ?i)" and l: "?i < length (proc_table v)"
      using assms(1) p(3) by (simp_all add: sched_ok_def)
    define v1 where "v1 = set_slot ?i (\<lambda>p. p\<lparr>sp_priority := nice_maxprio m, max_priority := nice_maxprio m\<rparr>) v"
    have v1: "sched_ok v1" "in_use (proc_table v1 ! ?i)" "balance_timeout v1 = balance_timeout v"
      using assms(1) p(3,5) s l True by (auto simp: v1_def slot_ok_def intro!: sched_ok_set_slot)
    from assms(2) e True obtain v2 where v2: "schedule_process_local K ?i v1 = Some (r, v2)"
      and v': "v' = (if r \<noteq> ROK then set_slot ?i (\<lambda>p. p\<lparr>sp_priority := sp_priority (proc_table v ! ?i),
        max_priority := max_priority (proc_table v ! ?i)\<rparr>) v2 else v2)"
      by (auto simp: do_nice_def Let_def v1_def bind_eq_Some_conv not_le split: if_splits)
    have "sched_ok v2" "balance_timeout v2 = balance_timeout v" "slot_ok ?i (proc_table v2 ! ?i)"
      using schedule_process_local_ok [OF v1(1) p(3) v1(2) v2] v1(3) p(3) by (simp_all add: sched_ok_def)
    with v' p s show ?thesis by (auto simp: slot_ok_def intro!: sched_ok_set_slot)
  qed
qed

lemma start_process_ok:
  assumes "sched_ok v" and "i < NR_PROCS" and "slot_ok i ((proc_table v ! i)\<lparr>sp_flags := IN_USE\<rparr>)"
    and "start_process K m i v = Some (r, m', v')"
  shows "sched_ok v' \<and> balance_timeout v' = balance_timeout v"
proof -
  let ?ev = "Schedctl 0 (sp_endpoint (proc_table v ! i)) 0 0 0"
  define v1 where "v1 = v\<lparr>sched_trace := sched_trace v @ [?ev]\<rparr>"
  have v1: "sched_ok v1" "proc_table v1 = proc_table v" "balance_timeout v1 = balance_timeout v"
    using assms(1) by (simp_all add: v1_def)
  show ?thesis
  proof (cases "k_answer K (sched_trace v) ?ev = ROK")
    case False
    with assms(4) v1 show ?thesis by (simp add: start_process_def sys_schedctl_def kernel_call_def v1_def [symmetric])
  next
    case True
    let ?v2 = "set_slot i (\<lambda>p. p\<lparr>sp_flags := IN_USE\<rparr>) v1"
    have v2: "sched_ok ?v2" using v1 assms(2,3) by (intro sched_ok_set_slot) simp_all
    have "in_use (proc_table ?v2 ! i)" using v1 assms(1,2) by (simp add: sched_ok_def IN_USE_def)
    moreover from assms(4) True obtain v3 where v3: "pick_slot K i ?v2 = Some v3"
      and l: "\<exists>r'. start_loop K i v3 = Some (r', v')"
      by (auto simp: start_process_def sys_schedctl_def kernel_call_def v1_def [symmetric] bind_eq_Some_conv split: if_splits)
    ultimately show ?thesis
      using pick_slot_ok [OF v2 assms(2) v3] start_loop_ok [OF _ _ assms(2)] v1(3) by auto
  qed
qed

lemma start_priority_ok:
  assumes "sched_ok v" and "\<not> in_use (proc_table v ! i)" and "i < NR_PROCS"
    and "start_priority m i v = Inr (prio, q)" and "max_priority (proc_table v ! i) < NR_SCHED_QUEUES"
  shows "prio < NR_SCHED_QUEUES"
proof (cases "sm_type m = SCHEDULING_START")
  case True
  with assms show ?thesis by (simp add: start_priority_def)
next
  case False
  obtain r proc where e: "sched_isokendpt (start_parent m) (proc_table v) = (r, proc)" by fastforce
  with assms(4) False have r: "r = ROK" "prio = sp_priority (proc_table v ! nat proc)"
    by (auto simp: start_priority_def split: if_splits)
  with sched_isokendpt_ROK [OF e [unfolded r(1)]] assms(1) show ?thesis
    by (simp add: sched_ok_def slot_ok_def)
qed

lemma do_start_scheduling_ok:
  assumes "sched_ok v" and "do_start_scheduling K m v = Some (r, m', v')"
  shows "sched_ok v' \<and> balance_timeout v' = balance_timeout v"
proof -
  obtain r1 proc where e: "sched_isemtyendpt (start_endpoint m) (proc_table v) = (r1, proc)" by fastforce
  show ?thesis
  proof (cases "accept_message m \<and> r1 = ROK")
    case False
    with assms e show ?thesis by (auto simp: do_start_scheduling_def split: if_splits)
  next
    case True
    then have "r1 = ROK" by simp
    note p = sched_isemtyendpt_ROK [OF e [unfolded this]]
    let ?i = "nat proc"
    have l: "?i < length (proc_table v)" using assms(1) p(3) by (simp add: sched_ok_def)
    define v1 where "v1 = set_slot ?i (populate_slot (k_machine K) m) v"
    define v2 where "v2 = set_slot ?i (init_special_case (k_machine K)) v1"
    have f: "proc_table v1 ! ?i = populate_slot (k_machine K) m (proc_table v ! ?i)"
      "proc_table v2 ! ?i = init_special_case (k_machine K) (proc_table v1 ! ?i)"
      using l by (simp_all add: v1_def v2_def)
    have flags: "\<not> in_use (proc_table v1 ! ?i)" "\<not> in_use (proc_table v2 ! ?i)"
      using p(4) by (simp_all add: f populate_slot_def init_special_case_def Let_def)
    have ep: "sp_endpoint (proc_table v2 ! ?i) = start_endpoint m" "max_priority (proc_table v2 ! ?i) = max_priority (proc_table v1 ! ?i)"
      by (simp_all add: f populate_slot_def init_special_case_def Let_def)
    have v1: "sched_ok v1" unfolding v1_def
      using assms(1) p(3) flags(1) f(1) by (intro sched_ok_set_slot) (simp_all add: slot_ok_def)
    then have v2: "sched_ok v2" unfolding v2_def
      using p(3) flags(2) f(2) by (intro sched_ok_set_slot) (simp_all add: slot_ok_def)
    have b: "balance_timeout v1 = balance_timeout v" "balance_timeout v2 = balance_timeout v"
      by (simp_all add: v1_def v2_def)
    show ?thesis
    proof (cases "max_priority (proc_table v1 ! ?i) < NR_SCHED_QUEUES")
      case False
      with assms(2) e True v1 b show ?thesis
        by (auto simp: do_start_scheduling_def Let_def v1_def [symmetric] not_less split: if_splits)
    next
      case mp: True
      show ?thesis
      proof (cases "start_priority m ?i v2")
        case (Inl r2)
        with assms(2) e True mp v2 b show ?thesis
          by (auto simp: do_start_scheduling_def Let_def v1_def [symmetric] v2_def [symmetric] split: if_splits)
      next
        case (Inr pq)
        obtain prio q where pq: "pq = (prio, q)" by fastforce
        let ?f = "\<lambda>p. p\<lparr>sp_priority := prio, time_slice := q\<rparr>"
        have "prio < NR_SCHED_QUEUES"
          using start_priority_ok [OF v2 flags(2) p(3)] Inr pq mp ep(2) by simp
        moreover have "start_process K m ?i (set_slot ?i ?f v2) = Some (r, m', v')"
          using assms(2) e True mp Inr pq
          by (auto simp: do_start_scheduling_def Let_def v1_def [symmetric] v2_def [symmetric] split: if_splits)
        moreover have "sched_ok (set_slot ?i ?f v2)"
          using v2 p(3) flags(2) by (intro sched_ok_set_slot) (simp_all add: slot_ok_def)
        ultimately show ?thesis
          using start_process_ok [of "set_slot ?i ?f v2" ?i K m r m' v'] p(1,2,3) mp ep b(2) v2
          by (simp add: sched_ok_def slot_ok_def)
      qed
    qed
  qed
qed

lemma balance_slots_ok:
  "balance_slots K is v = Some v' \<Longrightarrow> list_all (\<lambda>i. i < NR_PROCS) is \<Longrightarrow> sched_ok v \<Longrightarrow>
     sched_ok v' \<and> balance_timeout v' = balance_timeout v"
proof (induction K "is" v rule: balance_slots.induct)
  case (2 K i rest v)
  let ?p = "proc_table v ! i"
  show ?case
  proof (cases "in_use ?p \<and> sp_priority ?p > max_priority ?p")
    case False
    with 2 show ?thesis by (auto simp: Let_def split: if_splits)
  next
    case True
    define v1 where "v1 = set_slot i (\<lambda>p. p\<lparr>sp_priority := sp_priority p - 1\<rparr>) v"
    from 2(3) True obtain r v2 where s: "schedule_process_local K i v1 = Some (r, v2)"
      and rest: "balance_slots K rest v2 = Some v'"
      by (auto simp: Let_def v1_def bind_eq_Some_conv)
    have i: "i < NR_PROCS" "i < length (proc_table v)" "slot_ok i ?p" using 2(4,5) by (simp_all add: sched_ok_def)
    have "sp_priority ?p - 1 < sp_priority ?p"
      using True by (metis word_less_1 word_less_sub1 word_not_simps(1) measure_unat word_less_nat_alt)
    then have v1: "sched_ok v1" "in_use (proc_table v1 ! i)" "balance_timeout v1 = balance_timeout v"
      using 2(5) i True by (auto simp: v1_def slot_ok_def intro!: sched_ok_set_slot)
    note s_ok = schedule_process_local_ok [OF v1(1) i(1) v1(2) s]
    from 2(1) True rest 2(4) s s_ok v1(3) show ?thesis by (auto simp: v1_def [symmetric])
  qed
qed simp

section \<open>The balancing timer\<close>

lemma set_timer_empty:
  assumes "timers env = None" and "set_timer works (Some now) tp ticks watchdog arg env = Some env'"
  shows "timers env' = Some tp"
    "timer_heap env' tp = \<lparr>tmr_next = None, tmr_exp_time = now + word_of_int ticks, tmr_func = watchdog, tmr_arg = arg\<rparr>"
    "expiring env' = expiring env" "\<not> expiring env \<Longrightarrow> alarm env' = now + word_of_int ticks"
  using assms clr_loop.simps [of tp None None] set_loop.simps [of _ None None]
  by (auto simp: set_timer_def tmrs_settimer_def tmrs_clrtimer_def store_link_def
      head_time_def sys_setalarm_def Let_def split: if_splits)

text \<open>The balancing timer is the one timer of the server, and it is set.\<close>

definition timer_set :: "timer_env \<Rightarrow> bool" where
  "timer_set env \<longleftrightarrow> timers env = Some sched_timer \<and> tmr_next (timer_heap env sched_timer) = None \<and>
     tmr_func (timer_heap env sched_timer) = BALANCE_QUEUES \<and> tmr_exp_time (timer_heap env sched_timer) \<noteq> 0"

definition due :: "timer_env \<Rightarrow> clock_t" where
  "due env = tmr_exp_time (timer_heap env sched_timer)"

definition uptime_ok :: "sched_kernel \<Rightarrow> bool" where
  "uptime_ok K \<longleftrightarrow> (\<forall>tr u. k_getticks K tr = Some u \<longrightarrow> u + BALANCE_TIMEOUT * k_hz K \<noteq> 0)"

definition vars_ok :: "sched_kernel \<Rightarrow> sched_vars \<Rightarrow> bool" where
  "vars_ok K v \<longleftrightarrow> sched_ok v \<and> balance_timeout v = BALANCE_TIMEOUT * k_hz K"

definition sched_inv :: "sched_kernel \<Rightarrow> timer_env \<times> sched_vars \<Rightarrow> bool" where
  "sched_inv K = (\<lambda>(env, v). vars_ok K v \<and> timer_set env \<and> \<not> expiring env \<and> alarm env = due env)"

lemma set_sched_timer_effect:
  assumes "set_sched_timer K (env, v) = Some (env', v')" and "timers env = None"
    and "balance_timeout v = BALANCE_TIMEOUT * k_hz K"
  obtains u where "k_getticks K (sched_trace v) = Some u" "v' = v\<lparr>sched_trace := sched_trace v @ [Getticks]\<rparr>"
    "uptime_ok K \<Longrightarrow> timer_set env'" "due env' = u + BALANCE_TIMEOUT * k_hz K" "expiring env' = expiring env"
    "\<not> expiring env \<Longrightarrow> alarm env' = due env'"
proof -
  from assms(1) obtain u where u: "k_getticks K (sched_trace v) = Some u"
    and v': "v' = v\<lparr>sched_trace := sched_trace v @ [Getticks]\<rparr>"
    and s: "set_timer (k_setalarm K) (Some u) sched_timer (sint (balance_timeout v)) BALANCE_QUEUES 0 env = Some env'"
    by (auto simp: set_sched_timer_def bind_eq_Some_conv set_timer_def)
  show thesis
    by (rule that [of u]) (use u v' set_timer_empty [OF assms(2) s] assms(3) in
      \<open>auto simp: timer_set_def due_def uptime_ok_def\<close>)
qed

lemma balance_queues_effect:
  assumes "balance_queues K tp (env, v) = Some (env', v')" and "timers env = None" and "vars_ok K v"
  obtains u v1 where "balance_slots K [0..<NR_PROCS] v = Some v1" "k_getticks K (sched_trace v1) = Some u"
    "v' = v1\<lparr>sched_trace := sched_trace v1 @ [Getticks]\<rparr>" "vars_ok K v'"
    "uptime_ok K \<Longrightarrow> timer_set env'" "due env' = u + BALANCE_TIMEOUT * k_hz K" "expiring env' = expiring env"
proof -
  from assms(1) obtain v1 where v1: "balance_slots K [0..<NR_PROCS] v = Some v1"
    and s: "set_sched_timer K (env, v1) = Some (env', v')"
    by (auto simp: balance_queues_def bind_eq_Some_conv)
  from balance_slots_ok [OF v1] assms(3) have ok: "sched_ok v1" "balance_timeout v1 = BALANCE_TIMEOUT * k_hz K"
    by (simp_all add: vars_ok_def list_all_iff)
  show thesis
    by (rule set_sched_timer_effect [OF s assms(2) ok(2)]) (use that v1 ok in \<open>auto simp: vars_ok_def\<close>)
qed

lemma sched_watchdog_keeps:
  assumes "uptime_ok K" and "vars_ok K v" and "timer_set env" and "timers env = Some tp"
    and "sched_watchdogs K (tmr_func (timer_heap env tp)) tp (pop_timer tp env, v) = Some (env', v')"
  shows "vars_ok K v'" "timer_set env'"
proof -
  have tp: "tp = sched_timer" using assms(3,4) by (simp add: timer_set_def)
  then have b: "balance_queues K tp (pop_timer tp env, v) = Some (env', v')"
    using assms(3,5) by (simp add: sched_watchdogs_def timer_set_def)
  have n: "timers (pop_timer tp env) = None" using assms(3) tp by (simp add: timer_set_def pop_timer_def)
  show "vars_ok K v'" "timer_set env'"
    by (rule balance_queues_effect [OF b n assms(2)]; use assms(1) in blast)+
qed

lemma expire_keeps:
  assumes "uptime_ok K" and "sched_inv K (env, v)"
    and "expire_timers (k_setalarm K) (sched_watchdogs K) now (env, v) = Some (env', v')"
  shows "sched_inv K (env', v')"
proof -
  have "\<exists>env2. (case (env2, v') of (e, w) \<Rightarrow> vars_ok K w \<and> timer_set e) \<and> timers env' = timers env2 \<and>
      timer_heap env' = timer_heap env2 \<and> \<not> expiring env' \<and>
      (head_time (timers env2) (timer_heap env2) \<noteq> 0 \<longrightarrow> alarm env' = head_time (timers env2) (timer_heap env2))"
  proof (rule expire_timers_invariant [OF assms(3), of "\<lambda>(e, w). vars_ok K w \<and> timer_set e"], goal_cases)
    case 1
    then show ?case using assms(2) by (simp add: sched_inv_def timer_set_def)
  next
    case (2 env s tp env' s')
    then show ?case using sched_watchdog_keeps [OF assms(1), of s env tp env' s'] by simp
  qed
  then show ?thesis
    by (auto simp: sched_inv_def timer_set_def due_def head_time_def)
qed

lemma sched_reply_ok [simp]:
  "vars_ok K (sched_reply who r m v) = vars_ok K v" "proc_table (sched_reply who r m v) = proc_table v"
  "cpu_proc (sched_reply who r m v) = cpu_proc v"
  by (simp_all add: vars_ok_def sched_reply_def)

lemma sched_dispatch_ok:
  assumes "vars_ok K v" and "sched_dispatch K m from_kernel v = Some (r, m', v')"
  shows "vars_ok K v'"
proof -
  consider "do_start_scheduling K m v = Some (the r, m', v')" | "do_stop_scheduling K m v = Some (the r, v')"
    | "do_nice K m v = Some (the r, v')" | r1 where "do_noquantum K m v = Some (r1, v')" | "v' = v"
    using assms(2) unfolding sched_dispatch_def Let_def by (auto split: if_splits)
  then show ?thesis
    using assms(1) do_start_scheduling_ok do_stop_scheduling_ok do_nice_ok do_noquantum_ok
    unfolding vars_ok_def by cases metis+
qed

lemma sched_main_step_inv:
  assumes "uptime_ok K" and "sched_inv K s" and "sched_main_step K inp s = Some s'"
  shows "sched_inv K s'"
proof -
  obtain env v where s: "s = (env, v)" by fastforce
  obtain env' v' where s': "s' = (env', v')" by fastforce
  show ?thesis
  proof (cases inp)
    case ReceiveFails
    with assms(3) show ?thesis by (simp add: sched_main_step_def s)
  next
    case (Notification who t)
    with assms s s' expire_keeps [OF assms(1), of env v t env' v'] show ?thesis
      by (auto simp: sched_main_step_def sched_inv_def split: if_splits)
  next
    case (Request m fk)
    with assms(2,3) s sched_dispatch_ok [of K v m fk] show ?thesis
      by (auto simp: sched_main_step_def sched_inv_def bind_eq_Some_conv split: option.splits)
  qed
qed

lemma sched_startup_inv:
  assumes "uptime_ok K" and "sched_startup K True max_cpus = Some s"
  shows "sched_inv K s"
proof -
  obtain env v where s: "s = (env, v)" by fastforce
  let ?v = "(sched_vars0 max_cpus)\<lparr>balance_timeout := BALANCE_TIMEOUT * k_hz K\<rparr>"
  from assms(2) s have st: "set_sched_timer K (init_timer sched_timer timer_env0, ?v) = Some (env, v)"
    by (simp add: sched_startup_def init_scheduling_def)
  have e: "timers (init_timer sched_timer timer_env0) = None" "\<not> expiring (init_timer sched_timer timer_env0)"
    by (simp_all add: init_timer_def timer_env0_def)
  have v: "sched_ok ?v" by (simp add: sched_ok_def sched_vars0_def slot_ok_def empty_slot_def)
  show ?thesis
    by (rule set_sched_timer_effect [OF st e(1)]) (use assms(1) v e(2) s in \<open>auto simp: sched_inv_def vars_ok_def sched_ok_def\<close>)
qed

end
