(* ===== verification/Sched_Cpu.thy ===== *)
theory Sched_Cpu
  imports Sched_Props
begin

unbundle bit_operations_syntax

text \<open>
  The choice of a CPU by the scheduler: which one it takes, and that the search for one that the kernel
  accepts ends.
\<close>

section \<open>The least loaded CPU\<close>

lemma pick_loop_result:
  assumes "\<forall>c \<in> set cs. c < length loads"
  shows "\<exists>r. pick_loop bsp loads cs load cpu = Some r \<and>
    (r = cpu \<and> (\<forall>c \<in> set cs. of_nat c \<noteq> bsp \<longrightarrow> load \<le> loads ! c) \<or>
     (\<exists>c \<in> set cs. r = of_nat c \<and> r \<noteq> bsp \<and> loads ! c < load \<and>
       (\<forall>d \<in> set cs. of_nat d \<noteq> bsp \<longrightarrow> loads ! c \<le> loads ! d)))"
  using assms
proof (induction bsp loads cs load cpu rule: pick_loop.induct)
  case (2 bsp loads c cs load cpu)
  show ?case
  proof (cases "of_nat c \<noteq> bsp \<and> load > loads ! c")
    case True
    with 2(2) 2(4) obtain r where r: "pick_loop bsp loads cs (loads ! c) (of_nat c) = Some r"
      "r = of_nat c \<and> (\<forall>d \<in> set cs. of_nat d \<noteq> bsp \<longrightarrow> loads ! c \<le> loads ! d) \<or>
       (\<exists>e \<in> set cs. r = of_nat e \<and> r \<noteq> bsp \<and> loads ! e < loads ! c \<and>
         (\<forall>d \<in> set cs. of_nat d \<noteq> bsp \<longrightarrow> loads ! e \<le> loads ! d))"
      by (auto simp: cpu_is_available_def)
    then have "(\<exists>e \<in> set (c # cs). r = of_nat e \<and> r \<noteq> bsp \<and> loads ! e < load \<and>
         (\<forall>d \<in> set (c # cs). of_nat d \<noteq> bsp \<longrightarrow> loads ! e \<le> loads ! d))"
      using True by (elim disjE) (auto intro: less_imp_le less_trans)
    moreover have "pick_loop bsp loads (c # cs) load cpu = Some r"
      using r(1) True 2(4) by (simp add: cpu_is_available_def)
    ultimately show ?thesis by blast
  next
    case False
    with 2(3) 2(4) obtain r where r: "pick_loop bsp loads cs load cpu = Some r"
      "r = cpu \<and> (\<forall>d \<in> set cs. of_nat d \<noteq> bsp \<longrightarrow> load \<le> loads ! d) \<or>
       (\<exists>e \<in> set cs. r = of_nat e \<and> r \<noteq> bsp \<and> loads ! e < load \<and>
         (\<forall>d \<in> set cs. of_nat d \<noteq> bsp \<longrightarrow> loads ! e \<le> loads ! d))"
      by (auto simp: cpu_is_available_def)
    then have "r = cpu \<and> (\<forall>d \<in> set (c # cs). of_nat d \<noteq> bsp \<longrightarrow> load \<le> loads ! d) \<or>
       (\<exists>e \<in> set (c # cs). r = of_nat e \<and> r \<noteq> bsp \<and> loads ! e < load \<and>
         (\<forall>d \<in> set (c # cs). of_nat d \<noteq> bsp \<longrightarrow> loads ! e \<le> loads ! d))"
      using False by (elim disjE) (auto simp: not_less)
    moreover have "pick_loop bsp loads (c # cs) load cpu = Some r"
      using r(1) False 2(4) by (auto simp: cpu_is_available_def)
    ultimately show ?thesis by blast
  qed
qed simp

text \<open>The machine's CPUs fit the array of loads.\<close>

definition machine_ok :: "machine \<Rightarrow> nat \<Rightarrow> bool" where
  "machine_ok mach max_cpus \<longleftrightarrow> 0 < max_cpus \<and>
     (config_smp mach \<longrightarrow> unat (bsp_id mach) < max_cpus \<and> unat (processors_count mach) \<le> max_cpus)"

text \<open>Whether a process may run on another CPU than the boot CPU.\<close>

definition movable :: "machine \<Rightarrow> schedproc \<Rightarrow> bool" where
  "movable mach p \<longleftrightarrow> config_smp mach \<and> processors_count mach \<noteq> 1 \<and> \<not> is_system_proc p"

definition boot_cpu :: "machine \<Rightarrow> 32 word" where
  "boot_cpu mach = (if config_smp mach then bsp_id mach else 0)"

text \<open>The CPUs other than the boot CPU that have not been given up.\<close>

definition live_cpus :: "machine \<Rightarrow> 32 word list \<Rightarrow> nat set" where
  "live_cpus mach loads = {c. c < unat (processors_count mach) \<and> of_nat c \<noteq> bsp_id mach \<and> loads ! c \<noteq> CPU_DEAD}"

lemma less_CPU_DEAD: "(w :: 32 word) < - 1 \<longleftrightarrow> w \<noteq> CPU_DEAD"
  by (simp add: CPU_DEAD_def word_order.not_eq_extremum)

lemma finite_live_cpus [simp]: "finite (live_cpus mach loads)"
  by (simp add: live_cpus_def)

lemma unat_cpu: "c < unat (n :: 32 word) \<Longrightarrow> unat (of_nat c :: 32 word) = c"
  using unsigned_less [of n, where 'a = nat] by (simp add: unsigned_of_nat take_bit_nat_eq_self)

lemma pick_cpu_immovable:
  "\<not> movable mach p \<Longrightarrow> pick_cpu mach p loads = Some (p\<lparr>sp_cpu := boot_cpu mach\<rparr>, loads)"
  by (auto simp: movable_def pick_cpu_def boot_cpu_def)

lemma pick_cpu_movable:
  assumes "machine_ok mach (length loads)" and "movable mach p"
  shows "\<exists>cpu. pick_cpu mach p loads = Some (p\<lparr>sp_cpu := cpu\<rparr>, loads[unat cpu := loads ! unat cpu + 1]) \<and>
    unat cpu < length loads \<and>
    (if live_cpus mach loads = {} then cpu = bsp_id mach
     else unat cpu \<in> live_cpus mach loads \<and> (\<forall>d \<in> live_cpus mach loads. loads ! unat cpu \<le> loads ! d))"
proof -
  let ?cs = "[0..<unat (processors_count mach)]"
  have m: "unat (bsp_id mach) < length loads" "unat (processors_count mach) \<le> length loads"
    using assms by (simp_all add: machine_ok_def movable_def)
  from pick_loop_result [of ?cs loads "bsp_id mach" "- 1" "bsp_id mach"] m obtain r where
    r: "pick_loop (bsp_id mach) loads ?cs (- 1) (bsp_id mach) = Some r"
    and alt: "r = bsp_id mach \<and> (\<forall>c \<in> set ?cs. of_nat c \<noteq> bsp_id mach \<longrightarrow> - 1 \<le> loads ! c) \<or>
     (\<exists>c \<in> set ?cs. r = of_nat c \<and> r \<noteq> bsp_id mach \<and> loads ! c < - 1 \<and>
       (\<forall>d \<in> set ?cs. of_nat d \<noteq> bsp_id mach \<longrightarrow> loads ! c \<le> loads ! d))" by auto
  from alt show ?thesis
  proof
    assume A: "r = bsp_id mach \<and> (\<forall>c \<in> set ?cs. of_nat c \<noteq> bsp_id mach \<longrightarrow> - 1 \<le> loads ! c)"
    then have "live_cpus mach loads = {}"
      using less_CPU_DEAD by (auto simp: live_cpus_def simp flip: not_less)
    with A r m assms(2) show ?thesis by (auto simp: pick_cpu_def movable_def)
  next
    assume "\<exists>c \<in> set ?cs. r = of_nat c \<and> r \<noteq> bsp_id mach \<and> loads ! c < - 1 \<and>
       (\<forall>d \<in> set ?cs. of_nat d \<noteq> bsp_id mach \<longrightarrow> loads ! c \<le> loads ! d)"
    then obtain c where c: "c < unat (processors_count mach)" "r = of_nat c" "r \<noteq> bsp_id mach" "loads ! c < - 1"
      "\<forall>d \<in> set ?cs. of_nat d \<noteq> bsp_id mach \<longrightarrow> loads ! c \<le> loads ! d" by auto
    have u: "unat r = c" using c(1,2) by (simp add: unat_cpu)
    have live: "c \<in> live_cpus mach loads" using c(1-4) less_CPU_DEAD by (simp add: live_cpus_def)
    moreover have "\<forall>d \<in> live_cpus mach loads. loads ! c \<le> loads ! d" using c(5) by (auto simp: live_cpus_def)
    ultimately show ?thesis using r u m c(1) assms(2)
      by (intro exI [of _ r]) (auto simp: pick_cpu_def movable_def)
  qed
qed

lemma pick_cpu_total:
  assumes "machine_ok mach (length loads)"
  shows "\<exists>p' loads'. pick_cpu mach p loads = Some (p', loads') \<and> unat (sp_cpu p') < length loads \<and>
    length loads' = length loads"
proof (cases "movable mach p")
  case True
  with pick_cpu_movable [OF assms True] show ?thesis by auto
next
  case False
  with assms show ?thesis by (auto simp: pick_cpu_immovable boot_cpu_def machine_ok_def)
qed

lemma pick_cpu_live:
  assumes "machine_ok mach (length loads)" and "pick_cpu mach p loads = Some (p', loads')"
  shows "live_cpus mach loads' \<subseteq> live_cpus mach loads"
    "sp_cpu p' \<noteq> boot_cpu mach \<Longrightarrow> unat (sp_cpu p') \<in> live_cpus mach loads"
proof -
  have "live_cpus mach loads' \<subseteq> live_cpus mach loads \<and>
    (sp_cpu p' \<noteq> boot_cpu mach \<longrightarrow> unat (sp_cpu p') \<in> live_cpus mach loads)"
  proof (cases "movable mach p")
    case False
    with assms(2) show ?thesis by (auto simp: pick_cpu_immovable)
  next
    case True
    from pick_cpu_movable [OF assms(1) True] assms(2) obtain cpu where
      c: "sp_cpu p' = cpu" "loads' = loads[unat cpu := loads ! unat cpu + 1]"
      "cpu = bsp_id mach \<or> unat cpu \<in> live_cpus mach loads" by (auto split: if_splits)
    have b: "boot_cpu mach = bsp_id mach" using True by (simp add: movable_def boot_cpu_def)
    have "x \<in> live_cpus mach loads" if x: "x \<in> live_cpus mach loads'" for x
    proof (cases "x = unat cpu")
      case True
      have "of_nat x \<noteq> bsp_id mach" using x by (simp add: live_cpus_def)
      then have "cpu \<noteq> bsp_id mach" unfolding True by simp
      with c(3) True show ?thesis by simp
    next
      case False
      with x c(2) show ?thesis by (auto simp: live_cpus_def)
    qed
    with b c show ?thesis by auto
  qed
  then show "live_cpus mach loads' \<subseteq> live_cpus mach loads"
    and "sp_cpu p' \<noteq> boot_cpu mach \<Longrightarrow> unat (sp_cpu p') \<in> live_cpus mach loads" by auto
qed

section \<open>The search ends\<close>

definition cpus_ok :: "sched_kernel \<Rightarrow> nat \<Rightarrow> sched_vars \<Rightarrow> bool" where
  "cpus_ok K n v \<longleftrightarrow> length (cpu_proc v) = n \<and> length (proc_table v) = NR_PROCS \<and>
     (\<forall>i < NR_PROCS. unat (sp_cpu (proc_table v ! i)) < n)"

lemma cpus_ok_set_slot:
  "cpus_ok K n v \<Longrightarrow> i < NR_PROCS \<Longrightarrow> unat (sp_cpu (f (proc_table v ! i))) < n \<Longrightarrow> cpus_ok K n (set_slot i f v)"
  by (auto simp: cpus_ok_def set_slot_def nth_list_update)

lemma cpus_ok_trace [simp]: "cpus_ok K n (v\<lparr>sched_trace := tr\<rparr>) = cpus_ok K n v"
  by (simp add: cpus_ok_def)

lemma pick_slot_total:
  assumes "machine_ok (k_machine K) n" and "cpus_ok K n v" and "i < NR_PROCS"
  obtains v' where "pick_slot K i v = Some v'" "cpus_ok K n v'" "unat (sp_cpu (proc_table v' ! i)) < n"
    "live_cpus (k_machine K) (cpu_proc v') \<subseteq> live_cpus (k_machine K) (cpu_proc v)"
    "sp_cpu (proc_table v' ! i) \<noteq> boot_cpu (k_machine K) \<Longrightarrow>
       unat (sp_cpu (proc_table v' ! i)) \<in> live_cpus (k_machine K) (cpu_proc v)"
    "sched_trace v' = sched_trace v"
proof -
  have m: "machine_ok (k_machine K) (length (cpu_proc v))" using assms(1,2) by (simp add: cpus_ok_def)
  from pick_cpu_total [OF m, of "proc_table v ! i"] obtain p' loads' where
    p: "pick_cpu (k_machine K) (proc_table v ! i) (cpu_proc v) = Some (p', loads')"
    "unat (sp_cpu p') < length (cpu_proc v)" "length loads' = length (cpu_proc v)" by blast
  note l = pick_cpu_live [OF m p(1)]
  show thesis
    by (rule that [of "v\<lparr>proc_table := (proc_table v)[i := p'], cpu_proc := loads'\<rparr>"])
      (use p l assms(2,3) in \<open>auto simp: pick_slot_def cpus_ok_def nth_list_update\<close>)
qed

lemma schedule_process_total:
  assumes "machine_ok (k_machine K) n" and "cpus_ok K n v" and "i < NR_PROCS"
  obtains r v' where "schedule_process K i flags v = Some (r, v')" "cpus_ok K n v'"
    "unat (sp_cpu (proc_table v' ! i)) < n"
    "live_cpus (k_machine K) (cpu_proc v') \<subseteq> live_cpus (k_machine K) (cpu_proc v)"
    "sp_cpu (proc_table v' ! i) \<noteq> boot_cpu (k_machine K) \<Longrightarrow>
       unat (sp_cpu (proc_table v' ! i)) \<in> live_cpus (k_machine K) (cpu_proc v)"
    "flags AND SCHEDULE_CHANGE_CPU \<noteq> 0 \<Longrightarrow>
       \<exists>e p q. r = k_answer K (sched_trace v) (Schedule e p q (sint (sp_cpu (proc_table v' ! i))))"
proof -
  obtain v' where 1: "pick_slot K i v = Some v'" "cpus_ok K n v'" "unat (sp_cpu (proc_table v' ! i)) < n"
    "live_cpus (k_machine K) (cpu_proc v') \<subseteq> live_cpus (k_machine K) (cpu_proc v)"
    "sp_cpu (proc_table v' ! i) \<noteq> boot_cpu (k_machine K) \<Longrightarrow>
       unat (sp_cpu (proc_table v' ! i)) \<in> live_cpus (k_machine K) (cpu_proc v)"
    "sched_trace v' = sched_trace v" by (rule pick_slot_total [OF assms]) blast
  let ?p = "proc_table v' ! i"
  let ?ev = "Schedule (sp_endpoint ?p) (if flags AND SCHEDULE_CHANGE_PRIO \<noteq> 0 then sint (sp_priority ?p) else -1)
      (if flags AND SCHEDULE_CHANGE_QUANTUM \<noteq> 0 then sint (time_slice ?p) else -1)
      (if flags AND SCHEDULE_CHANGE_CPU \<noteq> 0 then sint (sp_cpu ?p) else -1)"
  have s: "schedule_process K i flags v =
      Some (k_answer K (sched_trace v) ?ev, v'\<lparr>sched_trace := sched_trace v @ [?ev]\<rparr>)"
    using 1(1,6) by (simp add: schedule_process_def sys_schedule_def kernel_call_def Let_def)
  show thesis
    by (rule that [OF s]) (use 1 in \<open>simp_all del: schedule_flags\<close>, blast)
qed

text \<open>The kernel never refuses the boot CPU.\<close>

definition boot_cpu_accepted :: "sched_kernel \<Rightarrow> bool" where
  "boot_cpu_accepted K \<longleftrightarrow>
     (\<forall>tr e p q. k_answer K tr (Schedule e p q (sint (boot_cpu (k_machine K)))) \<noteq> RBADCPU)"

lemma start_loop_total:
  assumes "machine_ok (k_machine K) n" and "boot_cpu_accepted K" and "cpus_ok K n v" and "i < NR_PROCS"
  shows "\<exists>r v'. start_loop K i v = Some (r, v') \<and> r \<noteq> RBADCPU \<and> cpus_ok K n v'"
  using assms(3)
proof (induction "card (live_cpus (k_machine K) (cpu_proc v))" arbitrary: v rule: less_induct)
  case less
  let ?live = "\<lambda>v. live_cpus (k_machine K) (cpu_proc v)"
  obtain r v1 where s: "schedule_process K i SCHEDULE_CHANGE_ALL v = Some (r, v1)" "cpus_ok K n v1"
    "unat (sp_cpu (proc_table v1 ! i)) < n" "?live v1 \<subseteq> ?live v"
    "sp_cpu (proc_table v1 ! i) \<noteq> boot_cpu (k_machine K) \<Longrightarrow> unat (sp_cpu (proc_table v1 ! i)) \<in> ?live v"
    "\<exists>e p q. r = k_answer K (sched_trace v) (Schedule e p q (sint (sp_cpu (proc_table v1 ! i))))"
    by (rule schedule_process_total [OF assms(1) less.prems assms(4), of SCHEDULE_CHANGE_ALL]) auto
  show ?case
  proof (cases "r = RBADCPU")
    case False
    with s show ?thesis by (subst start_loop.simps) simp
  next
    case True
    let ?c = "unat (sp_cpu (proc_table v1 ! i))"
    define v2 where "v2 = v1\<lparr>cpu_proc := (cpu_proc v1)[?c := CPU_DEAD]\<rparr>"
    have "sp_cpu (proc_table v1 ! i) \<noteq> boot_cpu (k_machine K)"
      using True s(6) assms(2) unfolding boot_cpu_accepted_def by metis
    then have live: "?c \<in> ?live v" by (rule s(5))
    have len: "length (cpu_proc v1) = n" using s(2) by (simp add: cpus_ok_def)
    have v2: "cpus_ok K n v2" using s(2) by (auto simp: v2_def cpus_ok_def)
    have "?live v2 \<subseteq> ?live v1 - {?c}"
      using s(3) len by (auto simp: live_cpus_def v2_def nth_list_update split: if_splits)
    then have "?live v2 \<subset> ?live v" using live s(4) by blast
    moreover obtain v3 where v3: "pick_slot K i v2 = Some v3" "cpus_ok K n v3" "?live v3 \<subseteq> ?live v2"
      by (rule pick_slot_total [OF assms(1) v2 assms(4)]) blast
    ultimately have "card (?live v3) < card (?live v)" by (intro psubset_card_mono) auto
    from less.hyps [OF this v3(2)] obtain r' v' where
      "start_loop K i v3 = Some (r', v') \<and> r' \<noteq> RBADCPU \<and> cpus_ok K n v'" by blast
    then show ?thesis using s(1,3) True len v3(1)
      by (subst start_loop.simps) (simp add: v2_def Let_def)
  qed
qed

section \<open>Every request is handled\<close>

definition sched_environment :: "sched_kernel \<Rightarrow> nat \<Rightarrow> bool" where
  "sched_environment K n \<longleftrightarrow> machine_ok (k_machine K) n \<and> boot_cpu_accepted K \<and> uptime_ok K \<and>
     (\<forall>t. k_setalarm K t) \<and> (\<forall>tr. k_getticks K tr \<noteq> None)"

lemma schedule_process_local_total:
  assumes "sched_environment K n" and "cpus_ok K n v" and "i < NR_PROCS"
  shows "\<exists>r v'. schedule_process_local K i v = Some (r, v') \<and> cpus_ok K n v'"
proof -
  have "machine_ok (k_machine K) n" using assms(1) by (simp add: sched_environment_def)
  then show ?thesis unfolding schedule_process_local_def
    by (rule schedule_process_total [OF _ assms(2,3), of "SCHEDULE_CHANGE_PRIO OR SCHEDULE_CHANGE_QUANTUM"]) blast
qed

lemma cpus_okD: "cpus_ok K n v \<Longrightarrow> i < NR_PROCS \<Longrightarrow> unat (sp_cpu (proc_table v ! i)) < n"
  "cpus_ok K n v \<Longrightarrow> length (cpu_proc v) = n" "cpus_ok K n v \<Longrightarrow> length (proc_table v) = NR_PROCS"
  by (auto simp: cpus_ok_def)

lemma do_noquantum_total:
  assumes "sched_environment K n" and "cpus_ok K n v"
  shows "\<exists>r v'. do_noquantum K m v = Some (r, v') \<and> cpus_ok K n v'"
proof -
  obtain r1 proc where e: "sched_isokendpt (sm_source m) (proc_table v) = (r1, proc)" by fastforce
  show ?thesis
  proof (cases "r1 = ROK")
    case True
    note p = sched_isokendpt_ROK(3) [OF e [unfolded True]]
    let ?v1 = "if sp_priority (proc_table v ! nat proc) < MIN_USER_Q
      then set_slot (nat proc) (\<lambda>p. p\<lparr>sp_priority := sp_priority p + 1\<rparr>) v else v"
    have "cpus_ok K n ?v1" using assms(2) p cpus_okD(1) [OF assms(2) p] by (simp add: cpus_ok_set_slot)
    from schedule_process_local_total [OF assms(1) this p] e True show ?thesis
      by (fastforce simp: do_noquantum_def Let_def)
  qed (use assms e in \<open>simp add: do_noquantum_def\<close>)
qed

lemma do_stop_scheduling_total:
  assumes "cpus_ok K n v"
  shows "\<exists>r v'. do_stop_scheduling K m v = Some (r, v') \<and> cpus_ok K n v'"
proof -
  obtain r1 proc where e: "sched_isokendpt (stop_endpoint m) (proc_table v) = (r1, proc)" by fastforce
  show ?thesis
  proof (cases "accept_message m \<and> r1 = ROK")
    case True
    then have "r1 = ROK" by simp
    note p = sched_isokendpt_ROK(3) [OF e [unfolded this]]
    have "cpus_ok K n (set_slot (nat proc) (\<lambda>p. p\<lparr>sp_flags := 0\<rparr>) v1)"
      if "v1 = v \<or> (\<exists>c w. v1 = v\<lparr>cpu_proc := (cpu_proc v)[c := w]\<rparr>)" for v1
      by (rule cpus_ok_set_slot) (use that assms p in \<open>auto simp: cpus_ok_def\<close>)
    with e True cpus_okD(1) [OF assms p] cpus_okD(2) [OF assms] show ?thesis
      by (auto simp: do_stop_scheduling_def Let_def)
  qed (use assms e in \<open>auto simp: do_stop_scheduling_def\<close>)
qed

lemma do_nice_total:
  assumes "sched_environment K n" and "cpus_ok K n v"
  shows "\<exists>r v'. do_nice K m v = Some (r, v') \<and> cpus_ok K n v'"
proof -
  obtain r1 proc where e: "sched_isokendpt (nice_endpoint m) (proc_table v) = (r1, proc)" by fastforce
  show ?thesis
  proof (cases "accept_message m \<and> r1 = ROK \<and> nice_maxprio m < NR_SCHED_QUEUES")
    case True
    then have "r1 = ROK" by simp
    note p = sched_isokendpt_ROK(3) [OF e [unfolded this]]
    let ?v1 = "set_slot (nat proc) (\<lambda>p. p\<lparr>sp_priority := nice_maxprio m, max_priority := nice_maxprio m\<rparr>) v"
    have "cpus_ok K n ?v1" using assms(2) p cpus_okD(1) [OF assms(2) p] by (simp add: cpus_ok_set_slot)
    from schedule_process_local_total [OF assms(1) this p] obtain r v2 where
      v2: "schedule_process_local K (nat proc) ?v1 = Some (r, v2)" "cpus_ok K n v2" by blast
    have "cpus_ok K n (set_slot (nat proc) (\<lambda>q. q\<lparr>sp_priority := a, max_priority := b\<rparr>) v2)" for a b
      using v2(2) p cpus_okD(1) [OF v2(2) p] by (simp add: cpus_ok_set_slot)
    with v2 e True show ?thesis by (auto simp: do_nice_def Let_def)
  qed (use assms e in \<open>auto simp: do_nice_def not_less\<close>)
qed

lemma start_process_total:
  assumes "sched_environment K n" and "cpus_ok K n v" and "i < NR_PROCS"
  shows "\<exists>r m' v'. start_process K m i v = Some (r, m', v') \<and> cpus_ok K n v'"
proof -
  let ?ev = "Schedctl 0 (sp_endpoint (proc_table v ! i)) 0 0 0"
  let ?v1 = "v\<lparr>sched_trace := sched_trace v @ [?ev]\<rparr>"
  let ?v2 = "set_slot i (\<lambda>p. p\<lparr>sp_flags := IN_USE\<rparr>) ?v1"
  have env: "machine_ok (k_machine K) n" "boot_cpu_accepted K" using assms(1) by (simp_all add: sched_environment_def)
  have "cpus_ok K n ?v2"
    using assms(2,3) cpus_okD(1) [OF assms(2,3)] by (simp add: cpus_ok_set_slot)
  then obtain v3 where v3: "pick_slot K i ?v2 = Some v3" "cpus_ok K n v3"
    by (rule pick_slot_total [OF env(1) _ assms(3)])
  from start_loop_total [OF env v3(2) assms(3)] obtain r v' where
    "start_loop K i v3 = Some (r, v')" "cpus_ok K n v'" by blast
  with v3 assms(2) show ?thesis by (auto simp: start_process_def sys_schedctl_def kernel_call_def)
qed

lemma do_start_scheduling_total:
  assumes "sched_environment K n" and "cpus_ok K n v"
    and "sm_type m = SCHEDULING_START \<or> sm_type m = SCHEDULING_INHERIT"
  shows "\<exists>r m' v'. do_start_scheduling K m v = Some (r, m', v') \<and> cpus_ok K n v'"
proof -
  obtain r1 proc where e: "sched_isemtyendpt (start_endpoint m) (proc_table v) = (r1, proc)" by fastforce
  show ?thesis
  proof (cases "accept_message m \<and> r1 = ROK")
    case True
    then have "r1 = ROK" by simp
    note p = sched_isemtyendpt_ROK(3) [OF e [unfolded this]]
    define v1 where "v1 = set_slot (nat proc) (populate_slot (k_machine K) m) v"
    define v2 where "v2 = set_slot (nat proc) (init_special_case (k_machine K)) v1"
    have v1: "cpus_ok K n v1" unfolding v1_def
      using assms(2) p cpus_okD(1) [OF assms(2) p] by (intro cpus_ok_set_slot) (simp_all add: populate_slot_def)
    have v2: "cpus_ok K n v2" unfolding v2_def
      using v1 p cpus_okD(1) [OF v1 p] assms(1)
      by (intro cpus_ok_set_slot) (auto simp: init_special_case_def Let_def sched_environment_def machine_ok_def)
    have v3: "cpus_ok K n (set_slot (nat proc) (\<lambda>p. p\<lparr>sp_priority := a, time_slice := b\<rparr>) v2)" for a b
      using v2 p cpus_okD(1) [OF v2 p] by (intro cpus_ok_set_slot) simp_all
    from e True assms(3) v1 v2 start_process_total [OF assms(1) v3 p, of m] show ?thesis
      by (auto simp: do_start_scheduling_def Let_def v1_def [symmetric] v2_def [symmetric] split: sum.splits prod.splits)
  qed (use assms e in \<open>auto simp: do_start_scheduling_def\<close>)
qed

lemma balance_slots_total:
  "sched_environment K n \<Longrightarrow> cpus_ok K n v \<Longrightarrow> list_all (\<lambda>i. i < NR_PROCS) is \<Longrightarrow>
     \<exists>v'. balance_slots K is v = Some v' \<and> cpus_ok K n v'"
proof (induction "is" arbitrary: v)
  case (Cons i "is")
  let ?v1 = "set_slot i (\<lambda>p. p\<lparr>sp_priority := sp_priority p - 1\<rparr>) v"
  have i: "i < NR_PROCS" using Cons.prems(3) by simp
  have "cpus_ok K n ?v1" using Cons.prems(2) i cpus_okD(1) [OF Cons.prems(2) i] by (simp add: cpus_ok_set_slot)
  from schedule_process_local_total [OF Cons.prems(1) this i] obtain r v2 where
    v2: "schedule_process_local K i ?v1 = Some (r, v2)" "cpus_ok K n v2" by blast
  from Cons.IH [OF Cons.prems(1) v2(2)] Cons.IH [OF Cons.prems(1,2)] Cons.prems(3) v2 show ?case
    by (auto simp: Let_def)
qed simp

end
