(* ===== verification/Sched_Claims.thy ===== *)
theory Sched_Claims
  imports Sched_Cpu
begin

unbundle bit_operations_syntax

text \<open>
  What the scheduler guarantees, over any kernel: stated for the main loop and its handlers.
\<close>

section \<open>Clock ticks\<close>

lemma set_timer_empty_total:
  assumes "timers env = None" and "\<forall>t. works t"
  shows "\<exists>env'. set_timer works (Some now) tp ticks watchdog arg env = Some env'"
  using assms clr_loop.simps [of tp None None] set_loop.simps [of _ None None]
  by (simp add: set_timer_def tmrs_settimer_def tmrs_clrtimer_def store_link_def sys_setalarm_def Let_def)

lemma balance_queues_total:
  assumes "sched_environment K n" and "timers env = None" and "vars_ok K v" and "cpus_ok K n v"
  shows "\<exists>env' v'. balance_queues K tp (env, v) = Some (env', v') \<and> cpus_ok K n v'"
proof -
  from balance_slots_total [OF assms(1,4), of "[0..<NR_PROCS]"] obtain v1 where
    v1: "balance_slots K [0..<NR_PROCS] v = Some v1" "cpus_ok K n v1" by (auto simp: list_all_iff)
  obtain u where u: "k_getticks K (sched_trace v1) = Some u" using assms(1) by (auto simp: sched_environment_def)
  have "\<forall>t. k_setalarm K t" using assms(1) by (simp add: sched_environment_def)
  from set_timer_empty_total [OF assms(2) this, of u sched_timer "sint (balance_timeout v1)" BALANCE_QUEUES 0]
  obtain env' where "set_timer (k_setalarm K) (Some u) sched_timer (sint (balance_timeout v1)) BALANCE_QUEUES 0 env = Some env'"
    by blast
  with v1 u show ?thesis by (simp add: balance_queues_def set_sched_timer_def)
qed

text \<open>The clock has moved on by the time the watchdog reads it.\<close>

definition clock_advances :: "sched_kernel \<Rightarrow> clock_t \<Rightarrow> bool" where
  "clock_advances K now \<longleftrightarrow> (\<forall>tr u. k_getticks K tr = Some u \<longrightarrow> now < u + BALANCE_TIMEOUT * k_hz K)"

lemma exptimers_not_due:
  "now < tmr_exp_time (h tp) \<Longrightarrow> tmrs_exptimers run now (Some tp) h s = Some (tmr_exp_time (h tp), Some tp, h, s)"
  by (subst tmrs_exptimers.simps) (auto dest: leD)

lemma expire_not_due:
  assumes "sched_environment K n" and "timers env = Some sched_timer" and "now < due env"
  shows "expire_timers (k_setalarm K) run now (env, v) = Some (env\<lparr>expiring := False, alarm := due env\<rparr>, v)"
proof -
  have "0 < due env" using assms(3) by (metis word_coorder.extremum_strict word_gt_0 word_zero_le not_less)
  with exptimers_not_due [of now "timer_heap env" sched_timer "as_watchdogs run" "(env\<lparr>expiring := True\<rparr>, v)"] assms show ?thesis
    by (simp add: expire_timers_def sys_setalarm_def due_def sched_environment_def Let_def)
qed

lemma expire_due:
  assumes "sched_environment K n" and "sched_inv K (env, v)" and "cpus_ok K n v"
    and "clock_advances K now" and "due env \<le> now"
  shows "\<exists>env' v' v1 u. expire_timers (k_setalarm K) (sched_watchdogs K) now (env, v) = Some (env', v') \<and>
    balance_slots K [0..<NR_PROCS] v = Some v1 \<and> k_getticks K (sched_trace v1) = Some u \<and>
    v' = v1\<lparr>sched_trace := sched_trace v1 @ [Getticks]\<rparr> \<and> due env' = u + BALANCE_TIMEOUT * k_hz K \<and> cpus_ok K n v'"
proof -
  let ?e = "pop_timer sched_timer (env\<lparr>expiring := True\<rparr>)"
  have i: "vars_ok K v" "timers env = Some sched_timer" "tmr_next (timer_heap env sched_timer) = None"
    "tmr_func (timer_heap env sched_timer) = BALANCE_QUEUES" using assms(2) by (simp_all add: sched_inv_def timer_set_def)
  have n: "timers ?e = None" using i by (simp add: pop_timer_def)
  have K: "uptime_ok K" "\<forall>t. k_setalarm K t" using assms(1) by (simp_all add: sched_environment_def)
  obtain env' v' where b: "balance_queues K sched_timer (?e, v) = Some (env', v')" "cpus_ok K n v'"
    using balance_queues_total [OF assms(1) n i(1) assms(3)] by blast
  from balance_queues_effect [OF b(1) n i(1)] K(1) obtain u v1 where
    s: "balance_slots K [0..<NR_PROCS] v = Some v1" "k_getticks K (sched_trace v1) = Some u"
    "v' = v1\<lparr>sched_trace := sched_trace v1 @ [Getticks]\<rparr>" "timer_set env'" "due env' = u + BALANCE_TIMEOUT * k_hz K"
    by metis
  have late: "now < due env'" using assms(4) s(2,5) by (simp add: clock_advances_def)
  have t: "timers env' = Some sched_timer" using s(4) by (simp add: timer_set_def)
  have w: "as_watchdogs (sched_watchdogs K) BALANCE_QUEUES sched_timer
      (None, (timer_heap env)(sched_timer := (timer_heap env sched_timer)\<lparr>tmr_exp_time := TMR_NEVER\<rparr>), env\<lparr>expiring := True\<rparr>, v) =
      Some (Some sched_timer, timer_heap env', env', v')"
    using b(1) t i(3) by (simp add: as_watchdogs_def sched_watchdogs_def pop_timer_def)
  have "tmrs_exptimers (as_watchdogs (sched_watchdogs K)) now (Some sched_timer) (timer_heap env) (env\<lparr>expiring := True\<rparr>, v) =
      Some (due env', Some sched_timer, timer_heap env', env', v')"
    using w i(3,4) assms(5) late exptimers_not_due [of now "timer_heap env'" sched_timer]
    by (subst tmrs_exptimers.simps) (simp add: due_def)
  then have "expire_timers (k_setalarm K) (sched_watchdogs K) now (env, v) =
      Some (env'\<lparr>timers := Some sched_timer, timer_heap := timer_heap env', expiring := False,
        alarm := (if due env' > 0 then due env' else alarm env')\<rparr>, v')"
    using i(2) K(2) by (simp add: expire_timers_def sys_setalarm_def Let_def)
  with s b(2) show ?thesis by (fastforce simp: due_def)
qed

section \<open>The main loop\<close>

text \<open>Inputs the server is sure to handle: it is not told to stop, and time does not stand still.\<close>

fun sched_admissible :: "sched_kernel \<Rightarrow> sched_input \<Rightarrow> bool" where
  "sched_admissible K ReceiveFails \<longleftrightarrow> False"
| "sched_admissible K (Notification who now) \<longleftrightarrow> who = CLOCK \<longrightarrow> clock_advances K now"
| "sched_admissible K (Request m from_kernel) \<longleftrightarrow> True"

lemma sched_reply_cpus_ok [simp]: "cpus_ok K n (sched_reply who r m v) = cpus_ok K n v"
  by (simp add: sched_reply_def)

lemma sched_dispatch_total:
  assumes "sched_environment K n" and "cpus_ok K n v"
  shows "\<exists>r m' v'. sched_dispatch K m from_kernel v = Some (r, m', v') \<and> cpus_ok K n v'"
proof -
  consider (start) "sm_type m = SCHEDULING_START \<or> sm_type m = SCHEDULING_INHERIT"
    | (other) "\<not> (sm_type m = SCHEDULING_START \<or> sm_type m = SCHEDULING_INHERIT)" by blast
  then show ?thesis
  proof cases
    case start
    from do_start_scheduling_total [OF assms start] start show ?thesis
      by (auto simp: sched_dispatch_def Let_def)
  next
    case other
    obtain r1 v1 r2 v2 r3 v3 where "do_stop_scheduling K m v = Some (r1, v1)" "cpus_ok K n v1"
      "do_nice K m v = Some (r2, v2)" "cpus_ok K n v2" "do_noquantum K m v = Some (r3, v3)" "cpus_ok K n v3"
      using do_stop_scheduling_total [OF assms(2)] do_nice_total [OF assms] do_noquantum_total [OF assms] by meson
    with other assms(2) show ?thesis by (simp add: sched_dispatch_def Let_def)
  qed
qed

lemma sched_main_step_total:
  assumes "sched_environment K n" and "sched_admissible K inp" and "sched_inv K s" and "cpus_ok K n (snd s)"
  shows "\<exists>s'. sched_main_step K inp s = Some s' \<and> cpus_ok K n (snd s')"
proof -
  obtain env v where s: "s = (env, v)" by fastforce
  have v: "cpus_ok K n v" "timers env = Some sched_timer" using assms(3,4) by (simp_all add: s sched_inv_def timer_set_def)
  show ?thesis
  proof (cases inp)
    case ReceiveFails
    with assms(2) show ?thesis by simp
  next
    case (Notification who now)
    show ?thesis
    proof (cases "who = CLOCK")
      case False
      with Notification v show ?thesis by (simp add: sched_main_step_def s)
    next
      case True
      then have adv: "clock_advances K now" using assms(2) Notification by simp
      show ?thesis
      proof (cases "now < due env")
        case True
        with expire_not_due [OF assms(1) v(2) True, of "sched_watchdogs K" v] Notification \<open>who = CLOCK\<close> v show ?thesis
          by (simp add: sched_main_step_def s)
      next
        case False
        with expire_due [OF assms(1) _ v(1) adv] assms(3) Notification \<open>who = CLOCK\<close> show ?thesis
          by (force simp: sched_main_step_def s)
      qed
    qed
  next
    case (Request m from_kernel)
    from sched_dispatch_total [OF assms(1) v(1), of m from_kernel] obtain r m' v' where
      "sched_dispatch K m from_kernel v = Some (r, m', v')" "cpus_ok K n v'" by blast
    with Request show ?thesis by (auto simp: sched_main_step_def s split: option.splits)
  qed
qed

interpretation sched_server: step_invariant "sched_main_step K" "\<lambda>_. uptime_ok K" "sched_inv K" for K
  by unfold_locales (rule sched_main_step_inv)

interpretation sched_live: total_step "sched_main_step K" "\<lambda>inp. sched_environment K n \<and> sched_admissible K inp"
  "\<lambda>s. sched_inv K s \<and> cpus_ok K n (snd s)" for K n
proof (unfold_locales, goal_cases)
  case (1 s inp s')
  then have "uptime_ok K" by (simp add: sched_environment_def)
  with 1 sched_main_step_inv [of K s inp s'] sched_main_step_total [of K n inp s] show ?case by auto
next
  case (2 s inp)
  then show ?case using sched_main_step_total [of K n inp s] by blast
qed

lemma sched_startup_total:
  assumes "sched_environment K n"
  shows "\<exists>s. sched_startup K True n = Some s \<and> sched_inv K s \<and> cpus_ok K n (snd s)"
proof -
  let ?v = "(sched_vars0 n)\<lparr>balance_timeout := BALANCE_TIMEOUT * k_hz K\<rparr>"
  let ?e = "init_timer sched_timer timer_env0"
  obtain u where u: "k_getticks K [] = Some u" using assms by (auto simp: sched_environment_def)
  have e: "timers ?e = None" "\<forall>t. k_setalarm K t"
    using assms by (simp_all add: init_timer_def timer_env0_def sched_environment_def)
  obtain env' where "set_timer (k_setalarm K) (Some u) sched_timer (sint (BALANCE_TIMEOUT * k_hz K)) BALANCE_QUEUES 0 ?e = Some env'"
    using set_timer_empty_total [OF e] by blast
  with u have s: "sched_startup K True n = Some (env', ?v\<lparr>sched_trace := [Getticks]\<rparr>)"
    by (simp add: sched_startup_def init_scheduling_def set_sched_timer_def sched_vars0_def)
  have "0 < n" using assms by (simp add: sched_environment_def machine_ok_def)
  then have "cpus_ok K n (?v\<lparr>sched_trace := [Getticks]\<rparr>)"
    by (simp add: cpus_ok_def sched_vars0_def empty_slot_def)
  moreover have "uptime_ok K" using assms by (simp add: sched_environment_def)
  ultimately show ?thesis using s sched_startup_inv by fastforce
qed

text \<open>
  C21. In every state of the scheduler after any sequence of messages and notifications, a slot of its
  table that is in use belongs to the process whose endpoint has the slot's number and has priorities of
  existing queues; the kernel has only been asked for existing queues; and the balancing timer is set,
  with the alarm at the clock task due at just that time, so balancing never stops.
\<close>

theorem sched_table_invariant:
  assumes "uptime_ok K" and "sched_startup K True max_cpus = Some s"
    and "run_steps (sched_main_step K) inps s = Some (env, v)"
  shows "length (proc_table v) = NR_PROCS \<and>
    (\<forall>i < NR_PROCS. in_use (proc_table v ! i) \<longrightarrow> ENDPOINT_P (sp_endpoint (proc_table v ! i)) = int i \<and>
       max_priority (proc_table v ! i) < NR_SCHED_QUEUES \<and> sp_priority (proc_table v ! i) < NR_SCHED_QUEUES) \<and>
    list_all event_ok (sched_trace v) \<and>
    timers env = Some sched_timer \<and> tmr_func (timer_heap env sched_timer) = BALANCE_QUEUES \<and>
    alarm env = tmr_exp_time (timer_heap env sched_timer) \<and> alarm env \<noteq> 0"
proof -
  have "sched_inv K (env, v)"
    by (rule sched_server.run_inv [OF sched_startup_inv [OF assms(1,2)] _ assms(3)]) (use assms(1) in \<open>simp add: list_all_iff\<close>)
  then show ?thesis
    by (auto simp: sched_inv_def vars_ok_def sched_ok_def slot_ok_def timer_set_def due_def)
qed


text \<open>
  A machine with three CPUs of which the kernel refuses the last, and a kernel that accepts everything
  else. The boot CPU is 0, and the uptime that of one instant.
\<close>

definition example_kernel :: sched_kernel where
  "example_kernel = \<lparr>k_machine = \<lparr>config_smp = True, processors_count = 3, bsp_id = 0\<rparr>,
     k_answer = (\<lambda>_ ev. case ev of Schedule e p q c \<Rightarrow> if c = 2 then RBADCPU else ROK | _ \<Rightarrow> ROK),
     k_getticks = (\<lambda>_. Some 100), k_setalarm = (\<lambda>_. True), k_hz = 60\<rparr>"

lemma sched_example_environment: "sched_environment example_kernel 3"
  by (simp add: sched_environment_def example_kernel_def machine_ok_def boot_cpu_accepted_def boot_cpu_def
      uptime_ok_def BALANCE_TIMEOUT_def)

definition sched_example_request :: sched_message where
  "sched_example_request = \<lparr>sm_source = PM_PROC_NR, sm_type = SCHEDULING_START, start_endpoint = 32773, start_parent = 0,
     start_maxprio = 7, start_quantum = 200, stop_endpoint = 32773, nice_endpoint = 32773, nice_maxprio = 3,
     start_scheduler = 0\<rparr>"

definition example_inputs :: "sched_input list" where
  "example_inputs = [Request sched_example_request False, Request (sched_example_request\<lparr>sm_source := 32773, sm_type := SCHEDULING_NO_QUANTUM\<rparr>) True,
     Notification CLOCK 399, Request (sched_example_request\<lparr>sm_type := SCHEDULING_STOP\<rparr>) False]"

lemma example_admissible: "list_all (sched_admissible example_kernel) example_inputs"
  by (simp add: example_inputs_def example_kernel_def clock_advances_def BALANCE_TIMEOUT_def CLOCK_def)


lemma example_run:
  obtains s env v where "sched_startup example_kernel True 3 = Some s"
    "run_steps (sched_main_step example_kernel) example_inputs s = Some (env, v)"
proof -
  from sched_startup_total [OF sched_example_environment] obtain s where
    s: "sched_startup example_kernel True 3 = Some s" "sched_inv example_kernel s" "cpus_ok example_kernel 3 (snd s)" by blast
  then have "\<exists>s'. run_steps (sched_main_step example_kernel) example_inputs s = Some s'"
    by (intro sched_live.run_total [of example_kernel s 3])
      (use sched_example_environment example_admissible in \<open>auto simp: list_all_iff\<close>)
  then obtain env v where "run_steps (sched_main_step example_kernel) example_inputs s = Some (env, v)" by auto
  with s(1) show thesis by (rule that)
qed

theorem sched_table_invariant_witness:
  "\<exists>s env v. sched_startup example_kernel True 3 = Some s \<and>
     run_steps (sched_main_step example_kernel) example_inputs s = Some (env, v) \<and>
     length (proc_table v) = NR_PROCS \<and> list_all event_ok (sched_trace v) \<and> alarm env \<noteq> 0"
proof -
  obtain s env v where r: "sched_startup example_kernel True 3 = Some s"
    "run_steps (sched_main_step example_kernel) example_inputs s = Some (env, v)" by (rule example_run)
  have "uptime_ok example_kernel" using sched_example_environment by (simp add: sched_environment_def)
  from sched_table_invariant [OF this r] r show ?thesis by blast
qed

section \<open>Who changes what\<close>

lemma start_loop_frame:
  assumes "start_loop K i v = Some (r, v')" and "j \<noteq> i" and "i < length (proc_table v)"
  shows "proc_table v' ! j = proc_table v ! j"
proof -
  have "i < length (proc_table v) \<longrightarrow> j \<noteq> i \<longrightarrow> (case (r, v') of (_, v') \<Rightarrow> proc_table v' ! j = proc_table v ! j)"
  proof (rule start_loop.raw_induct [OF _ assms(1), of "\<lambda>K i v rv. i < length (proc_table v) \<longrightarrow> j \<noteq> i \<longrightarrow>
      (case rv of (_, v') \<Rightarrow> proc_table v' ! j = proc_table v ! j)"], goal_cases)
    case (1 loop K i v rv)
    note IH = "1"(1) and eq = "1"(2)
    show ?case
    proof (intro impI)
      assume i: "i < length (proc_table v)" and j: "j \<noteq> i"
      from eq obtain r1 v1 where s: "schedule_process K i SCHEDULE_CHANGE_ALL v = Some (r1, v1)"
        by (auto simp: bind_eq_Some_conv)
      have v1: "proc_table v1 ! j = proc_table v ! j" "length (proc_table v1) = length (proc_table v)"
        by (rule schedule_process_effect [OF s i local_flags(4)]; use j in simp)+
      show "case rv of (_, v') \<Rightarrow> proc_table v' ! j = proc_table v ! j"
      proof (cases "r1 = RBADCPU")
        case False
        with eq s v1 show ?thesis by auto
      next
        case True
        define v2 where "v2 = v1\<lparr>cpu_proc := (cpu_proc v1)[unat (sp_cpu (proc_table v1 ! i)) := CPU_DEAD]\<rparr>"
        from eq s True obtain v3 where v3: "pick_slot K i v2 = Some v3" and l: "loop K i v3 = Some rv"
          by (auto simp: Let_def bind_eq_Some_conv v2_def split: if_splits)
        have "proc_table v3 ! j = proc_table v2 ! j" "length (proc_table v3) = length (proc_table v2)"
          by (rule pick_slot_effect [OF v3]; use j in simp)+
        moreover have "proc_table v2 = proc_table v1" by (simp add: v2_def)
        ultimately show ?thesis using IH [OF l] i j v1 by simp
      qed
    qed
  qed
  with assms(2,3) show ?thesis by simp
qed

lemma set_slot_other: "j \<noteq> i \<Longrightarrow> proc_table (set_slot i f v) ! j = proc_table v ! j"
  by (simp add: set_slot_def)

lemma schedule_process_local_frame:
  assumes "schedule_process_local K i v = Some (r, v')" and "i < length (proc_table v)" and "j \<noteq> i"
  shows "proc_table v' ! j = proc_table v ! j"
  by (rule schedule_process_local_effect [OF assms(1,2)]) (use assms(3) in simp)

text \<open>The process a request is about.\<close>

definition request_target :: "sched_message \<Rightarrow> int" where
  "request_target m =
     (if sm_type m = SCHEDULING_START \<or> sm_type m = SCHEDULING_INHERIT then start_endpoint m
      else if sm_type m = SCHEDULING_STOP then stop_endpoint m
      else if sm_type m = SCHEDULING_SET_NICE then nice_endpoint m
      else sm_source m)"

lemma start_process_frame:
  assumes "start_process K m i v = Some (r, m', v')" and "i < length (proc_table v)" and "j \<noteq> i"
  shows "proc_table v' ! j = proc_table v ! j"
proof -
  let ?ev = "Schedctl 0 (sp_endpoint (proc_table v ! i)) 0 0 0"
  define v1 where "v1 = v\<lparr>sched_trace := sched_trace v @ [?ev]\<rparr>"
  have v1: "proc_table v1 = proc_table v" by (simp add: v1_def)
  show ?thesis
  proof (cases "k_answer K (sched_trace v) ?ev = ROK")
    case False
    with assms(1) v1 show ?thesis by (simp add: start_process_def sys_schedctl_def kernel_call_def v1_def [symmetric])
  next
    case True
    let ?v2 = "set_slot i (\<lambda>p. p\<lparr>sp_flags := IN_USE\<rparr>) v1"
    from assms(1) True obtain v3 r' where v3: "pick_slot K i ?v2 = Some v3" and l: "start_loop K i v3 = Some (r', v')"
      by (auto simp: start_process_def sys_schedctl_def kernel_call_def v1_def [symmetric] bind_eq_Some_conv split: if_splits)
    have "proc_table v3 ! j = proc_table ?v2 ! j" "length (proc_table v3) = length (proc_table ?v2)"
      by (rule pick_slot_effect [OF v3]; use assms(3) in simp)+
    moreover have "length (proc_table v3) = length (proc_table v)" using calculation v1 by simp
    ultimately show ?thesis using start_loop_frame [OF l assms(3)] assms(2,3) v1 by (simp add: set_slot_other)
  qed
qed

lemma do_start_scheduling_frame:
  assumes "do_start_scheduling K m v = Some (r, m', v')" and "length (proc_table v) = NR_PROCS"
    and "int j \<noteq> ENDPOINT_P (start_endpoint m)"
  shows "proc_table v' ! j = proc_table v ! j"
proof -
  obtain r1 proc where e: "sched_isemtyendpt (start_endpoint m) (proc_table v) = (r1, proc)" by fastforce
  show ?thesis
  proof (cases "accept_message m \<and> r1 = ROK")
    case False
    with assms e show ?thesis by (auto simp: do_start_scheduling_def split: if_splits)
  next
    case True
    then have "r1 = ROK" by simp
    note p = sched_isemtyendpt_ROK [OF e [unfolded this]]
    have j: "j \<noteq> nat proc" using assms(3) p(1,2) by auto
    define v1 where "v1 = set_slot (nat proc) (populate_slot (k_machine K) m) v"
    define v2 where "v2 = set_slot (nat proc) (init_special_case (k_machine K)) v1"
    have f: "proc_table v1 ! j = proc_table v ! j" "proc_table v2 ! j = proc_table v ! j"
      "length (proc_table v2) = NR_PROCS"
      using j assms(2) by (simp_all add: v1_def v2_def set_slot_other)
    have "proc_table v' ! j = proc_table v ! j"
      if "start_process K m (nat proc) (set_slot (nat proc) (\<lambda>p. p\<lparr>sp_priority := a, time_slice := b\<rparr>) v2) = Some (r, m', v')" for a b
      using start_process_frame [OF that _ j] p(3) f j by (simp add: set_slot_other)
    with assms(1) e True f show ?thesis
      by (auto simp: do_start_scheduling_def Let_def v1_def [symmetric] v2_def [symmetric] split: if_splits sum.splits)
  qed
qed

lemma do_stop_scheduling_frame:
  assumes "do_stop_scheduling K m v = Some (r, v')" and "int j \<noteq> ENDPOINT_P (stop_endpoint m)"
  shows "proc_table v' ! j = proc_table v ! j"
proof -
  obtain r1 proc where e: "sched_isokendpt (stop_endpoint m) (proc_table v) = (r1, proc)" by fastforce
  then have "r1 = ROK \<Longrightarrow> j \<noteq> nat proc" using sched_isokendpt_ROK assms(2) by fastforce
  with assms(1) e show ?thesis
    by (auto simp: do_stop_scheduling_def Let_def set_slot_other split: if_splits)
qed

lemma do_nice_frame:
  assumes "do_nice K m v = Some (r, v')" and "length (proc_table v) = NR_PROCS"
    and "int j \<noteq> ENDPOINT_P (nice_endpoint m)"
  shows "proc_table v' ! j = proc_table v ! j"
proof -
  obtain r1 proc where e: "sched_isokendpt (nice_endpoint m) (proc_table v) = (r1, proc)" by fastforce
  show ?thesis
  proof (cases "accept_message m \<and> r1 = ROK \<and> nice_maxprio m < NR_SCHED_QUEUES")
    case False
    with assms e show ?thesis by (auto simp: do_nice_def split: if_splits)
  next
    case True
    then have "r1 = ROK" by simp
    note p = sched_isokendpt_ROK [OF e [unfolded this]]
    have j: "j \<noteq> nat proc" using assms(3) p(1,2) by auto
    let ?v1 = "set_slot (nat proc) (\<lambda>p. p\<lparr>sp_priority := nice_maxprio m, max_priority := nice_maxprio m\<rparr>) v"
    from assms(1) e True obtain v2 where v2: "schedule_process_local K (nat proc) ?v1 = Some (r, v2)"
      and v': "proc_table v' ! j = proc_table v2 ! j"
      using j by (auto simp: do_nice_def Let_def bind_eq_Some_conv set_slot_other split: if_splits)
    from schedule_process_local_frame [OF v2 _ j] v' p(3) assms(2) j show ?thesis
      by (simp add: set_slot_other)
  qed
qed

lemma do_noquantum_frame:
  assumes "do_noquantum K m v = Some (r, v')" and "length (proc_table v) = NR_PROCS"
    and "int j \<noteq> ENDPOINT_P (sm_source m)"
  shows "proc_table v' ! j = proc_table v ! j"
proof -
  obtain r1 proc where e: "sched_isokendpt (sm_source m) (proc_table v) = (r1, proc)" by fastforce
  show ?thesis
  proof (cases "r1 = ROK")
    case False
    with assms e show ?thesis by (auto simp: do_noquantum_def split: if_splits)
  next
    case True
    note p = sched_isokendpt_ROK [OF e [unfolded True]]
    have j: "j \<noteq> nat proc" using assms(3) p(1,2) by auto
    let ?v1 = "if sp_priority (proc_table v ! nat proc) < MIN_USER_Q
      then set_slot (nat proc) (\<lambda>p. p\<lparr>sp_priority := sp_priority p + 1\<rparr>) v else v"
    from assms(1) e True obtain r2 where "schedule_process_local K (nat proc) ?v1 = Some (r2, v')"
      by (auto simp: do_noquantum_def Let_def bind_eq_Some_conv split: if_splits)
    from schedule_process_local_frame [OF this _ j] p(3) assms(2) j show ?thesis
      by (simp add: set_slot_other split: if_splits)
  qed
qed

text \<open>
  C36. Only the process manager, the reincarnation server and the kernel itself can change the scheduler's
  table. A request from any other process and a notification from anyone but the clock gets one reply, that
  it is not permitted or not known, and changes nothing else and asks nothing of the kernel. A request
  that is let through changes at most the slot of the process it is about.
\<close>

theorem sched_requests_authorised:
  assumes "sched_ok v"
  shows "(\<not> accept_message m \<longrightarrow> \<not> (from_kernel \<and> sm_type m = SCHEDULING_NO_QUANTUM) \<longrightarrow>
      (\<exists>r \<in> {RPERM, RNOSYS}. sched_main_step K (Request m from_kernel) (env, v) =
        Some (env, v\<lparr>sched_trace := sched_trace v @ [SchedReply (sm_source m) r m]\<rparr>))) \<and>
    (who \<noteq> CLOCK \<longrightarrow> sched_main_step K (Notification who now) (env, v) =
        Some (env, v\<lparr>sched_trace := sched_trace v @ [SchedReply who RNOSYS (notify_message who)]\<rparr>)) \<and>
    (\<forall>env' v' j. sched_main_step K (Request m from_kernel) (env, v) = Some (env', v') \<longrightarrow>
      int j \<noteq> ENDPOINT_P (request_target m) \<longrightarrow> proc_table v' ! j = proc_table v ! j)"
proof (intro conjI impI allI)
  assume "\<not> accept_message m" "\<not> (from_kernel \<and> sm_type m = SCHEDULING_NO_QUANTUM)"
  then show "\<exists>r \<in> {RPERM, RNOSYS}. sched_main_step K (Request m from_kernel) (env, v) =
      Some (env, v\<lparr>sched_trace := sched_trace v @ [SchedReply (sm_source m) r m]\<rparr>)"
    by (auto simp: sched_main_step_def sched_dispatch_def do_start_scheduling_def do_stop_scheduling_def
        do_nice_def no_sys_def sched_reply_def Let_def)
next
  assume "who \<noteq> CLOCK"
  then show "sched_main_step K (Notification who now) (env, v) =
      Some (env, v\<lparr>sched_trace := sched_trace v @ [SchedReply who RNOSYS (notify_message who)]\<rparr>)"
    by (simp add: sched_main_step_def sched_reply_def)
next
  fix env' v' j
  assume s: "sched_main_step K (Request m from_kernel) (env, v) = Some (env', v')"
    and j: "int j \<noteq> ENDPOINT_P (request_target m)"
  have len: "length (proc_table v) = NR_PROCS" using assms by (simp add: sched_ok_def)
  from s obtain r m' v1 where d: "sched_dispatch K m from_kernel v = Some (r, m', v1)"
    and v': "proc_table v' = proc_table v1"
    by (auto simp: sched_main_step_def bind_eq_Some_conv split: option.splits)
  have "proc_table v1 ! j = proc_table v ! j"
    using d j len do_start_scheduling_frame [of K m v "the r" m' v1 j] do_stop_scheduling_frame [of K m v "the r" v1 j]
      do_nice_frame [of K m v "the r" v1 j] do_noquantum_frame [of K m v _ v1 j]
    by (auto simp: sched_dispatch_def request_target_def Let_def SCHEDULING_STOP_def SCHEDULING_START_def
        SCHEDULING_INHERIT_def SCHEDULING_SET_NICE_def SCHEDULING_NO_QUANTUM_def split: if_splits)
  with v' show "proc_table v' ! j = proc_table v ! j" by simp
qed

theorem sched_requests_authorised_witness:
  "sched_main_step example_kernel (Request (sched_example_request\<lparr>sm_source := 40000\<rparr>) False) (timer_env0, sched_vars0 3) =
     Some (timer_env0, (sched_vars0 3)\<lparr>sched_trace := [SchedReply 40000 RPERM (sched_example_request\<lparr>sm_source := 40000\<rparr>)]\<rparr>)"
proof -
  have ok: "sched_ok (sched_vars0 3)" by (simp add: sched_ok_def sched_vars0_def slot_ok_def empty_slot_def)
  have a: "\<not> accept_message (sched_example_request\<lparr>sm_source := 40000\<rparr>)"
    by (simp add: accept_message_def PM_PROC_NR_def RS_PROC_NR_def)
  have "sm_type (sched_example_request\<lparr>sm_source := 40000\<rparr>) = SCHEDULING_START" by (simp add: sched_example_request_def)
  then have "sched_main_step example_kernel (Request (sched_example_request\<lparr>sm_source := 40000\<rparr>) False) (timer_env0, sched_vars0 3) \<noteq>
     Some (timer_env0, (sched_vars0 3)\<lparr>sched_trace := [SchedReply 40000 RNOSYS (sched_example_request\<lparr>sm_source := 40000\<rparr>)]\<rparr>)"
    using a by (simp add: sched_main_step_def sched_dispatch_def do_start_scheduling_def sched_reply_def sched_vars0_def)
  with sched_requests_authorised [OF ok, THEN conjunct1, rule_format, OF a, of False example_kernel timer_env0]
  show ?thesis by (auto simp: sched_vars0_def)
qed

section \<open>Balancing\<close>

text \<open>What one round of balancing does to a slot, and a slot without the CPU that was picked for it.\<close>

definition raised :: "schedproc \<Rightarrow> schedproc" where
  "raised p = (if in_use p \<and> sp_priority p > max_priority p then p\<lparr>sp_priority := sp_priority p - 1\<rparr> else p)"

definition without_cpu :: "schedproc \<Rightarrow> schedproc" where
  "without_cpu p = p\<lparr>sp_cpu := 0\<rparr>"

definition schedule_call :: "schedproc \<Rightarrow> sched_event" where
  "schedule_call p = Schedule (sp_endpoint p) (sint (sp_priority p)) (sint (time_slice p)) (-1)"

lemma without_cpu_raised: "without_cpu (raised p) = raised (without_cpu p)"
  by (simp add: without_cpu_def raised_def)

lemma balance_slots_effect:
  assumes "balance_slots K is v = Some v'" and "distinct is" and "\<forall>i \<in> set is. i < length (proc_table v)"
  shows "length (proc_table v') = length (proc_table v) \<and>
    (\<forall>j. without_cpu (proc_table v' ! j) = without_cpu (if j \<in> set is then raised (proc_table v ! j) else proc_table v ! j)) \<and>
    sched_trace v' = sched_trace v @ map (\<lambda>i. schedule_call (raised (proc_table v ! i)))
      (filter (\<lambda>i. raised (proc_table v ! i) \<noteq> proc_table v ! i) is)"
  using assms
proof (induction K "is" v rule: balance_slots.induct)
  case (2 K i rest v)
  let ?p = "proc_table v ! i"
  show ?case
  proof (cases "in_use ?p \<and> sp_priority ?p > max_priority ?p")
    case False
    then have r: "raised ?p = ?p" by (simp only: raised_def if_False)
    from False 2(3) have rest: "balance_slots K rest v = Some v'" by (auto simp: Let_def split: if_splits)
    from False 2(2) rest 2(4,5) r show ?thesis by auto
  next
    case True
    define v1 where "v1 = set_slot i (\<lambda>p. p\<lparr>sp_priority := sp_priority p - 1\<rparr>) v"
    from 2(3) True obtain r v2 where s: "schedule_process_local K i v1 = Some (r, v2)"
      and rest: "balance_slots K rest v2 = Some v'"
      by (auto simp: Let_def v1_def bind_eq_Some_conv)
    have i: "i < length (proc_table v)" "i \<notin> set rest" using 2(4,5) by simp_all
    have r: "raised ?p = proc_table v1 ! i" using True i(1) by (simp add: raised_def v1_def)
    have ne: "raised ?p \<noteq> ?p"
    proof
      assume "raised ?p = ?p"
      moreover have "sp_priority (raised ?p) = sp_priority ?p - 1" using True by (simp add: raised_def)
      ultimately have "sp_priority ?p = sp_priority ?p - 1" by (simp only:)
      then show False by simp
    qed
    have i1: "i < length (proc_table v1)" using i(1) by (simp add: v1_def)
    from schedule_process_local_effect [OF s i1] obtain c where
      c: "proc_table v2 = (proc_table v1)[i := (proc_table v1 ! i)\<lparr>sp_cpu := c\<rparr>]"
      "sched_trace v2 = sched_trace v1 @ [schedule_call (proc_table v1 ! i)]"
      unfolding schedule_call_def by metis
    have l: "length (proc_table v2) = length (proc_table v)" using c(1) by (simp add: v1_def)
    have o: "proc_table v2 ! j = proc_table v ! j" if "j \<noteq> i" for j
      using that c(1) by (simp add: v1_def set_slot_other)
    have p2: "without_cpu (proc_table v2 ! i) = without_cpu (raised ?p)"
      using c(1) i1 r by (simp add: without_cpu_def)
    have IH: "length (proc_table v') = length (proc_table v2) \<and>
      (\<forall>j. without_cpu (proc_table v' ! j) = without_cpu (if j \<in> set rest then raised (proc_table v2 ! j) else proc_table v2 ! j)) \<and>
      sched_trace v' = sched_trace v2 @ map (\<lambda>i. schedule_call (raised (proc_table v2 ! i)))
        (filter (\<lambda>i. raised (proc_table v2 ! i) \<noteq> proc_table v2 ! i) rest)"
      using 2(1) True rest 2(4,5) s l by (auto simp: v1_def [symmetric])
    have m: "map (\<lambda>i. schedule_call (raised (proc_table v2 ! i))) (filter (\<lambda>i. raised (proc_table v2 ! i) \<noteq> proc_table v2 ! i) rest) =
        map (\<lambda>i. schedule_call (raised (proc_table v ! i))) (filter (\<lambda>i. raised (proc_table v ! i) \<noteq> proc_table v ! i) rest)"
    proof -
      have "\<forall>x \<in> set rest. proc_table v2 ! x = proc_table v ! x" using i(2) o by metis
      then show ?thesis by (intro map_cong filter_cong) auto
    qed
    have t: "sched_trace v1 = sched_trace v" by (simp add: v1_def)
    have "without_cpu (proc_table v' ! j) = without_cpu (if j \<in> set (i # rest) then raised (proc_table v ! j) else proc_table v ! j)" for j
      using IH i(2) o [of j] p2 by (cases "j = i") auto
    with IH l m t c(2) ne r show ?thesis by simp
  qed
qed simp

lemma raised_fields [simp]: "max_priority (raised p) = max_priority p" "sp_flags (raised p) = sp_flags p"
  "sp_endpoint (raised p) = sp_endpoint p"
  by (simp_all add: raised_def)

lemma raised_pow:
  assumes "in_use p"
  shows "unat (sp_priority ((raised ^^ n) p)) =
      (if sp_priority p > max_priority p then max (unat (max_priority p)) (unat (sp_priority p) - n) else unat (sp_priority p))
    \<and> max_priority ((raised ^^ n) p) = max_priority p \<and> sp_flags ((raised ^^ n) p) = sp_flags p"
proof (induction n)
  case 0
  then show ?case by (simp add: word_less_nat_alt)
next
  case (Suc n)
  let ?p = "(raised ^^ n) p"
  have "unat (sp_priority ?p - 1) = unat (sp_priority ?p) - 1" if "sp_priority ?p > max_priority ?p"
    using that by (intro unat_minus_one) (auto simp: word_less_nat_alt)
  moreover have "sp_priority (raised ?p) = (if in_use ?p \<and> sp_priority ?p > max_priority ?p then sp_priority ?p - 1 else sp_priority ?p)"
    by (simp add: raised_def)
  ultimately show ?case using Suc assms by (auto simp: word_less_nat_alt max_def)
qed

text \<open>Rounds of balancing.\<close>

abbreviation balance_rounds :: "sched_kernel \<Rightarrow> nat \<Rightarrow> sched_vars \<Rightarrow> sched_vars option" where
  "balance_rounds K n \<equiv> run_steps (\<lambda>_. balance_slots K [0..<NR_PROCS]) (replicate n ())"

lemma balance_rounds_effect:
  "balance_rounds K n v = Some v' \<Longrightarrow> length (proc_table v) = NR_PROCS \<Longrightarrow>
     length (proc_table v') = NR_PROCS \<and>
     (\<forall>j < NR_PROCS. without_cpu (proc_table v' ! j) = (raised ^^ n) (without_cpu (proc_table v ! j)))"
proof (induction n arbitrary: v)
  case (Suc n)
  from Suc.prems(1) obtain v1 where v1: "balance_slots K [0..<NR_PROCS] v = Some v1" "balance_rounds K n v1 = Some v'"
    by (auto simp: bind_eq_Some_conv)
  from balance_slots_effect [OF v1(1)] Suc.prems(2) have
    e: "length (proc_table v1) = NR_PROCS" "\<And>j. j < NR_PROCS \<Longrightarrow> without_cpu (proc_table v1 ! j) = raised (without_cpu (proc_table v ! j))"
    by (auto simp: without_cpu_raised)
  from Suc.IH [OF v1(2) e(1)] e(2) show ?case by (simp add: funpow_Suc_right del: funpow.simps)
qed simp

text \<open>
  Balancing undoes what running out of quantum did: after \<open>n\<close> rounds a process that had dropped below its
  highest priority has come up by \<open>n\<close> queues, but never above that priority; a process that had not dropped keeps
  its priority. No other process's highest priority or slot is touched.
\<close>

theorem balancing_restores_priority:
  assumes "sched_ok v" and "balance_rounds K n v = Some v'" and "i < NR_PROCS" and "in_use (proc_table v ! i)"
  shows "unat (sp_priority (proc_table v' ! i)) =
      (if sp_priority (proc_table v ! i) > max_priority (proc_table v ! i)
       then max (unat (max_priority (proc_table v ! i))) (unat (sp_priority (proc_table v ! i)) - n)
       else unat (sp_priority (proc_table v ! i))) \<and>
    max_priority (proc_table v' ! i) = max_priority (proc_table v ! i) \<and> in_use (proc_table v' ! i) \<and>
    (\<forall>j < NR_PROCS. \<not> in_use (proc_table v ! j) \<longrightarrow> without_cpu (proc_table v' ! j) = without_cpu (proc_table v ! j))"
proof -
  have len: "length (proc_table v) = NR_PROCS" using assms(1) by (simp add: sched_ok_def)
  note e = balance_rounds_effect [OF assms(2) len, THEN conjunct2, rule_format]
  have u: "in_use (without_cpu (proc_table v ! i))" using assms(4) by (simp add: without_cpu_def)
  have f: "sp_priority (without_cpu q) = sp_priority q" "max_priority (without_cpu q) = max_priority q"
    "sp_flags (without_cpu q) = sp_flags q" for q by (simp_all add: without_cpu_def)
  have "(raised ^^ n) q = q" if "\<not> in_use q" for q using that by (induction n) (simp_all add: raised_def)
  then have idle: "\<not> in_use (proc_table v ! j) \<Longrightarrow> without_cpu (proc_table v' ! j) = without_cpu (proc_table v ! j)"
    if "j < NR_PROCS" for j using e [OF that] f(3) by simp
  from raised_pow [OF u, of n, folded e [OF assms(3)], unfolded f] assms(4) idle show ?thesis
    by (intro conjI allI impI) simp_all
qed

text \<open>A table with one process that has dropped from queue 7 to 9.\<close>

definition example_slot :: schedproc where
  "example_slot = \<lparr>sp_endpoint = 32773, sp_parent = 0, sp_flags = IN_USE, max_priority = 7, sp_priority = 9,
     time_slice = 200, sp_cpu = 0\<rparr>"

definition example_vars :: sched_vars where
  "example_vars = (sched_vars0 3)\<lparr>proc_table := (replicate NR_PROCS empty_slot)[5 := example_slot],
     balance_timeout := 300\<rparr>"

lemma example_vars_nth:
  "proc_table example_vars ! 5 = example_slot" "length (proc_table example_vars) = NR_PROCS"
  by (simp_all add: example_vars_def NR_PROCS_def)

lemma example_vars_ok: "sched_ok example_vars" "cpus_ok example_kernel 3 example_vars"
proof -
  have n: "proc_table example_vars ! i = (if i = 5 then example_slot else empty_slot)" if "i < NR_PROCS" for i
    using that by (simp add: example_vars_def nth_list_update)
  have "slot_ok 5 example_slot" "\<And>i. slot_ok i empty_slot"
    by (simp_all add: slot_ok_def example_slot_def empty_slot_def ENDPOINT_P_eq NR_SCHED_QUEUES_def)
  moreover have "sched_trace example_vars = []" by (simp add: example_vars_def sched_vars0_def)
  ultimately show "sched_ok example_vars" using n by (auto simp: sched_ok_def example_vars_nth)
  show "cpus_ok example_kernel 3 example_vars"
    using n by (auto simp: cpus_ok_def example_vars_nth example_slot_def empty_slot_def)
      (auto simp: example_vars_def sched_vars0_def)
qed

theorem balancing_restores_priority_witness:
  "\<exists>v'. balance_rounds example_kernel 1 example_vars = Some v' \<and> unat (sp_priority (proc_table v' ! 5)) = 8"
proof -
  have "list_all (\<lambda>i. i < NR_PROCS) [0..<NR_PROCS]" by (simp add: list_all_iff)
  then obtain v' where r: "balance_rounds example_kernel 1 example_vars = Some v'"
    using balance_slots_total [OF sched_example_environment example_vars_ok(2), of "[0..<NR_PROCS]"] by auto
  have "in_use (proc_table example_vars ! 5)" by (simp add: example_vars_nth example_slot_def IN_USE_def)
  from balancing_restores_priority [OF example_vars_ok(1) r _ this, THEN conjunct1] r show ?thesis
    by (simp add: example_vars_nth example_slot_def NR_PROCS_def)
qed

text \<open>
  A notification from the clock task does exactly what is due. Before the balancing timer is due nothing
  changes. From then on, one round of balancing is done: every process below its highest priority is moved up
  by one queue and handed to the kernel with its new priority and its time slice, in the order of the table, and
  no one else; and the timer is set again, five seconds on from the uptime, with the alarm to match.
\<close>

theorem clock_tick_balances:
  assumes "sched_environment K n" and "sched_inv K (env, v)" and "cpus_ok K n v" and "clock_advances K now"
  shows "\<exists>env' v'. sched_main_step K (Notification CLOCK now) (env, v) = Some (env', v') \<and>
    alarm env' = tmr_exp_time (timer_heap env' sched_timer) \<and>
    (if now < tmr_exp_time (timer_heap env sched_timer)
     then v' = v \<and> timer_heap env' = timer_heap env
     else (\<exists>u. (\<exists>tr. k_getticks K tr = Some u) \<and> tmr_exp_time (timer_heap env' sched_timer) = u + BALANCE_TIMEOUT * k_hz K) \<and>
       (\<forall>j < NR_PROCS. without_cpu (proc_table v' ! j) = without_cpu (raised (proc_table v ! j))) \<and>
       sched_trace v' = sched_trace v @ map (\<lambda>i. schedule_call (raised (proc_table v ! i)))
         (filter (\<lambda>i. raised (proc_table v ! i) \<noteq> proc_table v ! i) [0..<NR_PROCS]) @ [Getticks])"
proof -
  have v: "timers env = Some sched_timer" "length (proc_table v) = NR_PROCS"
    using assms(2) by (simp_all add: sched_inv_def timer_set_def vars_ok_def sched_ok_def)
  show ?thesis
  proof (cases "now < due env")
    case True
    with expire_not_due [OF assms(1) v(1) True, of "sched_watchdogs K" v] show ?thesis
      by (simp add: sched_main_step_def due_def)
  next
    case False
    from expire_due [OF assms leI [OF False]] obtain env' v' v1 u where
      s: "sched_main_step K (Notification CLOCK now) (env, v) = Some (env', v')"
      "balance_slots K [0..<NR_PROCS] v = Some v1" "k_getticks K (sched_trace v1) = Some u"
      "v' = v1\<lparr>sched_trace := sched_trace v1 @ [Getticks]\<rparr>" "due env' = u + BALANCE_TIMEOUT * k_hz K"
      by (auto simp: sched_main_step_def)
    have "uptime_ok K" using assms(1) by (simp add: sched_environment_def)
    from sched_main_step_inv [OF this assms(2) s(1)] have "alarm env' = due env'" by (simp add: sched_inv_def)
    moreover note balance_slots_effect [OF s(2)]
    ultimately show ?thesis using s v(2) False by (auto simp: due_def)
  qed
qed

definition example_timers :: timer_env where
  "example_timers = \<lparr>timers = Some sched_timer,
     timer_heap = (\<lambda>_. \<lparr>tmr_next = None, tmr_exp_time = 390, tmr_func = BALANCE_QUEUES, tmr_arg = 0\<rparr>),
     expiring = False, alarm = 390\<rparr>"

theorem clock_tick_balances_witness:
  "\<exists>env' v'. sched_main_step example_kernel (Notification CLOCK 399) (example_timers, example_vars) = Some (env', v') \<and>
     sp_priority (proc_table v' ! 5) = 8"
proof -
  have inv: "sched_inv example_kernel (example_timers, example_vars)"
    using example_vars_ok(1)
    by (simp add: sched_inv_def vars_ok_def timer_set_def due_def example_timers_def)
      (simp add: example_vars_def example_kernel_def BALANCE_TIMEOUT_def)
  have adv: "clock_advances example_kernel 399"
    by (simp add: clock_advances_def example_kernel_def BALANCE_TIMEOUT_def)
  have late: "\<not> (399 :: clock_t) < tmr_exp_time (timer_heap example_timers sched_timer)" by (simp add: example_timers_def)
  from clock_tick_balances [OF sched_example_environment inv example_vars_ok(2) adv] late obtain env' v' where
    s: "sched_main_step example_kernel (Notification CLOCK 399) (example_timers, example_vars) = Some (env', v')"
    and t: "\<forall>j < NR_PROCS. without_cpu (proc_table v' ! j) = without_cpu (raised (proc_table example_vars ! j))" by auto
  have "(5 :: nat) < NR_PROCS" by (simp add: NR_PROCS_def)
  with t have "without_cpu (proc_table v' ! 5) = without_cpu (raised example_slot)"
    using example_vars_nth by simp
  then have "sp_priority (without_cpu (proc_table v' ! 5)) = 8"
    by (simp add: raised_def example_slot_def without_cpu_def IN_USE_def)
  with s show ?thesis by (auto simp: without_cpu_def)
qed

section \<open>Requests\<close>

text \<open>
  Changing the nice level of a process is all or nothing: when the request succeeds the process has the
  new priority both as its current and as its highest one, and the kernel has been told; when it fails for
  any reason, a refusal by the kernel included, the table is as it was but for the CPU that was picked.
\<close>

theorem nice_all_or_nothing:
  assumes "sched_ok v" and "do_nice K m v = Some (r, v')"
  shows "let i = nat (ENDPOINT_P (nice_endpoint m)) in
    if r = ROK
    then i < NR_PROCS \<and> in_use (proc_table v ! i) \<and> nice_maxprio m < NR_SCHED_QUEUES \<and>
      without_cpu (proc_table v' ! i) =
        without_cpu ((proc_table v ! i)\<lparr>sp_priority := nice_maxprio m, max_priority := nice_maxprio m\<rparr>) \<and>
      sched_trace v' = sched_trace v @ [schedule_call (proc_table v' ! i)]
    else \<forall>j < NR_PROCS. without_cpu (proc_table v' ! j) = without_cpu (proc_table v ! j)"
proof -
  obtain r1 proc where e: "sched_isokendpt (nice_endpoint m) (proc_table v) = (r1, proc)" by fastforce
  have len: "length (proc_table v) = NR_PROCS" using assms(1) by (simp add: sched_ok_def)
  show ?thesis
  proof (cases "accept_message m \<and> r1 = ROK \<and> nice_maxprio m < NR_SCHED_QUEUES")
    case False
    with assms e show ?thesis by (auto simp: do_nice_def Let_def split: if_splits)
  next
    case True
    then have "r1 = ROK" by simp
    note p = sched_isokendpt_ROK [OF e [unfolded this]]
    let ?i = "nat proc"
    define v1 where "v1 = set_slot ?i (\<lambda>p. p\<lparr>sp_priority := nice_maxprio m, max_priority := nice_maxprio m\<rparr>) v"
    from assms(2) e True obtain v2 where v2: "schedule_process_local K ?i v1 = Some (r, v2)"
      and v': "v' = (if r \<noteq> ROK then set_slot ?i (\<lambda>p. p\<lparr>sp_priority := sp_priority (proc_table v ! ?i),
        max_priority := max_priority (proc_table v ! ?i)\<rparr>) v2 else v2)"
      by (auto simp: do_nice_def Let_def v1_def bind_eq_Some_conv not_le split: if_splits)
    have i1: "?i < length (proc_table v1)" using p(3) len by (simp add: v1_def)
    from schedule_process_local_effect [OF v2 i1] obtain c where
      c: "proc_table v2 = (proc_table v1)[?i := (proc_table v1 ! ?i)\<lparr>sp_cpu := c\<rparr>]"
      "sched_trace v2 = sched_trace v1 @ [schedule_call (proc_table v1 ! ?i)]"
      unfolding schedule_call_def by metis
    have o: "proc_table v' ! j = proc_table v ! j" if "j \<noteq> ?i" for j
      using that c(1) v' by (simp add: v1_def set_slot_other)
    have i: "proc_table v1 ! ?i = (proc_table v ! ?i)\<lparr>sp_priority := nice_maxprio m, max_priority := nice_maxprio m\<rparr>"
      using p(3) len by (simp add: v1_def)
    have "without_cpu (proc_table v' ! ?i) = without_cpu (proc_table v ! ?i)" if "r \<noteq> ROK"
      using that v' c(1) i1 i by (simp add: without_cpu_def)
    with o have fail: "r \<noteq> ROK \<Longrightarrow> without_cpu (proc_table v' ! j) = without_cpu (proc_table v ! j)" for j
      by (cases "j = ?i") auto
    have "schedule_call (proc_table v2 ! ?i) = schedule_call (proc_table v1 ! ?i)"
      using c(1) i1 by (simp add: schedule_call_def)
    with fail c i i1 v' p True show ?thesis
      by (auto simp: Let_def without_cpu_def v1_def)
  qed
qed

theorem nice_all_or_nothing_witness:
  "\<exists>r v'. do_nice (example_kernel\<lparr>k_answer := \<lambda>_ _. RINVAL\<rparr>) sched_example_request example_vars = Some (r, v') \<and>
     r \<noteq> ROK \<and> sp_priority (proc_table v' ! 5) = 9"
proof -
  let ?K = "example_kernel\<lparr>k_answer := \<lambda>_ _. RINVAL\<rparr>"
  have "sched_environment ?K 3"
    by (simp add: sched_environment_def example_kernel_def machine_ok_def boot_cpu_accepted_def
        uptime_ok_def BALANCE_TIMEOUT_def)
  moreover have "cpus_ok ?K 3 example_vars" using example_vars_ok(2) by (simp add: cpus_ok_def)
  ultimately obtain r v' where s: "do_nice ?K sched_example_request example_vars = Some (r, v')"
    using do_nice_total by blast
  have five: "(5 :: nat) < NR_PROCS" by (simp add: NR_PROCS_def)
  have r: "r \<noteq> ROK"
    using s by (auto simp: do_nice_def schedule_process_local_def schedule_process_def sys_schedule_def kernel_call_def
        Let_def bind_eq_Some_conv split: if_splits prod.splits)
  from nice_all_or_nothing [OF example_vars_ok(1) s] r five
  have "without_cpu (proc_table v' ! 5) = without_cpu example_slot"
    using example_vars_nth by (simp add: Let_def)
  then have "sp_priority (without_cpu (proc_table v' ! 5)) = 9" by (simp add: example_slot_def without_cpu_def)
  with s r show ?thesis by (auto simp: without_cpu_def)
qed

text \<open>
  Where the code does less than it means to: a process whose slot could be taken over but could then
  not be scheduled, because the kernel refused, is reported as an error, but its slot stays in use, so
  that starting it again is refused for good.
\<close>

theorem failed_start_keeps_slot:
  assumes "\<And>tr ev. k_answer K tr ev = (case ev of Schedctl _ _ _ _ _ \<Rightarrow> ROK | _ \<Rightarrow> RINVAL)"
    and "machine_ok (k_machine K) n" and "cpus_ok K n v"
    and "accept_message m" and "sm_type m = SCHEDULING_START"
    and "sched_isemtyendpt (start_endpoint m) (proc_table v) = (ROK, proc)"
    and "word_of_int (start_maxprio m) < NR_SCHED_QUEUES"
  shows "\<exists>v'. do_start_scheduling K m v = Some (RINVAL, m, v') \<and>
    do_start_scheduling K m v' = Some (RDEADEPT, m, v')"
proof -
  note p = sched_isemtyendpt_ROK [OF assms(6)]
  let ?i = "nat proc"
  have bc: "boot_cpu_accepted K" by (simp add: boot_cpu_accepted_def assms(1))
  define v1 where "v1 = set_slot ?i (populate_slot (k_machine K) m) v"
  define v2 where "v2 = set_slot ?i (init_special_case (k_machine K)) v1"
  define v3 where "v3 = set_slot ?i (\<lambda>p. p\<lparr>sp_priority := max_priority (proc_table v2 ! ?i),
    time_slice := word_of_int (start_quantum m)\<rparr>) v2"
  have v1: "cpus_ok K n v1" unfolding v1_def
    using assms(3) p(3) cpus_okD(1) [OF assms(3) p(3)] by (intro cpus_ok_set_slot) (simp_all add: populate_slot_def)
  have v2: "cpus_ok K n v2" unfolding v2_def
    using v1 p(3) cpus_okD(1) [OF v1 p(3)] assms(2)
    by (intro cpus_ok_set_slot) (auto simp: init_special_case_def Let_def machine_ok_def)
  have v3: "cpus_ok K n v3" unfolding v3_def
    using v2 p(3) cpus_okD(1) [OF v2 p(3)] by (intro cpus_ok_set_slot) simp_all
  have mp: "\<not> NR_SCHED_QUEUES \<le> max_priority (proc_table v1 ! ?i)"
    using assms(7) p(3) cpus_okD(3) [OF assms(3)] by (simp add: v1_def populate_slot_def not_le)
  have start: "do_start_scheduling K m v = start_process K m ?i v3"
    using assms(4,5,6) mp
    by (simp add: do_start_scheduling_def start_priority_def Let_def v1_def [symmetric] v2_def [symmetric] v3_def [symmetric])
  let ?v4 = "set_slot ?i (\<lambda>p. p\<lparr>sp_flags := IN_USE\<rparr>) (v3\<lparr>sched_trace := sched_trace v3 @ [Schedctl 0 (sp_endpoint (proc_table v3 ! ?i)) 0 0 0]\<rparr>)"
  have v4: "cpus_ok K n ?v4" using v3 p(3) cpus_okD(1) [OF v3 p(3)] by (simp add: cpus_ok_set_slot)
  obtain v5 where v5: "pick_slot K ?i ?v4 = Some v5" "cpus_ok K n v5" by (rule pick_slot_total [OF assms(2) v4 p(3)])
  obtain r v' where l: "start_loop K ?i v5 = Some (r, v')" using start_loop_total [OF assms(2) bc v5(2) p(3)] by blast
  obtain r' v6 where s6: "schedule_process K ?i SCHEDULE_CHANGE_ALL v5 = Some (r', v6)"
    using schedule_process_total [OF assms(2) v5(2) p(3)] by blast
  have i5: "?i < length (proc_table v5)" using v5(2) p(3) by (simp add: cpus_ok_def)
  obtain c where c: "proc_table v6 ! ?i = (proc_table v5 ! ?i)\<lparr>sp_cpu := c\<rparr>" "r' = RINVAL"
    by (rule schedule_process_effect [OF s6 i5 local_flags(4)]) (use i5 assms(1) that in auto)
  have "start_loop K ?i v5 = Some (RINVAL, v6)" using s6 c(2) by (subst start_loop.simps) simp
  then have r: "r = RINVAL" "v' = v6" using l by auto
  have sp: "start_process K m ?i v3 = Some (RINVAL, m, v6)"
    using v5(1) l r by (simp add: start_process_def sys_schedctl_def kernel_call_def assms(1))
  have "in_use (proc_table v5 ! ?i)"
    by (rule pick_slot_effect [OF v5(1)]) (use p(3) cpus_okD(3) [OF v3] in \<open>simp add: IN_USE_def\<close>)
  then have "in_use (proc_table v6 ! ?i)" using c(1) by simp
  then have "sched_isemtyendpt (start_endpoint m) (proc_table v6) = (RDEADEPT, proc)"
    using p by (auto simp: sched_isemtyendpt_def Let_def)
  then have "do_start_scheduling K m v6 = Some (RDEADEPT, m, v6)"
    using assms(4,5) by (simp add: do_start_scheduling_def)
  with start sp show ?thesis by auto
qed

theorem failed_start_keeps_slot_witness:
  "\<exists>K v'. do_start_scheduling K sched_example_request (sched_vars0 3) = Some (RINVAL, sched_example_request, v') \<and>
     do_start_scheduling K sched_example_request v' = Some (RDEADEPT, sched_example_request, v')"
proof -
  let ?K = "example_kernel\<lparr>k_answer := \<lambda>_ ev. case ev of Schedctl _ _ _ _ _ \<Rightarrow> ROK | _ \<Rightarrow> RINVAL\<rparr>"
  have m: "machine_ok (k_machine ?K) 3" by (simp add: example_kernel_def machine_ok_def)
  have c: "cpus_ok ?K 3 (sched_vars0 3)" by (simp add: cpus_ok_def sched_vars0_def empty_slot_def)
  have a: "accept_message sched_example_request" "sm_type sched_example_request = SCHEDULING_START"
    "(word_of_int (start_maxprio sched_example_request) :: 32 word) < NR_SCHED_QUEUES"
    by (simp_all add: accept_message_def sched_example_request_def NR_SCHED_QUEUES_def)
  have e: "sched_isemtyendpt (start_endpoint sched_example_request) (proc_table (sched_vars0 3)) = (ROK, 5)"
    by (simp add: sched_isemtyendpt_def sched_example_request_def ENDPOINT_P_eq sched_vars0_def empty_slot_def NR_PROCS_def)
  show ?thesis
    using failed_start_keeps_slot [of ?K 3 "sched_vars0 3" sched_example_request 5] m c a e by auto
qed

end
