(* ===== verification/Ds.thy ===== *)
theory Ds
  imports Endpoint
begin

unbundle bit_operations_syntax

text \<open>
  The data store server (servers/ds): a publish/subscribe store of named values, which processes are known
  in by their labels. The rest of the system (copying from and to processes through grants, memory
  allocation, regular expressions, and what the stack holds) is a parameter that may depend on
  everything the server has done so far. \<open>None\<close> stands for a panic, or for an access through a pointer
  that does not point to a live buffer.
\<close>

section \<open>The store\<close>

definition DSF_IN_USE :: "32 word" where "DSF_IN_USE = 0x001"
definition DSF_PRIV_RETRIEVE :: "32 word" where "DSF_PRIV_RETRIEVE = 0x002"
definition DSF_PRIV_OVERWRITE :: "32 word" where "DSF_PRIV_OVERWRITE = 0x004"
definition DSF_PRIV_SUBSCRIBE :: "32 word" where "DSF_PRIV_SUBSCRIBE = 0x008"
definition DSF_TYPE_U32 :: "32 word" where "DSF_TYPE_U32 = 0x010"
definition DSF_TYPE_STR :: "32 word" where "DSF_TYPE_STR = 0x020"
definition DSF_TYPE_MEM :: "32 word" where "DSF_TYPE_MEM = 0x040"
definition DSF_TYPE_LABEL :: "32 word" where "DSF_TYPE_LABEL = 0x100"
definition DSF_MASK_TYPE :: "32 word" where "DSF_MASK_TYPE = 0xFF0"
definition DSF_MASK_INTERNAL :: "32 word" where "DSF_MASK_INTERNAL = 0xFFF"
definition DSF_OVERWRITE :: "32 word" where "DSF_OVERWRITE = 0x01000"
definition DSF_INITIAL :: "32 word" where "DSF_INITIAL = 0x02000"
definition DS_MAX_KEYLEN :: nat where "DS_MAX_KEYLEN = 80"

definition NR_DS_KEYS :: nat where "NR_DS_KEYS = 128"
definition NR_DS_SUBS :: nat where "NR_DS_SUBS = 256"

definition DS_RQ_BASE :: int where "DS_RQ_BASE = 0x800"
definition DS_PUBLISH :: int where "DS_PUBLISH = DS_RQ_BASE + 0"
definition DS_RETRIEVE :: int where "DS_RETRIEVE = DS_RQ_BASE + 1"
definition DS_SUBSCRIBE :: int where "DS_SUBSCRIBE = DS_RQ_BASE + 2"
definition DS_CHECK :: int where "DS_CHECK = DS_RQ_BASE + 3"
definition DS_DELETE :: int where "DS_DELETE = DS_RQ_BASE + 4"
definition DS_RETRIEVE_LABEL :: int where "DS_RETRIEVE_LABEL = DS_RQ_BASE + 6"
definition DS_GETSYSINFO :: int where "DS_GETSYSINFO = DS_RQ_BASE + 7"
definition SI_DATA_STORE :: int where "SI_DATA_STORE = 5"

text \<open>A pointer to an allocated buffer and what the buffer holds, the null pointer, or one to freed memory.\<close>

datatype mem_ptr = Null | Alloc "char list" | Dangling

text \<open>
  The members of the union in an entry are kept apart. The strings are the characters before the
  terminating NUL.
\<close>

record data_store =
  d_flags :: "32 word"
  d_key :: string
  d_owner :: string
  d_u32 :: "32 word"
  d_data :: mem_ptr
  d_length :: nat
  d_reallen :: nat

text \<open>The compiled expression is its text, or \<open>None\<close> when there is none; \<open>old_subs\<close> is the bitmap.\<close>

record subscription =
  s_flags :: "32 word"
  s_owner :: string
  s_regex :: "string option"
  old_subs :: "bool list"

text \<open>
  A message: the request, and the fields in which results are handed back. The union \<open>val_in\<close> of a grant,
  a number and an endpoint is its 32 bits.
\<close>

record ds_message =
  dm_source :: int
  dm_type :: int
  key_grant :: int
  key_len :: int
  dm_flags :: "32 word"
  val_in :: "32 word"
  dm_val_len :: int
  dm_owner :: int
  rep_val :: "32 word"
  rep_len :: int
  si_what :: int
  si_where :: int
  si_size :: nat

datatype ds_event =
    CopyFrom int int nat
  | CopyTo int int "char list"
  | DataCopy int int nat
  | Malloc nat
  | NotifyTo int
  | DsReply int result ds_message

record ds_os =
  os_copyfrom :: "ds_event list \<Rightarrow> int \<Rightarrow> int \<Rightarrow> nat \<Rightarrow> result + char list"
  os_copyto :: "ds_event list \<Rightarrow> int \<Rightarrow> int \<Rightarrow> char list \<Rightarrow> result"
  os_datacopy :: "ds_event list \<Rightarrow> result"
  os_malloc :: "ds_event list \<Rightarrow> nat \<Rightarrow> bool"
  os_regcomp :: "string \<Rightarrow> bool"
  os_regexec :: "string \<Rightarrow> string \<Rightarrow> bool"
  os_stack :: "ds_event list \<Rightarrow> char list"

record ds_state =
  ds_store :: "data_store list"
  ds_subs :: "subscription list"
  ds_trace :: "ds_event list"

abbreviation has :: "32 word \<Rightarrow> 32 word \<Rightarrow> bool" where
  "has flags some \<equiv> flags AND some \<noteq> 0"

definition log_event :: "ds_event \<Rightarrow> ds_state \<Rightarrow> ds_state" where
  "log_event ev st = st\<lparr>ds_trace := ds_trace st @ [ev]\<rparr>"

text \<open>\<open>sys_safecopyfrom\<close> and \<open>sys_safecopyto\<close>.\<close>

definition safecopyfrom :: "ds_os \<Rightarrow> int \<Rightarrow> int \<Rightarrow> nat \<Rightarrow> ds_state \<Rightarrow> (result + char list) \<times> ds_state" where
  "safecopyfrom OS source grant len st =
     (map_sum id (take len) (os_copyfrom OS (ds_trace st) source grant len), log_event (CopyFrom source grant len) st)"

definition safecopyto :: "ds_os \<Rightarrow> int \<Rightarrow> int \<Rightarrow> char list \<Rightarrow> ds_state \<Rightarrow> result \<times> ds_state" where
  "safecopyto OS dest grant data st =
     (os_copyto OS (ds_trace st) dest grant data, log_event (CopyTo dest grant data) st)"

definition set_entry :: "nat \<Rightarrow> (data_store \<Rightarrow> data_store) \<Rightarrow> ds_state \<Rightarrow> ds_state" where
  "set_entry i f st = st\<lparr>ds_store := (ds_store st)[i := f (ds_store st ! i)]\<rparr>"

definition set_sub :: "nat \<Rightarrow> (subscription \<Rightarrow> subscription) \<Rightarrow> ds_state \<Rightarrow> ds_state" where
  "set_sub i f st = st\<lparr>ds_subs := (ds_subs st)[i := f (ds_subs st ! i)]\<rparr>"

section \<open>Looking things up\<close>

definition alloc_data_slot :: "data_store list \<Rightarrow> nat option" where
  "alloc_data_slot store = first_index (\<lambda>d. \<not> has (d_flags d) DSF_IN_USE) store"

definition alloc_sub_slot :: "subscription list \<Rightarrow> nat option" where
  "alloc_sub_slot subs = first_index (\<lambda>s. \<not> has (s_flags s) DSF_IN_USE) subs"

definition lookup_entry :: "string \<Rightarrow> 32 word \<Rightarrow> data_store list \<Rightarrow> nat option" where
  "lookup_entry key_name type store =
     first_index (\<lambda>d. has (d_flags d) DSF_IN_USE \<and> has (d_flags d) type \<and> d_key d = key_name) store"

definition lookup_label_entry :: "32 word \<Rightarrow> data_store list \<Rightarrow> nat option" where
  "lookup_label_entry num store =
     first_index (\<lambda>d. has (d_flags d) DSF_IN_USE \<and> has (d_flags d) DSF_TYPE_LABEL \<and> d_u32 d = num) store"

definition lookup_sub :: "string \<Rightarrow> subscription list \<Rightarrow> nat option" where
  "lookup_sub owner subs = first_index (\<lambda>s. has (s_flags s) DSF_IN_USE \<and> s_owner s = owner) subs"

text \<open>
  The name of a process is a pointer: to the constant \<open>"ds"\<close>, or into the entry that holds the label.
\<close>

datatype name_ptr = DsName | KeyOf nat

fun deref_name :: "data_store list \<Rightarrow> name_ptr \<Rightarrow> string" where
  "deref_name store DsName = ''ds''"
| "deref_name store (KeyOf i) = d_key (store ! i)"

definition ds_getprocname :: "int \<Rightarrow> data_store list \<Rightarrow> name_ptr option" where
  "ds_getprocname e store =
     (if e = DS_PROC_NR then Some DsName else map_option KeyOf (lookup_label_entry (word_of_int e) store))"

definition ds_getprocep :: "string \<Rightarrow> data_store list \<Rightarrow> int option" where
  "ds_getprocep s store = map_option (\<lambda>i. sint (d_u32 (store ! i))) (lookup_entry s DSF_TYPE_LABEL store)"

definition check_auth :: "data_store \<Rightarrow> int \<Rightarrow> 32 word \<Rightarrow> data_store list \<Rightarrow> bool" where
  "check_auth p ep perm store =
     (if \<not> has (d_flags p) perm then True
      else case ds_getprocname ep store of
        None \<Rightarrow> False
      | Some source \<Rightarrow> d_owner p = deref_name store source)"

text \<open>
  The key is copied over the first bytes of a buffer that holds whatever the stack held; only its last byte
  is certain to be NUL.
\<close>

definition get_key_name :: "ds_os \<Rightarrow> ds_message \<Rightarrow> ds_state \<Rightarrow> (result + string) \<times> ds_state" where
  "get_key_name OS m st =
     (if key_len m > int DS_MAX_KEYLEN \<or> key_len m < 2 then (Inl RINVAL, st)
      else case safecopyfrom OS (dm_source m) (key_grant m) (nat (key_len m)) st of
        (Inl r, st') \<Rightarrow> (Inl r, st')
      | (Inr bytes, st') \<Rightarrow>
          (let key_name = bytes @ drop (length bytes) (os_stack OS (ds_trace st)) in
           (Inr (cstr (key_name[DS_MAX_KEYLEN - 1 := CHR 0x00])), st')))"

section \<open>Subscribers\<close>

definition check_sub_match :: "ds_os \<Rightarrow> subscription \<Rightarrow> data_store \<Rightarrow> int \<Rightarrow> data_store list \<Rightarrow> bool option" where
  "check_sub_match OS sub d ep store =
     (if check_auth d ep DSF_PRIV_SUBSCRIBE store
      then map_option (\<lambda>re. os_regexec OS re (d_key d)) (s_regex sub)
      else Some False)"

fun update_subs_from :: "ds_os \<Rightarrow> nat \<Rightarrow> bool \<Rightarrow> nat list \<Rightarrow> ds_state \<Rightarrow> ds_state option" where
  "update_subs_from OS nr set_it [] st = Some st"
| "update_subs_from OS nr set_it (i # rest) st =
     (let sub = ds_subs st ! i; d = ds_store st ! nr in
      if \<not> has (s_flags sub) DSF_IN_USE then update_subs_from OS nr set_it rest st
      else if s_flags sub AND d_flags d AND DSF_MASK_TYPE = 0 then update_subs_from OS nr set_it rest st
      else do {
        ep \<leftarrow> ds_getprocep (s_owner sub) (ds_store st);
        match \<leftarrow> check_sub_match OS sub d ep (ds_store st);
        if \<not> match then update_subs_from OS nr set_it rest st
        else update_subs_from OS nr set_it rest
          (log_event (NotifyTo ep) (set_sub i (\<lambda>s. s\<lparr>old_subs := (old_subs s)[nr := set_it]\<rparr>) st))
      })"

definition update_subscribers :: "ds_os \<Rightarrow> nat \<Rightarrow> bool \<Rightarrow> ds_state \<Rightarrow> ds_state option" where
  "update_subscribers OS nr set_it st = update_subs_from OS nr set_it [0..<NR_DS_SUBS] st"

section \<open>Start\<close>

record rprocpub =
  rpub_in_use :: bool
  rpub_endpoint :: int
  rpub_label :: string

definition map_service :: "ds_os \<Rightarrow> rprocpub \<Rightarrow> ds_state \<Rightarrow> (result \<times> ds_state) option" where
  "map_service OS rpub st =
     (case alloc_data_slot (ds_store st) of
        None \<Rightarrow> Some (RNOMEM, st)
      | Some i \<Rightarrow> do {
          st' \<leftarrow> update_subscribers OS i True (set_entry i (\<lambda>d. d\<lparr>d_key := rpub_label rpub,
                   d_u32 := word_of_int (rpub_endpoint rpub), d_owner := ''rs'',
                   d_flags := DSF_IN_USE OR DSF_TYPE_LABEL\<rparr>) st);
          Some (ROK, st')
        })"

fun map_services :: "ds_os \<Rightarrow> rprocpub list \<Rightarrow> ds_state \<Rightarrow> ds_state option" where
  "map_services OS [] st = Some st"
| "map_services OS (rpub # rest) st =
     (if rpub_in_use rpub then do {
        (r, st') \<leftarrow> map_service OS rpub st;
        if r \<noteq> ROK then None else map_services OS rest st'
      } else map_services OS rest st)"

text \<open>\<open>table\<close> is the table of services that RS hands over, \<open>None\<close> when it cannot be copied.\<close>

definition sef_cb_init_fresh :: "ds_os \<Rightarrow> rprocpub list option \<Rightarrow> ds_state \<Rightarrow> ds_state option" where
  "sef_cb_init_fresh OS table st = do {
     let st1 = st\<lparr>ds_store := map (d_flags_update (\<lambda>_. 0)) (ds_store st),
                  ds_subs := map (s_flags_update (\<lambda>_. 0)) (ds_subs st)\<rparr>;
     rprocpub \<leftarrow> table;
     map_services OS rprocpub st1
   }"

section \<open>Publishing\<close>

text \<open>The slot to store into, or an error.\<close>

definition publish_slot :: "ds_message \<Rightarrow> string \<Rightarrow> data_store list \<Rightarrow> result + nat" where
  "publish_slot m key_name store =
     (let flags = dm_flags m;
          found = lookup_entry key_name (flags AND DSF_MASK_TYPE) store;
          dsp = (if has flags DSF_TYPE_LABEL \<and> found = None then lookup_label_entry (val_in m) store else found) in
      case dsp of
        None \<Rightarrow> (case alloc_data_slot store of None \<Rightarrow> Inl RNOMEM | Some i \<Rightarrow> Inr i)
      | Some i \<Rightarrow>
          if has flags DSF_OVERWRITE
          then if \<not> check_auth (store ! i) (dm_source m) DSF_PRIV_OVERWRITE store then Inl RPERM else Inr i
          else Inl REXIST)"

definition free :: "mem_ptr \<Rightarrow> unit option" where
  "free p = (if p = Dangling then None else Some ())"

text \<open>
  The buffer of an entry, allocated anew when there is none or it is too small; its first contents do not
  matter.
\<close>

definition publish_buffer :: "ds_os \<Rightarrow> nat \<Rightarrow> nat \<Rightarrow> ds_state \<Rightarrow> (result \<times> ds_state) option" where
  "publish_buffer OS i len st =
     (let d = ds_store st ! i;
          new_buffer = (if os_malloc OS (ds_trace st) len
            then (ROK, log_event (Malloc len) (set_entry i (\<lambda>d. d\<lparr>d_data := Alloc (replicate len (CHR 0x00)), d_reallen := len\<rparr>) st))
            else (RNOMEM, log_event (Malloc len) (set_entry i (\<lambda>d. d\<lparr>d_data := Null\<rparr>) st))) in
      if \<not> has (d_flags d) DSF_IN_USE then Some new_buffer
      else if len > d_reallen d then do { free (d_data d); Some new_buffer }
      else Some (ROK, st))"

definition publish_memory :: "ds_os \<Rightarrow> ds_message \<Rightarrow> nat \<Rightarrow> ds_state \<Rightarrow> (result \<times> ds_state) option" where
  "publish_memory OS m i st = do {
     let len = unat (word_of_int (dm_val_len m) :: 32 word);
     (r, st1) \<leftarrow> publish_buffer OS i len st;
     if r \<noteq> ROK then Some (r, st1)
     else case d_data (ds_store st1 ! i) of
       Null \<Rightarrow> None
     | Dangling \<Rightarrow> None
     | Alloc buf \<Rightarrow>
         (case safecopyfrom OS (dm_source m) (sint (val_in m)) len st1 of
            (Inl r, st2) \<Rightarrow> Some (r, set_entry i (\<lambda>d. d\<lparr>d_data := Dangling\<rparr>) st2)
          | (Inr bytes, st2) \<Rightarrow>
              let buf1 = bytes @ drop (length bytes) buf in
              if has (dm_flags m) DSF_TYPE_STR
              then if len = 0 then None
                   else Some (ROK, set_entry i (\<lambda>d. d\<lparr>d_data := Alloc (buf1[len - 1 := CHR 0x00]), d_length := len\<rparr>) st2)
              else Some (ROK, set_entry i (\<lambda>d. d\<lparr>d_data := Alloc buf1, d_length := len\<rparr>) st2))
   }"

definition publish_value :: "ds_os \<Rightarrow> ds_message \<Rightarrow> nat \<Rightarrow> ds_state \<Rightarrow> (result \<times> ds_state) option" where
  "publish_value OS m i st =
     (let type = dm_flags m AND DSF_MASK_TYPE in
      if type = DSF_TYPE_U32 \<or> type = DSF_TYPE_LABEL then Some (ROK, set_entry i (\<lambda>d. d\<lparr>d_u32 := val_in m\<rparr>) st)
      else if type = DSF_TYPE_STR \<or> type = DSF_TYPE_MEM then publish_memory OS m i st
      else Some (RINVAL, st))"

text \<open>
  The owner is read through \<open>source\<close> after the key is written, which matters when \<open>source\<close> points into the
  entry itself.
\<close>

definition publish_attributes :: "ds_message \<Rightarrow> nat \<Rightarrow> string \<Rightarrow> name_ptr \<Rightarrow> ds_state \<Rightarrow> ds_state" where
  "publish_attributes m i key_name source st =
     (let st1 = set_entry i (\<lambda>d. d\<lparr>d_key := key_name\<rparr>) st;
          st2 = set_entry i (\<lambda>d. d\<lparr>d_owner := deref_name (ds_store st1) source\<rparr>) st1 in
      set_entry i (\<lambda>d. d\<lparr>d_flags := DSF_IN_USE OR (dm_flags m AND DSF_MASK_INTERNAL)\<rparr>) st2)"

definition do_publish :: "ds_os \<Rightarrow> ds_message \<Rightarrow> ds_state \<Rightarrow> (result \<times> ds_message \<times> ds_state) option" where
  "do_publish OS m st =
     (case ds_getprocname (dm_source m) (ds_store st) of
        None \<Rightarrow> Some (RPERM, m, st)
      | Some source \<Rightarrow>
          if has (dm_flags m) DSF_TYPE_LABEL \<and> dm_source m \<noteq> RS_PROC_NR then Some (RPERM, m, st)
          else case get_key_name OS m st of
            (Inl r, st1) \<Rightarrow> Some (r, m, st1)
          | (Inr key_name, st1) \<Rightarrow>
              (case publish_slot m key_name (ds_store st1) of
                 Inl r \<Rightarrow> Some (r, m, st1)
               | Inr i \<Rightarrow> do {
                   (r, st2) \<leftarrow> publish_value OS m i st1;
                   if r \<noteq> ROK then Some (r, m, st2)
                   else do {
                     st3 \<leftarrow> update_subscribers OS i True (publish_attributes m i key_name source st2);
                     Some (ROK, m, st3)
                   }
                 }))"

section \<open>Retrieving\<close>

definition do_retrieve :: "ds_os \<Rightarrow> ds_message \<Rightarrow> ds_state \<Rightarrow> (result \<times> ds_message \<times> ds_state) option" where
  "do_retrieve OS m st =
     (let type = dm_flags m AND DSF_MASK_TYPE in
      case get_key_name OS m st of
        (Inl r, st1) \<Rightarrow> Some (r, m, st1)
      | (Inr key_name, st1) \<Rightarrow>
          (case lookup_entry key_name type (ds_store st1) of
             None \<Rightarrow> Some (RSRCH, m, st1)
           | Some i \<Rightarrow>
               let d = ds_store st1 ! i in
               if \<not> check_auth d (dm_source m) DSF_PRIV_RETRIEVE (ds_store st1) then Some (RPERM, m, st1)
               else if type = DSF_TYPE_U32 \<or> type = DSF_TYPE_LABEL then Some (ROK, m\<lparr>rep_val := d_u32 d\<rparr>, st1)
               else if type = DSF_TYPE_STR \<or> type = DSF_TYPE_MEM then
                 let len = min (unat (word_of_int (dm_val_len m) :: 32 word)) (d_length d) in
                 (case d_data d of
                    Null \<Rightarrow> None
                  | Dangling \<Rightarrow> None
                  | Alloc buf \<Rightarrow>
                      (case safecopyto OS (dm_source m) (sint (val_in m)) (take len buf) st1 of (r, st2) \<Rightarrow>
                         if r \<noteq> ROK then Some (r, m, st2) else Some (ROK, m\<lparr>rep_len := int len\<rparr>, st2)))
               else Some (RINVAL, m, st1)))"

definition do_retrieve_label :: "ds_os \<Rightarrow> ds_message \<Rightarrow> ds_state \<Rightarrow> (result \<times> ds_message \<times> ds_state) option" where
  "do_retrieve_label OS m st =
     (case lookup_label_entry (val_in m) (ds_store st) of
        None \<Rightarrow> Some (RSRCH, m, st)
      | Some i \<Rightarrow>
          (case safecopyto OS (dm_source m) (key_grant m) (d_key (ds_store st ! i) @ [CHR 0x00]) st of (r, st1) \<Rightarrow>
             if r \<noteq> ROK then Some (r, m, st1) else Some (ROK, m, st1)))"

section \<open>Subscribing\<close>

text \<open>The loop over the entries for the initial list: the bits, and whether one was set.\<close>

fun initial_list :: "ds_os \<Rightarrow> ds_message \<Rightarrow> 32 word \<Rightarrow> nat \<Rightarrow> nat list \<Rightarrow> bool \<Rightarrow> ds_state \<Rightarrow> (bool \<times> ds_state) option" where
  "initial_list OS m type_set i [] match_found st = Some (match_found, st)"
| "initial_list OS m type_set i (n # rest) match_found st =
     (let d = ds_store st ! n in
      if \<not> has (d_flags d) DSF_IN_USE then initial_list OS m type_set i rest match_found st
      else if \<not> has (d_flags d) type_set then initial_list OS m type_set i rest match_found st
      else do {
        match \<leftarrow> check_sub_match OS (ds_subs st ! i) d (dm_source m) (ds_store st);
        if \<not> match then initial_list OS m type_set i rest match_found st
        else initial_list OS m type_set i rest True (set_sub i (\<lambda>s. s\<lparr>old_subs := (old_subs s)[n := True]\<rparr>) st)
      })"

definition subscribe_slot :: "ds_message \<Rightarrow> string \<Rightarrow> subscription list \<Rightarrow> result + nat" where
  "subscribe_slot m owner subs =
     (case lookup_sub owner subs of
        None \<Rightarrow> (case alloc_sub_slot subs of None \<Rightarrow> Inl RAGAIN | Some i \<Rightarrow> Inr i)
      | Some i \<Rightarrow> if \<not> has (dm_flags m) DSF_OVERWRITE then Inl REXIST else Inr i)"

definition do_subscribe :: "ds_os \<Rightarrow> ds_message \<Rightarrow> ds_state \<Rightarrow> (result \<times> ds_message \<times> ds_state) option" where
  "do_subscribe OS m st =
     (case ds_getprocname (dm_source m) (ds_store st) of
        None \<Rightarrow> Some (RSRCH, m, st)
      | Some name \<Rightarrow>
          let owner = deref_name (ds_store st) name in
          case subscribe_slot m owner (ds_subs st) of
            Inl r \<Rightarrow> Some (r, m, st)
          | Inr i \<Rightarrow>
              (case get_key_name OS m st of
                 (Inl r, st1) \<Rightarrow> Some (r, m, st1)
               | (Inr key_name, st1) \<Rightarrow>
                   let regex = ''^'' @ key_name @ ''$'' in
                   if \<not> os_regcomp OS regex then Some (RINVAL, m, set_sub i (\<lambda>s. s\<lparr>s_regex := None\<rparr>) st1)
                   else
                     let type = dm_flags m AND DSF_MASK_TYPE; type_set = (if type = 0 then DSF_MASK_TYPE else type);
                         st2 = set_sub i (\<lambda>s. s\<lparr>s_regex := Some regex, s_flags := DSF_IN_USE OR type_set,
                                 s_owner := owner, old_subs := replicate NR_DS_KEYS False\<rparr>) st1 in
                     if has (dm_flags m) DSF_INITIAL then do {
                       (match_found, st3) \<leftarrow> initial_list OS m type_set i [0..<NR_DS_KEYS] False st2;
                       Some (ROK, m, if match_found then log_event (NotifyTo (dm_source m)) st3 else st3)
                     }
                     else Some (ROK, m, st2)))"

definition do_check :: "ds_os \<Rightarrow> ds_message \<Rightarrow> ds_state \<Rightarrow> (result \<times> ds_message \<times> ds_state) option" where
  "do_check OS m st =
     (case ds_getprocname (dm_source m) (ds_store st) of
        None \<Rightarrow> Some (RSRCH, m, st)
      | Some name \<Rightarrow>
          (case lookup_sub (deref_name (ds_store st) name) (ds_subs st) of
             None \<Rightarrow> Some (RSRCH, m, st)
           | Some s \<Rightarrow>
               (case first_index (\<lambda>b. b) (old_subs (ds_subs st ! s)) of
                  None \<Rightarrow> Some (RNOENT, m, st)
                | Some i \<Rightarrow>
                    (case safecopyto OS (dm_source m) (key_grant m) (d_key (ds_store st ! i) @ [CHR 0x00]) st of (r, st1) \<Rightarrow>
                       if r \<noteq> ROK then Some (r, m, st1)
                       else do {
                         entry_owner_e \<leftarrow> ds_getprocep (d_owner (ds_store st1 ! i)) (ds_store st1);
                         Some (ROK, m\<lparr>dm_flags := d_flags (ds_store st1 ! i) AND DSF_MASK_TYPE, dm_owner := entry_owner_e\<rparr>,
                           set_sub s (\<lambda>u. u\<lparr>old_subs := (old_subs u)[i := False]\<rparr>) st1)
                       }))))"

section \<open>Deleting\<close>

fun clean_entries :: "ds_os \<Rightarrow> string \<Rightarrow> nat list \<Rightarrow> ds_state \<Rightarrow> ds_state option" where
  "clean_entries OS label [] st = Some st"
| "clean_entries OS label (i # rest) st =
     (if has (d_flags (ds_store st ! i)) DSF_IN_USE \<and> d_owner (ds_store st ! i) = label then do {
        st' \<leftarrow> update_subscribers OS i False st;
        clean_entries OS label rest (set_entry i (\<lambda>d. d\<lparr>d_flags := 0\<rparr>) st')
      } else clean_entries OS label rest st)"

definition clean_subs :: "string \<Rightarrow> ds_state \<Rightarrow> ds_state" where
  "clean_subs label st =
     st\<lparr>ds_subs := map (\<lambda>s. if has (s_flags s) DSF_IN_USE \<and> s_owner s = label then s\<lparr>s_flags := 0\<rparr> else s) (ds_subs st)\<rparr>"

definition delete_value :: "ds_os \<Rightarrow> 32 word \<Rightarrow> nat \<Rightarrow> ds_state \<Rightarrow> (result \<times> ds_state) option" where
  "delete_value OS type i st =
     (if type = DSF_TYPE_U32 then Some (ROK, st)
      else if type = DSF_TYPE_LABEL then do {
        let label = d_key (ds_store st ! i);
        st' \<leftarrow> clean_entries OS label [0..<NR_DS_KEYS] (clean_subs label st);
        Some (ROK, st')
      }
      else if type = DSF_TYPE_STR \<or> type = DSF_TYPE_MEM then do {
        free (d_data (ds_store st ! i));
        Some (ROK, set_entry i (\<lambda>d. d\<lparr>d_data := (if d_data d = Null then Null else Dangling)\<rparr>) st)
      }
      else Some (RINVAL, st))"

definition do_delete :: "ds_os \<Rightarrow> ds_message \<Rightarrow> ds_state \<Rightarrow> (result \<times> ds_message \<times> ds_state) option" where
  "do_delete OS m st =
     (let type = dm_flags m AND DSF_MASK_TYPE in
      case ds_getprocname (dm_source m) (ds_store st) of
        None \<Rightarrow> Some (RPERM, m, st)
      | Some source \<Rightarrow>
          (case get_key_name OS m st of
             (Inl r, st1) \<Rightarrow> Some (r, m, st1)
           | (Inr key_name, st1) \<Rightarrow>
               (case lookup_entry key_name type (ds_store st1) of
                  None \<Rightarrow> Some (RSRCH, m, st1)
                | Some i \<Rightarrow>
                    if d_owner (ds_store st1 ! i) \<noteq> deref_name (ds_store st1) source then Some (RPERM, m, st1)
                    else do {
                      (r, st2) \<leftarrow> delete_value OS type i st1;
                      if r \<noteq> ROK then Some (r, m, st2)
                      else do {
                        st3 \<leftarrow> update_subscribers OS i False st2;
                        Some (ROK, m, set_entry i (\<lambda>d. d\<lparr>d_flags := 0\<rparr>) st3)
                      }
                    })))"

text \<open>The size of the table: entries of two integers' worth of flags and number, two keys, and three words.\<close>

definition DS_STORE_SIZE :: nat where
  "DS_STORE_SIZE = (4 + DS_MAX_KEYLEN + DS_MAX_KEYLEN + 12) * NR_DS_KEYS"

definition do_getsysinfo :: "ds_os \<Rightarrow> ds_message \<Rightarrow> ds_state \<Rightarrow> (result \<times> ds_message \<times> ds_state) option" where
  "do_getsysinfo OS m st =
     (if si_what m \<noteq> SI_DATA_STORE then Some (RINVAL, m, st)
      else if DS_STORE_SIZE \<noteq> si_size m then Some (RINVAL, m, st)
      else Some (os_datacopy OS (ds_trace st), m, log_event (DataCopy (dm_source m) (si_where m) DS_STORE_SIZE) st))"

section \<open>The main loop\<close>

definition is_notify :: "int \<Rightarrow> bool" where
  "is_notify a \<longleftrightarrow> (word_of_int (a - NOTIFY_MESSAGE) :: 32 word) < 0x100"

definition ds_dispatch :: "ds_os \<Rightarrow> ds_message \<Rightarrow> ds_state \<Rightarrow> (result \<times> ds_message \<times> ds_state) option" where
  "ds_dispatch OS m st =
     (let callnr = dm_type m in
      if is_notify callnr then Some (RINVAL, m, st)
      else if callnr = DS_PUBLISH then do_publish OS m st
      else if callnr = DS_RETRIEVE then do_retrieve OS m st
      else if callnr = DS_RETRIEVE_LABEL then do_retrieve_label OS m st
      else if callnr = DS_DELETE then do_delete OS m st
      else if callnr = DS_SUBSCRIBE then do_subscribe OS m st
      else if callnr = DS_CHECK then do_check OS m st
      else if callnr = DS_GETSYSINFO then do_getsysinfo OS m st
      else Some (RINVAL, m, st))"

text \<open>One round of the loop; no message means that receiving failed, and a panic.\<close>

definition ds_main_step :: "ds_os \<Rightarrow> ds_message option \<Rightarrow> ds_state \<Rightarrow> ds_state option" where
  "ds_main_step OS inp st = do {
     m \<leftarrow> inp;
     (result, m', st') \<leftarrow> ds_dispatch OS m st;
     Some (if result \<noteq> RDONTREPLY then log_event (DsReply (dm_source m) result m') st' else st')
   }"

definition ds_state0 :: ds_state where
  "ds_state0 = \<lparr>ds_store = replicate NR_DS_KEYS \<lparr>d_flags = 0, d_key = [], d_owner = [], d_u32 = 0, d_data = Null,
       d_length = 0, d_reallen = 0\<rparr>,
     ds_subs = replicate NR_DS_SUBS \<lparr>s_flags = 0, s_owner = [], s_regex = None, old_subs = replicate NR_DS_KEYS False\<rparr>,
     ds_trace = []\<rparr>"

end
