(* ===== verification/Ds_Props.thy ===== *)
theory Ds_Props
  imports Ds
begin

unbundle bit_operations_syntax

text \<open>
  The properties of the data store: the invariant of its table, what publishing and retrieving mean for the
  map from keys and types to values that clients see, and who may change an entry.
\<close>

section \<open>The invariant\<close>

lemmas ds_flag_defs = DSF_IN_USE_def DSF_PRIV_RETRIEVE_def DSF_PRIV_OVERWRITE_def DSF_PRIV_SUBSCRIBE_def DSF_TYPE_U32_def
  DSF_TYPE_STR_def DSF_TYPE_MEM_def DSF_TYPE_LABEL_def DSF_MASK_TYPE_def DSF_MASK_INTERNAL_def DSF_OVERWRITE_def

abbreviation used :: "data_store \<Rightarrow> bool" where
  "used d \<equiv> has (d_flags d) DSF_IN_USE"

definition d_type :: "data_store \<Rightarrow> 32 word" where
  "d_type d = d_flags d AND DSF_MASK_TYPE"

definition ds_types :: "32 word set" where
  "ds_types = {DSF_TYPE_U32, DSF_TYPE_STR, DSF_TYPE_MEM, DSF_TYPE_LABEL}"

text \<open>
  An entry in use is of one type, its key fits the array, and a buffer holds as many bytes as the entry
  says.
\<close>

definition entry_ok :: "data_store \<Rightarrow> bool" where
  "entry_ok d \<longleftrightarrow> (used d \<longrightarrow> d_type d \<in> ds_types \<and> length (d_key d) < DS_MAX_KEYLEN \<and>
     (d_type d = DSF_TYPE_STR \<or> d_type d = DSF_TYPE_MEM \<longrightarrow>
       (\<forall>buf. d_data d = Alloc buf \<longrightarrow> length buf = d_reallen d \<and> d_length d \<le> d_reallen d)))"

text \<open>No two entries in use have the same type and the same key.\<close>

definition store_ok :: "data_store list \<Rightarrow> bool" where
  "store_ok store \<longleftrightarrow> length store = NR_DS_KEYS \<and> list_all entry_ok store \<and>
     (\<forall>i < NR_DS_KEYS. \<forall>j < NR_DS_KEYS. used (store ! i) \<longrightarrow> used (store ! j) \<longrightarrow>
        d_type (store ! i) = d_type (store ! j) \<longrightarrow> d_key (store ! i) = d_key (store ! j) \<longrightarrow> i = j)"

definition ds_ok :: "ds_state \<Rightarrow> bool" where
  "ds_ok st \<longleftrightarrow> store_ok (ds_store st) \<and> length (ds_subs st) = NR_DS_SUBS \<and>
     list_all (\<lambda>s. length (old_subs s) = NR_DS_KEYS) (ds_subs st)"

text \<open>
  What the system delivers: as many bytes as asked for or an error code, and a stack buffer of the right
  size.
\<close>

definition os_ok :: "ds_os \<Rightarrow> bool" where
  "os_ok OS \<longleftrightarrow> (\<forall>tr source grant len bytes. os_copyfrom OS tr source grant len = Inr bytes \<longrightarrow> length bytes = len) \<and>
     (\<forall>tr source grant len. os_copyfrom OS tr source grant len \<noteq> Inl ROK) \<and>
     (\<forall>tr. length (os_stack OS tr) = DS_MAX_KEYLEN)"

section \<open>Types and keys\<close>

lemma has_type:
  assumes "entry_ok d" and "used d" and "t \<in> ds_types"
  shows "has (d_flags d) t \<longleftrightarrow> d_type d = t"
proof -
  have "DSF_MASK_TYPE AND t = t" using assms(3) by (auto simp: ds_types_def ds_flag_defs)
  then have "d_flags d AND t = d_type d AND t" by (simp add: d_type_def and.assoc)
  moreover have "d_type d \<in> ds_types" using assms(1,2) by (simp add: entry_ok_def)
  ultimately show ?thesis using assms(3) by (auto simp: ds_types_def ds_flag_defs)
qed

lemma lookup_entry_SomeD:
  assumes "lookup_entry k t store = Some i"
  shows "i < length store" "used (store ! i)" "has (d_flags (store ! i)) t" "d_key (store ! i) = k"
  using first_index_SomeD [OF assms [unfolded lookup_entry_def]] by auto

lemma lookup_entry_None:
  "lookup_entry k t store = None \<Longrightarrow> i < length store \<Longrightarrow> used (store ! i) \<Longrightarrow> has (d_flags (store ! i)) t \<Longrightarrow>
     d_key (store ! i) \<noteq> k"
  by (auto simp: lookup_entry_def first_index_None)

lemma store_okD:
  assumes "store_ok store" and "i < NR_DS_KEYS"
  shows "entry_ok (store ! i)"
  using assms by (auto simp: store_ok_def list_all_length)

text \<open>In a well-formed store the lookup is the lookup in a map.\<close>

lemma lookup_entry_iff:
  assumes "store_ok store" and "t \<in> ds_types"
  shows "lookup_entry k t store = Some i \<longleftrightarrow> i < NR_DS_KEYS \<and> used (store ! i) \<and> d_type (store ! i) = t \<and> d_key (store ! i) = k"
proof
  have len: "length store = NR_DS_KEYS" using assms(1) by (simp add: store_ok_def)
  show "lookup_entry k t store = Some i \<Longrightarrow> i < NR_DS_KEYS \<and> used (store ! i) \<and> d_type (store ! i) = t \<and> d_key (store ! i) = k"
    using lookup_entry_SomeD [of k t store i] len has_type [OF store_okD [OF assms(1)] _ assms(2)] by auto
  assume i: "i < NR_DS_KEYS \<and> used (store ! i) \<and> d_type (store ! i) = t \<and> d_key (store ! i) = k"
  show "lookup_entry k t store = Some i" unfolding lookup_entry_def
  proof (rule first_index_unique)
    show "i < length store" using i len by simp
    show "used (store ! i) \<and> has (d_flags (store ! i)) t \<and> d_key (store ! i) = k"
      using i has_type [OF store_okD [OF assms(1), of i] _ assms(2)] by simp
    fix j
    assume "j < length store" "used (store ! j) \<and> has (d_flags (store ! j)) t \<and> d_key (store ! j) = k"
    then show "j = i" using i len has_type [OF store_okD [OF assms(1), of j] _ assms(2)] assms(1)
      unfolding store_ok_def by metis
  qed
qed

lemma safecopyfrom_bytes:
  assumes "safecopyfrom OS source grant len st = (Inr bytes, st')"
  shows "length bytes \<le> len" "os_ok OS \<Longrightarrow> length bytes = len" "st' = log_event (CopyFrom source grant len) st"
  using assms by (cases "os_copyfrom OS (ds_trace st) source grant len"; auto simp: safecopyfrom_def os_ok_def)+

lemma get_key_name_key:
  assumes "os_ok OS" and "get_key_name OS m st = (Inr key_name, st')"
  shows "length key_name < DS_MAX_KEYLEN" "ds_store st' = ds_store st" "ds_subs st' = ds_subs st"
proof -
  from assms(2) obtain bytes where
    k: "key_name = cstr ((bytes @ drop (length bytes) (os_stack OS (ds_trace st)))[DS_MAX_KEYLEN - 1 := CHR 0x00])"
    and st: "st' = log_event (CopyFrom (dm_source m) (key_grant m) (nat (key_len m))) st"
    and b: "length bytes \<le> nat (key_len m)" "key_len m \<le> int DS_MAX_KEYLEN"
    using safecopyfrom_bytes by (fastforce simp: get_key_name_def Let_def split: if_splits sum.splits prod.splits)
  let ?buf = "bytes @ drop (length bytes) (os_stack OS (ds_trace st))"
  have len: "length ?buf = DS_MAX_KEYLEN"
    using assms(1) b by (simp add: os_ok_def DS_MAX_KEYLEN_def)
  have "?buf[DS_MAX_KEYLEN - 1 := CHR 0x00] = take (DS_MAX_KEYLEN - 1) ?buf @ [CHR 0x00]"
    using len by (simp add: upd_conv_take_nth_drop DS_MAX_KEYLEN_def)
  then have "key_name = cstr (take (DS_MAX_KEYLEN - 1) ?buf @ [CHR 0x00])" using k by simp
  also have "\<dots> = cstr (take (DS_MAX_KEYLEN - 1) ?buf)"
    by (rule cstr_snoc_nul)
  finally show "length key_name < DS_MAX_KEYLEN"
    using length_cstr_le [of "take (DS_MAX_KEYLEN - 1) ?buf"] by (simp add: DS_MAX_KEYLEN_def)
  show "ds_store st' = ds_store st" "ds_subs st' = ds_subs st" using st by (simp_all add: log_event_def)
qed

lemma get_key_name_error:
  "get_key_name OS m st = (Inl r, st') \<Longrightarrow> ds_store st' = ds_store st \<and> ds_subs st' = ds_subs st"
  by (auto simp: get_key_name_def safecopyfrom_def log_event_def Let_def split: if_splits sum.splits)

section \<open>Subscribers\<close>

lemma state_simps [simp]:
  "ds_store (log_event ev st) = ds_store st" "ds_subs (log_event ev st) = ds_subs st"
  "ds_store (set_sub i g st) = ds_store st" "ds_subs (set_entry i f st) = ds_subs st"
  "length (ds_store (set_entry i f st)) = length (ds_store st)"
  "length (ds_subs (set_sub i g st)) = length (ds_subs st)"
  "ds_trace (set_entry i f st) = ds_trace st" "ds_trace (set_sub i g st) = ds_trace st"
  by (simp_all add: log_event_def set_sub_def set_entry_def)

lemma set_entry_nth:
  "i < length (ds_store st) \<Longrightarrow> ds_store (set_entry i f st) ! j = (if j = i then f (ds_store st ! i) else ds_store st ! j)"
  by (simp add: set_entry_def nth_list_update)

definition subs_ok :: "subscription list \<Rightarrow> bool" where
  "subs_ok subs \<longleftrightarrow> length subs = NR_DS_SUBS \<and> list_all (\<lambda>s. length (old_subs s) = NR_DS_KEYS) subs"

lemma ds_ok_alt: "ds_ok st \<longleftrightarrow> store_ok (ds_store st) \<and> subs_ok (ds_subs st)"
  by (simp add: ds_ok_def subs_ok_def)

lemma subs_ok_set_sub:
  "subs_ok (ds_subs st) \<Longrightarrow> (i < NR_DS_SUBS \<Longrightarrow> length (old_subs (g (ds_subs st ! i))) = NR_DS_KEYS) \<Longrightarrow> subs_ok (ds_subs (set_sub i g st))"
  by (cases "i < NR_DS_SUBS") (auto simp: subs_ok_def set_sub_def list_all_length nth_list_update)

lemma subs_okD: "subs_ok subs \<Longrightarrow> i < NR_DS_SUBS \<Longrightarrow> length (old_subs (subs ! i)) = NR_DS_KEYS"
  by (simp add: subs_ok_def list_all_length)

lemma update_subs_from_keeps:
  "update_subs_from OS nr b is st = Some st' \<Longrightarrow>
     ds_store st' = ds_store st \<and> (subs_ok (ds_subs st) \<longrightarrow> subs_ok (ds_subs st'))"
proof (induction OS nr b "is" st rule: update_subs_from.induct)
  case (2 OS nr b i rest st)
  have s: "subs_ok (ds_subs (set_sub i (\<lambda>s. s\<lparr>old_subs := (old_subs s)[nr := b]\<rparr>) st))" if "subs_ok (ds_subs st)"
    using that subs_okD [OF that] by (auto intro: subs_ok_set_sub)
  show ?case
    using 2 s by (auto simp: Let_def bind_eq_Some_conv split: if_splits)
qed simp

lemma update_subscribers_keeps:
  assumes "update_subscribers OS nr b st = Some st'"
  shows "ds_store st' = ds_store st" "subs_ok (ds_subs st) \<Longrightarrow> subs_ok (ds_subs st')"
  using update_subs_from_keeps [OF assms [unfolded update_subscribers_def]] by auto

section \<open>Publishing\<close>

lemma store_okD_unique:
  assumes "store_ok store" and "i < NR_DS_KEYS" and "j < NR_DS_KEYS" and "used (store ! i)" and "used (store ! j)"
    and "d_type (store ! i) = d_type (store ! j)" and "d_key (store ! i) = d_key (store ! j)"
  shows "i = j"
  using assms unfolding store_ok_def by blast

lemma store_ok_update:
  assumes "store_ok store" and "entry_ok d" and "i < NR_DS_KEYS"
    and "\<And>j. used d \<Longrightarrow> j < NR_DS_KEYS \<Longrightarrow> used (store ! j) \<Longrightarrow> d_type (store ! j) = d_type d \<Longrightarrow> d_key (store ! j) = d_key d \<Longrightarrow> j = i"
  shows "store_ok (store[i := d])"
proof -
  have len: "length store = NR_DS_KEYS" using assms(1) by (simp add: store_ok_def)
  have "list_all entry_ok (store[i := d])"
    using assms(1-3) len by (auto simp: store_ok_def list_all_length nth_list_update)
  moreover have "j = k" if "j < NR_DS_KEYS" "k < NR_DS_KEYS" "used (store[i := d] ! j)" "used (store[i := d] ! k)"
    "d_type (store[i := d] ! j) = d_type (store[i := d] ! k)" "d_key (store[i := d] ! j) = d_key (store[i := d] ! k)" for j k
  proof -
    have n: "store[i := d] ! l = (if l = i then d else store ! l)" if "l < NR_DS_KEYS" for l
      using assms(3) len by (simp add: nth_list_update)
    consider "j = i" "k = i" | "j = i" "k \<noteq> i" | "j \<noteq> i" "k = i" | "j \<noteq> i" "k \<noteq> i" by blast
    then show ?thesis
    proof cases
      case 2
      with that n assms(4) [of k] show ?thesis by simp
    next
      case 3
      with that n assms(4) [of j] show ?thesis by simp
    next
      case 4
      with that n store_okD_unique [OF assms(1), of j k] show ?thesis by simp
    qed simp
  qed
  ultimately show ?thesis using len unfolding store_ok_def length_list_update by blast
qed

lemma store_ok_clear:
  assumes "store_ok store" and "\<not> used d" and "i < NR_DS_KEYS"
  shows "store_ok (store[i := d])"
  using assms by (intro store_ok_update) (auto simp: entry_ok_def)

text \<open>The slot that is stored into is the only one that can hold the key.\<close>

lemma publish_slot_unique:
  assumes "store_ok store" and "publish_slot m key store = Inr i" and "dm_flags m AND DSF_MASK_TYPE \<in> ds_types"
  shows "i < NR_DS_KEYS"
    "j < NR_DS_KEYS \<Longrightarrow> used (store ! j) \<Longrightarrow> d_type (store ! j) = dm_flags m AND DSF_MASK_TYPE \<Longrightarrow> d_key (store ! j) = key \<Longrightarrow> j = i"
    "used (store ! i) \<Longrightarrow> d_type (store ! i) = dm_flags m AND DSF_MASK_TYPE"
    "used (store ! i) \<Longrightarrow> check_auth (store ! i) (dm_source m) DSF_PRIV_OVERWRITE store"
proof -
  let ?t = "dm_flags m AND DSF_MASK_TYPE"
  have len: "length store = NR_DS_KEYS" using assms(1) by (simp add: store_ok_def)
  have label: "?t = DSF_TYPE_LABEL" if "has (dm_flags m) DSF_TYPE_LABEL"
  proof -
    have "DSF_MASK_TYPE AND DSF_TYPE_LABEL = DSF_TYPE_LABEL" by (simp add: ds_flag_defs)
    then have "has ?t DSF_TYPE_LABEL" using that by (simp add: and.assoc)
    then show ?thesis using assms(3) by (auto simp: ds_types_def ds_flag_defs)
  qed
  have "i < NR_DS_KEYS \<and>
      (j < NR_DS_KEYS \<longrightarrow> used (store ! j) \<longrightarrow> d_type (store ! j) = ?t \<longrightarrow> d_key (store ! j) = key \<longrightarrow> j = i) \<and>
      (used (store ! i) \<longrightarrow> d_type (store ! i) = ?t \<and> check_auth (store ! i) (dm_source m) DSF_PRIV_OVERWRITE store)"
  proof (cases "lookup_entry key ?t store")
    case (Some k)
    then have "k = i" "check_auth (store ! i) (dm_source m) DSF_PRIV_OVERWRITE store"
      using assms(2) by (auto simp: publish_slot_def Let_def split: if_splits)
    with lookup_entry_iff [OF assms(1,3)] Some show ?thesis
      using store_okD_unique [OF assms(1), of j i] by auto
  next
    case None
    have no: "j < NR_DS_KEYS \<longrightarrow> used (store ! j) \<longrightarrow> d_type (store ! j) = ?t \<longrightarrow> d_key (store ! j) \<noteq> key"
      using None lookup_entry_iff [OF assms(1,3), of key] by force
    show ?thesis
    proof (cases "has (dm_flags m) DSF_TYPE_LABEL \<and> lookup_label_entry (val_in m) store \<noteq> None")
      case True
      then have l: "lookup_label_entry (val_in m) store = Some i" "check_auth (store ! i) (dm_source m) DSF_PRIV_OVERWRITE store"
        using assms(2) None by (auto simp: publish_slot_def Let_def split: if_splits)
      from first_index_SomeD [OF l(1) [unfolded lookup_label_entry_def]] len
      have "i < NR_DS_KEYS" "used (store ! i)" "has (d_flags (store ! i)) DSF_TYPE_LABEL" by auto
      moreover have "DSF_TYPE_LABEL \<in> ds_types" by (simp add: ds_types_def)
      ultimately have "d_type (store ! i) = DSF_TYPE_LABEL" using has_type store_okD [OF assms(1)] by blast
      with label True no l(2) \<open>i < NR_DS_KEYS\<close> show ?thesis by simp
    next
      case False
      then have "alloc_data_slot store = Some i"
        using assms(2) None by (auto simp: publish_slot_def Let_def split: if_splits option.splits)
      from first_index_SomeD [OF this [unfolded alloc_data_slot_def]] len no show ?thesis by auto
    qed
  qed
  then show "i < NR_DS_KEYS"
    "j < NR_DS_KEYS \<Longrightarrow> used (store ! j) \<Longrightarrow> d_type (store ! j) = ?t \<Longrightarrow> d_key (store ! j) = key \<Longrightarrow> j = i"
    "used (store ! i) \<Longrightarrow> d_type (store ! i) = ?t"
    "used (store ! i) \<Longrightarrow> check_auth (store ! i) (dm_source m) DSF_PRIV_OVERWRITE store" by auto
qed

lemma publish_slot_same_key:
  assumes "publish_slot m key store = Inr i" and "\<not> has (dm_flags m) DSF_TYPE_LABEL" and "used (store ! i)"
  shows "d_key (store ! i) = key"
proof (cases "lookup_entry key (dm_flags m AND DSF_MASK_TYPE) store")
  case (Some k)
  then have "k = i" using assms(1,2) by (auto simp: publish_slot_def Let_def split: if_splits)
  with lookup_entry_SomeD(4) [OF Some] show ?thesis by simp
next
  case None
  with assms(1,2) have "alloc_data_slot store = Some i" by (auto simp: publish_slot_def Let_def split: option.splits)
  with first_index_SomeD assms(3) show ?thesis unfolding alloc_data_slot_def by fastforce
qed

text \<open>A request's length as \<open>size_t\<close>.\<close>

definition req_len :: "ds_message \<Rightarrow> nat" where
  "req_len m = unat (word_of_int (dm_val_len m) :: 32 word)"

definition buffer_ok :: "data_store \<Rightarrow> bool" where
  "buffer_ok d \<longleftrightarrow> (\<forall>buf. d_data d = Alloc buf \<longrightarrow> length buf = d_reallen d \<and> d_length d \<le> d_reallen d)"

text \<open>The fields of an entry that storing a value leaves alone.\<close>

definition same_attributes :: "data_store \<Rightarrow> data_store \<Rightarrow> bool" where
  "same_attributes d d' \<longleftrightarrow> d_flags d' = d_flags d \<and> d_key d' = d_key d \<and> d_owner d' = d_owner d"

lemma publish_buffer_effect:
  assumes "publish_buffer OS i len st = Some (r, st')" and "i < length (ds_store st)"
    and "used (ds_store st ! i) \<Longrightarrow> buffer_ok (ds_store st ! i)"
  obtains d where "ds_store st' = (ds_store st)[i := d]" "same_attributes (ds_store st ! i) d"
    "ds_subs st' = ds_subs st" "r = ROK \<Longrightarrow> len \<le> d_reallen d" "\<And>buf. d_data d = Alloc buf \<Longrightarrow> length buf = d_reallen d"
    "r \<noteq> ROK \<Longrightarrow> d_data d = Null" "r \<noteq> ROK \<Longrightarrow> \<not> os_malloc OS (ds_trace st) len"
proof -
  let ?d = "ds_store st ! i"
  consider (kept) "r = ROK" "st' = st" "used ?d" "len \<le> d_reallen ?d"
    | (new) "r = ROK" "st' = log_event (Malloc len) (set_entry i (\<lambda>d. d\<lparr>d_data := Alloc (replicate len (CHR 0x00)), d_reallen := len\<rparr>) st)"
    | (failed) "r = RNOMEM" "st' = log_event (Malloc len) (set_entry i (\<lambda>d. d\<lparr>d_data := Null\<rparr>) st)"
        "\<not> os_malloc OS (ds_trace st) len"
    using assms(1) by (auto simp: publish_buffer_def Let_def bind_eq_Some_conv not_less split: if_splits)
  then show thesis
  proof cases
    case kept
    show thesis by (rule that [of ?d]) (use kept assms(3) in \<open>auto simp: buffer_ok_def same_attributes_def\<close>)
  next
    case new
    show thesis
      by (rule that [of "?d\<lparr>d_data := Alloc (replicate len (CHR 0x00)), d_reallen := len\<rparr>"])
        (use new in \<open>auto simp: set_entry_def log_event_def same_attributes_def\<close>)
  next
    case failed
    show thesis
      by (rule that [of "?d\<lparr>d_data := Null\<rparr>"]) (use failed in \<open>auto simp: set_entry_def log_event_def same_attributes_def\<close>)
  qed
qed

text \<open>Storing the bytes of a client: the buffer then begins with them, the last one replaced for a string.\<close>

definition stored_bytes :: "ds_message \<Rightarrow> char list \<Rightarrow> char list" where
  "stored_bytes m bytes = (if has (dm_flags m) DSF_TYPE_STR then bytes[req_len m - 1 := CHR 0x00] else bytes)"

definition holds_bytes :: "ds_os \<Rightarrow> ds_message \<Rightarrow> data_store \<Rightarrow> bool" where
  "holds_bytes OS m d \<longleftrightarrow> d_length d = req_len m \<and>
     (\<exists>tr bytes buf. os_copyfrom OS tr (dm_source m) (sint (val_in m)) (req_len m) = Inr bytes \<and>
       d_data d = Alloc buf \<and> take (d_length d) buf = stored_bytes m bytes)"

lemma publish_copy_effect:
  assumes "os_ok OS" and "d_data (ds_store st ! i) = Alloc buf" and "length buf = d_reallen (ds_store st ! i)"
    and "req_len m \<le> d_reallen (ds_store st ! i)" and "i < length (ds_store st)"
    and "(case safecopyfrom OS (dm_source m) (sint (val_in m)) (req_len m) st of
            (Inl r, st2) \<Rightarrow> Some (r, set_entry i (\<lambda>d. d\<lparr>d_data := Dangling\<rparr>) st2)
          | (Inr bytes, st2) \<Rightarrow>
              let buf1 = bytes @ drop (length bytes) buf in
              if has (dm_flags m) DSF_TYPE_STR
              then if req_len m = 0 then None
                   else Some (ROK, set_entry i (\<lambda>d. d\<lparr>d_data := Alloc (buf1[req_len m - 1 := CHR 0x00]), d_length := req_len m\<rparr>) st2)
              else Some (ROK, set_entry i (\<lambda>d. d\<lparr>d_data := Alloc buf1, d_length := req_len m\<rparr>) st2)) = Some (r, st')"
  obtains d where "ds_store st' = (ds_store st)[i := d]" "same_attributes (ds_store st ! i) d"
    "ds_subs st' = ds_subs st" "buffer_ok d" "r = ROK \<Longrightarrow> holds_bytes OS m d" "r \<noteq> ROK \<Longrightarrow> d_data d = Dangling"
proof -
  let ?d = "ds_store st ! i"
  obtain res st2 where c: "safecopyfrom OS (dm_source m) (sint (val_in m)) (req_len m) st = (res, st2)" by fastforce
  show thesis
  proof (cases res)
    case (Inl e)
    then have st2: "st2 = log_event (CopyFrom (dm_source m) (sint (val_in m)) (req_len m)) st" and e: "e \<noteq> ROK"
      using c assms(1) by (cases "os_copyfrom OS (ds_trace st) (dm_source m) (sint (val_in m)) (req_len m)";
        auto simp: safecopyfrom_def os_ok_def)+
    have st': "st' = set_entry i (\<lambda>d. d\<lparr>d_data := Dangling\<rparr>) st2" "r = e" using assms(6) c Inl by simp_all
    show thesis
      by (rule that [of "?d\<lparr>d_data := Dangling\<rparr>"])
        (use st' st2 e in \<open>auto simp: set_entry_def log_event_def same_attributes_def buffer_ok_def\<close>)
  next
    case (Inr bytes)
    note sc = safecopyfrom_bytes [OF c [unfolded Inr]]
    have bl: "length bytes = req_len m" using sc(2) assms(1) by simp
    have cf: "os_copyfrom OS (ds_trace st) (dm_source m) (sint (val_in m)) (req_len m) = Inr bytes"
      using c Inr assms(1) by (cases "os_copyfrom OS (ds_trace st) (dm_source m) (sint (val_in m)) (req_len m)")
        (auto simp: safecopyfrom_def os_ok_def)
    let ?b = "bytes @ drop (length bytes) buf"
    define new where "new = (if has (dm_flags m) DSF_TYPE_STR then ?b[req_len m - 1 := CHR 0x00] else ?b)"
    have r: "r = ROK" "st' = set_entry i (\<lambda>d. d\<lparr>d_data := Alloc new, d_length := req_len m\<rparr>) st2"
      and nz: "has (dm_flags m) DSF_TYPE_STR \<Longrightarrow> req_len m \<noteq> 0"
      using assms(6) c Inr by (auto simp: Let_def new_def split: if_splits)
    have l: "length new = d_reallen ?d" using bl assms(3,4) by (simp add: new_def)
    have t: "take (req_len m) new = stored_bytes m bytes"
      using bl nz by (auto simp: new_def stored_bytes_def list_update_append)
    show thesis
      by (rule that [of "?d\<lparr>d_data := Alloc new, d_length := req_len m\<rparr>"])
        (use r sc(3) cf l t assms(4) in \<open>auto simp: set_entry_def log_event_def same_attributes_def buffer_ok_def holds_bytes_def\<close>)
  qed
qed

lemma publish_memory_effect:
  assumes "os_ok OS" and "publish_memory OS m i st = Some (r, st')" and "i < length (ds_store st)"
    and "used (ds_store st ! i) \<Longrightarrow> buffer_ok (ds_store st ! i)"
  obtains d where "ds_store st' = (ds_store st)[i := d]" "same_attributes (ds_store st ! i) d"
    "ds_subs st' = ds_subs st" "buffer_ok d" "r = ROK \<Longrightarrow> holds_bytes OS m d"
    "r \<noteq> ROK \<Longrightarrow> (\<And>tr n. os_malloc OS tr n) \<Longrightarrow> d_data d = Dangling"
proof -
  note eq = assms(2) [unfolded publish_memory_def, folded req_len_def]
  from eq obtain r1 st1 where b: "publish_buffer OS i (req_len m) st = Some (r1, st1)"
    by (auto simp: Let_def bind_eq_Some_conv)
  obtain d1 where d1: "ds_store st1 = (ds_store st)[i := d1]" "same_attributes (ds_store st ! i) d1"
    "ds_subs st1 = ds_subs st" "r1 = ROK \<Longrightarrow> req_len m \<le> d_reallen d1"
    "\<And>buf. d_data d1 = Alloc buf \<Longrightarrow> length buf = d_reallen d1" "r1 \<noteq> ROK \<Longrightarrow> d_data d1 = Null"
    "r1 \<noteq> ROK \<Longrightarrow> \<not> os_malloc OS (ds_trace st) (req_len m)"
    by (rule publish_buffer_effect [OF b assms(3,4)]) blast+
  have n1: "ds_store st1 ! i = d1" "i < length (ds_store st1)" using d1(1) assms(3) by simp_all
  show thesis
  proof (cases "r1 = ROK")
    case False
    with eq b have "r = r1" "st' = st1" by simp_all
    then show thesis using d1 False by (intro that [of d1]) (auto simp: buffer_ok_def)
  next
    case True
    with eq b n1(1) obtain buf where buf: "d_data d1 = Alloc buf" by (cases "d_data d1") simp_all
    show thesis
    proof (rule publish_copy_effect [OF assms(1), where st = st1 and i = i and buf = buf and m = m and r = r and st' = st'])
      fix d
      assume "ds_store st' = (ds_store st1)[i := d]" "same_attributes (ds_store st1 ! i) d"
        "ds_subs st' = ds_subs st1" "buffer_ok d" "r = ROK \<Longrightarrow> holds_bytes OS m d" "r \<noteq> ROK \<Longrightarrow> d_data d = Dangling"
      then show thesis using d1 n1 by (intro that [of d]) (auto simp: same_attributes_def)
    qed (use buf n1 d1(4,5) True eq b in \<open>auto simp: Let_def\<close>)
  qed
qed


text \<open>What the value of an entry is after a successful publication.\<close>

definition holds_value :: "ds_os \<Rightarrow> ds_message \<Rightarrow> data_store \<Rightarrow> bool" where
  "holds_value OS m d \<longleftrightarrow>
     (if dm_flags m AND DSF_MASK_TYPE \<in> {DSF_TYPE_U32, DSF_TYPE_LABEL} then d_u32 d = val_in m else holds_bytes OS m d)"

lemma type_neq [simp]:
  "DSF_TYPE_U32 \<noteq> DSF_TYPE_STR" "DSF_TYPE_U32 \<noteq> DSF_TYPE_MEM" "DSF_TYPE_LABEL \<noteq> DSF_TYPE_STR" "DSF_TYPE_LABEL \<noteq> DSF_TYPE_MEM"
  "DSF_TYPE_STR \<noteq> DSF_TYPE_U32" "DSF_TYPE_MEM \<noteq> DSF_TYPE_U32" "DSF_TYPE_STR \<noteq> DSF_TYPE_LABEL" "DSF_TYPE_MEM \<noteq> DSF_TYPE_LABEL"
  "DSF_TYPE_U32 \<noteq> DSF_TYPE_LABEL" "DSF_TYPE_LABEL \<noteq> DSF_TYPE_U32" "DSF_TYPE_STR \<noteq> DSF_TYPE_MEM" "DSF_TYPE_MEM \<noteq> DSF_TYPE_STR"
  by (simp_all add: ds_flag_defs)

lemma publish_value_effect:
  assumes "os_ok OS" and "store_ok (ds_store st)" and "i < NR_DS_KEYS"
    and "used (ds_store st ! i) \<Longrightarrow> d_type (ds_store st ! i) = dm_flags m AND DSF_MASK_TYPE"
    and "publish_value OS m i st = Some (r, st')" and "dm_flags m AND DSF_MASK_TYPE \<in> ds_types"
  obtains d where "ds_store st' = (ds_store st)[i := d]" "same_attributes (ds_store st ! i) d" "ds_subs st' = ds_subs st"
    "dm_flags m AND DSF_MASK_TYPE \<in> {DSF_TYPE_STR, DSF_TYPE_MEM} \<Longrightarrow> buffer_ok d"
    "r = ROK \<Longrightarrow> holds_value OS m d"
proof (cases "dm_flags m AND DSF_MASK_TYPE \<in> {DSF_TYPE_U32, DSF_TYPE_LABEL}")
  case True
  then have "st' = set_entry i (\<lambda>d. d\<lparr>d_u32 := val_in m\<rparr>) st" using assms(5) by (auto simp: publish_value_def Let_def)
  with True show thesis
    by (intro that [of "(ds_store st ! i)\<lparr>d_u32 := val_in m\<rparr>"])
      (auto simp: set_entry_def same_attributes_def holds_value_def)
next
  case False
  let ?d = "ds_store st ! i"
  have t: "dm_flags m AND DSF_MASK_TYPE \<in> {DSF_TYPE_STR, DSF_TYPE_MEM}" using False assms(6) by (simp add: ds_types_def)
  then have pm: "publish_memory OS m i st = Some (r, st')" using assms(5) by (auto simp: publish_value_def Let_def)
  have b: "used ?d \<Longrightarrow> buffer_ok ?d"
    using t assms(4) store_okD [OF assms(2,3)] by (auto simp: entry_ok_def buffer_ok_def)
  have i: "i < length (ds_store st)" using assms(2,3) by (simp add: store_ok_def)
  show thesis
    by (rule publish_memory_effect [OF assms(1) pm i b]) (use that False in \<open>auto simp: holds_value_def\<close>)
qed

lemma type_of_published: "(DSF_IN_USE OR (f AND DSF_MASK_INTERNAL)) AND DSF_MASK_TYPE = f AND DSF_MASK_TYPE"
proof -
  have "DSF_IN_USE AND DSF_MASK_TYPE = 0" "DSF_MASK_INTERNAL AND DSF_MASK_TYPE = DSF_MASK_TYPE"
    by (simp_all add: ds_flag_defs)
  then show ?thesis by (simp add: bit.conj_disj_distrib2 and.assoc)
qed

lemma used_published: "has (DSF_IN_USE OR f) DSF_IN_USE"
proof -
  have "(DSF_IN_USE OR f) AND DSF_IN_USE = DSF_IN_USE" by (rule bit_eqI) (auto simp: bit_simps)
  then show ?thesis by (simp add: DSF_IN_USE_def)
qed

text \<open>A successful publication: one slot is written, with the key, the flags and the value of the request.\<close>

definition published :: "ds_os \<Rightarrow> ds_message \<Rightarrow> string \<Rightarrow> data_store \<Rightarrow> bool" where
  "published OS m key d \<longleftrightarrow> d_key d = key \<and> d_flags d = DSF_IN_USE OR (dm_flags m AND DSF_MASK_INTERNAL) \<and> holds_value OS m d"

definition publish_outcome :: "ds_os \<Rightarrow> ds_message \<Rightarrow> ds_state \<Rightarrow> result \<Rightarrow> ds_state \<Rightarrow> bool" where
  "publish_outcome OS m st r st' \<longleftrightarrow>
     (r \<noteq> ROK \<and> ds_store st' = ds_store st) \<or>
     (\<exists>key st1 i d source. get_key_name OS m st = (Inr key, st1) \<and> publish_slot m key (ds_store st) = Inr i \<and>
       ds_getprocname (dm_source m) (ds_store st) = Some source \<and>
       dm_flags m AND DSF_MASK_TYPE \<in> ds_types \<and> ds_store st' = (ds_store st)[i := d] \<and>
       (dm_flags m AND DSF_MASK_TYPE \<in> {DSF_TYPE_STR, DSF_TYPE_MEM} \<longrightarrow> buffer_ok d) \<and>
       (if r = ROK
        then published OS m key d \<and> d_owner d = (if source = KeyOf i then key else deref_name (ds_store st) source)
        else same_attributes (ds_store st ! i) d))"

lemma publish_attributes_effect:
  assumes "i < length (ds_store st)"
  shows "ds_store (publish_attributes m i key source st) = (ds_store st)[i := (ds_store st ! i)\<lparr>d_key := key,
      d_owner := (if source = KeyOf i then key else deref_name (ds_store st) source),
      d_flags := DSF_IN_USE OR (dm_flags m AND DSF_MASK_INTERNAL)\<rparr>]"
    "ds_subs (publish_attributes m i key source st) = ds_subs st"
  using assms by (cases source; auto simp: publish_attributes_def set_entry_def Let_def nth_list_update)+

lemma do_publish_found:
  assumes "ds_getprocname (dm_source m) (ds_store st) = Some source"
    and "\<not> (has (dm_flags m) DSF_TYPE_LABEL \<and> dm_source m \<noteq> RS_PROC_NR)"
    and "get_key_name OS m st = (Inr key, st1)" and "publish_slot m key (ds_store st1) = Inr i"
    and "publish_value OS m i st1 = Some (r2, st2)"
  shows "do_publish OS m st = (if r2 \<noteq> ROK then Some (r2, m, st2)
    else map_option (\<lambda>st3. (ROK, m, st3)) (update_subscribers OS i True (publish_attributes m i key source st2)))"
  using assms by (cases "update_subscribers OS i True (publish_attributes m i key source st2)") (auto simp: do_publish_def)

lemma do_publish_outcome:
  assumes "os_ok OS" and "ds_ok st" and "do_publish OS m st = Some (r, m', st')"
  shows "publish_outcome OS m st r st'" "subs_ok (ds_subs st')" "m' = m"
proof -
  have st: "store_ok (ds_store st)" "subs_ok (ds_subs st)" using assms(2) by (simp_all add: ds_ok_alt)
  have len: "length (ds_store st) = NR_DS_KEYS" using st(1) by (simp add: store_ok_def)
  have "publish_outcome OS m st r st' \<and> subs_ok (ds_subs st') \<and> m' = m"
  proof (cases "ds_getprocname (dm_source m) (ds_store st)")
    case None
    with assms(3) st show ?thesis by (simp add: do_publish_def publish_outcome_def)
  next
    case (Some source)
    show ?thesis
    proof (cases "has (dm_flags m) DSF_TYPE_LABEL \<and> dm_source m \<noteq> RS_PROC_NR")
      case True
      with assms(3) st Some show ?thesis by (simp add: do_publish_def publish_outcome_def)
    next
      case lab: False
      obtain kr st1 where k: "get_key_name OS m st = (kr, st1)" by fastforce
      show ?thesis
      proof (cases kr)
        case (Inl e)
        have "e \<noteq> ROK" using k Inl assms(1) get_key_name_error [of OS m st e st1]
          by (cases "os_copyfrom OS (ds_trace st) (dm_source m) (key_grant m) (nat (key_len m))")
            (auto simp: get_key_name_def safecopyfrom_def os_ok_def Let_def split: if_splits)
        with assms(3) Some lab k Inl get_key_name_error [of OS m st e st1] st show ?thesis
          by (auto simp: do_publish_def publish_outcome_def)
      next
        case (Inr key)
        note gk = get_key_name_key [OF assms(1) k [unfolded Inr]]
        show ?thesis
        proof (cases "publish_slot m key (ds_store st1)")
          case (Inl e)
          then have "e \<noteq> ROK" by (auto simp: publish_slot_def Let_def split: option.splits if_splits)
          with assms(3) Some lab k Inr Inl gk st show ?thesis by (auto simp: do_publish_def publish_outcome_def)
        next
          case slot: (Inr i)
          from assms(3) Some lab k Inr slot obtain r2 st2 where v: "publish_value OS m i st1 = Some (r2, st2)"
            by (auto simp: do_publish_def bind_eq_Some_conv)
          note eq = do_publish_found [OF Some lab k [unfolded Inr] slot v, unfolded assms(3)]
          show ?thesis
          proof (cases "dm_flags m AND DSF_MASK_TYPE \<in> ds_types")
            case False
            then have "r2 = RINVAL" "st2 = st1" using v by (auto simp: publish_value_def ds_types_def Let_def)
            with eq gk st show ?thesis by (simp add: publish_outcome_def)
          next
            case types: True
            have sl: "publish_slot m key (ds_store st) = Inr i" using slot gk(2) by simp
            note u = publish_slot_unique [OF st(1) sl types]
            obtain d where d: "ds_store st2 = (ds_store st)[i := d]" "same_attributes (ds_store st ! i) d"
              "ds_subs st2 = ds_subs st" "dm_flags m AND DSF_MASK_TYPE \<in> {DSF_TYPE_STR, DSF_TYPE_MEM} \<Longrightarrow> buffer_ok d"
              "r2 = ROK \<Longrightarrow> holds_value OS m d"
              by (rule publish_value_effect [OF assms(1) _ u(1) _ v types]) (use st gk u(3) in auto)
            show ?thesis
            proof (cases "r2 = ROK")
              case False
              with eq have "r = r2" "st' = st2" "m' = m" by simp_all
              with False d sl k Inr types Some st show ?thesis unfolding publish_outcome_def by auto
            next
              case True
              let ?st3 = "publish_attributes m i key source st2"
              from eq True obtain st4 where
                up: "update_subscribers OS i True ?st3 = Some st4" and fin: "r = ROK" "m' = m" "st' = st4"
                by (cases "update_subscribers OS i True ?st3") auto
              have i2: "i < length (ds_store st2)" using d(1) u(1) len by simp
              note a = publish_attributes_effect [OF i2, of m key source]
              let ?o = "if source = KeyOf i then key else deref_name (ds_store st) source"
              have o: "(if source = KeyOf i then key else deref_name (ds_store st2) source) = ?o"
                using d(1) by (cases source) auto
              have n2: "ds_store st2 ! i = d" using d(1) u(1) len by simp
              have s4: "ds_store st' = (ds_store st)[i := d\<lparr>d_key := key, d_owner := ?o,
                  d_flags := DSF_IN_USE OR (dm_flags m AND DSF_MASK_INTERNAL)\<rparr>]"
                using update_subscribers_keeps(1) [OF up] a(1) o n2 d(1) fin by simp
              have "holds_value OS m (d\<lparr>d_key := key, d_owner := ?o, d_flags := f\<rparr>) = holds_value OS m d" for f
                by (simp add: holds_value_def holds_bytes_def)
              moreover have "buffer_ok (d\<lparr>d_key := key, d_owner := ?o, d_flags := f\<rparr>) = buffer_ok d" for f
                by (simp add: buffer_ok_def)
              moreover have "subs_ok (ds_subs st')"
                using update_subscribers_keeps(2) [OF up] a(2) d(3) st(2) fin by simp
              ultimately show ?thesis using s4 fin d(4,5) True sl k Inr types Some
                unfolding publish_outcome_def published_def by auto
            qed
          qed
        qed
      qed
    qed
  qed
  then show "publish_outcome OS m st r st'" "subs_ok (ds_subs st')" "m' = m" by auto
qed

lemma published_fields:
  assumes "published OS m key d"
  shows "used d" "d_type d = dm_flags m AND DSF_MASK_TYPE" "d_key d = key" "holds_value OS m d"
  using assms used_published type_of_published by (auto simp: published_def d_type_def)

lemma entry_ok_same:
  assumes "entry_ok d" and "same_attributes d d'" and "d_type d \<in> {DSF_TYPE_STR, DSF_TYPE_MEM} \<Longrightarrow> buffer_ok d'"
  shows "entry_ok d'"
  using assms by (auto simp: entry_ok_def same_attributes_def d_type_def buffer_ok_def)

lemma do_publish_ok:
  assumes "os_ok OS" and "ds_ok st" and "do_publish OS m st = Some (r, m', st')"
  shows "ds_ok st'"
proof -
  note o = do_publish_outcome [OF assms]
  have st: "store_ok (ds_store st)" using assms(2) by (simp add: ds_ok_alt)
  have "store_ok (ds_store st')"
    using o(1) unfolding publish_outcome_def
  proof (elim disjE conjE exE, goal_cases)
    case 1
    then show ?case using st by simp
  next
    case (2 key st1 i d source)
    note u = publish_slot_unique [OF st 2(2,4)]
    note k = get_key_name_key(1) [OF assms(1) 2(1)]
    show ?case
    proof (cases "r = ROK")
      case True
      with 2 have p: "published OS m key d" by simp
      have "entry_ok d" using published_fields [OF p] 2(4,6) k by (auto simp: entry_ok_def buffer_ok_def)
      then show ?thesis unfolding 2(5)
        by (rule store_ok_update [OF st _ u(1)]) (use u(2) published_fields [OF p] in auto)
    next
      case False
      with 2 have s: "same_attributes (ds_store st ! i) d" by simp
      have e: "entry_ok d"
      proof (cases "used (ds_store st ! i)")
        case True
        then show ?thesis using entry_ok_same [OF store_okD [OF st u(1)] s] u(3) 2(6) by simp
      next
        case False
        then show ?thesis using s by (simp add: entry_ok_def same_attributes_def)
      qed
      show ?thesis unfolding 2(5)
      proof (rule store_ok_update [OF st e u(1)])
        fix j
        assume j: "used d" "j < NR_DS_KEYS" "used (ds_store st ! j)" "d_type (ds_store st ! j) = d_type d" "d_key (ds_store st ! j) = d_key d"
        show "j = i" by (rule store_okD_unique [OF st j(2) u(1) j(3)]) (use j s in \<open>auto simp: same_attributes_def d_type_def\<close>)
      qed
    qed
  qed
  with o(2) show ?thesis by (simp add: ds_ok_alt)
qed

section \<open>The other requests\<close>

lemma get_key_name_keeps:
  assumes "get_key_name OS m st = (kr, st')"
  shows "ds_store st' = ds_store st" "ds_subs st' = ds_subs st"
  using assms by (auto simp: get_key_name_def safecopyfrom_def log_event_def Let_def split: if_splits sum.splits)

lemma safecopyto_keeps:
  "safecopyto OS dest grant data st = (r, st') \<Longrightarrow> ds_store st' = ds_store st \<and> ds_subs st' = ds_subs st"
  by (auto simp: safecopyto_def)

lemma do_retrieve_keeps:
  assumes "do_retrieve OS m st = Some (r, m', st')"
  shows "ds_store st' = ds_store st \<and> ds_subs st' = ds_subs st"
proof -
  obtain kr st1 where k: "get_key_name OS m st = (kr, st1)" by fastforce
  note g = get_key_name_keeps [OF k]
  show ?thesis
    using assms k g safecopyto_keeps [of OS _ _ _ st1]
    by (auto simp: do_retrieve_def Let_def split: sum.splits option.splits if_splits mem_ptr.splits prod.splits)
qed

lemma initial_list_keeps:
  "initial_list OS m ts i ns b st = Some (b', st') \<Longrightarrow>
     ds_store st' = ds_store st \<and> (subs_ok (ds_subs st) \<longrightarrow> subs_ok (ds_subs st'))"
proof (induction OS m ts i ns b st rule: initial_list.induct)
  case (2 OS m ts i n rest b st)
  have s: "subs_ok (ds_subs (set_sub i (\<lambda>s. s\<lparr>old_subs := (old_subs s)[n := True]\<rparr>) st))" if "subs_ok (ds_subs st)"
    using that subs_okD [OF that] by (auto intro: subs_ok_set_sub)
  show ?case using 2 s by (auto simp: Let_def bind_eq_Some_conv split: if_splits)
qed auto

lemma do_subscribe_keeps:
  assumes "do_subscribe OS m st = Some (r, m', st')" and "subs_ok (ds_subs st)"
  shows "ds_store st' = ds_store st \<and> subs_ok (ds_subs st')"
proof (cases "ds_getprocname (dm_source m) (ds_store st)")
  case None
  with assms show ?thesis by (simp add: do_subscribe_def)
next
  case (Some name)
  obtain kr st1 where k: "get_key_name OS m st = (kr, st1)" by fastforce
  note g = get_key_name_keeps [OF k]
  show ?thesis
  proof (cases "subscribe_slot m (deref_name (ds_store st) name) (ds_subs st)")
    case (Inl e)
    with assms Some show ?thesis by (simp add: do_subscribe_def Let_def)
  next
    case (Inr i)
    have s1: "subs_ok (ds_subs (set_sub i (\<lambda>s. s\<lparr>s_regex := None\<rparr>) st1))"
      using assms(2) g(2) subs_okD [OF assms(2)] by (intro subs_ok_set_sub) auto
    have s2: "subs_ok (ds_subs (set_sub i (\<lambda>s. s\<lparr>s_regex := x, s_flags := f, s_owner := w, old_subs := replicate NR_DS_KEYS False\<rparr>) st1))" for x f w
      using assms(2) g(2) by (intro subs_ok_set_sub) auto
    show ?thesis
      using assms Some Inr k g s1 s2 initial_list_keeps [of OS m _ i _ _ "set_sub i _ st1"]
      by (auto simp: do_subscribe_def Let_def bind_eq_Some_conv split: sum.splits if_splits; fastforce)
  qed
qed

lemma do_check_keeps:
  assumes "do_check OS m st = Some (r, m', st')" and "subs_ok (ds_subs st)"
  shows "ds_store st' = ds_store st \<and> subs_ok (ds_subs st')"
proof -
  have s: "subs_ok (ds_subs (set_sub n (\<lambda>u. u\<lparr>old_subs := (old_subs u)[i := False]\<rparr>) st1))"
    if "ds_subs st1 = ds_subs st" for n i st1
    using assms(2) that subs_okD [OF assms(2)] by (intro subs_ok_set_sub) auto
  show ?thesis
    using assms s safecopyto_keeps [of OS "dm_source m" "key_grant m" _ st]
    by (auto simp: do_check_def bind_eq_Some_conv split: option.splits if_splits prod.splits)
qed

lemma do_retrieve_label_keeps:
  assumes "do_retrieve_label OS m st = Some (r, m', st')"
  shows "ds_store st' = ds_store st \<and> ds_subs st' = ds_subs st"
  using assms safecopyto_keeps [of OS "dm_source m" "key_grant m" _ st]
  by (auto simp: do_retrieve_label_def split: option.splits if_splits prod.splits)

lemma do_getsysinfo_keeps:
  assumes "do_getsysinfo OS m st = Some (r, m', st')"
  shows "ds_store st' = ds_store st \<and> ds_subs st' = ds_subs st"
  using assms by (auto simp: do_getsysinfo_def split: if_splits)

text \<open>Deleting a label: the entries that its process owns are cleared, no others.\<close>

definition cleared_from :: "string \<Rightarrow> nat set \<Rightarrow> data_store list \<Rightarrow> data_store list \<Rightarrow> bool" where
  "cleared_from label is store store' \<longleftrightarrow> length store' = length store \<and>
     (\<forall>j < length store. store' ! j =
        (if j \<in> is \<and> used (store ! j) \<and> d_owner (store ! j) = label then (store ! j)\<lparr>d_flags := 0\<rparr> else store ! j))"

lemma clean_entries_effect:
  "clean_entries OS label is st = Some st' \<Longrightarrow> distinct is \<Longrightarrow> \<forall>i \<in> set is. i < length (ds_store st) \<Longrightarrow>
     cleared_from label (set is) (ds_store st) (ds_store st') \<and> (subs_ok (ds_subs st) \<longrightarrow> subs_ok (ds_subs st'))"
proof (induction "is" arbitrary: st)
  case (Cons i rest)
  show ?case
  proof (cases "used (ds_store st ! i) \<and> d_owner (ds_store st ! i) = label")
    case False
    then have "clean_entries OS label rest st = Some st'" using Cons.prems(1) by auto
    with Cons.IH Cons.prems(2,3) False show ?thesis by (auto simp: cleared_from_def)
  next
    case True
    from Cons.prems(1) True obtain st1 where u: "update_subscribers OS i False st = Some st1"
      and c: "clean_entries OS label rest (set_entry i (\<lambda>d. d\<lparr>d_flags := 0\<rparr>) st1) = Some st'"
      by (auto simp: bind_eq_Some_conv)
    note k = update_subscribers_keeps [OF u]
    let ?st2 = "set_entry i (\<lambda>d. d\<lparr>d_flags := 0\<rparr>) st1"
    have n: "ds_store ?st2 ! j = (if j = i then (ds_store st ! i)\<lparr>d_flags := 0\<rparr> else ds_store st ! j)" for j
      using k(1) Cons.prems(3) by (simp add: set_entry_nth)
    have len: "length (ds_store ?st2) = length (ds_store st)" using k(1) by simp
    have IH: "cleared_from label (set rest) (ds_store ?st2) (ds_store st')" "subs_ok (ds_subs ?st2) \<longrightarrow> subs_ok (ds_subs st')"
      using Cons.IH [OF c] Cons.prems(2,3) len by auto
    have "i \<notin> set rest" using Cons.prems(2) by simp
    with IH(1) n len True have "cleared_from label (set (i # rest)) (ds_store st) (ds_store st')"
      by (auto simp: cleared_from_def)
    with IH(2) k(2) show ?thesis by simp
  qed
qed (simp add: cleared_from_def)

lemma store_ok_cleared:
  assumes "store_ok store" and "length store' = length store"
    and "\<And>j. j < NR_DS_KEYS \<Longrightarrow> store' ! j = store ! j \<or> \<not> used (store' ! j)"
  shows "store_ok store'"
proof -
  have len: "length store = NR_DS_KEYS" using assms(1) by (simp add: store_ok_def)
  have "entry_ok (store' ! j)" if "j < NR_DS_KEYS" for j
    using assms(3) [OF that] store_okD [OF assms(1) that] by (auto simp: entry_ok_def)
  moreover have "i = j" if "i < NR_DS_KEYS" "j < NR_DS_KEYS" "used (store' ! i)" "used (store' ! j)"
    "d_type (store' ! i) = d_type (store' ! j)" "d_key (store' ! i) = d_key (store' ! j)" for i j
    by (rule store_okD_unique [OF assms(1) that(1,2)])
      (use that assms(3) [OF that(1)] assms(3) [OF that(2)] in simp_all)
  ultimately show ?thesis using assms(2) len unfolding store_ok_def list_all_length by simp
qed

lemma subs_ok_clean: "subs_ok (ds_subs st) \<Longrightarrow> subs_ok (ds_subs (clean_subs label st))"
  by (auto simp: subs_ok_def clean_subs_def list_all_length)

text \<open>What a successful deletion does to the table: entry \<open>i\<close> is gone, and with a label all that it owned.\<close>

lemma delete_value_effect:
  assumes "delete_value OS type i st = Some (r, st')" and "length (ds_store st) = NR_DS_KEYS" and "i < NR_DS_KEYS"
  shows "length (ds_store st') = NR_DS_KEYS \<and> (subs_ok (ds_subs st) \<longrightarrow> subs_ok (ds_subs st')) \<and>
    (\<forall>j < NR_DS_KEYS. j \<noteq> i \<longrightarrow> ds_store st' ! j = ds_store st ! j \<or>
       type = DSF_TYPE_LABEL \<and> d_owner (ds_store st ! j) = d_key (ds_store st ! i) \<and> \<not> used (ds_store st' ! j)) \<and>
    (r \<noteq> ROK \<longrightarrow> ds_store st' = ds_store st)"
proof (cases "type = DSF_TYPE_LABEL")
  case True
  let ?l = "d_key (ds_store st ! i)"
  from assms(1) True have "clean_entries OS ?l [0..<NR_DS_KEYS] (clean_subs ?l st) = Some st'" and r: "r = ROK"
    by (auto simp: delete_value_def Let_def bind_eq_Some_conv)
  from clean_entries_effect [OF this(1)] assms(2)
  have "cleared_from ?l (set [0..<NR_DS_KEYS]) (ds_store (clean_subs ?l st)) (ds_store st')"
    "subs_ok (ds_subs (clean_subs ?l st)) \<longrightarrow> subs_ok (ds_subs st')" by (auto simp: clean_subs_def)
  moreover have "ds_store (clean_subs ?l st) = ds_store st" by (simp add: clean_subs_def)
  ultimately show ?thesis using True r assms(2) subs_ok_clean [of st ?l] by (auto simp: cleared_from_def)
next
  case False
  with assms show ?thesis
    by (auto simp: delete_value_def bind_eq_Some_conv set_entry_nth split: if_splits)
qed

text \<open>Every way a deletion can change an entry.\<close>

lemma do_delete_effect:
  assumes "do_delete OS m st = Some (r, m', st')" and "ds_ok st"
  shows "subs_ok (ds_subs st')" "length (ds_store st') = NR_DS_KEYS"
    "j < NR_DS_KEYS \<Longrightarrow> ds_store st' ! j = ds_store st ! j \<or>
       \<not> used (ds_store st' ! j) \<and>
       ((\<exists>source. ds_getprocname (dm_source m) (ds_store st) = Some source \<and> d_owner (ds_store st ! j) = deref_name (ds_store st) source) \<or>
        dm_flags m AND DSF_MASK_TYPE = DSF_TYPE_LABEL)"
proof -
  let ?type = "dm_flags m AND DSF_MASK_TYPE"
  have st: "store_ok (ds_store st)" "subs_ok (ds_subs st)" "length (ds_store st) = NR_DS_KEYS"
    using assms(2) by (simp_all add: ds_ok_alt store_ok_def)
  have "subs_ok (ds_subs st') \<and> length (ds_store st') = NR_DS_KEYS \<and>
    (j < NR_DS_KEYS \<longrightarrow> ds_store st' ! j = ds_store st ! j \<or> \<not> used (ds_store st' ! j) \<and>
       ((\<exists>source. ds_getprocname (dm_source m) (ds_store st) = Some source \<and> d_owner (ds_store st ! j) = deref_name (ds_store st) source) \<or>
        ?type = DSF_TYPE_LABEL))"
  proof (cases "ds_getprocname (dm_source m) (ds_store st)")
    case None
    with assms(1) st show ?thesis by (simp add: do_delete_def Let_def)
  next
    case (Some source)
    obtain kr st1 where k: "get_key_name OS m st = (kr, st1)" by fastforce
    note g = get_key_name_keeps [OF k]
    show ?thesis
    proof (cases "\<exists>key i. kr = Inr key \<and> lookup_entry key ?type (ds_store st) = Some i \<and>
        d_owner (ds_store st ! i) = deref_name (ds_store st) source")
      case False
      with assms(1) Some k g st show ?thesis
        by (auto simp: do_delete_def Let_def split: sum.splits option.splits if_splits)
    next
      case True
      then obtain key i where i: "kr = Inr key" "lookup_entry key ?type (ds_store st) = Some i"
        "d_owner (ds_store st ! i) = deref_name (ds_store st) source" by blast
      have il: "i < NR_DS_KEYS" using lookup_entry_SomeD(1) [OF i(2)] st(3) by simp
      from assms(1) Some k g i obtain r2 st2 where d: "delete_value OS ?type i st1 = Some (r2, st2)"
        and e: "(if r2 \<noteq> ROK then Some (r2, m, st2) else
          do { st3 \<leftarrow> update_subscribers OS i False st2; Some (ROK, m, set_entry i (\<lambda>d. d\<lparr>d_flags := 0\<rparr>) st3) }) = Some (r, m', st')"
        by (auto simp: do_delete_def Let_def bind_eq_Some_conv split: if_splits)
      note dv = delete_value_effect [OF d _ il]
      show ?thesis
      proof (cases "r2 = ROK")
        case False
        with e dv g st show ?thesis by simp
      next
        case True
        with e obtain st3 where u: "update_subscribers OS i False st2 = Some st3"
          and s': "st' = set_entry i (\<lambda>d. d\<lparr>d_flags := 0\<rparr>) st3" by (auto simp: bind_eq_Some_conv)
        note uk = update_subscribers_keeps [OF u]
        have l3: "length (ds_store st3) = NR_DS_KEYS" using uk(1) dv g st(3) by simp
        have "ds_store st' ! j = ds_store st ! j \<or> \<not> used (ds_store st' ! j) \<and>
            (d_owner (ds_store st ! j) = deref_name (ds_store st) source \<or> ?type = DSF_TYPE_LABEL)" if "j < NR_DS_KEYS"
          using that dv g st(3) uk(1) il l3 i(3) unfolding s' by (cases "j = i") (auto simp: set_entry_nth)
        moreover have "subs_ok (ds_subs st')" using uk(2) dv g st(2,3) unfolding s' by simp
        ultimately show ?thesis using Some l3 s' by auto
      qed
    qed
  qed
  then show "subs_ok (ds_subs st')" "length (ds_store st') = NR_DS_KEYS"
    "j < NR_DS_KEYS \<Longrightarrow> ds_store st' ! j = ds_store st ! j \<or> \<not> used (ds_store st' ! j) \<and>
       ((\<exists>source. ds_getprocname (dm_source m) (ds_store st) = Some source \<and> d_owner (ds_store st ! j) = deref_name (ds_store st) source) \<or>
        ?type = DSF_TYPE_LABEL)" by blast+
qed

lemma do_delete_ok:
  assumes "do_delete OS m st = Some (r, m', st')" and "ds_ok st"
  shows "ds_ok st'"
proof -
  note e = do_delete_effect [OF assms]
  have "store_ok (ds_store st')"
    by (rule store_ok_cleared [of "ds_store st"]) (use assms(2) e(2,3) in \<open>auto simp: ds_ok_alt store_ok_def\<close>)
  with e(1) show ?thesis by (simp add: ds_ok_alt)
qed

section \<open>The main loop\<close>

lemma ds_dispatch_ok:
  assumes "os_ok OS" and "ds_ok st" and "ds_dispatch OS m st = Some (r, m', st')"
  shows "ds_ok st'"
proof -
  have s: "subs_ok (ds_subs st)" using assms(2) by (simp add: ds_ok_alt)
  consider "do_publish OS m st = Some (r, m', st')" | "do_retrieve OS m st = Some (r, m', st')"
    | "do_retrieve_label OS m st = Some (r, m', st')" | "do_delete OS m st = Some (r, m', st')"
    | "do_subscribe OS m st = Some (r, m', st')" | "do_check OS m st = Some (r, m', st')"
    | "do_getsysinfo OS m st = Some (r, m', st')" | "st' = st"
    using assms(3) unfolding ds_dispatch_def Let_def by (auto split: if_splits)
  then show ?thesis
  proof cases
    case 1
    then show ?thesis by (rule do_publish_ok [OF assms(1,2)])
  next
    case 2
    then show ?thesis using do_retrieve_keeps assms(2) by (auto simp: ds_ok_alt)
  next
    case 3
    then show ?thesis using do_retrieve_label_keeps assms(2) by (auto simp: ds_ok_alt)
  next
    case 4
    then show ?thesis by (rule do_delete_ok [OF _ assms(2)])
  next
    case 5
    then show ?thesis using do_subscribe_keeps [OF _ s] assms(2) by (auto simp: ds_ok_alt)
  next
    case 6
    then show ?thesis using do_check_keeps [OF _ s] assms(2) by (auto simp: ds_ok_alt)
  next
    case 7
    then show ?thesis using do_getsysinfo_keeps assms(2) by (auto simp: ds_ok_alt)
  qed (use assms(2) in simp)
qed

lemma ds_ok_log [simp]: "ds_ok (log_event ev st) = ds_ok st"
  by (simp add: ds_ok_alt)

lemma ds_main_step_ok:
  assumes "os_ok OS" and "ds_ok st" and "ds_main_step OS inp st = Some st'"
  shows "ds_ok st'"
  using assms(3) ds_dispatch_ok [OF assms(1,2)] by (auto simp: ds_main_step_def bind_eq_Some_conv split: if_splits)

interpretation ds_server: step_invariant "ds_main_step OS" "\<lambda>_. os_ok OS" ds_ok for OS
  by unfold_locales (rule ds_main_step_ok)

text \<open>Starting up: the services of the boot image, whose labels are different.\<close>

definition boot_labels_ok :: "rprocpub list \<Rightarrow> bool" where
  "boot_labels_ok table \<longleftrightarrow> distinct (map rpub_label (filter rpub_in_use table)) \<and>
     list_all (\<lambda>p. length (rpub_label p) < DS_MAX_KEYLEN) table"

lemma label_flags: "(DSF_IN_USE OR DSF_TYPE_LABEL) AND DSF_MASK_TYPE = DSF_TYPE_LABEL" "has (DSF_IN_USE OR DSF_TYPE_LABEL) DSF_IN_USE"
  by (simp_all add: ds_flag_defs)

lemma map_service_ok:
  assumes "map_service OS rpub st = Some (ROK, st')" and "ds_ok st" and "length (rpub_label rpub) < DS_MAX_KEYLEN"
    and "\<forall>j < NR_DS_KEYS. used (ds_store st ! j) \<longrightarrow> d_key (ds_store st ! j) \<noteq> rpub_label rpub"
  shows "ds_ok st'" "\<forall>j < NR_DS_KEYS. used (ds_store st' ! j) \<longrightarrow>
    d_key (ds_store st' ! j) = rpub_label rpub \<or> used (ds_store st ! j) \<and> d_key (ds_store st' ! j) = d_key (ds_store st ! j)"
proof -
  from assms(1) obtain i where i: "alloc_data_slot (ds_store st) = Some i"
    and u: "update_subscribers OS i True (set_entry i (\<lambda>d. d\<lparr>d_key := rpub_label rpub, d_u32 := word_of_int (rpub_endpoint rpub),
      d_owner := ''rs'', d_flags := DSF_IN_USE OR DSF_TYPE_LABEL\<rparr>) st) = Some st'"
    by (auto simp: map_service_def bind_eq_Some_conv split: option.splits)
  let ?d = "(ds_store st ! i)\<lparr>d_key := rpub_label rpub, d_u32 := word_of_int (rpub_endpoint rpub),
      d_owner := ''rs'', d_flags := DSF_IN_USE OR DSF_TYPE_LABEL\<rparr>"
  note uk = update_subscribers_keeps [OF u]
  have st: "store_ok (ds_store st)" "subs_ok (ds_subs st)" "length (ds_store st) = NR_DS_KEYS"
    using assms(2) by (simp_all add: ds_ok_alt store_ok_def)
  have il: "i < NR_DS_KEYS" using first_index_SomeD [OF i [unfolded alloc_data_slot_def]] st(3) by simp
  have s': "ds_store st' = (ds_store st)[i := ?d]" using uk(1) by (simp add: set_entry_def)
  have ty: "d_type ?d = DSF_TYPE_LABEL" by (simp add: d_type_def label_flags)
  have "entry_ok ?d" using ty assms(3) by (simp add: entry_ok_def ds_types_def)
  then have "store_ok (ds_store st')" unfolding s'
    by (rule store_ok_update [OF st(1) _ il]) (use assms(4) in simp)
  with uk(2) st(2) show "ds_ok st'" by (simp add: ds_ok_alt)
  show "\<forall>j < NR_DS_KEYS. used (ds_store st' ! j) \<longrightarrow>
    d_key (ds_store st' ! j) = rpub_label rpub \<or> used (ds_store st ! j) \<and> d_key (ds_store st' ! j) = d_key (ds_store st ! j)"
    unfolding s' using il st(3) by (auto simp: nth_list_update)
qed

lemma map_services_ok:
  "map_services OS table st = Some st' \<Longrightarrow> ds_ok st \<Longrightarrow> boot_labels_ok table \<Longrightarrow>
   \<forall>p \<in> set table. rpub_in_use p \<longrightarrow> (\<forall>j < NR_DS_KEYS. used (ds_store st ! j) \<longrightarrow> d_key (ds_store st ! j) \<noteq> rpub_label p) \<Longrightarrow>
   ds_ok st'"
proof (induction OS table st rule: map_services.induct)
  case (2 OS rpub rest st)
  show ?case
  proof (cases "rpub_in_use rpub")
    case False
    with 2 show ?thesis by (simp add: boot_labels_ok_def)
  next
    case True
    with 2(3) obtain st1 where m: "map_service OS rpub st = Some (ROK, st1)" and r: "map_services OS rest st1 = Some st'"
      by (auto simp: bind_eq_Some_conv split: if_splits)
    have l: "length (rpub_label rpub) < DS_MAX_KEYLEN" using 2(5) by (simp add: boot_labels_ok_def)
    note ms = map_service_ok [OF m 2(4) l]
    have fresh: "\<forall>j < NR_DS_KEYS. used (ds_store st ! j) \<longrightarrow> d_key (ds_store st ! j) \<noteq> rpub_label rpub"
      using 2(6) True by simp
    have "rpub_label rpub \<notin> rpub_label ` set (filter rpub_in_use rest)" "boot_labels_ok rest"
      using 2(5) True by (simp_all add: boot_labels_ok_def)
    then have b: "boot_labels_ok rest" "\<forall>p \<in> set rest. rpub_in_use p \<longrightarrow> rpub_label p \<noteq> rpub_label rpub"
      by (auto simp: image_iff)
    have "\<forall>p \<in> set rest. rpub_in_use p \<longrightarrow> (\<forall>j < NR_DS_KEYS. used (ds_store st1 ! j) \<longrightarrow> d_key (ds_store st1 ! j) \<noteq> rpub_label p)"
      using ms(2) [OF fresh] 2(6) b(2) by fastforce
    with 2(1) True m r ms(1) [OF fresh] b(1) show ?thesis by simp
  qed
qed simp

lemma ds_state0_ok: "ds_ok ds_state0"
  by (simp add: ds_ok_def ds_state0_def store_ok_def entry_ok_def list_all_length)

lemma sef_cb_init_fresh_ok:
  assumes "sef_cb_init_fresh OS (Some table) ds_state0 = Some st" and "boot_labels_ok table"
  shows "ds_ok st"
proof -
  let ?st = "ds_state0\<lparr>ds_store := map (d_flags_update (\<lambda>_. 0)) (ds_store ds_state0),
    ds_subs := map (s_flags_update (\<lambda>_. 0)) (ds_subs ds_state0)\<rparr>"
  have e: "?st = ds_state0" by (simp add: ds_state0_def)
  with assms(1) have "map_services OS table ds_state0 = Some st" by (simp add: sef_cb_init_fresh_def)
  then show ?thesis
    by (rule map_services_ok [OF _ ds_state0_ok assms(2)]) (simp add: ds_state0_def)
qed

end
