(* ===== verification/Ds_Claims.thy ===== *)
theory Ds_Claims
  imports Ds_Props
begin

unbundle bit_operations_syntax

text \<open>
  What the data store guarantees, over any system it runs on, with a concrete system on which the
  hypotheses hold.
\<close>

section \<open>A concrete system\<close>

text \<open>
  Grant 1 of every process gives access to the key \<open>"k"\<close>, other grants to a text; the stack holds
  letters; every expression compiles and matches nothing.
\<close>

definition ds_example_os :: ds_os where
  "ds_example_os = \<lparr>os_copyfrom = (\<lambda>_ _ g len. Inr (if g = 1 then take len (CHR ''k'' # replicate len (CHR 0x00)) else replicate len (CHR ''x''))),
     os_copyto = (\<lambda>_ _ _ _. ROK), os_datacopy = (\<lambda>_. ROK), os_malloc = (\<lambda>_ _. True),
     os_regcomp = (\<lambda>_. True), os_regexec = (\<lambda>_ _. False), os_stack = (\<lambda>_. replicate DS_MAX_KEYLEN (CHR ''z''))\<rparr>"

definition example_boot :: "rprocpub list" where
  "example_boot = [\<lparr>rpub_in_use = True, rpub_endpoint = 2, rpub_label = ''rs''\<rparr>,
     \<lparr>rpub_in_use = True, rpub_endpoint = 100, rpub_label = ''driver''\<rparr>]"

definition example_publish :: ds_message where
  "example_publish = \<lparr>dm_source = 100, dm_type = DS_PUBLISH, key_grant = 1, key_len = 2, dm_flags = DSF_TYPE_U32 OR DSF_PRIV_OVERWRITE, val_in = 42,
     dm_val_len = 0, dm_owner = 0, rep_val = 0, rep_len = 0, si_what = 0, si_where = 0, si_size = 0\<rparr>"

lemma ds_example_os_ok: "os_ok ds_example_os"
  by (auto simp: os_ok_def ds_example_os_def)

lemma example_boot_ok: "boot_labels_ok example_boot"
  by (simp add: boot_labels_ok_def example_boot_def DS_MAX_KEYLEN_def)

text \<open>The state after startup with this boot image.\<close>

definition free_entry :: data_store where
  "free_entry = \<lparr>d_flags = 0, d_key = [], d_owner = [], d_u32 = 0, d_data = Null, d_length = 0, d_reallen = 0\<rparr>"

definition label_entry :: "string \<Rightarrow> 32 word \<Rightarrow> data_store" where
  "label_entry l n = free_entry\<lparr>d_key := l, d_u32 := n, d_owner := ''rs'', d_flags := DSF_IN_USE OR DSF_TYPE_LABEL\<rparr>"

definition ds_example_state :: ds_state where
  "ds_example_state = ds_state0\<lparr>ds_store := label_entry ''rs'' 2 # label_entry ''driver'' 100 # replicate 126 free_entry\<rparr>"

lemma update_subs_none:
  "\<forall>i \<in> set is. \<not> has (s_flags (ds_subs st ! i)) DSF_IN_USE \<Longrightarrow> update_subs_from OS nr b is st = Some st"
  by (induction "is") (simp_all add: Let_def)

lemma no_subscribers: "ds_subs st = ds_subs ds_state0 \<Longrightarrow> update_subscribers OS nr b st = Some st"
  unfolding update_subscribers_def by (rule update_subs_none) (simp add: ds_state0_def)

lemma ds_store0: "ds_store ds_state0 = free_entry # free_entry # replicate 126 free_entry"
proof -
  have n: "NR_DS_KEYS = Suc (Suc 126)" by (simp add: NR_DS_KEYS_def)
  have "ds_store ds_state0 = replicate NR_DS_KEYS free_entry" by (simp add: ds_state0_def free_entry_def)
  then show ?thesis unfolding n by (simp only: replicate.simps)
qed

lemma free_entry_free: "d_flags free_entry = 0"
  by (simp add: free_entry_def)

lemma example_startup: "sef_cb_init_fresh ds_example_os (Some example_boot) ds_state0 = Some ds_example_state"
proof -
  have e: "ds_state0\<lparr>ds_store := map (d_flags_update (\<lambda>_. 0)) (ds_store ds_state0),
      ds_subs := map (s_flags_update (\<lambda>_. 0)) (ds_subs ds_state0)\<rparr> = ds_state0" by (simp add: ds_state0_def)
  let ?rs = "\<lparr>rpub_in_use = True, rpub_endpoint = 2, rpub_label = ''rs''\<rparr>"
  let ?dr = "\<lparr>rpub_in_use = True, rpub_endpoint = 100, rpub_label = ''driver''\<rparr>"
  let ?st1 = "ds_state0\<lparr>ds_store := label_entry ''rs'' 2 # free_entry # replicate 126 free_entry\<rparr>"
  have "map_service ds_example_os ?rs ds_state0 = Some (ROK, ?st1)"
    by (simp add: map_service_def alloc_data_slot_def ds_store0 free_entry_free set_entry_def no_subscribers label_entry_def ds_flag_defs)
  moreover have "map_service ds_example_os ?dr ?st1 = Some (ROK, ds_example_state)"
    by (simp add: map_service_def alloc_data_slot_def free_entry_free set_entry_def no_subscribers label_entry_def
        ds_example_state_def ds_flag_defs)
  ultimately show ?thesis by (simp add: sef_cb_init_fresh_def e example_boot_def)
qed

lemma ds_example_state_ok: "ds_ok ds_example_state"
  by (rule sef_cb_init_fresh_ok [OF example_startup example_boot_ok])

lemma example_name: "ds_getprocname 100 (ds_store ds_example_state) = Some (KeyOf 1)"
  by (simp add: ds_getprocname_def lookup_label_entry_def ds_example_state_def label_entry_def label_flags DS_PROC_NR_def ds_flag_defs)

lemma example_key:
  assumes "key_len m = 2" and "key_grant m = 1"
  shows "get_key_name ds_example_os m st = (Inr ''k'', log_event (CopyFrom (dm_source m) 1 2) st)"
proof -
  have z: "replicate DS_MAX_KEYLEN (CHR ''z'') = CHR ''z'' # CHR ''z'' # replicate 78 (CHR ''z'')"
    by (simp add: DS_MAX_KEYLEN_def numeral_eq_Suc)
  have "(CHR ''k'' # CHR 0x00 # replicate 78 (CHR ''z''))[DS_MAX_KEYLEN - 1 := CHR 0x00] =
      CHR ''k'' # CHR 0x00 # (replicate 78 (CHR ''z''))[77 := CHR 0x00]"
    by (simp add: DS_MAX_KEYLEN_def numeral_eq_Suc)
  then show ?thesis
    using assms by (simp add: get_key_name_def safecopyfrom_def ds_example_os_def z DS_MAX_KEYLEN_def cstr_def numeral_2_eq_2)
qed

text \<open>Publishing the number 42 by the driver, private against overwriting.\<close>

definition example_published :: ds_state where
  "example_published = log_event (CopyFrom 100 1 2) (ds_state0\<lparr>ds_store := label_entry ''rs'' 2 # label_entry ''driver'' 100 #
     free_entry\<lparr>d_key := ''k'', d_u32 := 42, d_owner := ''driver'', d_flags := DSF_IN_USE OR DSF_TYPE_U32 OR DSF_PRIV_OVERWRITE\<rparr> #
     replicate 125 free_entry\<rparr>)"

lemma example_publishes: "do_publish ds_example_os example_publish ds_example_state = Some (ROK, example_publish, example_published)"
proof -
  let ?st1 = "log_event (CopyFrom 100 1 2) ds_example_state"
  have r: "replicate 126 free_entry = free_entry # replicate 125 free_entry" by (simp add: numeral_eq_Suc)
  have store: "ds_store ?st1 = label_entry ''rs'' 2 # label_entry ''driver'' 100 # free_entry # replicate 125 free_entry"
    by (simp add: ds_example_state_def r)
  have k: "get_key_name ds_example_os example_publish ds_example_state = (Inr ''k'', ?st1)"
    by (subst example_key) (simp_all add: example_publish_def)
  have "lookup_entry ''k'' DSF_TYPE_U32 (ds_store ?st1) = None"
    unfolding store lookup_entry_def first_index_None
    by (auto simp: label_entry_def nth_Cons' free_entry_free)
  moreover have "alloc_data_slot (ds_store ?st1) = Some 2"
    unfolding store by (simp add: alloc_data_slot_def label_entry_def free_entry_def ds_flag_defs)
  ultimately have s: "publish_slot example_publish ''k'' (ds_store ?st1) = Inr 2"
    by (simp add: publish_slot_def example_publish_def ds_flag_defs)
  let ?st2 = "set_entry 2 (\<lambda>d. d\<lparr>d_u32 := 42\<rparr>) ?st1"
  have v: "publish_value ds_example_os example_publish 2 ?st1 = Some (ROK, ?st2)"
    by (simp add: publish_value_def example_publish_def ds_flag_defs)
  have a: "publish_attributes example_publish 2 ''k'' (KeyOf 1) ?st2 = example_published"
    using store by (simp add: publish_attributes_def set_entry_def Let_def example_published_def example_publish_def
        log_event_def ds_example_state_def label_entry_def r ds_flag_defs)
  have n: "ds_getprocname (dm_source example_publish) (ds_store ds_example_state) = Some (KeyOf 1)"
    using example_name by (simp add: example_publish_def)
  have l: "\<not> (has (dm_flags example_publish) DSF_TYPE_LABEL \<and> dm_source example_publish \<noteq> RS_PROC_NR)"
    by (simp add: example_publish_def ds_flag_defs)
  have "ds_subs example_published = ds_subs ds_state0" by (simp add: example_published_def)
  then show ?thesis
    using do_publish_found [OF n l k s v] a no_subscribers by simp
qed

section \<open>The guarantees\<close>

text \<open>
  C20. In every state of the data store after startup and any sequence of messages, each entry in use is of
  exactly one type, its key fits its array, and its buffer, unless it was lost, is as long as recorded and
  holds the value; and no two entries in use have the same key and type, so that keys and types
  determine values.
\<close>

theorem ds_store_invariant:
  assumes "os_ok OS" and "boot_labels_ok table" and "sef_cb_init_fresh OS (Some table) ds_state0 = Some st0"
    and "run_steps (ds_main_step OS) inps st0 = Some st"
  shows "length (ds_store st) = NR_DS_KEYS \<and>
    (\<forall>d \<in> set (ds_store st). used d \<longrightarrow> d_flags d AND DSF_MASK_TYPE \<in> ds_types \<and> length (d_key d) < DS_MAX_KEYLEN \<and>
      (d_flags d AND DSF_MASK_TYPE \<in> {DSF_TYPE_STR, DSF_TYPE_MEM} \<longrightarrow>
        (\<forall>buf. d_data d = Alloc buf \<longrightarrow> length buf = d_reallen d \<and> d_length d \<le> d_reallen d))) \<and>
    (\<forall>i < NR_DS_KEYS. \<forall>j < NR_DS_KEYS. used (ds_store st ! i) \<longrightarrow> used (ds_store st ! j) \<longrightarrow>
      d_flags (ds_store st ! i) AND DSF_MASK_TYPE = d_flags (ds_store st ! j) AND DSF_MASK_TYPE \<longrightarrow>
      d_key (ds_store st ! i) = d_key (ds_store st ! j) \<longrightarrow> i = j)"
proof -
  have "ds_ok st"
    by (rule ds_server.run_inv [OF sef_cb_init_fresh_ok [OF assms(3,2)] _ assms(4)])
      (use assms(1) in \<open>simp add: list_all_iff\<close>)
  then show ?thesis
    by (simp add: ds_ok_alt store_ok_def list_all_iff entry_ok_def d_type_def)
qed

theorem ds_store_invariant_witness:
  "\<exists>st. run_steps (ds_main_step ds_example_os) [Some example_publish] ds_example_state = Some st \<and>
     length (ds_store st) = NR_DS_KEYS"
proof -
  have "dm_type example_publish = DS_PUBLISH" by (simp add: example_publish_def)
  then have "ds_dispatch ds_example_os example_publish ds_example_state = do_publish ds_example_os example_publish ds_example_state"
    by (simp add: ds_dispatch_def is_notify_def DS_PUBLISH_def DS_RQ_BASE_def NOTIFY_MESSAGE_def)
  then have r: "run_steps (ds_main_step ds_example_os) [Some example_publish] ds_example_state =
      Some (log_event (DsReply 100 ROK example_publish) example_published)"
    using example_publishes by (simp add: ds_main_step_def) (simp add: example_publish_def)
  from ds_store_invariant [OF ds_example_os_ok example_boot_ok example_startup r] r show ?thesis by blast
qed

lemma retrievable:
  assumes "d_flags d = DSF_IN_USE OR (f AND DSF_MASK_INTERNAL)" and "\<not> has f DSF_PRIV_RETRIEVE"
  shows "check_auth d e DSF_PRIV_RETRIEVE store"
proof -
  have "DSF_IN_USE AND DSF_PRIV_RETRIEVE = 0" "DSF_MASK_INTERNAL AND DSF_PRIV_RETRIEVE = DSF_PRIV_RETRIEVE"
    by (simp_all add: ds_flag_defs)
  then have "d_flags d AND DSF_PRIV_RETRIEVE = f AND DSF_PRIV_RETRIEVE"
    using assms(1) by (simp add: bit.conj_disj_distrib2 and.assoc)
  with assms(2) show ?thesis by (simp add: check_auth_def)
qed

lemma label_type:
  assumes "f AND DSF_MASK_TYPE \<in> ds_types"
  shows "has f DSF_TYPE_LABEL \<longleftrightarrow> f AND DSF_MASK_TYPE = DSF_TYPE_LABEL"
proof -
  have "DSF_MASK_TYPE AND DSF_TYPE_LABEL = DSF_TYPE_LABEL" by (simp add: ds_flag_defs)
  then have "f AND DSF_TYPE_LABEL = (f AND DSF_MASK_TYPE) AND DSF_TYPE_LABEL" by (simp add: and.assoc)
  then show ?thesis using assms by (auto simp: ds_types_def ds_flag_defs)
qed

text \<open>The state after a successful publication: the entry that holds it, and the lookups of other keys.\<close>

lemma published_entry:
  assumes "os_ok OS" and "ds_ok st" and "do_publish OS m st = Some (ROK, m1, st1)" and "get_key_name OS m st = (Inr key, sta)"
  obtains i d where "lookup_entry key (dm_flags m AND DSF_MASK_TYPE) (ds_store st1) = Some i" "ds_store st1 ! i = d"
    "published OS m key d" "dm_flags m AND DSF_MASK_TYPE \<in> ds_types" "buffer_ok d \<or> dm_flags m AND DSF_MASK_TYPE \<notin> {DSF_TYPE_STR, DSF_TYPE_MEM}"
    "\<And>k t. t \<in> ds_types \<Longrightarrow> (k, t) \<noteq> (key, dm_flags m AND DSF_MASK_TYPE) \<Longrightarrow> \<not> has (dm_flags m) DSF_TYPE_LABEL \<Longrightarrow>
       lookup_entry k t (ds_store st1) = lookup_entry k t (ds_store st)"
    "\<And>j. j \<noteq> i \<Longrightarrow> ds_store st1 ! j = ds_store st ! j"
proof -
  let ?t = "dm_flags m AND DSF_MASK_TYPE"
  note o = do_publish_outcome(1) [OF assms(1-3)]
  have ok1: "store_ok (ds_store st1)" using do_publish_ok [OF assms(1-3)] by (simp add: ds_ok_alt)
  have ok: "store_ok (ds_store st)" using assms(2) by (simp add: ds_ok_alt)
  from o assms(4) obtain i d source where e: "publish_slot m key (ds_store st) = Inr i" "?t \<in> ds_types"
    "ds_store st1 = (ds_store st)[i := d]" "published OS m key d"
    "?t \<in> {DSF_TYPE_STR, DSF_TYPE_MEM} \<longrightarrow> buffer_ok d"
    unfolding publish_outcome_def by auto
  note u = publish_slot_unique [OF ok e(1,2)]
  have n: "ds_store st1 ! i = d" using e(3) u(1) ok by (simp add: store_ok_def)
  note pf = published_fields [OF e(4)]
  have l: "lookup_entry key ?t (ds_store st1) = Some i"
    unfolding lookup_entry_iff [OF ok1 e(2)] using n u(1) pf by simp
  have other: "lookup_entry k t (ds_store st1) = lookup_entry k t (ds_store st)"
    if t: "t \<in> ds_types" "(k, t) \<noteq> (key, ?t)" "\<not> has (dm_flags m) DSF_TYPE_LABEL" for k t
  proof -
    have "lookup_entry k t (ds_store st1) = Some j \<longleftrightarrow> lookup_entry k t (ds_store st) = Some j" for j
    proof (cases "j = i")
      case True
      then have "lookup_entry k t (ds_store st1) \<noteq> Some j"
        unfolding lookup_entry_iff [OF ok1 t(1)] using n pf t(2) by auto
      moreover have "lookup_entry k t (ds_store st) \<noteq> Some j"
        unfolding lookup_entry_iff [OF ok t(1)] using True t u(3) publish_slot_same_key [OF e(1) t(3)] by auto
      ultimately show ?thesis by simp
    next
      case False
      then show ?thesis unfolding lookup_entry_iff [OF ok1 t(1)] lookup_entry_iff [OF ok t(1)] using e(3) by simp
    qed
    then show ?thesis by (metis option.exhaust)
  qed
  show thesis by (rule that [OF l n e(4,2) _ other]) (use e(3,5) in auto)
qed

lemma do_retrieve_memory:
  assumes "get_key_name OS m st = (Inr key, st1)" and "lookup_entry key (dm_flags m AND DSF_MASK_TYPE) (ds_store st1) = Some i"
    and "check_auth (ds_store st1 ! i) (dm_source m) DSF_PRIV_RETRIEVE (ds_store st1)"
    and "dm_flags m AND DSF_MASK_TYPE \<in> {DSF_TYPE_STR, DSF_TYPE_MEM}" and "d_data (ds_store st1 ! i) = Alloc buf"
    and "min (req_len m) (d_length (ds_store st1 ! i)) = len"
  shows "do_retrieve OS m st = (case safecopyto OS (dm_source m) (sint (val_in m)) (take len buf) st1 of (r, st2) \<Rightarrow>
      if r \<noteq> ROK then Some (r, m, st2) else Some (ROK, m\<lparr>rep_len := int len\<rparr>, st2))"
  using assms(1-5) unfolding assms(6) [symmetric] req_len_def by (auto simp: do_retrieve_def Let_def)





text \<open>
  C38. Where the code does less than it means to: when a string or a memory range is published over an existing
  entry and the copy from the publisher fails, the publisher gets an error, but the buffer of the entry has
  been freed and the entry stays. A later retrieval of the key then reads freed memory.
\<close>

theorem failed_overwrite_loses_value:
  assumes "os_ok OS" and "ds_ok st" and "\<And>tr n. os_malloc OS tr n"
    and "do_publish OS m st = Some (r, m1, st1)" and "r \<noteq> ROK"
    and "ds_getprocname (dm_source m) (ds_store st) = Some source" and "get_key_name OS m st = (Inr key, sta)"
    and "publish_slot m key (ds_store st) = Inr i" and "used (ds_store st ! i)"
    and "dm_flags m AND DSF_MASK_TYPE \<in> {DSF_TYPE_STR, DSF_TYPE_MEM}"
    and "get_key_name OS m2 st1 = (Inr key, st2)" and "dm_flags m2 AND DSF_MASK_TYPE = dm_flags m AND DSF_MASK_TYPE"
    and "\<not> has (d_flags (ds_store st ! i)) DSF_PRIV_RETRIEVE"
  shows "do_retrieve OS m2 st1 = None"
proof -
  let ?t = "dm_flags m AND DSF_MASK_TYPE"
  have types: "?t \<in> ds_types" using assms(10) by (auto simp: ds_types_def)
  have lab: "\<not> has (dm_flags m) DSF_TYPE_LABEL" using label_type [OF types] assms(10) by auto
  have sa: "ds_store sta = ds_store st" using get_key_name_keeps [OF assms(7)] by simp
  have ok: "store_ok (ds_store st)" using assms(2) by (simp add: ds_ok_alt)
  note u = publish_slot_unique [OF ok assms(8) types]
  have sl: "publish_slot m key (ds_store sta) = Inr i" using assms(8) sa by simp
  from assms(4,6,7) lab sl obtain r2 st3 where v: "publish_value OS m i sta = Some (r2, st3)"
    by (auto simp: do_publish_def bind_eq_Some_conv)
  have "r2 \<noteq> ROK" "st1 = st3"
    using do_publish_found [OF assms(6) _ assms(7) sl v] lab assms(4,5)
    by (cases "update_subscribers OS i True (publish_attributes m i key source st3)"; auto split: if_splits)+
  have pm: "publish_memory OS m i sta = Some (r2, st3)" using v assms(10) by (auto simp: publish_value_def Let_def)
  have il: "i < length (ds_store sta)" using u(1) ok sa by (simp add: store_ok_def)
  have b: "used (ds_store sta ! i) \<Longrightarrow> buffer_ok (ds_store sta ! i)"
    using store_okD [OF ok u(1)] u(3) assms(9,10) sa by (auto simp: entry_ok_def buffer_ok_def)
  obtain d where d: "ds_store st3 = (ds_store sta)[i := d]" "same_attributes (ds_store sta ! i) d" "d_data d = Dangling"
    by (rule publish_memory_effect [OF assms(1) pm il b]) (use \<open>r2 \<noteq> ROK\<close> assms(3) in blast)+
  have n: "ds_store st1 ! i = d" using d(1) il \<open>st1 = st3\<close> by simp
  have ok1: "store_ok (ds_store st1)" using do_publish_ok [OF assms(1,2,4)] by (simp add: ds_ok_alt)
  have "lookup_entry key ?t (ds_store st1) = Some i"
    unfolding lookup_entry_iff [OF ok1 types]
    using n u(1) d(2) sa assms(9) u(3) publish_slot_same_key [OF assms(8) lab] by (simp add: same_attributes_def d_type_def)
  moreover have "ds_store st2 = ds_store st1" using get_key_name_keeps [OF assms(11)] by simp
  moreover have "check_auth d (dm_source m2) DSF_PRIV_RETRIEVE (ds_store st1)"
    using assms(13) d(2) sa by (simp add: check_auth_def same_attributes_def)
  ultimately show ?thesis using assms(10,11,12) n d(3) by (auto simp: do_retrieve_def Let_def)
qed

text \<open>A system in which copying through grant 9 fails, and a store with a memory range of two bytes.\<close>

definition faulty_os :: ds_os where
  "faulty_os = ds_example_os\<lparr>os_copyfrom := (\<lambda>tr s g len. if g = 9 then Inl RFAULT else os_copyfrom ds_example_os tr s g len)\<rparr>"

definition memory_entry :: data_store where
  "memory_entry = free_entry\<lparr>d_key := ''k'', d_owner := ''driver'', d_flags := DSF_IN_USE OR DSF_TYPE_MEM, d_data := Alloc ''xy'',
     d_length := 2, d_reallen := 2\<rparr>"

definition memory_state :: ds_state where
  "memory_state = ds_example_state\<lparr>ds_store := (ds_store ds_example_state)[2 := memory_entry]\<rparr>"

theorem failed_overwrite_loses_value_witness:
  "\<exists>r st1. do_publish faulty_os (example_publish\<lparr>dm_flags := DSF_TYPE_MEM OR DSF_OVERWRITE, val_in := 9, dm_val_len := 2\<rparr>) memory_state =
       Some (r, example_publish\<lparr>dm_flags := DSF_TYPE_MEM OR DSF_OVERWRITE, val_in := 9, dm_val_len := 2\<rparr>, st1) \<and>
     do_retrieve faulty_os (example_publish\<lparr>dm_flags := DSF_TYPE_MEM, dm_val_len := 2\<rparr>) st1 = None"
proof -
  let ?m = "example_publish\<lparr>dm_flags := DSF_TYPE_MEM OR DSF_OVERWRITE, val_in := 9, dm_val_len := 2\<rparr>"
  let ?m2 = "example_publish\<lparr>dm_flags := DSF_TYPE_MEM, dm_val_len := 2\<rparr>"
  have r: "replicate 126 free_entry = free_entry # replicate 125 free_entry" by (simp add: numeral_eq_Suc)
  have store: "ds_store memory_state = label_entry ''rs'' 2 # label_entry ''driver'' 100 # memory_entry # replicate 125 free_entry"
    by (simp add: memory_state_def ds_example_state_def r)
  have os: "os_ok faulty_os" using ds_example_os_ok by (auto simp: faulty_os_def os_ok_def)
  have e: "entry_ok memory_entry" by (simp add: entry_ok_def memory_entry_def d_type_def ds_types_def ds_flag_defs DS_MAX_KEYLEN_def)
  have "store_ok (ds_store memory_state)" unfolding memory_state_def
  proof (simp, rule store_ok_update [OF _ e])
    show "store_ok (ds_store ds_example_state)" using ds_example_state_ok by (simp add: ds_ok_alt)
    fix j
    assume "used memory_entry" "j < NR_DS_KEYS" "used (ds_store ds_example_state ! j)" "d_type (ds_store ds_example_state ! j) = d_type memory_entry"
    then show "j = 2"
      by (auto simp: ds_example_state_def nth_Cons' label_entry_def free_entry_free d_type_def memory_entry_def ds_flag_defs NR_DS_KEYS_def split: if_splits)
  qed (simp add: NR_DS_KEYS_def)
  then have ok: "ds_ok memory_state" using ds_example_state_ok by (simp add: ds_ok_alt memory_state_def)
  have key: "get_key_name faulty_os m st = get_key_name ds_example_os m st" if "key_grant m = 1" for m st
    using that by (simp add: get_key_name_def safecopyfrom_def faulty_os_def Let_def cong: sum.case_cong)
  have gk: "get_key_name faulty_os m st = (Inr ''k'', log_event (CopyFrom 100 1 2) st)"
    if "key_grant m = 1" "key_len m = 2" "dm_source m = 100" for m st
    using that key example_key by simp
  let ?sta = "log_event (CopyFrom 100 1 2) memory_state"
  have k: "get_key_name faulty_os ?m memory_state = (Inr ''k'', ?sta)" by (rule gk) (simp_all add: example_publish_def)
  have n: "ds_getprocname (dm_source ?m) (ds_store memory_state) = Some (KeyOf 1)"
    by (simp add: example_publish_def ds_getprocname_def lookup_label_entry_def store label_entry_def DS_PROC_NR_def ds_flag_defs)
  have "lookup_entry ''k'' (dm_flags ?m AND DSF_MASK_TYPE) (ds_store memory_state) = Some 2"
    by (simp add: lookup_entry_def store label_entry_def memory_entry_def ds_flag_defs)
  then have sl: "publish_slot ?m ''k'' (ds_store memory_state) = Inr 2"
    by (simp add: publish_slot_def check_auth_def store memory_entry_def ds_flag_defs)
  then have sl': "publish_slot ?m ''k'' (ds_store ?sta) = Inr 2" by simp
  let ?st1 = "set_entry 2 (\<lambda>d. d\<lparr>d_data := Dangling\<rparr>) (log_event (CopyFrom 100 9 2) ?sta)"
  have s9: "sint (9 :: 32 word) = 9" by simp
  have "publish_memory faulty_os ?m 2 ?sta = Some (RFAULT, ?st1)"
    by (simp add: publish_memory_def publish_buffer_def store memory_entry_def safecopyfrom_def faulty_os_def example_publish_def
        ds_flag_defs s9)
  then have v: "publish_value faulty_os ?m 2 ?sta = Some (RFAULT, ?st1)" by (simp add: publish_value_def ds_flag_defs)
  have lab: "\<not> (has (dm_flags ?m) DSF_TYPE_LABEL \<and> dm_source ?m \<noteq> RS_PROC_NR)" by (simp add: ds_flag_defs)
  have p: "do_publish faulty_os ?m memory_state = Some (RFAULT, ?m, ?st1)"
    using do_publish_found [OF n lab k sl' v] by simp
  have k2: "get_key_name faulty_os ?m2 ?st1 = (Inr ''k'', log_event (CopyFrom 100 1 2) ?st1)"
    by (rule gk) (simp_all add: example_publish_def)
  have "do_retrieve faulty_os ?m2 ?st1 = None"
    by (rule failed_overwrite_loses_value [OF os ok _ p _ n k sl _ _ k2])
      (simp_all add: faulty_os_def ds_example_os_def store memory_entry_def ds_flag_defs)
  with p show ?thesis by blast
qed

end
