(* ===== verification/Kernel_Types.thy ===== *)
theory Kernel_Types
  imports Endpoint
begin

unbundle bit_operations_syntax

text \<open>
  The process table and the privilege table of the kernel (kernel/proc.h, kernel/priv.h), the flags that
  say why a process is not running, and the singly linked lists that run through the process table: the
  queues of ready processes and the queues of processes that wait to send to a process.

  A pointer into the process table is the number of the process, the null pointer is \<open>None\<close>, and a
  pointer to a privilege structure is its index. The model is that of the kernel without
  \<open>CONFIG_SMP\<close>. An \<open>assert\<close> that fails and a call of \<open>panic\<close> have no defined result (\<open>None\<close>).
\<close>

section \<open>Constants\<close>

definition ASYNCM :: int where "ASYNCM = -5"
definition IDLE :: int where "IDLE = -4"
definition SYSTEM :: int where "SYSTEM = -2"
definition KERNEL :: int where "KERNEL = -1"
definition HARDWARE :: int where "HARDWARE = KERNEL"

definition NR_RUN_QUEUES :: nat where "NR_RUN_QUEUES = 16"
definition NR_SYS_PROCS :: nat where "NR_SYS_PROCS = 64"
definition TASK_Q :: int where "TASK_Q = 0"

text \<open>Reasons for which a process does not run: it is runnable iff none of them applies.\<close>

definition RTS_SLOT_FREE :: "32 word" where "RTS_SLOT_FREE = 0x01"
definition RTS_PROC_STOP :: "32 word" where "RTS_PROC_STOP = 0x02"
definition RTS_SENDING :: "32 word" where "RTS_SENDING = 0x04"
definition RTS_RECEIVING :: "32 word" where "RTS_RECEIVING = 0x08"
definition RTS_SIGNALED :: "32 word" where "RTS_SIGNALED = 0x10"
definition RTS_SIG_PENDING :: "32 word" where "RTS_SIG_PENDING = 0x20"
definition RTS_NO_PRIV :: "32 word" where "RTS_NO_PRIV = 0x80"
definition RTS_NO_ENDPOINT :: "32 word" where "RTS_NO_ENDPOINT = 0x100"
definition RTS_PREEMPTED :: "32 word" where "RTS_PREEMPTED = 0x4000"
definition RTS_NO_QUANTUM :: "32 word" where "RTS_NO_QUANTUM = 0x8000"

definition MF_REPLY_PEND :: "32 word" where "MF_REPLY_PEND = 0x001"
definition MF_KCALL_RESUME :: "32 word" where "MF_KCALL_RESUME = 0x008"
definition MF_DELIVERMSG :: "32 word" where "MF_DELIVERMSG = 0x040"
definition MF_SIG_DELAY :: "32 word" where "MF_SIG_DELAY = 0x080"
definition MF_SC_ACTIVE :: "32 word" where "MF_SC_ACTIVE = 0x100"
definition MF_SC_DEFER :: "32 word" where "MF_SC_DEFER = 0x200"
definition MF_SC_TRACE :: "32 word" where "MF_SC_TRACE = 0x400"
definition MF_SENDING_FROM_KERNEL :: "32 word" where "MF_SENDING_FROM_KERNEL = 0x2000"
definition MF_CONTEXT_SET :: "32 word" where "MF_CONTEXT_SET = 0x4000"

definition PREEMPTIBLE :: "16 word" where "PREEMPTIBLE = 0x002"
definition BILLABLE :: "16 word" where "BILLABLE = 0x004"
definition SYS_PROC :: "16 word" where "SYS_PROC = 0x010"

text \<open>System call numbers.\<close>

definition SEND :: int where "SEND = 1"
definition RECEIVE :: int where "RECEIVE = 2"
definition SENDREC :: int where "SENDREC = 3"
definition NOTIFY :: int where "NOTIFY = 4"
definition SENDNB :: int where "SENDNB = 5"
definition MINIX_KERNINFO :: int where "MINIX_KERNINFO = 6"
definition SENDA :: int where "SENDA = 16"
definition IPCNO_HIGHEST :: int where "IPCNO_HIGHEST = SENDA"

definition NON_BLOCKING :: "32 word" where "NON_BLOCKING = 0x0080"
definition FROM_KERNEL :: "32 word" where "FROM_KERNEL = 0x0100"

definition IPC_STATUS_CALL_TO :: "int \<Rightarrow> 32 word" where
  "IPC_STATUS_CALL_TO call = word_of_int call AND 0x3F"

definition IPC_FLG_MSG_FROM_KERNEL :: "32 word" where "IPC_FLG_MSG_FROM_KERNEL = 1"

definition IPC_STATUS_FLAGS :: "32 word \<Rightarrow> 32 word" where
  "IPC_STATUS_FLAGS flgs = push_bit 16 flgs"

definition AMF_VALID :: "32 word" where "AMF_VALID = 1"
definition AMF_DONE :: "32 word" where "AMF_DONE = 2"
definition AMF_NOTIFY :: "32 word" where "AMF_NOTIFY = 4"
definition AMF_NOREPLY :: "32 word" where "AMF_NOREPLY = 8"
definition AMF_NOTIFY_ERR :: "32 word" where "AMF_NOTIFY_ERR = 16"

section \<open>Tables\<close>

text \<open>
  Of the union in a message the kernel itself writes two members, that of a notification (time stamp,
  pending interrupts, pending signals) and that of the message to the scheduler of a process (time in
  the queue, number of dequeues, synchronous and asynchronous calls, preemptions, CPU, load); otherwise
  it is bytes that the kernel only copies.
\<close>

datatype kbody =
    Payload "8 word list"
  | Notification "32 word" "32 word" "int set"
  | Accounting "32 word" "32 word" "32 word" "32 word" "32 word" nat "32 word"

record kmessage =
  m_source :: int
  m_type :: int
  m_body :: kbody

record asynmsg =
  am_flags :: "32 word"
  am_dst :: int
  am_result :: result
  am_msg :: kmessage

record kpriv =
  s_proc_nr :: int
  s_id :: nat
  s_flags :: "16 word"
  s_asyntab :: "32 word"
  s_asynsize :: nat
  s_trap_mask :: "16 word"
  s_ipc_to :: "64 word"
  s_k_call_mask :: "64 word"
  s_sig_mgr :: int
  s_bak_sig_mgr :: int
  s_notify_pending :: "64 word"
  s_asyn_pending :: "64 word"
  s_int_pending :: "32 word"
  s_sig_pending :: "int set"
  s_diag_sig :: bool
  s_grant_table :: "32 word"
  s_grant_entries :: int

text \<open>
  \<open>p_bx\<close> is the register of the i386 that passes the IPC status, \<open>p_retreg\<close> the one of the return value.
  The magic number, the CPU and the fields used by the virtual memory requests and the debugger are left
  out; the number of a process is its index.
\<close>

record kproc =
  p_priv :: nat
  p_rts_flags :: "32 word"
  p_misc_flags :: "32 word"
  p_priority :: int
  p_cpu_time_left :: "64 word"
  p_quantum_size_ms :: "32 word"
  p_scheduler :: "int option"
  enter_queue :: "64 word"
  time_in_queue :: "64 word"
  dequeues :: "32 word"
  ipc_sync :: "32 word"
  ipc_async :: "32 word"
  preempted :: "32 word"
  p_nextready :: "int option"
  p_caller_q :: "int option"
  p_q_link :: "int option"
  p_getfrom_e :: int
  p_sendto_e :: int
  p_pending :: "int set"
  p_endpoint :: int
  p_sendmsg :: kmessage
  p_delivermsg :: kmessage
  p_delivermsg_vir :: "32 word"
  p_defer :: "32 word \<times> 32 word \<times> 32 word"
  p_signal_received :: "64 word"
  p_bx :: "32 word"
  p_retreg :: result

text \<open>
  \<open>asyn_mem\<close> is what the tables of asynchronous messages hold, by the endpoint of the process, the
  address of the table and the index in it; \<open>tsc_reads\<close> counts how often the cycle counter was read.
\<close>

record kstate =
  procs :: "int \<Rightarrow> kproc"
  privs :: "nat \<Rightarrow> kpriv"
  run_q_head :: "nat \<Rightarrow> int option"
  run_q_tail :: "nat \<Rightarrow> int option"
  proc_ptr :: int
  bill_ptr :: int
  kbill_ipc :: int
  asyn_mem :: "int \<Rightarrow> 32 word \<Rightarrow> nat \<Rightarrow> asynmsg"
  monotonic :: "32 word"
  tsc_reads :: nat
  minix_kerninfo_user :: "32 word"

text \<open>
  What the kernel takes from the machine and from the signal header: reading a message of the caller
  (\<open>None\<close> when that faults), whether writing one faults, whether an entry of a table can be read and written, the cycle counter, the
  conversions of cycles and the load, and the signals.
\<close>

record kenv =
  copy_msg_from_user :: "32 word \<Rightarrow> kmessage option"
  copy_msg_to_user :: "32 word \<Rightarrow> bool"
  tab_readable :: "int \<Rightarrow> 32 word \<Rightarrow> nat \<Rightarrow> bool"
  tab_writable :: "int \<Rightarrow> 32 word \<Rightarrow> nat \<Rightarrow> bool"
  read_tsc :: "nat \<Rightarrow> 64 word"
  ms_2_cpu_time :: "32 word \<Rightarrow> 64 word"
  cpu_time_2_ms :: "64 word \<Rightarrow> 32 word"
  cpu_load :: "32 word"
  SIGTRAP :: int
  SIGSEGV :: int
  SIGABRT :: int
  SIGSNDELAY :: int
  SIGKSIG :: int
  SIGKSIGSM :: int
  SIGKMESS :: int
  NSIG :: int
  sig_valid :: "int \<Rightarrow> bool"
  SIGS_IS_LETHAL :: "int \<Rightarrow> bool"

definition upd_proc :: "int \<Rightarrow> (kproc \<Rightarrow> kproc) \<Rightarrow> kstate \<Rightarrow> kstate" where
  "upd_proc p f s = s\<lparr>procs := (procs s)(p := f (procs s p))\<rparr>"

definition upd_priv :: "nat \<Rightarrow> (kpriv \<Rightarrow> kpriv) \<Rightarrow> kstate \<Rightarrow> kstate" where
  "upd_priv i f s = s\<lparr>privs := (privs s)(i := f (privs s i))\<rparr>"

abbreviation priv_of :: "kstate \<Rightarrow> int \<Rightarrow> kpriv" where
  "priv_of s p \<equiv> privs s (p_priv (procs s p))"

definition upd_priv_of :: "int \<Rightarrow> (kpriv \<Rightarrow> kpriv) \<Rightarrow> kstate \<Rightarrow> kstate" where
  "upd_priv_of p f s = upd_priv (p_priv (procs s p)) f s"

section \<open>Macros\<close>

text \<open>The comparison of \<open>isokprocn\<close> is one of unsigned numbers, so it also excludes small negative slots.\<close>

definition isokprocn :: "int \<Rightarrow> bool" where
  "isokprocn n \<longleftrightarrow> - NR_TASKS \<le> n \<and> n < int NR_PROCS"

definition isemptyp :: "kproc \<Rightarrow> bool" where
  "isemptyp p \<longleftrightarrow> p_rts_flags p = RTS_SLOT_FREE"

definition iskerneln :: "int \<Rightarrow> bool" where
  "iskerneln n \<longleftrightarrow> n < 0"

definition RTS_ISSET :: "kproc \<Rightarrow> 32 word \<Rightarrow> bool" where
  "RTS_ISSET p f \<longleftrightarrow> p_rts_flags p AND f = f"

definition proc_is_runnable :: "kproc \<Rightarrow> bool" where
  "proc_is_runnable p \<longleftrightarrow> p_rts_flags p = 0"

definition MF_ISSET :: "kproc \<Rightarrow> 32 word \<Rightarrow> bool" where
  "MF_ISSET p f \<longleftrightarrow> p_misc_flags p AND f \<noteq> 0"

definition set_misc :: "32 word \<Rightarrow> kproc \<Rightarrow> kproc" where
  "set_misc f p = p\<lparr>p_misc_flags := p_misc_flags p OR f\<rparr>"

definition unset_misc :: "32 word \<Rightarrow> kproc \<Rightarrow> kproc" where
  "unset_misc f p = p\<lparr>p_misc_flags := p_misc_flags p AND NOT f\<rparr>"

definition P_BLOCKEDON :: "kproc \<Rightarrow> int" where
  "P_BLOCKEDON p = (if p_rts_flags p AND RTS_SENDING \<noteq> 0 then p_sendto_e p
    else if p_rts_flags p AND RTS_RECEIVING \<noteq> 0 then p_getfrom_e p else NONE)"

definition WILLRECEIVE :: "kproc \<Rightarrow> int \<Rightarrow> bool" where
  "WILLRECEIVE target source_ep \<longleftrightarrow>
    (RTS_ISSET target RTS_RECEIVING \<and> \<not> RTS_ISSET target RTS_SENDING) \<and>
    (p_getfrom_e target = ANY \<or> p_getfrom_e target = source_ep)"

definition IPC_STATUS_ADD :: "32 word \<Rightarrow> kproc \<Rightarrow> kproc" where
  "IPC_STATUS_ADD m p = (if \<not> MF_ISSET p MF_REPLY_PEND then p\<lparr>p_bx := p_bx p OR m\<rparr> else p)"

definition IPC_STATUS_ADD_CALL :: "int \<Rightarrow> kproc \<Rightarrow> kproc" where
  "IPC_STATUS_ADD_CALL call = IPC_STATUS_ADD (IPC_STATUS_CALL_TO call)"

definition IPC_STATUS_ADD_FLAGS :: "32 word \<Rightarrow> kproc \<Rightarrow> kproc" where
  "IPC_STATUS_ADD_FLAGS flags = IPC_STATUS_ADD (IPC_STATUS_FLAGS flags)"

definition IPC_STATUS_CLEAR :: "kproc \<Rightarrow> kproc" where
  "IPC_STATUS_CLEAR p = p\<lparr>p_bx := 0\<rparr>"

definition proc_kernel_scheduler :: "kstate \<Rightarrow> int \<Rightarrow> bool" where
  "proc_kernel_scheduler s p \<longleftrightarrow> p_scheduler (procs s p) = None \<or> p_scheduler (procs s p) = Some p"

text \<open>Bitmaps indexed by privilege structure: two chunks of 32 bits.\<close>

definition get_sys_bit :: "64 word \<Rightarrow> nat \<Rightarrow> bool" where
  "get_sys_bit m i = bit m i"

definition get_sys_bits :: "64 word \<Rightarrow> nat \<Rightarrow> 64 word" where
  "get_sys_bits m i = take_bit 32 (drop_bit (32 * (i div 32)) m)"

definition set_sys_bit :: "nat \<Rightarrow> 64 word \<Rightarrow> 64 word" where
  "set_sys_bit i m = m OR push_bit i 1"

definition unset_sys_bit :: "nat \<Rightarrow> 64 word \<Rightarrow> 64 word" where
  "unset_sys_bit i m = m AND NOT (push_bit i 1)"

definition nr_to_id :: "kstate \<Rightarrow> int \<Rightarrow> nat" where
  "nr_to_id s nr = s_id (priv_of s nr)"

definition id_to_nr :: "kstate \<Rightarrow> nat \<Rightarrow> int" where
  "id_to_nr s i = s_proc_nr (privs s i)"

definition may_send_to :: "kstate \<Rightarrow> int \<Rightarrow> int \<Rightarrow> bool" where
  "may_send_to s rp nr = get_sys_bit (s_ipc_to (priv_of s rp)) (nr_to_id s nr)"

text \<open>\<open>isokendpt_f\<close> with the process number as its result; the fatal version (\<open>okendpt\<close>) panics.\<close>

definition isokendpt :: "kstate \<Rightarrow> int \<Rightarrow> int option" where
  "isokendpt s e = (let p = ENDPOINT_P e in
    if isokprocn p \<and> \<not> isemptyp (procs s p) \<and> p_endpoint (procs s p) = e then Some p else None)"

definition endpoint_lookup :: "kstate \<Rightarrow> int \<Rightarrow> int option" where
  "endpoint_lookup s e = (case isokendpt s e of None \<Rightarrow> None | Some n \<Rightarrow> Some n)"

section \<open>Links\<close>

text \<open>The places in the tables that hold a pointer to a process and are followed by a loop.\<close>

datatype link = Rdy_head nat | Nextready int | Caller_q int | Q_link int

fun deref :: "kstate \<Rightarrow> link \<Rightarrow> int option" where
  "deref s (Rdy_head q) = run_q_head s q"
| "deref s (Nextready p) = p_nextready (procs s p)"
| "deref s (Caller_q p) = p_caller_q (procs s p)"
| "deref s (Q_link p) = p_q_link (procs s p)"

fun assign :: "link \<Rightarrow> int option \<Rightarrow> kstate \<Rightarrow> kstate" where
  "assign (Rdy_head q) v s = s\<lparr>run_q_head := (run_q_head s)(q := v)\<rparr>"
| "assign (Nextready p) v s = upd_proc p (\<lambda>x. x\<lparr>p_nextready := v\<rparr>) s"
| "assign (Caller_q p) v s = upd_proc p (\<lambda>x. x\<lparr>p_caller_q := v\<rparr>) s"
| "assign (Q_link p) v s = upd_proc p (\<lambda>x. x\<lparr>p_q_link := v\<rparr>) s"

text \<open>\<open>linked nxt h xs\<close>: following \<open>nxt\<close> from \<open>h\<close> one meets the processes \<open>xs\<close> and then the null pointer.\<close>

fun linked :: "(int \<Rightarrow> int option) \<Rightarrow> int option \<Rightarrow> int list \<Rightarrow> bool" where
  "linked nxt h [] \<longleftrightarrow> h = None"
| "linked nxt h (x # xs) \<longleftrightarrow> h = Some x \<and> linked nxt (nxt x) xs"

lemma linked_cong:
  "(\<And>x. x \<in> set xs \<Longrightarrow> nxt x = nxt' x) \<Longrightarrow> linked nxt h xs = linked nxt' h xs"
  by (induction xs arbitrary: h) auto

lemma linked_unique: "linked nxt h xs \<Longrightarrow> linked nxt h ys \<Longrightarrow> xs = ys"
proof (induction xs arbitrary: h ys)
  case Nil
  then show ?case by (cases ys) auto
next
  case (Cons x xs)
  then show ?case by (cases ys) auto
qed

lemma linked_distinct: "linked nxt h xs \<Longrightarrow> distinct xs"
proof (induction xs arbitrary: h)
  case (Cons x xs)
  have "x \<notin> set xs"
  proof
    assume "x \<in> set xs"
    then obtain as bs where xs: "xs = as @ x # bs" by (auto simp: in_set_conv_decomp)
    have tail: "linked nxt k (as @ x # bs) \<Longrightarrow> linked nxt (nxt x) bs" for k
      by (induction as arbitrary: k) auto
    from Cons.prems xs have "linked nxt (nxt x) (as @ x # bs)" by simp
    moreover have "linked nxt (nxt x) bs" by (rule tail [OF calculation])
    ultimately have "as @ x # bs = bs" by (rule linked_unique)
    then have "length (as @ x # bs) = length bs" by (rule arg_cong)
    then show False by simp
  qed
  with Cons show ?case by auto
qed simp

lemma linked_suffix: "linked nxt h (as @ x # bs) \<Longrightarrow> linked nxt (nxt x) bs"
  by (induction as arbitrary: h) auto

lemma linked_prefix: "linked nxt h (as @ x # bs) \<Longrightarrow> as \<noteq> [] \<Longrightarrow> nxt (last as) = Some x"
  by (induction as arbitrary: h) (auto split: if_splits)

lemma linked_last: "linked nxt h xs \<Longrightarrow> xs \<noteq> [] \<Longrightarrow> nxt (last xs) = None"
  by (induction xs arbitrary: h) (auto split: if_splits)

lemma linked_snoc:
  assumes "linked nxt h xs" and "x \<notin> set xs" and "xs \<noteq> []"
  shows "linked (nxt(last xs := Some x, x := None)) h (xs @ [x])"
  using assms
proof (induction xs arbitrary: h)
  case (Cons y ys)
  show ?case
  proof (cases ys)
    case Nil
    with Cons show ?thesis by auto
  next
    case (Cons z zs)
    have d: "distinct (y # ys)" using Cons.prems(1) by (rule linked_distinct)
    with Cons have "y \<noteq> last ys" by auto
    with Cons.prems Cons.IH [of "nxt y"] Cons show ?thesis by auto
  qed
qed simp

lemma linked_remove:
  assumes "linked nxt h (as @ x # bs)"
  shows "if as = [] then linked nxt (nxt x) bs
    else linked (nxt(last as := nxt x)) h (as @ bs)"
proof (cases "as = []")
  case True
  with assms show ?thesis by simp
next
  case False
  have "distinct (as @ x # bs)" using assms by (rule linked_distinct)
  with assms False have "linked (nxt(last as := nxt x)) h (as @ bs)"
  proof (induction as arbitrary: h)
    case (Cons y ys)
    show ?case
    proof (cases ys)
      case Nil
      with Cons.prems have "y \<notin> set bs" "linked nxt (nxt x) bs" "h = Some y" by auto
      moreover from calculation have "linked (nxt(y := nxt x)) (nxt x) bs"
        by (subst linked_cong [of bs _ nxt]) auto
      ultimately show ?thesis using Nil by (simp add: fun_upd_def)
    next
      case (Cons z zs)
      with Cons.prems have "y \<noteq> last ys" by auto
      with Cons.prems Cons.IH [of "nxt y"] Cons show ?thesis by auto
    qed
  qed simp
  with False show ?thesis by simp
qed

section \<open>Reading updated tables\<close>

lemma procs_upd_proc [simp]: "procs (upd_proc p f s) = (procs s)(p := f (procs s p))"
  by (simp add: upd_proc_def)

lemma upd_proc_others [simp]:
  "privs (upd_proc p f s) = privs s" "run_q_head (upd_proc p f s) = run_q_head s"
  "run_q_tail (upd_proc p f s) = run_q_tail s" "proc_ptr (upd_proc p f s) = proc_ptr s"
  "bill_ptr (upd_proc p f s) = bill_ptr s" "asyn_mem (upd_proc p f s) = asyn_mem s"
  "tsc_reads (upd_proc p f s) = tsc_reads s" "monotonic (upd_proc p f s) = monotonic s"
  by (simp_all add: upd_proc_def)

lemma procs_upd_priv [simp]: "procs (upd_priv i f s) = procs s"
  by (simp add: upd_priv_def)

lemma upd_priv_others [simp]:
  "privs (upd_priv i f s) = (privs s)(i := f (privs s i))" "run_q_head (upd_priv i f s) = run_q_head s"
  "run_q_tail (upd_priv i f s) = run_q_tail s" "proc_ptr (upd_priv i f s) = proc_ptr s"
  "asyn_mem (upd_priv i f s) = asyn_mem s" "monotonic (upd_priv i f s) = monotonic s"
  by (simp_all add: upd_priv_def)

lemma upd_priv_of_others [simp]:
  "procs (upd_priv_of p f s) = procs s" "run_q_head (upd_priv_of p f s) = run_q_head s"
  "run_q_tail (upd_priv_of p f s) = run_q_tail s" "proc_ptr (upd_priv_of p f s) = proc_ptr s"
  "privs (upd_priv_of p f s) = (privs s)(p_priv (procs s p) := f (priv_of s p))"
  "asyn_mem (upd_priv_of p f s) = asyn_mem s"
  by (simp_all add: upd_priv_of_def)

lemma get_set_sys_bit:
  "i < 64 \<Longrightarrow> get_sys_bit (set_sys_bit i m) j \<longleftrightarrow> j = i \<or> get_sys_bit m j"
  by (auto simp: get_sys_bit_def set_sys_bit_def bit_or_iff bit_exp_iff)

lemma get_unset_sys_bit: "get_sys_bit (unset_sys_bit i m) j \<longleftrightarrow> j \<noteq> i \<and> get_sys_bit m j"
  using bit_imp_le_length [of m j]
  by (auto simp: get_sys_bit_def unset_sys_bit_def bit_and_iff bit_not_iff bit_exp_iff)

end
