(* ===== verification/Kernel_Queues.thy ===== *)
theory Kernel_Queues
  imports Kernel_Types
begin

unbundle bit_operations_syntax

text \<open>
  The queues of ready processes (kernel/proc.c, kernel/debug.c): one list per priority, threaded
  through the process table. The invariant is the one the kernel's own sanity check tests: each
  runnable process is once in the queue of its priority and nothing else is in a queue. It is shown here
  for the operations on the queues and for the macros that set and clear the reasons not to run.
\<close>

section \<open>Operations\<close>

text \<open>
  The loop of \<open>dequeue\<close>: \<open>xpp\<close> is the link that is looked at and \<open>prev_xp\<close> the process it belongs to. The
  stack guard of a kernel task, checked by an assertion, is not modelled.
\<close>

partial_function (option) dequeue_loop :: "int \<Rightarrow> nat \<Rightarrow> link \<Rightarrow> int option \<Rightarrow> kstate \<Rightarrow> kstate option" where
  "dequeue_loop rp q xpp prev_xp s = (case deref s xpp of
      None \<Rightarrow> Some s
    | Some x \<Rightarrow>
        if x = rp then
          let s1 = assign xpp (p_nextready (procs s x)) s in
          Some (if run_q_tail s1 q = Some rp then s1\<lparr>run_q_tail := (run_q_tail s1)(q := prev_xp)\<rparr> else s1)
        else dequeue_loop rp q (Nextready x) (Some x) s)"

definition dequeue_accounting :: "kenv \<Rightarrow> int \<Rightarrow> kstate \<Rightarrow> kstate" where
  "dequeue_accounting K rp s =
    (let s1 = upd_proc rp (\<lambda>x. x\<lparr>dequeues := dequeues x + 1\<rparr>) s in
     if enter_queue (procs s1 rp) \<noteq> 0 then
       upd_proc rp (\<lambda>x. x\<lparr>time_in_queue := time_in_queue x + (read_tsc K (tsc_reads s1) - enter_queue x),
         enter_queue := 0\<rparr>) (s1\<lparr>tsc_reads := tsc_reads s1 + 1\<rparr>)
     else s1)"

definition queue_ok :: "int \<Rightarrow> bool" where
  "queue_ok q \<longleftrightarrow> 0 \<le> q \<and> q < int NR_RUN_QUEUES"

text \<open>A queue number outside the arrays has no defined result.\<close>

definition dequeue :: "kenv \<Rightarrow> int \<Rightarrow> kstate \<Rightarrow> kstate option" where
  "dequeue K rp s =
    (let q = p_priority (procs s rp) in
     if proc_is_runnable (procs s rp) \<or> \<not> queue_ok q then None
     else do {
       s1 \<leftarrow> dequeue_loop rp (nat q) (Rdy_head (nat q)) None s;
       Some (dequeue_accounting K rp s1) })"

definition set_rts :: "32 word \<Rightarrow> kproc \<Rightarrow> kproc" where
  "set_rts f p = p\<lparr>p_rts_flags := p_rts_flags p OR f\<rparr>"

definition unset_rts :: "32 word \<Rightarrow> kproc \<Rightarrow> kproc" where
  "unset_rts f p = p\<lparr>p_rts_flags := p_rts_flags p AND NOT f\<rparr>"

definition RTS_SET :: "kenv \<Rightarrow> int \<Rightarrow> 32 word \<Rightarrow> kstate \<Rightarrow> kstate option" where
  "RTS_SET K rp f s =
    (let s1 = upd_proc rp (set_rts f) s in
     if proc_is_runnable (procs s rp) \<and> \<not> proc_is_runnable (procs s1 rp) then dequeue K rp s1
     else Some s1)"

text \<open>The cycle counter is stored in the current process, which need not be the one that is queued.\<close>

definition note_enter_queue :: "kenv \<Rightarrow> kstate \<Rightarrow> kstate" where
  "note_enter_queue K s =
    upd_proc (proc_ptr s) (\<lambda>x. x\<lparr>enter_queue := read_tsc K (tsc_reads s)\<rparr>) (s\<lparr>tsc_reads := tsc_reads s + 1\<rparr>)"

definition append_ready :: "int \<Rightarrow> nat \<Rightarrow> kstate \<Rightarrow> kstate option" where
  "append_ready rp q s = (case run_q_head s q of
      None \<Rightarrow> Some (upd_proc rp (\<lambda>x. x\<lparr>p_nextready := None\<rparr>)
        (s\<lparr>run_q_head := (run_q_head s)(q := Some rp), run_q_tail := (run_q_tail s)(q := Some rp)\<rparr>))
    | Some _ \<Rightarrow> (case run_q_tail s q of
        None \<Rightarrow> None
      | Some t \<Rightarrow> let s1 = upd_proc t (\<lambda>x. x\<lparr>p_nextready := Some rp\<rparr>) s in
          Some (upd_proc rp (\<lambda>x. x\<lparr>p_nextready := None\<rparr>)
            (s1\<lparr>run_q_tail := (run_q_tail s1)(q := Some rp)\<rparr>))))"

definition preempt_current :: "kenv \<Rightarrow> int \<Rightarrow> kstate \<Rightarrow> kstate option" where
  "preempt_current K rp s =
    (let p = proc_ptr s in
     if p_priority (procs s p) > p_priority (procs s rp) \<and> s_flags (priv_of s p) AND PREEMPTIBLE \<noteq> 0
     then RTS_SET K p RTS_PREEMPTED s else Some s)"

definition enqueue :: "kenv \<Rightarrow> int \<Rightarrow> kstate \<Rightarrow> kstate option" where
  "enqueue K rp s =
    (let q = p_priority (procs s rp) in
     if \<not> proc_is_runnable (procs s rp) \<or> \<not> queue_ok q then None
     else do {
       s1 \<leftarrow> append_ready rp (nat q) s;
       s2 \<leftarrow> preempt_current K rp s1;
       Some (note_enter_queue K s2) })"

definition RTS_UNSET :: "kenv \<Rightarrow> int \<Rightarrow> 32 word \<Rightarrow> kstate \<Rightarrow> kstate option" where
  "RTS_UNSET K rp f s =
    (let s1 = upd_proc rp (unset_rts f) s in
     if \<not> proc_is_runnable (procs s rp) \<and> proc_is_runnable (procs s1 rp) then enqueue K rp s1
     else Some s1)"

definition enqueue_head :: "kenv \<Rightarrow> int \<Rightarrow> kstate \<Rightarrow> kstate option" where
  "enqueue_head K rp s =
    (let q = p_priority (procs s rp) in
     if \<not> proc_is_runnable (procs s rp) \<or> p_cpu_time_left (procs s rp) = 0 \<or> \<not> queue_ok q then None
     else let s1 = (case run_q_head s (nat q) of
         None \<Rightarrow> upd_proc rp (\<lambda>x. x\<lparr>p_nextready := None\<rparr>)
           (s\<lparr>run_q_head := (run_q_head s)(nat q := Some rp), run_q_tail := (run_q_tail s)(nat q := Some rp)\<rparr>)
       | Some h \<Rightarrow> (upd_proc rp (\<lambda>x. x\<lparr>p_nextready := Some h\<rparr>) s)
           \<lparr>run_q_head := (run_q_head s)(nat q := Some rp)\<rparr>) in
       Some (upd_proc rp (\<lambda>x. x\<lparr>dequeues := dequeues x - 1, preempted := preempted x + 1\<rparr>)
         (note_enter_queue K s1)))"

fun pick_from :: "nat list \<Rightarrow> kstate \<Rightarrow> (int option \<times> kstate) option" where
  "pick_from [] s = Some (None, s)"
| "pick_from (q # qs) s = (case run_q_head s q of
      None \<Rightarrow> pick_from qs s
    | Some rp \<Rightarrow>
        if \<not> proc_is_runnable (procs s rp) then None
        else Some (Some rp, if s_flags (priv_of s rp) AND BILLABLE \<noteq> 0 then s\<lparr>bill_ptr := rp\<rparr> else s))"

definition pick_proc :: "kstate \<Rightarrow> (int option \<times> kstate) option" where
  "pick_proc s = pick_from [0..<NR_RUN_QUEUES] s"

text \<open>
  The part of \<open>switch_to_user\<close> that chooses who runs: a preempted process goes back to the front of its
  queue, or to the end if it has no time left. With no process ready the loop waits in \<open>idle\<close> for an
  interrupt, and there is no choice yet.
\<close>

definition requeue_preempted :: "kenv \<Rightarrow> kstate \<Rightarrow> kstate option" where
  "requeue_preempted K s =
    (let p = proc_ptr s in
     if p_rts_flags (procs s p) AND RTS_PREEMPTED \<noteq> 0 then
       let s1 = upd_proc p (unset_rts RTS_PREEMPTED) s in
       if proc_is_runnable (procs s1 p) then
         if p_cpu_time_left (procs s1 p) \<noteq> 0 then enqueue_head K p s1 else enqueue K p s1
       else Some s1
     else Some s)"

definition pick_new :: "kenv \<Rightarrow> kstate \<Rightarrow> (int option \<times> kstate) option" where
  "pick_new K s = do {
     s1 \<leftarrow> requeue_preempted K s;
     (p, s2) \<leftarrow> pick_proc s1;
     Some (p, case p of None \<Rightarrow> s2 | Some rp \<Rightarrow> s2\<lparr>proc_ptr := rp\<rparr>) }"

section \<open>The sanity check\<close>

text \<open>
  The inner loop of \<open>runqueues_ok_cpu\<close>; \<open>found\<close> are the processes whose mark is set and \<open>l\<close> the number of
  processes met so far. The pointers of the model always lie in the table if they pass \<open>isokprocn\<close>.
\<close>

definition MAX_LOOP :: nat where "MAX_LOOP = NR_PROCS + nat NR_TASKS"

function check_queue :: "kstate \<Rightarrow> nat \<Rightarrow> int option \<Rightarrow> int list \<Rightarrow> nat \<Rightarrow> (int list \<times> nat) option" where
  "check_queue s q None found l = Some (found, l)"
| "check_queue s q (Some xp) found l =
    (if \<not> isokprocn xp then None
     else if RTS_ISSET (procs s xp) RTS_SLOT_FREE then None
     else if \<not> proc_is_runnable (procs s xp) then None
     else if p_priority (procs s xp) \<noteq> int q then None
     else if xp \<in> set found then None
     else if p_nextready (procs s xp) = None \<and> run_q_tail s q \<noteq> Some xp then None
     else if l > MAX_LOOP then None
     else check_queue s q (p_nextready (procs s xp)) (xp # found) (l + 1))"
  by pat_completeness auto
termination by (relation "measure (\<lambda>(s, q, h, found, l). Suc MAX_LOOP - l)") auto

fun check_queues :: "kstate \<Rightarrow> nat list \<Rightarrow> int list \<Rightarrow> nat \<Rightarrow> int list option" where
  "check_queues s [] found l = Some found"
| "check_queues s (q # qs) found l =
    (if run_q_head s q \<noteq> None \<and> run_q_tail s q = None then None
     else if run_q_head s q = None \<and> run_q_tail s q \<noteq> None then None
     else if (case run_q_tail s q of None \<Rightarrow> False | Some t \<Rightarrow> p_nextready (procs s t) \<noteq> None) then None
     else (case check_queue s q (run_q_head s q) found l of
         None \<Rightarrow> None
       | Some (found', l') \<Rightarrow> check_queues s qs found' l'))"

definition all_procs :: "int list" where
  "all_procs = [- NR_TASKS..int NR_PROCS - 1]"

definition runqueues_ok_cpu :: "kstate \<Rightarrow> bool" where
  "runqueues_ok_cpu s = (case check_queues s [0..<NR_RUN_QUEUES] [] 0 of
      None \<Rightarrow> False
    | Some found \<Rightarrow> list_all (\<lambda>xp. isemptyp (procs s xp) \<or>
        \<not> (proc_is_runnable (procs s xp) \<and> xp \<notin> set found)) all_procs)"

section \<open>The invariant\<close>

abbreviation nextready :: "kstate \<Rightarrow> int \<Rightarrow> int option" where
  "nextready s \<equiv> \<lambda>p. p_nextready (procs s p)"

abbreviation priority :: "kstate \<Rightarrow> int \<Rightarrow> int" where
  "priority s \<equiv> \<lambda>p. p_priority (procs s p)"

text \<open>The queue of priority \<open>q\<close> holds the list \<open>xs\<close>.\<close>

definition holds_queue :: "kstate \<Rightarrow> nat \<Rightarrow> int list \<Rightarrow> bool" where
  "holds_queue s q xs \<longleftrightarrow> linked (nextready s) (run_q_head s q) xs \<and>
    run_q_tail s q = (if xs = [] then None else Some (last xs))"

text \<open>The queues hold the processes \<open>R\<close>, each in the one of its priority.\<close>

definition ready_in :: "kstate \<Rightarrow> int set \<Rightarrow> (nat \<Rightarrow> int list) \<Rightarrow> bool" where
  "ready_in s R Q \<longleftrightarrow> (\<forall>p\<in>R. isokprocn p \<and> queue_ok (priority s p)) \<and>
    (\<forall>q < NR_RUN_QUEUES. holds_queue s q (Q q) \<and> set (Q q) = {p \<in> R. priority s p = int q})"

definition runnable :: "kstate \<Rightarrow> int set" where
  "runnable s = {p. isokprocn p \<and> proc_is_runnable (procs s p)}"

definition queues_ok :: "kstate \<Rightarrow> bool" where
  "queues_ok s \<longleftrightarrow> isokprocn (proc_ptr s) \<and> (\<exists>Q. ready_in s (runnable s) Q)"

lemma queue_okE:
  assumes "queue_ok q"
  obtains n where "q = int n" and "n < NR_RUN_QUEUES"
  using assms unfolding queue_ok_def by (metis nat_0_le nat_less_iff)

lemma queue_ok_int [simp]: "queue_ok (int n) \<longleftrightarrow> n < NR_RUN_QUEUES"
  by (simp add: queue_ok_def)

lemma ready_in_cong:
  assumes "\<And>p. nextready s' p = nextready s p" "\<And>p. priority s' p = priority s p"
    and "run_q_head s' = run_q_head s" "run_q_tail s' = run_q_tail s"
  shows "ready_in s' R Q = ready_in s R Q"
  using assms by (simp add: ready_in_def holds_queue_def)

lemma ready_in_upd [simp]:
  assumes "\<And>x. p_nextready (f x) = p_nextready x" "\<And>x. p_priority (f x) = p_priority x"
  shows "ready_in (upd_proc p f s) R Q = ready_in s R Q"
  using assms by (intro ready_in_cong) auto

lemma ready_in_tsc [simp]: "ready_in (s\<lparr>tsc_reads := n\<rparr>) R Q = ready_in s R Q"
  by (simp add: ready_in_def holds_queue_def)

lemma deref_assign_others [simp]:
  "run_q_tail (assign l v s) = run_q_tail s"
  "p_priority (procs (assign l v s) p) = p_priority (procs s p)"
  by (cases l; simp)+

lemma dequeue_loop_found:
  assumes "linked (nextready s) (deref s xpp) (as @ rp # bs)" and "rp \<notin> set as"
  shows "dequeue_loop rp q xpp prev s =
    (let s1 = assign (if as = [] then xpp else Nextready (last as)) (nextready s rp) s in
     Some (if run_q_tail s q = Some rp
       then s1\<lparr>run_q_tail := (run_q_tail s)(q := if as = [] then prev else Some (last as))\<rparr> else s1))"
  using assms
proof (induction as arbitrary: xpp prev)
  case Nil
  then show ?case by (subst dequeue_loop.simps) (simp add: Let_def)
next
  case (Cons a as)
  then show ?case by (subst dequeue_loop.simps) (auto simp: Let_def)
qed

lemma holds_queue_cong:
  assumes "\<And>p. p \<in> set xs \<Longrightarrow> nextready s' p = nextready s p"
    and "run_q_head s' q = run_q_head s q" "run_q_tail s' q = run_q_tail s q"
  shows "holds_queue s' q xs = holds_queue s q xs"
  using assms linked_cong [of xs "nextready s'" "nextready s"] by (simp add: holds_queue_def)

lemma ready_in_disjoint:
  assumes "ready_in s R Q" and "q < NR_RUN_QUEUES" "q' < NR_RUN_QUEUES" "q \<noteq> q'"
  shows "set (Q q) \<inter> set (Q q') = {}"
  using assms by (auto simp: ready_in_def)

lemma ready_in_holds:
  "ready_in s R Q \<Longrightarrow> q < NR_RUN_QUEUES \<Longrightarrow> holds_queue s q (Q q)"
  "ready_in s R Q \<Longrightarrow> q < NR_RUN_QUEUES \<Longrightarrow> set (Q q) = {p \<in> R. priority s p = int q}"
  by (auto simp: ready_in_def)

text \<open>The queues after one list was replaced: the other lists must not have been touched.\<close>

lemma ready_in_replace:
  assumes inv: "ready_in s R Q" and q: "q < NR_RUN_QUEUES"
    and new: "holds_queue s' q xs" and xs: "set xs = {p \<in> R'. priority s p = int q}"
    and prio: "\<And>p. priority s' p = priority s p"
    and nxt: "\<And>p q'. q' < NR_RUN_QUEUES \<Longrightarrow> q' \<noteq> q \<Longrightarrow> p \<in> set (Q q') \<Longrightarrow> nextready s' p = nextready s p"
    and head: "\<And>q'. q' \<noteq> q \<Longrightarrow> run_q_head s' q' = run_q_head s q'"
    and tail: "\<And>q'. q' \<noteq> q \<Longrightarrow> run_q_tail s' q' = run_q_tail s q'"
    and R': "\<And>p. priority s p \<noteq> int q \<Longrightarrow> p \<in> R' \<longleftrightarrow> p \<in> R"
      "\<And>p. p \<in> R' \<Longrightarrow> isokprocn p \<and> queue_ok (priority s p)"
  shows "ready_in s' R' (Q(q := xs))"
  unfolding ready_in_def
proof (intro conjI ballI allI impI)
  fix q' assume q': "q' < NR_RUN_QUEUES"
  show "holds_queue s' q' ((Q(q := xs)) q')"
  proof (cases "q' = q")
    case True
    with new show ?thesis by simp
  next
    case False
    then show ?thesis
      using ready_in_holds(1) [OF inv q'] nxt [OF q'] head tail
      by (simp add: holds_queue_cong [of "Q q'" s' s])
  qed
  show "set ((Q(q := xs)) q') = {p \<in> R'. priority s' p = int q'}"
  proof (cases "q' = q")
    case True
    with xs prio show ?thesis by simp
  next
    case False
    then have "int q' \<noteq> int q" by simp
    with False show ?thesis using ready_in_holds(2) [OF inv q'] R'(1) prio by auto
  qed
qed (use R'(2) prio in auto)

lemma dequeue_queues:
  assumes inv: "ready_in s R Q" and rp: "rp \<in> R" and stop: "\<not> proc_is_runnable (procs s rp)"
  obtains s' Q' where "dequeue K rp s = Some s'" and "ready_in s' (R - {rp}) Q'"
proof -
  from inv rp have "queue_ok (priority s rp)" by (auto simp: ready_in_def)
  then obtain q where q: "priority s rp = int q" "q < NR_RUN_QUEUES" by (rule queue_okE)
  have holds: "linked (nextready s) (run_q_head s q) (Q q)"
      "run_q_tail s q = (if Q q = [] then None else Some (last (Q q)))"
    using ready_in_holds(1) [OF inv q(2)] by (auto simp: holds_queue_def)
  from ready_in_holds(2) [OF inv q(2)] rp q have "rp \<in> set (Q q)" by simp
  then obtain as bs where split: "Q q = as @ rp # bs" and as: "rp \<notin> set as"
    by (meson split_list_first)
  have dist: "distinct (as @ rp # bs)" using linked_distinct [OF holds(1)] split by simp
  define s1 where "s1 = assign (if as = [] then Rdy_head q else Nextready (last as)) (nextready s rp) s"
  define s2 where "s2 = (if run_q_tail s q = Some rp
    then s1\<lparr>run_q_tail := (run_q_tail s)(q := if as = [] then None else Some (last as))\<rparr> else s1)"
  have loop: "dequeue_loop rp q (Rdy_head q) None s = Some s2"
    using dequeue_loop_found [of s "Rdy_head q" as rp bs q None] holds(1) split as
    unfolding s2_def s1_def by (simp add: Let_def)
  have nxt: "nextready s2 = (if as = [] then nextready s else (nextready s)(last as := nextready s rp))"
    and head: "run_q_head s2 = (if as = [] then (run_q_head s)(q := nextready s rp) else run_q_head s)"
    and prio: "\<And>p. priority s2 p = priority s p"
    by (auto simp: s2_def s1_def fun_eq_iff)
  have tailrp: "run_q_tail s q = Some rp \<longleftrightarrow> bs = []"
    using holds(2) split dist by (auto split: if_splits)
  have "holds_queue s2 q (as @ bs)"
    unfolding holds_queue_def
  proof
    show "linked (nextready s2) (run_q_head s2 q) (as @ bs)"
      using linked_remove [OF holds(1) [unfolded split]] nxt head by (simp split: if_splits)
    show "run_q_tail s2 q = (if as @ bs = [] then None else Some (last (as @ bs)))"
      using tailrp holds(2) split by (auto simp: s2_def s1_def)
  qed
  moreover have "set (as @ bs) = {p \<in> R - {rp}. priority s p = int q}"
    using ready_in_holds(2) [OF inv q(2)] split dist by auto
  moreover have "nextready s2 p = nextready s p" if "q' < NR_RUN_QUEUES" "q' \<noteq> q" "p \<in> set (Q q')" for p q'
  proof -
    have "p \<notin> set (Q q)" using ready_in_disjoint [OF inv that(1) q(2) that(2)] that(3) by auto
    then show ?thesis using fun_cong [OF nxt, of p] split by (auto split: if_splits)
  qed
  moreover have "run_q_head s2 q' = run_q_head s q'" "run_q_tail s2 q' = run_q_tail s q'" if "q' \<noteq> q" for q'
    using that head by (auto simp: s2_def s1_def)
  ultimately have "ready_in s2 (R - {rp}) (Q(q := as @ bs))"
    using inv q prio by (intro ready_in_replace [OF inv q(2)]) (auto simp: ready_in_def)
  then have "ready_in (dequeue_accounting K rp s2) (R - {rp}) (Q(q := as @ bs))"
    by (simp add: dequeue_accounting_def Let_def)
  with loop stop q show ?thesis by (intro that) (simp_all add: dequeue_def)
qed

section \<open>What the operations leave alone\<close>

text \<open>A process without the fields that belong to the queues and to their accounting.\<close>

definition ipc_part :: "kproc \<Rightarrow> kproc" where
  "ipc_part p = p\<lparr>p_rts_flags := 0, p_nextready := None, enter_queue := 0, time_in_queue := 0,
    dequeues := 0, preempted := 0\<rparr>"

definition sched_frame :: "kstate \<Rightarrow> kstate \<Rightarrow> bool" where
  "sched_frame s s' \<longleftrightarrow> (\<forall>p. ipc_part (procs s' p) = ipc_part (procs s p)) \<and> privs s' = privs s \<and>
    proc_ptr s' = proc_ptr s \<and> asyn_mem s' = asyn_mem s \<and> monotonic s' = monotonic s \<and>
    minix_kerninfo_user s' = minix_kerninfo_user s"

lemma ipc_part_fields:
  assumes "ipc_part a = ipc_part b"
  shows "p_priv a = p_priv b" "p_misc_flags a = p_misc_flags b" "p_priority a = p_priority b"
    "p_scheduler a = p_scheduler b" "p_caller_q a = p_caller_q b" "p_q_link a = p_q_link b"
    "p_getfrom_e a = p_getfrom_e b" "p_sendto_e a = p_sendto_e b" "p_pending a = p_pending b"
    "p_endpoint a = p_endpoint b" "p_sendmsg a = p_sendmsg b" "p_delivermsg a = p_delivermsg b"
    "p_delivermsg_vir a = p_delivermsg_vir b" "p_bx a = p_bx b" "p_retreg a = p_retreg b"
    "p_cpu_time_left a = p_cpu_time_left b" "p_quantum_size_ms a = p_quantum_size_ms b"
    "p_defer a = p_defer b"
  using assms by (cases a; cases b; simp add: ipc_part_def)+

lemma sched_frame_fields:
  assumes "sched_frame s s'"
  shows "p_priv (procs s' p) = p_priv (procs s p)" "p_misc_flags (procs s' p) = p_misc_flags (procs s p)"
    "p_priority (procs s' p) = p_priority (procs s p)" "p_scheduler (procs s' p) = p_scheduler (procs s p)"
    "p_caller_q (procs s' p) = p_caller_q (procs s p)" "p_q_link (procs s' p) = p_q_link (procs s p)"
    "p_getfrom_e (procs s' p) = p_getfrom_e (procs s p)" "p_sendto_e (procs s' p) = p_sendto_e (procs s p)"
    "p_pending (procs s' p) = p_pending (procs s p)" "p_endpoint (procs s' p) = p_endpoint (procs s p)"
    "p_sendmsg (procs s' p) = p_sendmsg (procs s p)" "p_delivermsg (procs s' p) = p_delivermsg (procs s p)"
    "p_delivermsg_vir (procs s' p) = p_delivermsg_vir (procs s p)" "p_bx (procs s' p) = p_bx (procs s p)"
    "p_retreg (procs s' p) = p_retreg (procs s p)"
    "p_cpu_time_left (procs s' p) = p_cpu_time_left (procs s p)"
    "privs s' = privs s" "proc_ptr s' = proc_ptr s" "asyn_mem s' = asyn_mem s" "monotonic s' = monotonic s"
  using assms ipc_part_fields [of "procs s' p" "procs s p"] by (auto simp: sched_frame_def)

lemma sched_frame_refl [simp, intro]: "sched_frame s s"
  by (simp add: sched_frame_def)

lemma sched_frame_trans [trans]: "sched_frame s t \<Longrightarrow> sched_frame t u \<Longrightarrow> sched_frame s u"
  by (simp add: sched_frame_def)

lemma sched_frame_upd:
  "(\<And>x. ipc_part (f x) = ipc_part x) \<Longrightarrow> sched_frame s (upd_proc p f s)"
  by (simp add: sched_frame_def upd_proc_def)

lemma ipc_part_upd [simp]:
  "ipc_part (set_rts f x) = ipc_part x" "ipc_part (unset_rts f x) = ipc_part x"
  "ipc_part (x\<lparr>p_nextready := v\<rparr>) = ipc_part x" "ipc_part (x\<lparr>enter_queue := t\<rparr>) = ipc_part x"
  "ipc_part (x\<lparr>dequeues := n\<rparr>) = ipc_part x" "ipc_part (x\<lparr>dequeues := n, preempted := m\<rparr>) = ipc_part x"
  "ipc_part (x\<lparr>time_in_queue := u, enter_queue := t\<rparr>) = ipc_part x"
  by (simp_all add: ipc_part_def set_rts_def unset_rts_def)

abbreviation rts :: "kstate \<Rightarrow> int \<Rightarrow> 32 word" where
  "rts s \<equiv> \<lambda>p. p_rts_flags (procs s p)"

lemma dequeue_loop_frame:
  assumes "dequeue_loop rp q xpp prev s = Some s'" and "\<forall>p. xpp \<noteq> Caller_q p \<and> xpp \<noteq> Q_link p"
  shows "sched_frame s s' \<and> (\<forall>p. rts s' p = rts s p)"
proof (rule mp [OF _ assms(2)], rule dequeue_loop.raw_induct [OF _ assms(1), of "\<lambda>rp q xpp prev s s'.
    (\<forall>p. xpp \<noteq> Caller_q p \<and> xpp \<noteq> Q_link p) \<longrightarrow> sched_frame s s' \<and> (\<forall>p. rts s' p = rts s p)"], goal_cases)
  case (1 loop rp q xpp prev s s')
  note IH = "1"(1) and eq = "1"(2)
  show ?case
  proof
    assume k: "\<forall>p. xpp \<noteq> Caller_q p \<and> xpp \<noteq> Q_link p"
    show "sched_frame s s' \<and> (\<forall>p. rts s' p = rts s p)"
    proof (cases "deref s xpp")
      case None
      with eq show ?thesis by simp
    next
      case (Some x)
      show ?thesis
      proof (cases "x = rp")
        case True
        with Some eq k show ?thesis
          by (cases xpp) (auto simp: Let_def sched_frame_def upd_proc_def fun_eq_iff)
      next
        case False
        with Some eq IH [of rp q "Nextready x" "Some x" s s'] show ?thesis by simp
      qed
    qed
  qed
qed

lemma dequeue_frame:
  assumes "dequeue K rp s = Some s'"
  shows "sched_frame s s'" "rts s' p = rts s p"
proof -
  from assms obtain s1 where s1: "dequeue_loop rp (nat (priority s rp)) (Rdy_head (nat (priority s rp))) None s = Some s1"
    and s': "s' = dequeue_accounting K rp s1"
    by (auto simp: dequeue_def Let_def bind_eq_Some_conv split: if_splits)
  have "sched_frame s s1 \<and> (\<forall>p. rts s1 p = rts s p)" by (rule dequeue_loop_frame [OF s1]) simp
  moreover have "sched_frame s1 s' \<and> (\<forall>p. rts s' p = rts s1 p)"
    by (auto simp: s' dequeue_accounting_def Let_def sched_frame_def upd_proc_def ipc_part_def fun_eq_iff)
  ultimately show "sched_frame s s'" "rts s' p = rts s p" by (auto intro: sched_frame_trans)
qed

text \<open>Setting a flag changes that flag, keeps the queues as they should be, and always returns.\<close>

lemma RTS_SET_frame:
  assumes "RTS_SET K p f s = Some s'"
  shows "sched_frame s s'" "rts s' x = (if x = p then rts s p OR f else rts s x)"
proof -
  have u: "sched_frame s (upd_proc p (set_rts f) s)" by (rule sched_frame_upd) simp
  show "sched_frame s s'" "rts s' x = (if x = p then rts s p OR f else rts s x)"
    using assms u dequeue_frame [of K p "upd_proc p (set_rts f) s" s']
    by (auto simp: RTS_SET_def Let_def set_rts_def split: if_splits intro: sched_frame_trans)
qed

lemma set_rts_queue_fields [simp]:
  "p_nextready (set_rts f x) = p_nextready x" "p_priority (set_rts f x) = p_priority x"
  "p_nextready (unset_rts f x) = p_nextready x" "p_priority (unset_rts f x) = p_priority x"
  "p_rts_flags (set_rts f x) = p_rts_flags x OR f" "p_rts_flags (unset_rts f x) = p_rts_flags x AND NOT f"
  by (simp_all add: set_rts_def unset_rts_def)

lemma runnable_rts: "runnable s = {p. isokprocn p \<and> rts s p = 0}"
  by (simp add: runnable_def proc_is_runnable_def)

text \<open>Changes to other fields do not matter to the queues.\<close>

lemma queues_ok_cong:
  assumes "\<And>p. nextready s' p = nextready s p" "\<And>p. priority s' p = priority s p" "\<And>p. rts s' p = rts s p"
    and "run_q_head s' = run_q_head s" "run_q_tail s' = run_q_tail s" "proc_ptr s' = proc_ptr s"
  shows "queues_ok s' = queues_ok s"
  using assms ready_in_cong [of s' s] by (simp add: queues_ok_def runnable_rts)

lemma queues_ok_upd [simp]:
  assumes "\<And>x. p_nextready (f x) = p_nextready x" "\<And>x. p_priority (f x) = p_priority x"
    "\<And>x. p_rts_flags (f x) = p_rts_flags x"
  shows "queues_ok (upd_proc p f s) = queues_ok s"
  using assms by (intro queues_ok_cong) auto

lemma queues_ok_upd_priv [simp]:
  "queues_ok (upd_priv i g s) = queues_ok s" "queues_ok (upd_priv_of p g s) = queues_ok s"
  "queues_ok (s\<lparr>asyn_mem := m\<rparr>) = queues_ok s" "queues_ok (s\<lparr>bill_ptr := b\<rparr>) = queues_ok s"
  "queues_ok (s\<lparr>kbill_ipc := b\<rparr>) = queues_ok s"
  by (rule queues_ok_cong; simp)+

lemma or_eq_0D: "x OR y = 0 \<Longrightarrow> x = (0 :: 32 word)"
  by (simp add: bit_eq_iff bit_or_iff)

lemma RTS_SET_queues:
  assumes "queues_ok s" and "isokprocn p"
  shows "\<exists>s'. RTS_SET K p f s = Some s' \<and> queues_ok s'"
proof -
  from assms obtain Q where Q: "ready_in s (runnable s) Q" by (auto simp: queues_ok_def)
  define s1 where "s1 = upd_proc p (set_rts f) s"
  have Q1: "ready_in s1 (runnable s) Q" using Q by (simp add: s1_def)
  show ?thesis
  proof (cases "rts s p = 0 \<and> rts s1 p \<noteq> 0")
    case True
    then have "p \<in> runnable s" "\<not> proc_is_runnable (procs s1 p)"
      using assms(2) by (auto simp: runnable_rts proc_is_runnable_def)
    from dequeue_queues [OF Q1 this] obtain s' Q' where
      d: "dequeue K p s1 = Some s'" and "ready_in s' (runnable s - {p}) Q'" by metis
    moreover have "\<And>x. rts s' x = rts s1 x" by (rule dequeue_frame [OF d])
    with True have "runnable s' = runnable s - {p}" by (auto simp: runnable_rts s1_def)
    moreover have "RTS_SET K p f s = Some s'"
      using True d by (auto simp: RTS_SET_def Let_def proc_is_runnable_def s1_def)
    moreover have "proc_ptr s' = proc_ptr s"
      using dequeue_frame(1) [OF d] by (simp add: sched_frame_def s1_def)
    ultimately show ?thesis using assms(1) by (auto simp: queues_ok_def)
  next
    case False
    then have "runnable s1 = runnable s" by (auto simp: runnable_rts s1_def dest: or_eq_0D)
    moreover have "RTS_SET K p f s = Some s1"
      using False by (auto simp: RTS_SET_def Let_def proc_is_runnable_def s1_def)
    ultimately show ?thesis using Q1 assms(1) by (auto simp: queues_ok_def s1_def)
  qed
qed

lemma append_ready_queues:
  assumes inv: "ready_in s R Q" and rp: "rp \<notin> R" "isokprocn rp" and q: "priority s rp = int q" "q < NR_RUN_QUEUES"
  obtains s' where "append_ready rp q s = Some s'" and "ready_in s' (insert rp R) (Q(q := Q q @ [rp]))"
    and "sched_frame s s'" and "\<And>x. rts s' x = rts s x"
proof -
  have holds: "linked (nextready s) (run_q_head s q) (Q q)"
      "run_q_tail s q = (if Q q = [] then None else Some (last (Q q)))"
    using ready_in_holds(1) [OF inv q(2)] by (auto simp: holds_queue_def)
  have notin: "rp \<notin> set (Q q')" if "q' < NR_RUN_QUEUES" for q'
    using ready_in_holds(2) [OF inv that] rp by auto
  have rest: "set (Q q @ [rp]) = {p \<in> insert rp R. priority s p = int q}"
    using ready_in_holds(2) [OF inv q(2)] q by auto
  have R': "\<And>p. priority s p \<noteq> int q \<Longrightarrow> p \<in> insert rp R \<longleftrightarrow> p \<in> R"
    "\<And>p. p \<in> insert rp R \<Longrightarrow> isokprocn p \<and> queue_ok (priority s p)"
    using inv rp q by (auto simp: ready_in_def)
  show ?thesis
  proof (cases "Q q = []")
    case True
    define s' where "s' = upd_proc rp (\<lambda>x. x\<lparr>p_nextready := None\<rparr>)
        (s\<lparr>run_q_head := (run_q_head s)(q := Some rp), run_q_tail := (run_q_tail s)(q := Some rp)\<rparr>)"
    have "append_ready rp q s = Some s'" using holds True by (simp add: append_ready_def s'_def)
    moreover have "ready_in s' (insert rp R) (Q(q := Q q @ [rp]))"
      using True notin rest R'
      by (intro ready_in_replace [OF inv q(2)]) (auto simp: holds_queue_def s'_def)
    moreover have "sched_frame s s'" "\<And>x. rts s' x = rts s x"
      by (auto simp: s'_def sched_frame_def upd_proc_def fun_eq_iff)
    ultimately show ?thesis by (rule that)
  next
    case False
    let ?t = "last (Q q)"
    define s' where "s' = upd_proc rp (\<lambda>x. x\<lparr>p_nextready := None\<rparr>)
        ((upd_proc ?t (\<lambda>x. x\<lparr>p_nextready := Some rp\<rparr>) s)\<lparr>run_q_tail := (run_q_tail s)(q := Some rp)\<rparr>)"
    have ne: "?t \<noteq> rp" using False notin [OF q(2)] by (metis last_in_set)
    have "append_ready rp q s = Some s'"
      using holds False by (cases "Q q") (auto simp: append_ready_def s'_def Let_def)
    moreover have nxt: "nextready s' = (nextready s)(?t := Some rp, rp := None)"
      using ne by (auto simp: s'_def fun_eq_iff)
    have "holds_queue s' q (Q q @ [rp])"
      unfolding holds_queue_def nxt
      using linked_snoc [OF holds(1) notin [OF q(2)] False] by (simp add: s'_def upd_proc_def)
    moreover have "nextready s' p = nextready s p" if "q' < NR_RUN_QUEUES" "q' \<noteq> q" "p \<in> set (Q q')" for p q'
    proof -
      have "p \<noteq> ?t" "p \<noteq> rp"
        using ready_in_disjoint [OF inv that(1) q(2) that(2)] that(3) False notin [OF that(1)] last_in_set by auto
      with fun_cong [OF nxt, of p] show ?thesis by simp
    qed
    ultimately have "ready_in s' (insert rp R) (Q(q := Q q @ [rp]))"
      using rest R' by (intro ready_in_replace [OF inv q(2)]) (auto simp: s'_def)
    moreover have "sched_frame s s'" "\<And>x. rts s' x = rts s x"
      by (auto simp: s'_def sched_frame_def upd_proc_def fun_eq_iff)
    ultimately show ?thesis using \<open>append_ready rp q s = Some s'\<close> by (intro that)
  qed
qed

text \<open>Clearing a flag may also preempt the current process.\<close>

definition preempts :: "kstate \<Rightarrow> kstate \<Rightarrow> bool" where
  "preempts s s' \<longleftrightarrow> (\<forall>x. rts s' x = rts s x \<or> x = proc_ptr s \<and> rts s' x = rts s x OR RTS_PREEMPTED)"

lemma preempt_current_queues:
  assumes "queues_ok s"
  obtains s' where "preempt_current K rp s = Some s'" and "queues_ok s'"
    and "sched_frame s s'" and "preempts s s'"
proof -
  from assms have ok: "isokprocn (proc_ptr s)" by (simp add: queues_ok_def)
  from RTS_SET_queues [OF assms ok, of K RTS_PREEMPTED] obtain t where
    t: "RTS_SET K (proc_ptr s) RTS_PREEMPTED s = Some t" "queues_ok t" by auto
  show ?thesis
  proof (cases "preempt_current K rp s = Some s")
    case True
    then show ?thesis using assms by (intro that) (auto simp: preempts_def)
  next
    case False
    then have "preempt_current K rp s = Some t"
      using t by (auto simp: preempt_current_def Let_def split: if_splits)
    then show ?thesis
      using t RTS_SET_frame [OF t(1)] by (intro that) (auto simp: preempts_def split: if_splits)
  qed
qed

lemma note_enter_queue_frame:
  "sched_frame s (note_enter_queue K s)" "rts (note_enter_queue K s) x = rts s x"
  "queues_ok (note_enter_queue K s) = queues_ok s"
proof -
  show f: "sched_frame s (note_enter_queue K s)" "rts (note_enter_queue K s) x = rts s x" for x
    by (auto simp: note_enter_queue_def sched_frame_def upd_proc_def ipc_part_def)
  then have "runnable (note_enter_queue K s) = runnable s" by (simp add: runnable_rts)
  moreover have "ready_in (note_enter_queue K s) R Q = ready_in s R Q" for R Q
    by (simp add: note_enter_queue_def)
  ultimately show "queues_ok (note_enter_queue K s) = queues_ok s"
    using f(1) by (simp add: queues_ok_def sched_frame_def)
qed

lemma enqueue_queues:
  assumes inv: "ready_in s (runnable s - {rp}) Q" and ok: "isokprocn rp" "isokprocn (proc_ptr s)"
    and run: "proc_is_runnable (procs s rp)" and q: "queue_ok (priority s rp)"
  obtains s' where "enqueue K rp s = Some s'" and "queues_ok s'" and "sched_frame s s'" and "preempts s s'"
proof -
  from q obtain n where n: "priority s rp = int n" "n < NR_RUN_QUEUES" by (rule queue_okE)
  obtain s1 where s1: "append_ready rp n s = Some s1"
    and Q1: "ready_in s1 (insert rp (runnable s - {rp})) (Q(n := Q n @ [rp]))"
    and f1: "sched_frame s s1" "\<And>x. rts s1 x = rts s x"
    by (rule append_ready_queues [OF inv _ ok(1) n]) auto
  have "insert rp (runnable s - {rp}) = runnable s1"
    using ok(1) run f1(2) by (auto simp: runnable_rts proc_is_runnable_def)
  moreover have "proc_ptr s1 = proc_ptr s" using f1(1) by (simp add: sched_frame_def)
  ultimately have "queues_ok s1" using Q1 ok(2) by (auto simp: queues_ok_def)
  then obtain s2 where s2: "preempt_current K rp s1 = Some s2" and q2: "queues_ok s2"
    and f2: "sched_frame s1 s2" "preempts s1 s2"
    by (rule preempt_current_queues)
  show ?thesis
  proof (rule that)
    show "enqueue K rp s = Some (note_enter_queue K s2)"
      using run n s1 s2 by (simp add: enqueue_def)
    show "queues_ok (note_enter_queue K s2)" using q2 by (simp add: note_enter_queue_frame)
    show "sched_frame s (note_enter_queue K s2)"
      using f1(1) f2(1) note_enter_queue_frame(1) by (blast intro: sched_frame_trans)
    show "preempts s (note_enter_queue K s2)"
      using f1(2) f2(2) \<open>proc_ptr s1 = proc_ptr s\<close> by (simp add: preempts_def note_enter_queue_frame)
  qed
qed

lemma RTS_UNSET_queues:
  assumes inv: "queues_ok s" and p: "isokprocn p" and q: "queue_ok (priority s p)"
  obtains s' where "RTS_UNSET K p f s = Some s'" and "queues_ok s'" and "sched_frame s s'"
    and "preempts (upd_proc p (unset_rts f) s) s'"
proof -
  define s1 where "s1 = upd_proc p (unset_rts f) s"
  from inv obtain Q where Q: "ready_in s (runnable s) Q" by (auto simp: queues_ok_def)
  then have Q1: "ready_in s1 (runnable s) Q" by (simp add: s1_def)
  have f1: "sched_frame s s1" unfolding s1_def by (rule sched_frame_upd) simp
  show ?thesis
  proof (cases "rts s p \<noteq> 0 \<and> rts s1 p = 0")
    case True
    have "runnable s1 - {p} = runnable s" using True by (auto simp: runnable_rts s1_def)
    then have "ready_in s1 (runnable s1 - {p}) Q" using Q1 by simp
    moreover have "isokprocn (proc_ptr s1)" using inv by (simp add: queues_ok_def s1_def)
    moreover have "proc_is_runnable (procs s1 p)" using True by (simp add: proc_is_runnable_def)
    moreover have "queue_ok (priority s1 p)" using q by (simp add: s1_def)
    ultimately obtain s' where "enqueue K p s1 = Some s'" "queues_ok s'" "sched_frame s1 s'" "preempts s1 s'"
      using enqueue_queues [of s1 p Q K] p by metis
    then show ?thesis
      using True f1
      by (intro that) (auto simp: RTS_UNSET_def Let_def proc_is_runnable_def s1_def intro: sched_frame_trans)
  next
    case False
    then have "runnable s1 = runnable s" by (auto simp: runnable_rts s1_def)
    moreover have "RTS_UNSET K p f s = Some s1"
      using False by (auto simp: RTS_UNSET_def Let_def proc_is_runnable_def s1_def)
    ultimately show ?thesis
      using Q1 inv f1 by (intro that) (auto simp: queues_ok_def s1_def preempts_def)
  qed
qed

lemma enqueue_head_queues:
  assumes inv: "ready_in s (runnable s - {rp}) Q" and ok: "isokprocn rp" "isokprocn (proc_ptr s)"
    and run: "proc_is_runnable (procs s rp)" and q: "queue_ok (priority s rp)"
    and left: "p_cpu_time_left (procs s rp) \<noteq> 0"
  obtains s' where "enqueue_head K rp s = Some s'" and "queues_ok s'" and "sched_frame s s'"
    and "\<And>x. rts s' x = rts s x"
proof -
  from q obtain n where n: "priority s rp = int n" "n < NR_RUN_QUEUES" by (rule queue_okE)
  have holds: "linked (nextready s) (run_q_head s n) (Q n)"
      "run_q_tail s n = (if Q n = [] then None else Some (last (Q n)))"
    using ready_in_holds(1) [OF inv n(2)] by (auto simp: holds_queue_def)
  have notin: "rp \<notin> set (Q q')" if "q' < NR_RUN_QUEUES" for q'
    using ready_in_holds(2) [OF inv that] by auto
  define s1 where "s1 = (case run_q_head s n of
         None \<Rightarrow> upd_proc rp (\<lambda>x. x\<lparr>p_nextready := None\<rparr>)
           (s\<lparr>run_q_head := (run_q_head s)(n := Some rp), run_q_tail := (run_q_tail s)(n := Some rp)\<rparr>)
       | Some h \<Rightarrow> (upd_proc rp (\<lambda>x. x\<lparr>p_nextready := Some h\<rparr>) s)
           \<lparr>run_q_head := (run_q_head s)(n := Some rp)\<rparr>)"
  define s' where "s' = upd_proc rp (\<lambda>x. x\<lparr>dequeues := dequeues x - 1, preempted := preempted x + 1\<rparr>)
    (note_enter_queue K s1)"
  have f1: "sched_frame s s1" and r1: "\<And>x. rts s1 x = rts s x"
    by (auto simp: s1_def sched_frame_def upd_proc_def split: option.splits)
  have nxt: "nextready s1 = (nextready s)(rp := run_q_head s n)"
    by (auto simp: s1_def fun_eq_iff split: option.splits)
  have "linked (nextready s1) (run_q_head s n) (Q n)"
    using holds(1) notin [OF n(2)] unfolding nxt by (subst linked_cong [of _ _ "nextready s"]) auto
  then have "holds_queue s1 n (rp # Q n)"
    using holds fun_cong [OF nxt, of rp] by (cases "Q n") (auto simp: holds_queue_def s1_def)
  moreover have "set (rp # Q n) = {p \<in> runnable s. priority s p = int n}"
    using ready_in_holds(2) [OF inv n(2)] n ok(1) run by (auto simp: runnable_def)
  moreover have "nextready s1 p = nextready s p" if "q' < NR_RUN_QUEUES" "p \<in> set (Q q')" for p q'
    using notin [OF that(1)] that(2) fun_cong [OF nxt, of p] by auto
  moreover have "priority s1 p = priority s p" for p using f1 by (rule sched_frame_fields)
  moreover have "run_q_head s1 q' = run_q_head s q'" "run_q_tail s1 q' = run_q_tail s q'" if "q' \<noteq> n" for q'
    using that by (auto simp: s1_def split: option.splits)
  moreover have "p \<in> runnable s \<Longrightarrow> isokprocn p \<and> queue_ok (priority s p)" for p
    using inv q ok(1) by (cases "p = rp") (auto simp: ready_in_def)
  ultimately have "ready_in s1 (runnable s) (Q(n := rp # Q n))"
    using n by (intro ready_in_replace [OF inv n(2)]) auto
  then have "queues_ok s1"
    using ok(2) f1 r1 by (auto simp: queues_ok_def runnable_rts sched_frame_def)
  then have "queues_ok (note_enter_queue K s1)" by (simp add: note_enter_queue_frame)
  then have "queues_ok s'"
    by (simp add: s'_def)
  moreover have "sched_frame s s'"
    unfolding s'_def using f1 note_enter_queue_frame(1)
    by (blast intro: sched_frame_trans sched_frame_upd ipc_part_upd)
  moreover have "rts s' x = rts s x" for x
    using r1 [of x] note_enter_queue_frame(2) [of K s1 x] by (auto simp: s'_def)
  moreover have "enqueue_head K rp s = Some s'"
    using run left n
    by (cases "run_q_head s n") (simp_all add: enqueue_head_def Let_def s'_def s1_def)
  ultimately show ?thesis by (intro that)
qed

text \<open>\<open>pick_proc\<close> returns the first process of the best queue that is not empty.\<close>

lemma pick_from_first:
  assumes "\<And>q. q \<in> set qs \<Longrightarrow> holds_queue s q (Q q) \<and> (\<forall>p \<in> set (Q q). proc_is_runnable (procs s p))"
  shows "\<exists>s'. pick_from qs s = Some (case filter (\<lambda>q. Q q \<noteq> []) qs of [] \<Rightarrow> None | q # _ \<Rightarrow> Some (hd (Q q)), s') \<and>
    procs s' = procs s \<and> privs s' = privs s \<and> run_q_head s' = run_q_head s \<and> run_q_tail s' = run_q_tail s \<and>
    proc_ptr s' = proc_ptr s"
  using assms
proof (induction qs)
  case (Cons q qs)
  have h: "holds_queue s q (Q q)" "\<forall>p \<in> set (Q q). proc_is_runnable (procs s p)" using Cons.prems by auto
  show ?case
  proof (cases "Q q")
    case Nil
    with h Cons show ?thesis by (auto simp: holds_queue_def)
  next
    case (Cons p ps)
    with h show ?thesis by (auto simp: holds_queue_def)
  qed
qed simp

lemma first_nonempty:
  "case filter (\<lambda>q. Q q \<noteq> []) [0..<n] of [] \<Rightarrow> \<forall>q < n. Q q = []
    | k # _ \<Rightarrow> k < n \<and> Q k \<noteq> [] \<and> (\<forall>q < k. Q q = [])"
proof (induction n)
  case (Suc n)
  then show ?case by (auto split: list.splits simp: less_Suc_eq)
qed simp

text \<open>So no process of a better priority is ready.\<close>

lemma pick_proc_best:
  assumes "queues_ok s"
  obtains r s' where "pick_proc s = Some (r, s')"
    and "case r of None \<Rightarrow> runnable s = {} | Some p \<Rightarrow> p \<in> runnable s \<and> (\<forall>x \<in> runnable s. priority s p \<le> priority s x)"
    and "procs s' = procs s" "privs s' = privs s" "run_q_head s' = run_q_head s" "run_q_tail s' = run_q_tail s"
    "proc_ptr s' = proc_ptr s"
proof -
  from assms obtain Q where Q: "ready_in s (runnable s) Q" by (auto simp: queues_ok_def)
  then have h: "holds_queue s q (Q q)" "set (Q q) = {p \<in> runnable s. priority s p = int q}" if "q < NR_RUN_QUEUES" for q
    using that by (auto simp: ready_in_def)
  let ?r = "case filter (\<lambda>q. Q q \<noteq> []) [0..<NR_RUN_QUEUES] of [] \<Rightarrow> None | q # _ \<Rightarrow> Some (hd (Q q))"
  have "\<exists>s'. pick_from [0..<NR_RUN_QUEUES] s = Some (?r, s') \<and> procs s' = procs s \<and> privs s' = privs s \<and>
      run_q_head s' = run_q_head s \<and> run_q_tail s' = run_q_tail s \<and> proc_ptr s' = proc_ptr s"
    by (rule pick_from_first) (auto simp: h runnable_def)
  then obtain s' where s': "pick_proc s = Some (?r, s')" "procs s' = procs s" "privs s' = privs s" "run_q_head s' = run_q_head s"
    "run_q_tail s' = run_q_tail s" "proc_ptr s' = proc_ptr s"
    unfolding pick_proc_def by blast
  have mem: "\<exists>q < NR_RUN_QUEUES. priority s x = int q \<and> x \<in> set (Q q)" if "x \<in> runnable s" for x
    using Q that h(2) unfolding ready_in_def by (metis (mono_tags, lifting) mem_Collect_eq queue_okE)
  have "case ?r of None \<Rightarrow> runnable s = {} | Some p \<Rightarrow> p \<in> runnable s \<and> (\<forall>x \<in> runnable s. priority s p \<le> priority s x)"
  proof (cases "filter (\<lambda>q. Q q \<noteq> []) [0..<NR_RUN_QUEUES]")
    case Nil
    then have "\<forall>q < NR_RUN_QUEUES. Q q = []" using first_nonempty [where Q = Q and n = NR_RUN_QUEUES] by simp
    then have "runnable s = {}" using mem by fastforce
    then show ?thesis using Nil by simp
  next
    case (Cons k ks)
    then have k: "k < NR_RUN_QUEUES" "Q k \<noteq> []" "\<forall>q < k. Q q = []" using first_nonempty [where Q = Q and n = NR_RUN_QUEUES] by simp_all
    have "hd (Q k) \<in> runnable s \<and> priority s (hd (Q k)) = int k" using h(2) [OF k(1)] hd_in_set [OF k(2)] by blast
    moreover have "int k \<le> priority s x" if x: "x \<in> runnable s" for x
    proof -
      from mem [OF x] obtain q where "priority s x = int q" "x \<in> set (Q q)" by blast
      with k(3) show ?thesis by (cases "q < k") auto
    qed
    ultimately show ?thesis using Cons by simp
  qed
  then show ?thesis using s' by (intro that)
qed

section \<open>The sanity check passes\<close>

lemma finite_runnable: "finite {p. isokprocn p}" "card {p. isokprocn p} = MAX_LOOP"
proof -
  have "{p. isokprocn p} = {- NR_TASKS..<int NR_PROCS}" by (auto simp: isokprocn_def)
  then show "finite {p. isokprocn p}" "card {p. isokprocn p} = MAX_LOOP"
    by (simp_all add: MAX_LOOP_def NR_TASKS_def NR_PROCS_def)
qed

lemma check_queue_ok:
  assumes "linked (nextready s) h xs" and "xs \<noteq> [] \<Longrightarrow> run_q_tail s q = Some (last xs)"
    and "\<forall>p \<in> set xs. isokprocn p \<and> proc_is_runnable (procs s p) \<and> priority s p = int q"
    and "set xs \<inter> set found = {}" and "length found = l" and "length xs + l \<le> MAX_LOOP"
  shows "check_queue s q h found l = Some (rev xs @ found, length xs + l)"
  using assms
proof (induction xs arbitrary: h found l)
  case (Cons x xs)
  have h: "h = Some x" and tl: "linked (nextready s) (nextready s x) xs" using Cons.prems(1) by auto
  have d: "x \<notin> set xs" using linked_distinct [OF Cons.prems(1)] by simp
  have "nextready s x = None \<Longrightarrow> xs = []" using tl by (cases xs) auto
  moreover have "\<not> RTS_ISSET (procs s x) RTS_SLOT_FREE"
    using Cons.prems(3) by (simp add: RTS_ISSET_def proc_is_runnable_def RTS_SLOT_FREE_def)
  moreover have "check_queue s q (nextready s x) (x # found) (l + 1) = Some (rev xs @ x # found, length xs + (l + 1))"
    using Cons.prems d by (intro Cons.IH tl) auto
  ultimately show ?case using Cons.prems by (auto simp: h)
qed simp

lemma check_queues_ok:
  assumes inv: "ready_in s (runnable s) Q" and qs: "set qs \<subseteq> {..<NR_RUN_QUEUES}" "distinct qs"
    and found: "set found = {p \<in> runnable s. nat (priority s p) \<notin> set qs}" "distinct found" "l = length found"
  shows "\<exists>found'. check_queues s qs found l = Some found' \<and> set found' = runnable s"
  using qs found
proof (induction qs arbitrary: found l)
  case (Cons q qs)
  have q: "q < NR_RUN_QUEUES" using Cons.prems by auto
  have holds: "linked (nextready s) (run_q_head s q) (Q q)"
      "run_q_tail s q = (if Q q = [] then None else Some (last (Q q)))"
    and setq: "set (Q q) = {p \<in> runnable s. priority s p = int q}"
    using ready_in_holds [OF inv q] by (auto simp: holds_queue_def)
  have dq: "distinct (Q q)" by (rule linked_distinct [OF holds(1)])
  have disj: "set (Q q) \<inter> set found = {}" using Cons.prems(3) setq by auto
  have "length (Q q @ found) = card (set (Q q @ found))"
    using dq disj Cons.prems(4) by (intro distinct_card [symmetric]) auto
  also have "\<dots> \<le> card {p. isokprocn p}"
    using setq Cons.prems(3) by (intro card_mono finite_runnable) (auto simp: runnable_def)
  finally have len: "length (Q q) + l \<le> MAX_LOOP" using finite_runnable(2) Cons.prems(5) by simp
  have chk: "check_queue s q (run_q_head s q) found l = Some (rev (Q q) @ found, length (Q q) + l)"
    using holds setq disj Cons.prems(5) len by (intro check_queue_ok) (auto simp: runnable_def)
  have nonneg: "p \<in> runnable s \<Longrightarrow> 0 \<le> priority s p" for p
    using inv by (auto simp: ready_in_def queue_ok_def)
  have "set (rev (Q q) @ found) = {p \<in> runnable s. nat (priority s p) \<notin> set qs}"
    using setq Cons.prems(2,3) nonneg by (auto simp: nat_eq_iff2)
  moreover have "distinct (rev (Q q) @ found)" using dq disj Cons.prems(4) by auto
  moreover have "length (Q q) + l = length (rev (Q q) @ found)" using Cons.prems(5) by simp
  ultimately obtain found' where "check_queues s qs (rev (Q q) @ found) (length (Q q) + l) = Some found'"
      "set found' = runnable s"
    using Cons.IH [of "rev (Q q) @ found" "length (Q q) + l"] Cons.prems(1,2) by auto
  moreover have "Q q \<noteq> [] \<Longrightarrow> nextready s (last (Q q)) = None" by (rule linked_last [OF holds(1)])
  moreover have "run_q_head s q = None \<longleftrightarrow> Q q = []" using holds(1) by (cases "Q q") auto
  ultimately show ?case using holds(2) chk by auto
qed auto

lemma queues_ok_sane:
  assumes "queues_ok s"
  shows "runqueues_ok_cpu s"
proof -
  from assms obtain Q where inv: "ready_in s (runnable s) Q" by (auto simp: queues_ok_def)
  have "p \<in> runnable s \<Longrightarrow> nat (priority s p) \<in> set [0..<NR_RUN_QUEUES]" for p
    using inv by (auto simp: ready_in_def queue_ok_def)
  then obtain found where "check_queues s [0..<NR_RUN_QUEUES] [] 0 = Some found" "set found = runnable s"
    using check_queues_ok [OF inv, of "[0..<NR_RUN_QUEUES]" "[]" 0] by (auto simp: subset_iff)
  then show ?thesis
    by (auto simp: runqueues_ok_cpu_def list_all_iff all_procs_def runnable_def isokprocn_def)
qed

end
