(* ===== verification/Kernel_Ipc.thy ===== *)
theory Kernel_Ipc
  imports Kernel_Queues
begin

unbundle bit_operations_syntax

text \<open>
  Message passing in the kernel (kernel/proc.c) and the signals it causes (kernel/system.c). A system call
  of the current process is one step on the tables: it delivers a message, or it blocks the caller in the
  queue of the destination or on a source, or it fails.
\<close>

section \<open>Deadlock detection\<close>

text \<open>
  The loop notes the processes of the chain in an array of \<open>MAX_LOOP\<close> entries, which is only used to print
  them; writing past its end has no defined result. The result is the size of the group, 0 without a
  deadlock.
\<close>

function deadlock_loop :: "kstate \<Rightarrow> int \<Rightarrow> int \<Rightarrow> int \<Rightarrow> nat \<Rightarrow> nat option" where
  "deadlock_loop s fn cp src_dst_e group_size =
    (if src_dst_e = ANY then Some 0
     else case isokendpt s src_dst_e of
       None \<Rightarrow> None
     | Some src_dst_slot \<Rightarrow>
         let xp = procs s src_dst_slot; e = P_BLOCKEDON xp in
         if RTS_ISSET xp RTS_SLOT_FREE then None
         else if group_size \<ge> MAX_LOOP then None
         else if e = NONE then Some 0
         else if e = p_endpoint (procs s cp) then
           if group_size + 1 = 2 \<and> (p_rts_flags xp XOR push_bit 2 (word_of_int fn)) AND RTS_SENDING \<noteq> 0
           then Some 0 else Some (group_size + 1)
         else deadlock_loop s fn cp e (group_size + 1))"
  by pat_completeness auto
termination by (relation "measure (\<lambda>(s, fn, cp, e, n). MAX_LOOP - n)") (auto split: if_splits)

definition deadlock :: "kstate \<Rightarrow> int \<Rightarrow> int \<Rightarrow> int \<Rightarrow> nat option" where
  "deadlock s fn cp src_dst_e = deadlock_loop s fn cp src_dst_e 1"

section \<open>Pending notifications and asynchronous messages\<close>

text \<open>The loop inside a chunk has no bound of its own; the chunk that is searched is not empty.\<close>

partial_function (option) next_sys_bit :: "64 word \<Rightarrow> nat \<Rightarrow> nat option" where
  "next_sys_bit m src_id = (if \<not> get_sys_bit m src_id then next_sys_bit m (src_id + 1) else Some src_id)"

function scan_sys_bits :: "64 word \<Rightarrow> nat \<Rightarrow> nat option" where
  "scan_sys_bits m src_id = (if src_id < NR_SYS_PROCS
    then if get_sys_bits m src_id \<noteq> 0 then next_sys_bit m src_id else scan_sys_bits m (src_id + 32)
    else Some src_id)"
  by pat_completeness auto
termination by (relation "measure (\<lambda>(m, i). NR_SYS_PROCS - i)") auto

text \<open>\<open>Some None\<close> is the answer \<open>NULL_PRIV_ID\<close>.\<close>

definition has_pending :: "kstate \<Rightarrow> 64 word \<Rightarrow> int \<Rightarrow> nat option option" where
  "has_pending s m src_p =
    (if src_p \<noteq> ANY then Some (if get_sys_bit m (nr_to_id s src_p) then Some (nr_to_id s src_p) else None)
     else do {
       src_id \<leftarrow> scan_sys_bits m 0;
       Some (if src_id < NR_SYS_PROCS then Some src_id else None) })"

definition has_pending_notify :: "kstate \<Rightarrow> int \<Rightarrow> int \<Rightarrow> nat option option" where
  "has_pending_notify s caller src_p = has_pending s (s_notify_pending (priv_of s caller)) src_p"

definition has_pending_asend :: "kstate \<Rightarrow> int \<Rightarrow> int \<Rightarrow> nat option option" where
  "has_pending_asend s caller src_p = has_pending s (s_asyn_pending (priv_of s caller)) src_p"

definition unset_notify_pending :: "int \<Rightarrow> nat \<Rightarrow> kstate \<Rightarrow> kstate" where
  "unset_notify_pending caller src_id =
    upd_priv_of caller (\<lambda>v. v\<lparr>s_notify_pending := unset_sys_bit src_id (s_notify_pending v)\<rparr>)"

definition set_notify_pending :: "int \<Rightarrow> nat \<Rightarrow> kstate \<Rightarrow> kstate" where
  "set_notify_pending dst src_id =
    upd_priv_of dst (\<lambda>v. v\<lparr>s_notify_pending := set_sys_bit src_id (s_notify_pending v)\<rparr>)"

definition set_asyn_pending :: "int \<Rightarrow> nat \<Rightarrow> kstate \<Rightarrow> kstate" where
  "set_asyn_pending dst src_id =
    upd_priv_of dst (\<lambda>v. v\<lparr>s_asyn_pending := set_sys_bit src_id (s_asyn_pending v)\<rparr>)"

definition unset_asyn_pending :: "int \<Rightarrow> nat \<Rightarrow> kstate \<Rightarrow> kstate" where
  "unset_asyn_pending dst src_id =
    upd_priv_of dst (\<lambda>v. v\<lparr>s_asyn_pending := unset_sys_bit src_id (s_asyn_pending v)\<rparr>)"

section \<open>Sending and notifying\<close>

text \<open>A message argument is an address in the caller's memory or, from the kernel itself, a message.\<close>

datatype msg_ptr = User_ptr "32 word" | Kernel_msg kmessage

text \<open>Put a message with its sender into the process that will receive it, and note the call.\<close>

definition deliver :: "int \<Rightarrow> kmessage \<Rightarrow> int \<Rightarrow> kproc \<Rightarrow> kproc" where
  "deliver src_e m call p = IPC_STATUS_ADD_CALL call
    (set_misc MF_DELIVERMSG (p\<lparr>p_delivermsg := m\<lparr>m_source := src_e\<rparr>\<rparr>))"

definition BuildNotifyMessage :: "kstate \<Rightarrow> int \<Rightarrow> int \<Rightarrow> kmessage \<times> kstate" where
  "BuildNotifyMessage s src dst =
    (let msg = \<lambda>ints sigs. \<lparr>m_source = 0, m_type = NOTIFY_MESSAGE, m_body = Notification (monotonic s) ints sigs\<rparr> in
     if src = HARDWARE then
       (msg (s_int_pending (priv_of s dst)) {}, upd_priv_of dst (\<lambda>v. v\<lparr>s_int_pending := 0\<rparr>) s)
     else if src = SYSTEM then
       (msg 0 (s_sig_pending (priv_of s dst)), upd_priv_of dst (\<lambda>v. v\<lparr>s_sig_pending := {}\<rparr>) s)
     else (msg 0 {}, s))"

definition mini_notify :: "kenv \<Rightarrow> int \<Rightarrow> int \<Rightarrow> kstate \<Rightarrow> (result \<times> kstate) option" where
  "mini_notify K caller dst_e s = (case isokendpt s dst_e of
      None \<Rightarrow> Some (RDEADSRCDST, s)
    | Some dst \<Rightarrow>
        if WILLRECEIVE (procs s dst) (p_endpoint (procs s caller)) \<and> \<not> MF_ISSET (procs s dst) MF_REPLY_PEND then
          if MF_ISSET (procs s dst) MF_DELIVERMSG then None
          else let (msg, s1) = BuildNotifyMessage s caller dst in do {
            s2 \<leftarrow> RTS_UNSET K dst RTS_RECEIVING
              (upd_proc dst (deliver (p_endpoint (procs s caller)) msg NOTIFY) s1);
            Some (ROK, s2) }
        else Some (ROK, set_notify_pending dst (s_id (priv_of s caller)) s))"

text \<open>The end of the queue of callers: the link that holds the null pointer.\<close>

partial_function (option) queue_end :: "kstate \<Rightarrow> link \<Rightarrow> link option" where
  "queue_end s xpp = (case deref s xpp of None \<Rightarrow> Some xpp | Some x \<Rightarrow> queue_end s (Q_link x))"

text \<open>The message behind the pointer; \<open>Some None\<close> when reading the caller's memory faults.\<close>

definition fetch_msg :: "kenv \<Rightarrow> 32 word \<Rightarrow> msg_ptr \<Rightarrow> kmessage option option" where
  "fetch_msg K flags m = (case m of
      User_ptr a \<Rightarrow> if flags AND FROM_KERNEL = 0 then Some (copy_msg_from_user K a) else None
    | Kernel_msg msg \<Rightarrow> if flags AND FROM_KERNEL = 0 then None else Some (Some msg))"

text \<open>The branch of \<open>mini_send\<close> for a destination that waits for the message.\<close>

definition send_now :: "kenv \<Rightarrow> int \<Rightarrow> int \<Rightarrow> msg_ptr \<Rightarrow> 32 word \<Rightarrow> kstate \<Rightarrow> (result \<times> kstate) option" where
  "send_now K caller dst m flags s =
    (if MF_ISSET (procs s dst) MF_DELIVERMSG then None
     else do {
       got \<leftarrow> fetch_msg K flags m;
       case got of
         None \<Rightarrow> Some (RFAULT, s)
       | Some msg \<Rightarrow>
           let s1 = (if flags AND FROM_KERNEL = 0 then s
               else upd_proc dst (IPC_STATUS_ADD_FLAGS IPC_FLG_MSG_FROM_KERNEL) s);
             call = (if MF_ISSET (procs s1 caller) MF_REPLY_PEND then SENDREC
               else if flags AND NON_BLOCKING \<noteq> 0 then SENDNB else SEND);
             s2 = upd_proc dst (deliver (p_endpoint (procs s1 caller)) msg call) s1;
             s3 = upd_proc dst (unset_misc MF_REPLY_PEND) s2 in do {
             s4 \<leftarrow> RTS_UNSET K dst RTS_RECEIVING s3;
             Some (ROK, s4) } })"

text \<open>The branch that blocks the caller and puts it at the end of the destination's queue.\<close>

definition send_blocking :: "kenv \<Rightarrow> int \<Rightarrow> int \<Rightarrow> int \<Rightarrow> msg_ptr \<Rightarrow> 32 word \<Rightarrow> kstate \<Rightarrow> (result \<times> kstate) option" where
  "send_blocking K caller dst dst_e m flags s = do {
     d \<leftarrow> deadlock s SEND caller dst_e;
     if d \<noteq> 0 then Some (RLOCKED, s)
     else do {
       got \<leftarrow> fetch_msg K flags m;
       case got of
         None \<Rightarrow> Some (RFAULT, s)
       | Some msg \<Rightarrow>
           let s1 = upd_proc caller (\<lambda>x. x\<lparr>p_sendmsg := msg\<rparr>) s;
             s2 = (if flags AND FROM_KERNEL = 0 then s1 else upd_proc caller (set_misc MF_SENDING_FROM_KERNEL) s1) in do {
             s3 \<leftarrow> RTS_SET K caller RTS_SENDING s2;
             let s4 = upd_proc caller (\<lambda>x. x\<lparr>p_sendto_e := dst_e\<rparr>) s3;
             if p_q_link (procs s4 caller) \<noteq> None then None
             else do {
               xpp \<leftarrow> queue_end s4 (Caller_q dst);
               Some (ROK, assign xpp (Some caller) s4) } } } }"

definition mini_send :: "kenv \<Rightarrow> int \<Rightarrow> int \<Rightarrow> msg_ptr \<Rightarrow> 32 word \<Rightarrow> kstate \<Rightarrow> (result \<times> kstate) option" where
  "mini_send K caller dst_e m flags s =
    (let dst = ENDPOINT_P dst_e in
     if \<not> isokprocn dst then None
     else if RTS_ISSET (procs s dst) RTS_NO_ENDPOINT then Some (RDEADSRCDST, s)
     else if WILLRECEIVE (procs s dst) (p_endpoint (procs s caller)) then send_now K caller dst m flags s
     else if flags AND NON_BLOCKING \<noteq> 0 then Some (RNOTREADY, s)
     else send_blocking K caller dst dst_e m flags s)"

section \<open>Signals from the kernel\<close>

definition sigaddset :: "kenv \<Rightarrow> int \<Rightarrow> int set \<Rightarrow> int set" where
  "sigaddset K sig sigs = (if sig_valid K sig then insert sig sigs else sigs)"

definition increase_proc_signals :: "kproc \<Rightarrow> kproc" where
  "increase_proc_signals p = p\<lparr>p_signal_received := p_signal_received p + 1\<rparr>"

text \<open>A process in use always has a privilege structure, so the result \<open>ENOENT\<close> does not occur.\<close>

definition send_sig :: "kenv \<Rightarrow> int \<Rightarrow> int \<Rightarrow> kstate \<Rightarrow> (result \<times> kstate) option" where
  "send_sig K ep sig_nr s = (case isokendpt s ep of
      None \<Rightarrow> Some (RINVAL, s)
    | Some p \<Rightarrow>
        let s1 = upd_proc p increase_proc_signals
          (upd_priv_of p (\<lambda>v. v\<lparr>s_sig_pending := sigaddset K sig_nr (s_sig_pending v)\<rparr>) s) in do {
          (_, s2) \<leftarrow> mini_notify K SYSTEM (p_endpoint (procs s1 p)) s1;
          Some (ROK, s2) })"

definition send_sig_or_panic :: "kenv \<Rightarrow> int \<Rightarrow> int \<Rightarrow> kstate \<Rightarrow> kstate option" where
  "send_sig_or_panic K ep sig_nr s = do {
     (r, s1) \<leftarrow> send_sig K ep sig_nr s;
     if r = ROK then Some s1 else None }"

partial_function (option) cause_sig :: "kenv \<Rightarrow> int \<Rightarrow> int \<Rightarrow> kstate \<Rightarrow> kstate option" where
  "cause_sig K p sig_nr s =
    (let sig_mgr = (if s_sig_mgr (priv_of s p) = SELF then p_endpoint (procs s p) else s_sig_mgr (priv_of s p)) in
     if p_endpoint (procs s p) = sig_mgr then
       if SIGS_IS_LETHAL K sig_nr then
         let bak = s_bak_sig_mgr (priv_of s p) in
         if bak \<noteq> NONE then
           (case isokendpt s bak of
             None \<Rightarrow> None
           | Some bak_p \<Rightarrow> do {
               s1 \<leftarrow> RTS_UNSET K bak_p RTS_NO_PRIV
                 (upd_priv_of p (\<lambda>v. v\<lparr>s_sig_mgr := bak, s_bak_sig_mgr := NONE\<rparr>) s);
               cause_sig K p sig_nr s1 })
         else None
       else send_sig_or_panic K (p_endpoint (procs s p)) (SIGKSIGSM K)
         (upd_priv_of p (\<lambda>v. v\<lparr>s_sig_pending := sigaddset K sig_nr (s_sig_pending v)\<rparr>) s)
     else if \<not> sig_valid K sig_nr then None
     else if sig_nr \<in> p_pending (procs s p) then Some s
     else
       let s1 = upd_proc p (\<lambda>x. increase_proc_signals (x\<lparr>p_pending := sigaddset K sig_nr (p_pending x)\<rparr>)) s in
       if \<not> RTS_ISSET (procs s1 p) RTS_SIGNALED then do {
         s2 \<leftarrow> RTS_SET K p (RTS_SIGNALED OR RTS_SIG_PENDING) s1;
         send_sig_or_panic K sig_mgr (SIGKSIG K) s2 }
       else Some s1)"

definition sig_delay_done :: "kenv \<Rightarrow> int \<Rightarrow> kstate \<Rightarrow> kstate option" where
  "sig_delay_done K rp s = cause_sig K rp (SIGSNDELAY K) (upd_proc rp (unset_misc MF_SIG_DELAY) s)"

section \<open>Asynchronous messages\<close>

definition AMF_ALL :: "32 word" where
  "AMF_ALL = AMF_VALID OR AMF_DONE OR AMF_NOTIFY OR AMF_NOREPLY OR AMF_NOTIFY_ERR"

definition amf_bad :: "32 word \<Rightarrow> bool" where
  "amf_bad flags \<longleftrightarrow> flags AND NOT AMF_ALL \<noteq> 0 \<or> flags AND AMF_VALID = 0"

definition amf_wants_notify :: "32 word \<Rightarrow> result \<Rightarrow> bool" where
  "amf_wants_notify flags r \<longleftrightarrow> flags AND AMF_NOTIFY \<noteq> 0 \<or> r \<noteq> ROK \<and> flags AND AMF_NOTIFY_ERR \<noteq> 0"

text \<open>Writing the result of an entry back into the table (\<open>A_INSRT\<close>) when that does not fault.\<close>

definition A_INSRT :: "int \<Rightarrow> 32 word \<Rightarrow> nat \<Rightarrow> asynmsg \<Rightarrow> kstate \<Rightarrow> kstate" where
  "A_INSRT ep table_v entry tabent s =
    s\<lparr>asyn_mem := (asyn_mem s)(ep := (asyn_mem s ep)(table_v := (asyn_mem s ep table_v)(entry := tabent)))\<rparr>"

definition senda_check :: "kstate \<Rightarrow> int \<Rightarrow> int \<Rightarrow> result" where
  "senda_check s caller dst_e = (case isokendpt s dst_e of
      None \<Rightarrow> RDEADSRCDST
    | Some dst \<Rightarrow>
        if iskerneln dst then RCALLDENIED
        else if \<not> may_send_to s caller dst then RCALLDENIED
        else if RTS_ISSET (procs s dst) RTS_NO_ENDPOINT then RDEADSRCDST
        else ROK)"

text \<open>
  One entry of the table in \<open>try_deliver_senda\<close>; \<open>done\<close> and \<open>do_notify\<close> are the variables of the loop. An
  entry that cannot be read or written, or is invalid, is only reported on the console.
\<close>

definition senda_entry :: "kenv \<Rightarrow> int \<Rightarrow> 32 word \<Rightarrow> nat \<Rightarrow> kstate \<times> bool \<times> bool \<Rightarrow> (kstate \<times> bool \<times> bool) option" where
  "senda_entry K caller table_v i = (\<lambda>(s, don, do_notify).
    let ep = p_endpoint (procs s caller) in
    if \<not> tab_readable K ep table_v i then Some (s, don, do_notify)
    else let tabent = asyn_mem s ep table_v i; flags = am_flags tabent in
      if flags = 0 then Some (s, don, do_notify)
      else if amf_bad flags then Some (s, don, do_notify)
      else if flags AND AMF_DONE \<noteq> 0 then Some (s, don, do_notify)
      else let r = senda_check s caller (am_dst tabent); dst = ENDPOINT_P (am_dst tabent);
          store = (\<lambda>s1. if tab_writable K ep table_v i
            then A_INSRT ep table_v i (tabent\<lparr>am_result := r, am_flags := flags OR AMF_DONE\<rparr>) s1 else s1) in
        if r = ROK \<and> WILLRECEIVE (procs s dst) ep \<and>
            (flags AND AMF_NOREPLY = 0 \<or> \<not> MF_ISSET (procs s dst) MF_REPLY_PEND) then do {
          s1 \<leftarrow> RTS_UNSET K dst RTS_RECEIVING (upd_proc dst (deliver ep (am_msg tabent) SENDA) s);
          Some (store s1, don, do_notify \<or> amf_wants_notify flags r) }
        else if r = ROK then Some (set_asyn_pending dst (s_id (priv_of s caller)) s, False, do_notify)
        else Some (store s, don, do_notify \<or> amf_wants_notify flags r))"

fun senda_entries :: "kenv \<Rightarrow> int \<Rightarrow> 32 word \<Rightarrow> nat list \<Rightarrow> kstate \<times> bool \<times> bool \<Rightarrow> (kstate \<times> bool \<times> bool) option" where
  "senda_entries K caller table_v [] st = Some st"
| "senda_entries K caller table_v (i # is) st = do {
     st' \<leftarrow> senda_entry K caller table_v i st;
     senda_entries K caller table_v is st' }"

definition ASYN_LIMIT :: nat where "ASYN_LIMIT = 16 * (nat NR_TASKS + NR_PROCS)"

definition set_asyntab :: "int \<Rightarrow> 32 word \<Rightarrow> nat \<Rightarrow> kstate \<Rightarrow> kstate" where
  "set_asyntab p table sz = upd_priv_of p (\<lambda>v. v\<lparr>s_asyntab := table, s_asynsize := sz\<rparr>)"

definition notify_asyncm :: "kenv \<Rightarrow> bool \<Rightarrow> int \<Rightarrow> kstate \<Rightarrow> kstate option" where
  "notify_asyncm K do_notify p s = (if do_notify then do {
      (_, s1) \<leftarrow> mini_notify K ASYNCM (p_endpoint (procs s p)) s;
      Some s1 } else Some s)"

definition try_deliver_senda :: "kenv \<Rightarrow> int \<Rightarrow> 32 word \<Rightarrow> nat \<Rightarrow> kstate \<Rightarrow> (result \<times> kstate) option" where
  "try_deliver_senda K caller table sz s =
    (let s1 = set_asyntab caller (- 1) 0 s in
     if sz = 0 then Some (ROK, s1)
     else if sz > ASYN_LIMIT then Some (RDOM, s1)
     else do {
       (s2, don, do_notify) \<leftarrow> senda_entries K caller table [0..<sz] (s1, True, False);
       s3 \<leftarrow> notify_asyncm K do_notify caller s2;
       Some (ROK, if don then s3 else set_asyntab caller table sz s3) })"

definition mini_senda :: "kenv \<Rightarrow> int \<Rightarrow> 32 word \<Rightarrow> nat \<Rightarrow> kstate \<Rightarrow> (result \<times> kstate) option" where
  "mini_senda K caller table sz s =
    (if s_flags (priv_of s caller) AND SYS_PROC = 0 then Some (RPERM, s)
     else try_deliver_senda K caller table sz s)"

text \<open>
  The loop of \<open>try_one\<close>. It ends with \<open>Inl\<close> when an access to the table fails, in which case the function
  returns at once, and with \<open>Inr\<close> and the values of \<open>r\<close>, \<open>done\<close> and \<open>do_notify\<close> otherwise.
\<close>

definition store_result :: "kenv \<Rightarrow> int \<Rightarrow> 32 word \<Rightarrow> nat \<Rightarrow> asynmsg \<Rightarrow> result \<Rightarrow> kstate \<Rightarrow> kstate + (kstate \<times> result \<times> bool \<times> bool)" where
  "store_result K ep table_v i tabent r s =
    (if tab_writable K ep table_v i
     then Inr (A_INSRT ep table_v i (tabent\<lparr>am_result := r, am_flags := am_flags tabent OR AMF_DONE\<rparr>) s, r, False,
       amf_wants_notify (am_flags tabent) r)
     else Inl s)"

fun try_one_loop :: "kenv \<Rightarrow> int \<Rightarrow> int \<Rightarrow> 32 word \<Rightarrow> nat list \<Rightarrow> bool \<Rightarrow> kstate \<Rightarrow> kstate + (kstate \<times> result \<times> bool \<times> bool)" where
  "try_one_loop K src dst table_v [] don s = Inr (s, RAGAIN, don, False)"
| "try_one_loop K src dst table_v (i # is) don s =
    (let ep = p_endpoint (procs s src) in
     if \<not> tab_readable K ep table_v i then Inl s
     else let tabent = asyn_mem s ep table_v i; flags = am_flags tabent in
       if flags = 0 then try_one_loop K src dst table_v is don s
       else if amf_bad flags then store_result K ep table_v i tabent RINVAL s
       else if flags AND AMF_DONE \<noteq> 0 then try_one_loop K src dst table_v is don s
       else if am_dst tabent \<noteq> p_endpoint (procs s dst) then try_one_loop K src dst table_v is False s
       else if flags AND AMF_NOREPLY \<noteq> 0 \<and> MF_ISSET (procs s dst) MF_REPLY_PEND
         then try_one_loop K src dst table_v is False s
       else store_result K ep table_v i tabent ROK
         (upd_proc dst (\<lambda>x. set_misc MF_DELIVERMSG (x\<lparr>p_delivermsg := (am_msg tabent)\<lparr>m_source := ep\<rparr>\<rparr>)) s))"

definition try_one :: "kenv \<Rightarrow> int \<Rightarrow> int \<Rightarrow> kstate \<Rightarrow> (result \<times> kstate) option" where
  "try_one K src dst s =
    (let v = priv_of s src in
     if s_flags v AND SYS_PROC = 0 then Some (RPERM, s)
     else let s1 = unset_asyn_pending dst (s_id v) s in
       if s_asynsize v = 0 then Some (RAGAIN, s1)
       else if \<not> may_send_to s1 src dst then Some (RCALLDENIED, s1)
       else case try_one_loop K src dst (s_asyntab v) [0..<s_asynsize v] True s1 of
         Inl s2 \<Rightarrow> Some (RFAULT, s2)
       | Inr (s2, r, don, do_notify) \<Rightarrow> do {
           s3 \<leftarrow> notify_asyncm K do_notify src s2;
           Some (r, if don then set_asyntab src (- 1) 0 s3 else set_asyn_pending dst (s_id v) s3) })"

fun try_async_from :: "kenv \<Rightarrow> int \<Rightarrow> nat list \<Rightarrow> kstate \<Rightarrow> (result \<times> kstate) option" where
  "try_async_from K caller [] s = Some (RSRCH, s)"
| "try_async_from K caller (i # is) s =
    (if s_proc_nr (privs s i) = NONE then try_async_from K caller is s
     else if \<not> get_sys_bit (s_asyn_pending (priv_of s caller)) (s_id (privs s i)) then try_async_from K caller is s
     else if MF_ISSET (procs s caller) MF_DELIVERMSG then None
     else do {
       (r, s1) \<leftarrow> try_one K (s_proc_nr (privs s i)) caller s;
       if r = ROK then Some (r, s1) else try_async_from K caller is s1 })"

definition try_async :: "kenv \<Rightarrow> int \<Rightarrow> kstate \<Rightarrow> (result \<times> kstate) option" where
  "try_async K caller s = try_async_from K caller [0..<NR_SYS_PROCS] s"

text \<open>The loop of \<open>cancel_async\<close>; \<open>Inl\<close> again when an access to the table fails.\<close>

fun cancel_loop :: "kenv \<Rightarrow> int \<Rightarrow> int \<Rightarrow> 32 word \<Rightarrow> nat list \<Rightarrow> bool \<Rightarrow> bool \<Rightarrow> kstate \<Rightarrow> kstate + (kstate \<times> bool \<times> bool)" where
  "cancel_loop K src dst table_v [] don do_notify s = Inr (s, don, do_notify)"
| "cancel_loop K src dst table_v (i # is) don do_notify s =
    (let ep = p_endpoint (procs s src) in
     if \<not> tab_readable K ep table_v i then Inl s
     else let tabent = asyn_mem s ep table_v i; flags = am_flags tabent;
         r = (if amf_bad flags then RINVAL else RDEADSRCDST) in
       if flags = 0 then cancel_loop K src dst table_v is don do_notify s
       else if \<not> amf_bad flags \<and> flags AND AMF_DONE \<noteq> 0 then cancel_loop K src dst table_v is don do_notify s
       else if am_dst tabent \<noteq> p_endpoint (procs s dst) then cancel_loop K src dst table_v is False do_notify s
       else if \<not> tab_writable K ep table_v i then Inl s
       else cancel_loop K src dst table_v is don (do_notify \<or> amf_wants_notify flags r)
         (A_INSRT ep table_v i (tabent\<lparr>am_result := r, am_flags := flags OR AMF_DONE\<rparr>) s))"

definition cancel_async :: "kenv \<Rightarrow> int \<Rightarrow> int \<Rightarrow> kstate \<Rightarrow> (result \<times> kstate) option" where
  "cancel_async K src dst s =
    (let v = priv_of s src in
     if s_flags v AND SYS_PROC = 0 then Some (RPERM, s)
     else let s1 = unset_asyn_pending dst (s_id v) (set_asyntab src (- 1) 0 s) in
       if s_asynsize v = 0 then Some (RAGAIN, s1)
       else if \<not> may_send_to s1 src dst then Some (RCALLDENIED, s1)
       else case cancel_loop K src dst (s_asyntab v) [0..<s_asynsize v] True False s1 of
         Inl s2 \<Rightarrow> Some (ROK, s2)
       | Inr (s2, don, do_notify) \<Rightarrow> do {
           s3 \<leftarrow> notify_asyncm K do_notify src s2;
           Some (ROK, if don then s3 else set_asyntab src (s_asyntab v) (s_asynsize v) s3) })"

section \<open>Receiving\<close>

text \<open>The first process in the queue of callers that the receiver accepts, with the link that leads to it.\<close>

partial_function (option) find_sender :: "kstate \<Rightarrow> int \<Rightarrow> link \<Rightarrow> (link \<times> int) option option" where
  "find_sender s src_p xpp = (case deref s xpp of
      None \<Rightarrow> Some None
    | Some sender \<Rightarrow> if src_p = ANY \<or> src_p = sender then Some (Some (xpp, sender))
        else find_sender s src_p (Q_link sender))"

text \<open>The label \<open>receive_done\<close>.\<close>

definition receive_done :: "int \<Rightarrow> kstate \<Rightarrow> result \<times> kstate" where
  "receive_done caller s = (ROK, upd_proc caller (unset_misc MF_REPLY_PEND) s)"

definition receive_notify :: "int \<Rightarrow> int \<Rightarrow> nat \<Rightarrow> kstate \<Rightarrow> (result \<times> kstate) option" where
  "receive_notify caller src_e src_id s =
    (let src_proc_nr = id_to_nr s src_id; hisep = p_endpoint (procs s src_proc_nr) in
     if src_proc_nr = NONE \<or> MF_ISSET (procs s caller) MF_DELIVERMSG \<or> \<not> (src_e = ANY \<or> hisep = src_e) then None
     else let (msg, s1) = BuildNotifyMessage (unset_notify_pending caller src_id s) src_proc_nr caller in
       Some (receive_done caller (upd_proc caller (deliver hisep msg NOTIFY) s1)))"

definition receive_queued :: "kenv \<Rightarrow> int \<Rightarrow> link \<Rightarrow> int \<Rightarrow> kstate \<Rightarrow> (result \<times> kstate) option" where
  "receive_queued K caller xpp sender s =
    (if RTS_ISSET (procs s sender) RTS_SLOT_FREE \<or> RTS_ISSET (procs s sender) RTS_NO_ENDPOINT \<or>
        MF_ISSET (procs s caller) MF_DELIVERMSG then None
     else do {
       s1 \<leftarrow> RTS_UNSET K sender RTS_SENDING (upd_proc caller (\<lambda>x. set_misc MF_DELIVERMSG
         (x\<lparr>p_delivermsg := (p_sendmsg (procs s sender))\<lparr>m_source := p_endpoint (procs s sender)\<rparr>\<rparr>)) s);
       let call = (if MF_ISSET (procs s1 sender) MF_REPLY_PEND then SENDREC else SEND);
       let s2 = upd_proc caller (IPC_STATUS_ADD_CALL call) s1;
       let s3 = (if MF_ISSET (procs s2 sender) MF_SENDING_FROM_KERNEL
         then upd_proc sender (unset_misc MF_SENDING_FROM_KERNEL)
           (upd_proc caller (IPC_STATUS_ADD_FLAGS IPC_FLG_MSG_FROM_KERNEL) s2) else s2);
       s4 \<leftarrow> (if MF_ISSET (procs s3 sender) MF_SIG_DELAY then sig_delay_done K sender s3 else Some s3);
       Some (receive_done caller (assign (Q_link sender) None (assign xpp (p_q_link (procs s4 sender)) s4))) })"

text \<open>No message is there: block, unless the flags or a deadlock forbid it.\<close>

definition receive_block :: "kenv \<Rightarrow> int \<Rightarrow> int \<Rightarrow> 32 word \<Rightarrow> kstate \<Rightarrow> (result \<times> kstate) option" where
  "receive_block K caller src_e flags s =
    (if flags AND NON_BLOCKING = 0 then do {
       d \<leftarrow> deadlock s RECEIVE caller src_e;
       if d \<noteq> 0 then Some (RLOCKED, s)
       else do {
         s1 \<leftarrow> RTS_SET K caller RTS_RECEIVING (upd_proc caller (\<lambda>x. x\<lparr>p_getfrom_e := src_e\<rparr>) s);
         Some (ROK, s1) } }
     else Some (RNOTREADY, s))"

definition receive_from_queue :: "kenv \<Rightarrow> int \<Rightarrow> int \<Rightarrow> int \<Rightarrow> 32 word \<Rightarrow> kstate \<Rightarrow> (result \<times> kstate) option" where
  "receive_from_queue K caller src_e src_p flags s = do {
     found \<leftarrow> find_sender s src_p (Caller_q caller);
     case found of
       None \<Rightarrow> receive_block K caller src_e flags s
     | Some (xpp, sender) \<Rightarrow> receive_queued K caller xpp sender s }"

definition receive_async :: "kenv \<Rightarrow> int \<Rightarrow> int \<Rightarrow> int \<Rightarrow> 32 word \<Rightarrow> kstate \<Rightarrow> (result \<times> kstate) option" where
  "receive_async K caller src_e src_p flags s = do {
     pending \<leftarrow> has_pending_asend s caller src_p;
     case pending of
       None \<Rightarrow> receive_from_queue K caller src_e src_p flags s
     | Some _ \<Rightarrow> do {
         (r, s1) \<leftarrow> (if src_p \<noteq> ANY then try_one K src_p caller s else try_async K caller s);
         if r = ROK then Some (receive_done caller (upd_proc caller (IPC_STATUS_ADD_CALL SENDA) s1))
         else receive_from_queue K caller src_e src_p flags s1 } }"

definition receive_any :: "kenv \<Rightarrow> int \<Rightarrow> int \<Rightarrow> int \<Rightarrow> 32 word \<Rightarrow> kstate \<Rightarrow> (result \<times> kstate) option" where
  "receive_any K caller src_e src_p flags s =
    (if RTS_ISSET (procs s caller) RTS_SENDING then receive_block K caller src_e flags s
     else if MF_ISSET (procs s caller) MF_REPLY_PEND then receive_async K caller src_e src_p flags s
     else do {
       pending \<leftarrow> has_pending_notify s caller src_p;
       case pending of
         None \<Rightarrow> receive_async K caller src_e src_p flags s
       | Some src_id \<Rightarrow> receive_notify caller src_e src_id s })"

definition mini_receive :: "kenv \<Rightarrow> int \<Rightarrow> int \<Rightarrow> 32 word \<Rightarrow> 32 word \<Rightarrow> kstate \<Rightarrow> (result \<times> kstate) option" where
  "mini_receive K caller src_e m_buff_usr flags s =
    (if MF_ISSET (procs s caller) MF_DELIVERMSG then None
     else let s1 = upd_proc caller (\<lambda>x. x\<lparr>p_delivermsg_vir := m_buff_usr\<rparr>) s in
       if src_e = ANY then receive_any K caller src_e ANY flags s1
       else case isokendpt s1 src_e of
         None \<Rightarrow> None
       | Some src_p \<Rightarrow>
           if RTS_ISSET (procs s1 src_p) RTS_NO_ENDPOINT then Some (RDEADSRCDST, s1)
           else receive_any K caller src_e src_p flags s1)"

section \<open>System calls\<close>

definition ipc_call_names :: "int list" where
  "ipc_call_names = [SEND, RECEIVE, SENDREC, NOTIFY, SENDNB, SENDA]"

text \<open>The tests of \<open>do_sync_ipc\<close>: \<open>None\<close> means that the call goes ahead.\<close>

definition sync_ipc_denied :: "kstate \<Rightarrow> int \<Rightarrow> int \<Rightarrow> int \<Rightarrow> result option" where
  "sync_ipc_denied s caller call_nr src_dst_e =
    (let trap = (\<lambda>src_dst_p.
        if \<not> bit (s_trap_mask (priv_of s caller)) (nat call_nr) then Some RTRAPDENIED
        else if call_nr \<noteq> SENDREC \<and> call_nr \<noteq> RECEIVE \<and> iskerneln src_dst_p then Some RTRAPDENIED
        else None) in
     if call_nr < 0 \<or> call_nr > IPCNO_HIGHEST \<or> call_nr \<ge> 32 \<or> call_nr \<notin> set ipc_call_names then Some RTRAPDENIED
     else if src_dst_e = ANY then if call_nr \<noteq> RECEIVE then Some RINVAL else trap src_dst_e
     else case isokendpt s src_dst_e of
       None \<Rightarrow> Some RDEADSRCDST
     | Some src_dst_p \<Rightarrow>
         if call_nr \<noteq> RECEIVE \<and> \<not> may_send_to s caller src_dst_p then Some RCALLDENIED
         else trap src_dst_p)"

definition do_sync_ipc :: "kenv \<Rightarrow> int \<Rightarrow> int \<Rightarrow> int \<Rightarrow> 32 word \<Rightarrow> kstate \<Rightarrow> (result \<times> kstate) option" where
  "do_sync_ipc K caller call_nr src_dst_e m_ptr s =
    (if call_nr = SENDA then None
     else case sync_ipc_denied s caller call_nr src_dst_e of
       Some r \<Rightarrow> Some (r, s)
     | None \<Rightarrow>
         if call_nr = SENDREC then do {
           (r, s1) \<leftarrow> mini_send K caller src_dst_e (User_ptr m_ptr) 0 (upd_proc caller (set_misc MF_REPLY_PEND) s);
           if r \<noteq> ROK then Some (r, s1) else mini_receive K caller src_dst_e m_ptr 0 s1 }
         else if call_nr = SEND then mini_send K caller src_dst_e (User_ptr m_ptr) 0 s
         else if call_nr = RECEIVE then
           mini_receive K caller src_dst_e m_ptr 0
             (upd_proc caller (\<lambda>x. IPC_STATUS_CLEAR (unset_misc MF_REPLY_PEND x)) s)
         else if call_nr = NOTIFY then mini_notify K caller src_dst_e s
         else if call_nr = SENDNB then mini_send K caller src_dst_e (User_ptr m_ptr) NON_BLOCKING s
         else Some (RBADCALL, s))"

text \<open>
  The handling of a traced process: the first entry is only noted and signalled (\<open>Inl\<close>, the call is over),
  the second goes on (\<open>Inr\<close>).
\<close>

definition trace_call :: "kenv \<Rightarrow> int \<Rightarrow> 32 word \<Rightarrow> 32 word \<Rightarrow> 32 word \<Rightarrow> kstate \<Rightarrow> ((result \<times> kstate) + kstate) option" where
  "trace_call K caller r1 r2 r3 s =
    (if \<not> MF_ISSET (procs s caller) (MF_SC_TRACE OR MF_SC_DEFER) then Some (Inr s)
     else if p_misc_flags (procs s caller) AND (MF_SC_TRACE OR MF_SC_DEFER) = MF_SC_TRACE then do {
       s1 \<leftarrow> cause_sig K caller (SIGTRAP K)
         (upd_proc caller (\<lambda>x. (set_misc MF_SC_DEFER (unset_misc MF_SC_TRACE x))\<lparr>p_defer := (r1, r2, r3)\<rparr>) s);
       Some (Inl (p_retreg (procs s1 caller), s1)) }
     else if MF_ISSET (procs s caller) MF_SC_ACTIVE then None
     else Some (Inr (upd_proc caller (\<lambda>x. set_misc MF_SC_ACTIVE (unset_misc MF_SC_DEFER x)) s)))"

text \<open>The choice by call number.\<close>

definition ipc_switch :: "kenv \<Rightarrow> int \<Rightarrow> int \<Rightarrow> 32 word \<Rightarrow> 32 word \<Rightarrow> kstate \<Rightarrow> (result \<times> kstate) option" where
  "ipc_switch K caller call_nr r2 r3 s =
    (if call_nr \<in> {SENDREC, SEND, RECEIVE, NOTIFY, SENDNB} then
       do_sync_ipc K caller call_nr (sint r2) r3 (upd_proc caller (\<lambda>x. x\<lparr>ipc_sync := ipc_sync x + 1\<rparr>) s)
     else if call_nr = SENDA then
       let s1 = upd_proc caller (\<lambda>x. x\<lparr>ipc_async := ipc_async x + 1\<rparr>) s in
       if unat r2 > ASYN_LIMIT then Some (RDOM, s1) else mini_senda K caller r3 (unat r2) s1
     else if call_nr = MINIX_KERNINFO then
       if minix_kerninfo_user s = 0 then Some (RBADCALL, s)
       else Some (ROK, upd_proc caller (\<lambda>x. x\<lparr>p_bx := minix_kerninfo_user s\<rparr>) s)
     else Some (RBADCALL, s))"

definition do_ipc :: "kenv \<Rightarrow> 32 word \<Rightarrow> 32 word \<Rightarrow> 32 word \<Rightarrow> kstate \<Rightarrow> (result \<times> kstate) option" where
  "do_ipc K r1 r2 r3 s =
    (let caller = proc_ptr s; call_nr = sint r1 in
     if RTS_ISSET (procs s caller) RTS_SLOT_FREE then None
     else do {
       traced \<leftarrow> trace_call K caller r1 r2 r3 (s\<lparr>kbill_ipc := caller\<rparr>);
       case traced of
         Inl res \<Rightarrow> Some res
       | Inr s1 \<Rightarrow> if MF_ISSET (procs s1 caller) MF_DELIVERMSG then None else ipc_switch K caller call_nr r2 r3 s1 })"

text \<open>A call that was deferred by tracing is made when the process is about to run again.\<close>

definition arch_do_syscall :: "kenv \<Rightarrow> int \<Rightarrow> kstate \<Rightarrow> kstate option" where
  "arch_do_syscall K p s =
    (if p \<noteq> proc_ptr s \<or> \<not> MF_ISSET (procs s p) MF_SC_DEFER then None
     else let (r1, r2, r3) = p_defer (procs s p) in do {
       (r, s1) \<leftarrow> do_ipc K r1 r2 r3 s;
       Some (upd_proc p (\<lambda>x. x\<lparr>p_retreg := r\<rparr>) s1) })"

text \<open>The message waiting for a process is copied into its memory before it runs.\<close>

definition delivermsg :: "kenv \<Rightarrow> int \<Rightarrow> kstate \<Rightarrow> kstate option" where
  "delivermsg K rp s =
    (if \<not> MF_ISSET (procs s rp) MF_DELIVERMSG \<or> m_source (p_delivermsg (procs s rp)) = NONE then None
     else let fault = copy_msg_to_user K (p_delivermsg_vir (procs s rp)) in do {
       s1 \<leftarrow> (if fault then cause_sig K rp (SIGSEGV K) s else Some s);
       let s2 = upd_proc rp (\<lambda>x. unset_misc MF_DELIVERMSG (x\<lparr>p_delivermsg := (p_delivermsg x)\<lparr>m_source := NONE\<rparr>\<rparr>)) s1;
       Some (if MF_ISSET (procs s2 rp) MF_CONTEXT_SET then s2
         else upd_proc rp (\<lambda>x. x\<lparr>p_retreg := if fault then RFAULT else ROK\<rparr>) s2) })"

section \<open>Running out of quantum\<close>

definition reset_proc_accounting :: "kproc \<Rightarrow> kproc" where
  "reset_proc_accounting p = p\<lparr>preempted := 0, ipc_sync := 0, ipc_async := 0, dequeues := 0,
    time_in_queue := 0, enter_queue := 0\<rparr>"

definition notify_scheduler :: "kenv \<Rightarrow> int \<Rightarrow> kstate \<Rightarrow> kstate option" where
  "notify_scheduler K p s =
    (if proc_kernel_scheduler s p then None
     else do {
       s1 \<leftarrow> RTS_SET K p RTS_NO_QUANTUM s;
       sched \<leftarrow> p_scheduler (procs s1 p);
       let x = procs s1 p;
       let m_no_quantum = \<lparr>m_source = p_endpoint x, m_type = SCHEDULING_NO_QUANTUM,
         m_body = Accounting (cpu_time_2_ms K (time_in_queue x)) (dequeues x) (ipc_sync x) (ipc_async x)
           (preempted x) 0 (cpu_load K)\<rparr>;
       (err, s2) \<leftarrow> mini_send K p (p_endpoint (procs s1 sched)) (Kernel_msg m_no_quantum) FROM_KERNEL
         (upd_proc p reset_proc_accounting s1);
       if err \<noteq> ROK then None else Some s2 })"

definition proc_no_time :: "kenv \<Rightarrow> int \<Rightarrow> kstate \<Rightarrow> kstate option" where
  "proc_no_time K p s =
    (if \<not> proc_kernel_scheduler s p \<and> s_flags (priv_of s p) AND PREEMPTIBLE \<noteq> 0 then notify_scheduler K p s
     else Some (upd_proc p (\<lambda>x. x\<lparr>p_cpu_time_left := ms_2_cpu_time K (p_quantum_size_ms x)\<rparr>) s))"

end
