(* ===== verification/Kernel_Frame.thy ===== *)
theory Kernel_Frame
  imports Kernel_Ipc
begin

unbundle bit_operations_syntax

text \<open>
  The invariant of the kernel's message passing, first the part that notifications and signals rely on, and
  what the operations that only wake processes up leave unchanged. Each operation is shown to return, so
  that no assertion of the source fails and no loop runs on, and to keep the invariant.
\<close>

section \<open>Flags\<close>

lemma and_exp_eq_iff:
  assumes "n < 32"
  shows "(x AND 2 ^ n = (2 ^ n :: 32 word)) = bit x n"
proof
  assume "x AND 2 ^ n = 2 ^ n"
  then have "bit (x AND 2 ^ n) n" using assms by (simp add: bit_exp_iff)
  then show "bit x n" by (simp add: bit_and_iff)
next
  assume "bit x n"
  then show "x AND 2 ^ n = 2 ^ n" by (intro bit_word_eqI) (auto simp: bit_and_iff bit_exp_iff)
qed

lemma and_exp_neq_0_iff: "(x AND 2 ^ n \<noteq> (0 :: 32 word)) = bit x n"
  by (simp add: and_exp_eq_0_iff_not_bit)

lemma flag_exps:
  "RTS_SLOT_FREE = 2 ^ 0" "RTS_PROC_STOP = 2 ^ 1" "RTS_SENDING = 2 ^ 2" "RTS_RECEIVING = 2 ^ 3" "RTS_SIGNALED = 2 ^ 4"
  "RTS_SIG_PENDING = 2 ^ 5" "RTS_NO_PRIV = 2 ^ 7" "RTS_NO_ENDPOINT = 2 ^ 8" "RTS_PREEMPTED = 2 ^ 14"
  "RTS_NO_QUANTUM = 2 ^ 15" "MF_REPLY_PEND = 2 ^ 0" "MF_DELIVERMSG = 2 ^ 6" "MF_SIG_DELAY = 2 ^ 7"
  "MF_SC_ACTIVE = 2 ^ 8" "MF_SC_DEFER = 2 ^ 9" "MF_SC_TRACE = 2 ^ 10" "MF_SENDING_FROM_KERNEL = 2 ^ 13"
  by (simp_all add: RTS_SLOT_FREE_def RTS_PROC_STOP_def RTS_SENDING_def RTS_RECEIVING_def RTS_SIGNALED_def
    RTS_SIG_PENDING_def RTS_NO_PRIV_def RTS_NO_ENDPOINT_def RTS_PREEMPTED_def RTS_NO_QUANTUM_def MF_REPLY_PEND_def
    MF_DELIVERMSG_def MF_SIG_DELAY_def MF_SC_ACTIVE_def MF_SC_DEFER_def MF_SC_TRACE_def MF_SENDING_FROM_KERNEL_def)

abbreviation free :: "kstate \<Rightarrow> int \<Rightarrow> bool" where "free s \<equiv> \<lambda>p. bit (rts s p) 0"
abbreviation sending :: "kstate \<Rightarrow> int \<Rightarrow> bool" where "sending s \<equiv> \<lambda>p. bit (rts s p) 2"
abbreviation receiving :: "kstate \<Rightarrow> int \<Rightarrow> bool" where "receiving s \<equiv> \<lambda>p. bit (rts s p) 3"
abbreviation dead :: "kstate \<Rightarrow> int \<Rightarrow> bool" where "dead s \<equiv> \<lambda>p. bit (rts s p) 8"
abbreviation delivering :: "kstate \<Rightarrow> int \<Rightarrow> bool" where "delivering s \<equiv> \<lambda>p. bit (p_misc_flags (procs s p)) 6"

lemma RTS_ISSET_bit:
  "RTS_ISSET x RTS_SLOT_FREE = bit (p_rts_flags x) 0" "RTS_ISSET x RTS_SENDING = bit (p_rts_flags x) 2"
  "RTS_ISSET x RTS_RECEIVING = bit (p_rts_flags x) 3" "RTS_ISSET x RTS_NO_ENDPOINT = bit (p_rts_flags x) 8"
  "RTS_ISSET x RTS_SIGNALED = bit (p_rts_flags x) 4"
  unfolding RTS_ISSET_def flag_exps by (rule and_exp_eq_iff; simp)+

lemma P_BLOCKEDON_bit:
  "P_BLOCKEDON x = (if bit (p_rts_flags x) 2 then p_sendto_e x
    else if bit (p_rts_flags x) 3 then p_getfrom_e x else NONE)"
  unfolding P_BLOCKEDON_def flag_exps and_exp_neq_0_iff by (rule refl)

lemma MF_ISSET_bit:
  "MF_ISSET x MF_DELIVERMSG = bit (p_misc_flags x) 6" "MF_ISSET x MF_REPLY_PEND = bit (p_misc_flags x) 0"
  "MF_ISSET x MF_SC_ACTIVE = bit (p_misc_flags x) 8" "MF_ISSET x MF_SC_DEFER = bit (p_misc_flags x) 9"
  unfolding MF_ISSET_def flag_exps and_exp_neq_0_iff by (rule refl)+

lemma WILLRECEIVE_bit:
  "WILLRECEIVE x e \<longleftrightarrow> bit (p_rts_flags x) 3 \<and> \<not> bit (p_rts_flags x) 2 \<and> (p_getfrom_e x = ANY \<or> p_getfrom_e x = e)"
  unfolding WILLRECEIVE_def RTS_ISSET_bit by blast

lemma bit_flags:
  "bit RTS_SLOT_FREE n = (n = 0)" "bit RTS_PROC_STOP n = (n = 1)" "bit RTS_SENDING n = (n = 2)"
  "bit RTS_RECEIVING n = (n = 3)" "bit RTS_SIGNALED n = (n = 4)" "bit RTS_SIG_PENDING n = (n = 5)"
  "bit RTS_NO_PRIV n = (n = 7)" "bit RTS_NO_ENDPOINT n = (n = 8)" "bit RTS_PREEMPTED n = (n = 14)"
  "bit RTS_NO_QUANTUM n = (n = 15)" "bit MF_REPLY_PEND n = (n = 0)" "bit MF_DELIVERMSG n = (n = 6)"
  "bit MF_SIG_DELAY n = (n = 7)" "bit MF_SC_ACTIVE n = (n = 8)" "bit MF_SC_DEFER n = (n = 9)"
  "bit MF_SC_TRACE n = (n = 10)" "bit MF_SENDING_FROM_KERNEL n = (n = 13)"
  unfolding flag_exps bit_exp_iff by auto

lemmas flag_simps = RTS_ISSET_bit P_BLOCKEDON_bit MF_ISSET_bit WILLRECEIVE_bit bit_flags
  bit_or_iff bit_and_iff bit_not_iff

section \<open>The basic invariant\<close>

definition in_use :: "kstate \<Rightarrow> int \<Rightarrow> bool" where
  "in_use s p \<longleftrightarrow> isokprocn p \<and> \<not> free s p"

definition live :: "kstate \<Rightarrow> int \<Rightarrow> bool" where
  "live s e \<longleftrightarrow> in_use s (ENDPOINT_P e) \<and> p_endpoint (procs s (ENDPOINT_P e)) = e"

text \<open>A free slot has no other flag, so that the two tests for it in the source agree.\<close>

definition slots_ok :: "kstate \<Rightarrow> bool" where
  "slots_ok s \<longleftrightarrow> (\<forall>p. isokprocn p \<longrightarrow>
    (free s p \<longrightarrow> rts s p = RTS_SLOT_FREE) \<and> ENDPOINT_P (p_endpoint (procs s p)) = p \<and> queue_ok (priority s p))
    \<and> in_use s (proc_ptr s)"

text \<open>Whoever waits for a message has none that still has to be copied to it.\<close>

definition delivery_ok :: "kstate \<Rightarrow> bool" where
  "delivery_ok s \<longleftrightarrow> (\<forall>p. isokprocn p \<longrightarrow> receiving s p \<longrightarrow> \<not> delivering s p)"

text \<open>A process that shares its privilege structure with no other.\<close>

definition exclusive :: "kstate \<Rightarrow> int \<Rightarrow> bool" where
  "exclusive s p \<longleftrightarrow> in_use s p \<and> s_proc_nr (priv_of s p) = p \<and>
    (\<forall>q. in_use s q \<longrightarrow> p_priv (procs s q) = p_priv (procs s p) \<longrightarrow> q = p)"

text \<open>
  Privileges: the structures know their index; the kernel tasks that send notifications and every process
  that may do so have their own structure; no process may send to itself; signal managers exist.
\<close>

definition privs_ok :: "kstate \<Rightarrow> bool" where
  "privs_ok s \<longleftrightarrow> (\<forall>i. s_id (privs s i) = i) \<and> exclusive s SYSTEM \<and> exclusive s ASYNCM \<and>
    (\<forall>p. in_use s p \<longrightarrow> p_priv (procs s p) < NR_SYS_PROCS \<and>
      (bit (s_trap_mask (priv_of s p)) (nat NOTIFY) \<longrightarrow> exclusive s p) \<and>
      \<not> get_sys_bit (s_ipc_to (priv_of s p)) (p_priv (procs s p)) \<and>
      (s_sig_mgr (priv_of s p) = SELF \<or> live s (s_sig_mgr (priv_of s p))))"

definition notify_ok :: "kstate \<Rightarrow> bool" where
  "notify_ok s \<longleftrightarrow> (\<forall>i j. get_sys_bit (s_notify_pending (privs s i)) j \<longrightarrow>
    (\<exists>p. exclusive s p \<and> p_priv (procs s p) = j))"

definition base_ok :: "kstate \<Rightarrow> bool" where
  "base_ok s \<longleftrightarrow> queues_ok s \<and> slots_ok s \<and> delivery_ok s \<and> privs_ok s \<and> notify_ok s"

lemma isokendpt_live:
  assumes "slots_ok s"
  shows "isokendpt s e = (if live s e then Some (ENDPOINT_P e) else None)"
proof -
  have "isemptyp (procs s p) = free s p" if "isokprocn p" for p
    using assms that by (auto simp: slots_ok_def isemptyp_def RTS_SLOT_FREE_def)
  then show ?thesis by (auto simp: isokendpt_def Let_def live_def in_use_def)
qed

lemma base_ok_live: "base_ok s \<Longrightarrow> isokendpt s e = (if live s e then Some (ENDPOINT_P e) else None)"
  by (simp add: base_ok_def isokendpt_live)

lemma base_ok_self: "base_ok s \<Longrightarrow> in_use s p \<Longrightarrow> ENDPOINT_P (p_endpoint (procs s p)) = p \<and> live s (p_endpoint (procs s p))"
  by (auto simp: base_ok_def slots_ok_def in_use_def live_def)

lemma ok_slot_not_special:
  assumes "isokprocn (ENDPOINT_P e)"
  shows "e \<noteq> ANY" "e \<noteq> NONE" "e \<noteq> SELF"
  using assms by (auto simp: isokprocn_def ENDPOINT_P_eq endpoint_consts push_bit_eq_mult)

section \<open>Waking up\<close>

text \<open>The fields of a process that decide where it stands in the tables of waiting processes.\<close>

definition proc_links :: "kproc \<Rightarrow> nat \<times> int \<times> int option \<times> int option \<times> int \<times> int \<times> int" where
  "proc_links x = (p_priv x, p_priority x, p_caller_q x, p_q_link x, p_getfrom_e x, p_sendto_e x, p_endpoint x)"

definition priv_part :: "kpriv \<Rightarrow> kpriv" where
  "priv_part v = v\<lparr>s_asyntab := 0, s_asynsize := 0, s_notify_pending := 0, s_asyn_pending := 0,
    s_int_pending := 0, s_sig_pending := {}\<rparr>"

text \<open>
  From \<open>s\<close> to \<open>s'\<close> some processes may have stopped waiting for a message, and nothing else of what
  the waiting processes depend on has changed.
\<close>

definition wakes :: "kstate \<Rightarrow> kstate \<Rightarrow> bool" where
  "wakes s s' \<longleftrightarrow> (\<forall>p. proc_links (procs s' p) = proc_links (procs s p) \<and> free s' p = free s p \<and>
      sending s' p = sending s p \<and> dead s' p = dead s p \<and> (receiving s' p \<longrightarrow> receiving s p)) \<and>
    (\<forall>i. priv_part (privs s' i) = priv_part (privs s i)) \<and> proc_ptr s' = proc_ptr s"

lemma wakes_refl [simp, intro]: "wakes s s"
  by (simp add: wakes_def)

lemma wakes_trans [trans]: "wakes s t \<Longrightarrow> wakes t u \<Longrightarrow> wakes s u"
  by (simp add: wakes_def)

lemma priv_part_fields:
  assumes "priv_part v = priv_part w"
  shows "s_proc_nr v = s_proc_nr w" "s_id v = s_id w" "s_flags v = s_flags w" "s_trap_mask v = s_trap_mask w"
    "s_ipc_to v = s_ipc_to w" "s_sig_mgr v = s_sig_mgr w" "s_bak_sig_mgr v = s_bak_sig_mgr w"
  using assms by (cases v; cases w; simp add: priv_part_def)+

lemma wakes_fields:
  assumes "wakes s s'"
  shows "p_priv (procs s' p) = p_priv (procs s p)" "priority s' p = priority s p"
    "p_caller_q (procs s' p) = p_caller_q (procs s p)" "p_q_link (procs s' p) = p_q_link (procs s p)"
    "p_getfrom_e (procs s' p) = p_getfrom_e (procs s p)" "p_sendto_e (procs s' p) = p_sendto_e (procs s p)"
    "p_endpoint (procs s' p) = p_endpoint (procs s p)"
    "free s' p = free s p" "sending s' p = sending s p" "dead s' p = dead s p"
    "receiving s' p \<Longrightarrow> receiving s p" "proc_ptr s' = proc_ptr s"
    "s_proc_nr (privs s' i) = s_proc_nr (privs s i)" "s_id (privs s' i) = s_id (privs s i)"
    "s_flags (privs s' i) = s_flags (privs s i)" "s_trap_mask (privs s' i) = s_trap_mask (privs s i)"
    "s_ipc_to (privs s' i) = s_ipc_to (privs s i)" "s_sig_mgr (privs s' i) = s_sig_mgr (privs s i)"
  using assms priv_part_fields [of "privs s' i" "privs s i"] by (auto simp: wakes_def proc_links_def)

text \<open>What the basic invariant depends on, besides the queues and the pending messages.\<close>

definition steady :: "kstate \<Rightarrow> kstate \<Rightarrow> bool" where
  "steady s s' \<longleftrightarrow> (\<forall>p. p_priv (procs s' p) = p_priv (procs s p) \<and> priority s' p = priority s p \<and>
      p_endpoint (procs s' p) = p_endpoint (procs s p) \<and> free s' p = free s p) \<and>
    (\<forall>i. priv_part (privs s' i) = priv_part (privs s i)) \<and> proc_ptr s' = proc_ptr s"

lemma wakes_steady: "wakes s s' \<Longrightarrow> steady s s'"
  by (simp add: wakes_def steady_def proc_links_def)

lemma steady_trans [trans]: "steady s t \<Longrightarrow> steady t u \<Longrightarrow> steady s u"
  by (simp add: steady_def)

lemma steady_fields:
  assumes "steady s s'"
  shows "p_priv (procs s' p) = p_priv (procs s p)" "priority s' p = priority s p"
    "p_endpoint (procs s' p) = p_endpoint (procs s p)" "free s' p = free s p" "proc_ptr s' = proc_ptr s"
    "s_proc_nr (privs s' i) = s_proc_nr (privs s i)" "s_id (privs s' i) = s_id (privs s i)"
    "s_flags (privs s' i) = s_flags (privs s i)" "s_trap_mask (privs s' i) = s_trap_mask (privs s i)"
    "s_ipc_to (privs s' i) = s_ipc_to (privs s i)" "s_sig_mgr (privs s' i) = s_sig_mgr (privs s i)"
  using assms priv_part_fields [of "privs s' i" "privs s i"] by (auto simp: steady_def)

lemma steady_use:
  assumes "steady s s'"
  shows "in_use s' p = in_use s p" "live s' e = live s e" "exclusive s' p = exclusive s p"
  using steady_fields [OF assms] by (simp_all add: in_use_def live_def exclusive_def)

lemmas wakes_use = steady_use [OF wakes_steady]

lemma steady_privs_ok: "steady s s' \<Longrightarrow> privs_ok s' = privs_ok s"
  using steady_fields [of s s'] steady_use [of s s'] by (simp add: privs_ok_def)

lemma base_ok_steady:
  assumes "steady s s'" and "base_ok s" and "queues_ok s'" and "delivery_ok s'" and "notify_ok s'"
    and "\<And>p. isokprocn p \<Longrightarrow> free s p \<Longrightarrow> rts s' p = rts s p"
  shows "base_ok s'"
proof -
  have "slots_ok s'"
    using assms(2,6) steady_fields [OF assms(1)] steady_use(1) [OF assms(1)]
    by (auto simp: base_ok_def slots_ok_def)
  with assms steady_privs_ok [OF assms(1)] show ?thesis by (simp add: base_ok_def)
qed

lemmas base_okI = base_ok_steady [OF wakes_steady]

text \<open>Updates of the tables that only concern other fields.\<close>

lemma wakes_upd_proc:
  assumes "proc_links (f (procs s p)) = proc_links (procs s p)" and "p_rts_flags (f (procs s p)) = rts s p"
  shows "wakes s (upd_proc p f s)"
  using assms by (simp add: wakes_def)

lemma wakes_upd_priv:
  assumes "\<And>v. priv_part (f v) = priv_part v"
  shows "wakes s (upd_priv i f s)" "wakes s (upd_priv_of p f s)"
  using assms by (simp_all add: wakes_def upd_priv_of_def)

lemma notify_ok_steady:
  assumes "steady s s'" and "notify_ok s"
    and "\<And>i j. get_sys_bit (s_notify_pending (privs s' i)) j \<Longrightarrow> get_sys_bit (s_notify_pending (privs s i)) j"
  shows "notify_ok s'"
  unfolding notify_ok_def steady_use(3) [OF assms(1)] steady_fields(1) [OF assms(1)]
  using assms(2,3) unfolding notify_ok_def by blast

lemmas notify_okI = notify_ok_steady [OF wakes_steady]

section \<open>Setting and clearing flags\<close>

lemma sched_frame_wakes:
  assumes "sched_frame s s'" and "\<And>p. free s' p = free s p" "\<And>p. sending s' p = sending s p"
    "\<And>p. dead s' p = dead s p" "\<And>p. receiving s' p \<Longrightarrow> receiving s p"
  shows "wakes s s'"
  using assms(2-) sched_frame_fields [OF assms(1)] by (simp add: wakes_def proc_links_def)

lemma sched_frame_notify: "sched_frame s s' \<Longrightarrow> notify_ok s \<Longrightarrow> wakes s s' \<Longrightarrow> notify_ok s'"
  by (rule notify_okI) (auto simp: sched_frame_def)

lemma base_ok_parts:
  assumes "base_ok s"
  shows "queues_ok s" "slots_ok s" "delivery_ok s" "privs_ok s" "notify_ok s" "in_use s (proc_ptr s)"
    "isokprocn p \<Longrightarrow> queue_ok (priority s p)"
  using assms by (auto simp: base_ok_def slots_ok_def)

lemma RTS_SET_base:
  assumes ok: "base_ok s" and p: "in_use s p" and f: "\<not> bit f 0" "\<not> bit f 2" "\<not> bit f 3" "\<not> bit f 8"
  obtains s' where "RTS_SET K p f s = Some s'" and "base_ok s'" and "wakes s s'" and "sched_frame s s'"
    and "\<And>x. rts s' x = (if x = p then rts s p OR f else rts s x)"
proof -
  from p have "isokprocn p" by (simp add: in_use_def)
  from RTS_SET_queues [OF base_ok_parts(1) [OF ok] this, of K f] obtain s' where
    s': "RTS_SET K p f s = Some s'" and q: "queues_ok s'" by auto
  have fr: "sched_frame s s'" and rts: "\<And>x. rts s' x = (if x = p then rts s p OR f else rts s x)"
    by (rule RTS_SET_frame [OF s'])+
  have w: "wakes s s'" using f by (intro sched_frame_wakes [OF fr]) (auto simp: rts bit_or_iff split: if_splits)
  have "delivery_ok s'"
    using base_ok_parts(3) [OF ok] wakes_fields(11) [OF w] sched_frame_fields(2) [OF fr]
    by (auto simp: delivery_ok_def)
  moreover have "notify_ok s'" by (rule sched_frame_notify [OF fr base_ok_parts(5) [OF ok] w])
  moreover have "isokprocn x \<Longrightarrow> free s x \<Longrightarrow> rts s' x = rts s x" for x
    using p by (auto simp: rts in_use_def)
  ultimately have "base_ok s'" using base_okI [OF w ok q] by blast
  with s' w fr rts show ?thesis by (intro that)
qed

lemma RTS_UNSET_bits:
  assumes "queues_ok s" and "isokprocn p" and "queue_ok (priority s p)"
  obtains s' where "RTS_UNSET K p f s = Some s'" and "queues_ok s'" and "sched_frame s s'"
    and "\<And>x n. n \<noteq> 14 \<Longrightarrow> bit (rts s' x) n \<longleftrightarrow> bit (rts s x) n \<and> \<not> (x = p \<and> bit f n)"
    and "\<And>x. x \<noteq> p \<Longrightarrow> x \<noteq> proc_ptr s \<Longrightarrow> rts s' x = rts s x"
proof -
  obtain s' where s': "RTS_UNSET K p f s = Some s'" "queues_ok s'" "sched_frame s s'"
    and pre: "preempts (upd_proc p (unset_rts f) s) s'"
    by (rule RTS_UNSET_queues [OF assms])
  let ?t = "upd_proc p (unset_rts f) s"
  have pre': "rts s' x = rts ?t x \<or> x = proc_ptr s \<and> rts s' x = rts ?t x OR RTS_PREEMPTED" for x
    using pre unfolding preempts_def upd_proc_others by blast
  have "bit (rts s' x) n \<longleftrightarrow> bit (rts s x) n \<and> \<not> (x = p \<and> bit f n)" if "n \<noteq> 14" for x n
  proof -
    have "bit (rts s' x) n = bit (rts ?t x) n"
      using pre' [of x] that by (auto simp: bit_or_iff bit_flags)
    then show ?thesis
      using bit_imp_le_length [of "rts s p" n] by (auto simp: bit_and_iff bit_not_iff)
  qed
  moreover have "rts s' x = rts s x" if "x \<noteq> p" "x \<noteq> proc_ptr s" for x
    using pre' [of x] that by simp
  ultimately show ?thesis by (rule that [OF s'])
qed

text \<open>
  A process is given a message: the update that stores it, then the end of its wait. Between the
  two steps the process still counts as waiting.
\<close>

lemma wake_receiver:
  assumes ok: "base_ok s" and w: "wakes s s1" and dst: "in_use s dst"
    and q: "queues_ok s1" and n: "notify_ok s1" and rts: "\<And>p. rts s1 p = rts s p"
    and del: "\<And>p. p \<noteq> dst \<Longrightarrow> delivering s1 p = delivering s p"
  obtains s2 where "RTS_UNSET K dst RTS_RECEIVING s1 = Some s2" and "base_ok s2" and "wakes s s2"
    and "sched_frame s1 s2" and "\<And>p. receiving s2 p \<longleftrightarrow> receiving s p \<and> p \<noteq> dst"
proof -
  have d: "isokprocn dst" using dst by (simp add: in_use_def)
  have "queue_ok (priority s1 dst)"
    using base_ok_parts(7) [OF ok d] wakes_fields(2) [OF w] by simp
  then obtain s2 where s2: "RTS_UNSET K dst RTS_RECEIVING s1 = Some s2" and q2: "queues_ok s2"
    and fr: "sched_frame s1 s2"
    and bits: "\<And>x n. n \<noteq> 14 \<Longrightarrow> bit (rts s2 x) n \<longleftrightarrow> bit (rts s1 x) n \<and> \<not> (x = dst \<and> bit RTS_RECEIVING n)"
    and same: "\<And>x. x \<noteq> dst \<Longrightarrow> x \<noteq> proc_ptr s1 \<Longrightarrow> rts s2 x = rts s1 x"
    by (rule RTS_UNSET_bits [OF q d, of K RTS_RECEIVING]) blast+
  have recv: "receiving s2 p \<longleftrightarrow> receiving s p \<and> p \<noteq> dst" for p
    using bits [of 3 p] rts [of p] by (auto simp: bit_flags)
  have w12: "wakes s1 s2"
    by (rule sched_frame_wakes [OF fr]) (auto simp: bits bit_flags)
  have w2: "wakes s s2" using w w12 by (rule wakes_trans)
  have "delivery_ok s2"
    using base_ok_parts(3) [OF ok] recv del sched_frame_fields(2) [OF fr]
    by (auto simp: delivery_ok_def)
  moreover have "notify_ok s2" by (rule sched_frame_notify [OF fr n w12])
  moreover have "rts s2 p = rts s p" if "isokprocn p" "free s p" for p
  proof -
    have "p \<noteq> dst" "p \<noteq> proc_ptr s1"
      using that dst base_ok_parts(6) [OF ok] wakes_fields(12) [OF w] by (auto simp: in_use_def)
    then show ?thesis using same rts by simp
  qed
  ultimately have "base_ok s2" using base_okI [OF w2 ok q2] by blast
  then show ?thesis using s2 w2 fr recv by (intro that)
qed

section \<open>Notifications and signals\<close>

lemma proc_links_updates [simp]:
  "proc_links (set_misc f x) = proc_links x" "proc_links (unset_misc f x) = proc_links x"
  "proc_links (x\<lparr>p_delivermsg := m\<rparr>) = proc_links x" "proc_links (x\<lparr>p_bx := b\<rparr>) = proc_links x"
  "proc_links (x\<lparr>p_sendmsg := m\<rparr>) = proc_links x" "proc_links (x\<lparr>p_retreg := r\<rparr>) = proc_links x"
  "proc_links (x\<lparr>p_delivermsg_vir := a\<rparr>) = proc_links x" "proc_links (x\<lparr>p_pending := ps\<rparr>) = proc_links x"
  "proc_links (x\<lparr>p_defer := d\<rparr>) = proc_links x" "proc_links (x\<lparr>ipc_sync := k\<rparr>) = proc_links x"
  "proc_links (x\<lparr>ipc_async := k\<rparr>) = proc_links x"
  by (simp_all add: proc_links_def set_misc_def unset_misc_def)

lemma status_updates [simp]:
  "proc_links (IPC_STATUS_ADD m x) = proc_links x" "p_rts_flags (IPC_STATUS_ADD m x) = p_rts_flags x"
  "p_misc_flags (IPC_STATUS_ADD m x) = p_misc_flags x" "p_nextready (IPC_STATUS_ADD m x) = p_nextready x"
  "p_priority (IPC_STATUS_ADD m x) = p_priority x" "p_delivermsg (IPC_STATUS_ADD m x) = p_delivermsg x"
  "p_endpoint (IPC_STATUS_ADD m x) = p_endpoint x" "p_sendmsg (IPC_STATUS_ADD m x) = p_sendmsg x"
  "p_q_link (IPC_STATUS_ADD m x) = p_q_link x"
  by (simp_all add: IPC_STATUS_ADD_def)

lemma misc_updates [simp]:
  "p_rts_flags (set_misc f x) = p_rts_flags x" "p_nextready (set_misc f x) = p_nextready x"
  "p_priority (set_misc f x) = p_priority x" "p_misc_flags (set_misc f x) = p_misc_flags x OR f"
  "p_rts_flags (unset_misc f x) = p_rts_flags x" "p_nextready (unset_misc f x) = p_nextready x"
  "p_priority (unset_misc f x) = p_priority x" "p_misc_flags (unset_misc f x) = p_misc_flags x AND NOT f"
  "p_delivermsg (set_misc f x) = p_delivermsg x" "p_delivermsg (unset_misc f x) = p_delivermsg x"
  "p_endpoint (set_misc f x) = p_endpoint x" "p_endpoint (unset_misc f x) = p_endpoint x"
  "p_sendmsg (set_misc f x) = p_sendmsg x" "p_sendmsg (unset_misc f x) = p_sendmsg x"
  "p_q_link (set_misc f x) = p_q_link x" "p_q_link (unset_misc f x) = p_q_link x"
  by (simp_all add: set_misc_def unset_misc_def)

lemma deliver_updates [simp]:
  "proc_links (deliver e m c x) = proc_links x" "p_rts_flags (deliver e m c x) = p_rts_flags x"
  "p_nextready (deliver e m c x) = p_nextready x" "p_priority (deliver e m c x) = p_priority x"
  "p_misc_flags (deliver e m c x) = p_misc_flags x OR MF_DELIVERMSG"
  "p_delivermsg (deliver e m c x) = m\<lparr>m_source := e\<rparr>" "p_endpoint (deliver e m c x) = p_endpoint x"
  by (simp_all add: deliver_def IPC_STATUS_ADD_CALL_def)

lemma priv_part_updates [simp]:
  "priv_part (v\<lparr>s_notify_pending := m\<rparr>) = priv_part v" "priv_part (v\<lparr>s_asyn_pending := m\<rparr>) = priv_part v"
  "priv_part (v\<lparr>s_int_pending := i\<rparr>) = priv_part v" "priv_part (v\<lparr>s_sig_pending := ps\<rparr>) = priv_part v"
  "priv_part (v\<lparr>s_asyntab := t, s_asynsize := k\<rparr>) = priv_part v"
  by (simp_all add: priv_part_def)

text \<open>Updates of a privilege structure that do not set a notification bit.\<close>

lemma base_ok_upd_priv_of:
  assumes "base_ok s" and "\<And>v. priv_part (f v) = priv_part v"
    and "\<And>v j. get_sys_bit (s_notify_pending (f v)) j \<Longrightarrow> get_sys_bit (s_notify_pending v) j"
  shows "base_ok (upd_priv_of p f s)" "wakes s (upd_priv_of p f s)"
proof -
  show w: "wakes s (upd_priv_of p f s)" by (rule wakes_upd_priv) (rule assms(2))
  have "notify_ok (upd_priv_of p f s)"
    by (rule notify_okI [OF w base_ok_parts(5) [OF assms(1)]])
      (use assms(3) in \<open>auto split: if_splits\<close>)
  moreover have "queues_ok (upd_priv_of p f s)" using base_ok_parts(1) [OF assms(1)] by simp
  moreover have "delivery_ok (upd_priv_of p f s)"
    using base_ok_parts(3) [OF assms(1)] by (simp add: delivery_ok_def)
  ultimately show "base_ok (upd_priv_of p f s)" using base_okI [OF w assms(1)] by simp
qed

lemma base_ok_upd_proc:
  assumes "base_ok s" and "proc_links (f (procs s p)) = proc_links (procs s p)" and "p_rts_flags (f (procs s p)) = rts s p"
    and "p_nextready (f (procs s p)) = nextready s p"
    and "isokprocn p \<Longrightarrow> receiving s p \<Longrightarrow> \<not> bit (p_misc_flags (f (procs s p))) 6"
  shows "base_ok (upd_proc p f s)" "wakes s (upd_proc p f s)"
proof -
  show w: "wakes s (upd_proc p f s)" by (rule wakes_upd_proc) (rule assms(2,3))+
  have "queues_ok (upd_proc p f s) = queues_ok s"
    using assms(2-4) by (intro queues_ok_cong) (auto simp: proc_links_def)
  moreover have "notify_ok (upd_proc p f s)"
    by (rule notify_okI [OF w base_ok_parts(5) [OF assms(1)]]) simp
  moreover have "delivery_ok (upd_proc p f s)"
    using base_ok_parts(3) [OF assms(1)] assms(3,5) by (auto simp: delivery_ok_def)
  moreover have "rts (upd_proc p f s) x = rts s x" for x using assms(3) by simp
  ultimately show "base_ok (upd_proc p f s)"
    using base_okI [OF w assms(1)] base_ok_parts(1) [OF assms(1)] by blast
qed

lemma BuildNotifyMessage_wakes:
  assumes "base_ok s"
  shows "base_ok (snd (BuildNotifyMessage s src dst))" "wakes s (snd (BuildNotifyMessage s src dst))"
    "procs (snd (BuildNotifyMessage s src dst)) = procs s"
proof -
  have b: "base_ok (upd_priv_of dst (\<lambda>v. v\<lparr>s_int_pending := 0\<rparr>) s)" "wakes s (upd_priv_of dst (\<lambda>v. v\<lparr>s_int_pending := 0\<rparr>) s)"
    "base_ok (upd_priv_of dst (\<lambda>v. v\<lparr>s_sig_pending := {}\<rparr>) s)" "wakes s (upd_priv_of dst (\<lambda>v. v\<lparr>s_sig_pending := {}\<rparr>) s)"
    by (rule base_ok_upd_priv_of [OF assms]; simp)+
  then show "base_ok (snd (BuildNotifyMessage s src dst))" "wakes s (snd (BuildNotifyMessage s src dst))"
    "procs (snd (BuildNotifyMessage s src dst)) = procs s"
    using assms by (auto simp: BuildNotifyMessage_def Let_def)
qed

text \<open>The flags and messages of a process that only a delivery changes.\<close>

definition mail :: "kproc \<Rightarrow> 32 word \<times> kmessage \<times> kmessage" where
  "mail x = (p_misc_flags x, p_delivermsg x, p_sendmsg x)"

lemma sched_frame_mail: "sched_frame s s' \<Longrightarrow> mail (procs s' p) = mail (procs s p)"
  by (simp add: mail_def sched_frame_fields)

text \<open>A notification of \<open>p\<close> is with the process \<open>d\<close>, or it is noted as pending for it.\<close>

definition notified :: "kstate \<Rightarrow> int \<Rightarrow> int \<Rightarrow> bool" where
  "notified s p d \<longleftrightarrow> get_sys_bit (s_notify_pending (priv_of s d)) (s_id (priv_of s p)) \<or>
    \<not> receiving s d \<and> delivering s d \<and> m_type (p_delivermsg (procs s d)) = NOTIFY_MESSAGE \<and>
    m_source (p_delivermsg (procs s d)) = p_endpoint (procs s p)"

lemma mini_notify_base:
  assumes ok: "base_ok s" and c: "exclusive s caller"
  obtains r s' where "mini_notify K caller e s = Some (r, s')" and "base_ok s'" and "wakes s s'"
    and "\<And>p. \<not> receiving s p \<Longrightarrow> mail (procs s' p) = mail (procs s p)"
    and "live s e \<Longrightarrow> r = ROK \<and> notified s' caller (ENDPOINT_P e)"
proof (cases "live s e")
  case False
  then show ?thesis using ok by (intro that) (auto simp: mini_notify_def base_ok_live [OF ok])
next
  case True
  define dst where "dst = ENDPOINT_P e"
  have dst: "in_use s dst" "isokprocn dst" using True by (auto simp: live_def in_use_def dst_def)
  have e: "isokendpt s e = Some dst" using True by (simp add: base_ok_live [OF ok] dst_def)
  show ?thesis
  proof (cases "WILLRECEIVE (procs s dst) (p_endpoint (procs s caller)) \<and> \<not> MF_ISSET (procs s dst) MF_REPLY_PEND")
    case True
    then have recv: "receiving s dst" by (simp add: WILLRECEIVE_bit)
    then have nd: "\<not> delivering s dst" using base_ok_parts(3) [OF ok] dst by (simp add: delivery_ok_def)
    obtain msg s1 where m: "BuildNotifyMessage s caller dst = (msg, s1)" by fastforce
    have s1: "base_ok s1" "wakes s s1" "procs s1 = procs s"
      using BuildNotifyMessage_wakes [OF ok, of caller dst] by (simp_all add: m)
    let ?s2 = "upd_proc dst (deliver (p_endpoint (procs s caller)) msg NOTIFY) s1"
    have w2: "wakes s ?s2" by (rule wakes_trans [OF s1(2)]) (rule wakes_upd_proc; simp)
    have q2: "queues_ok ?s2" using base_ok_parts(1) [OF s1(1)] by simp
    have n2: "notify_ok ?s2"
      by (rule notify_okI [OF _ base_ok_parts(5) [OF s1(1)]]) (simp_all add: wakes_upd_proc)
    have r2: "\<And>p. rts ?s2 p = rts s p" by (simp add: s1(3))
    have d2: "\<And>p. p \<noteq> dst \<Longrightarrow> delivering ?s2 p = delivering s p" by (simp add: s1(3))
    obtain s3 where s3: "RTS_UNSET K dst RTS_RECEIVING ?s2 = Some s3" "base_ok s3" "wakes s s3" "sched_frame ?s2 s3"
        "\<And>p. receiving s3 p \<longleftrightarrow> receiving s p \<and> p \<noteq> dst"
      using wake_receiver [OF ok w2 dst(1) q2 n2 r2 d2, of K] by metis
    have "m_type msg = NOTIFY_MESSAGE" using m by (auto simp: BuildNotifyMessage_def Let_def split: if_splits)
    then have "notified s3 caller dst"
      using s3(5) [of dst] sched_frame_fields(2,12) [OF s3(4), of dst] wakes_fields(7) [OF s3(3), of caller]
      by (simp add: notified_def deliver_def IPC_STATUS_ADD_CALL_def bit_or_iff bit_flags)
    moreover note s3(1-4)
    moreover from this have "mail (procs s3 p) = mail (procs s p)" if "\<not> receiving s p" for p
      using sched_frame_mail [of ?s2 s3 p] recv that by (auto simp: s1(3))
    moreover from calculation have "mini_notify K caller e s = Some (ROK, s3)"
      using True nd by (simp add: mini_notify_def e m MF_ISSET_bit)
    ultimately show ?thesis by (intro that [of ROK s3]) (simp_all add: dst_def)
  next
    case False
    let ?s' = "set_notify_pending dst (s_id (priv_of s caller)) s"
    have id: "s_id (priv_of s caller) = p_priv (procs s caller)" "p_priv (procs s caller) < 64"
      using base_ok_parts(4) [OF ok] c by (auto simp: privs_ok_def exclusive_def NR_SYS_PROCS_def)
    have w: "wakes s ?s'" unfolding set_notify_pending_def by (rule wakes_upd_priv) simp
    have "notify_ok ?s'"
      unfolding notify_ok_def wakes_use(3) [OF w] wakes_fields(1) [OF w]
    proof (intro allI impI)
      fix i j assume "get_sys_bit (s_notify_pending (privs ?s' i)) j"
      then have "get_sys_bit (s_notify_pending (privs s i)) j \<or> j = p_priv (procs s caller)"
        using id by (auto simp: set_notify_pending_def get_set_sys_bit split: if_splits)
      then show "\<exists>p. exclusive s p \<and> p_priv (procs s p) = j"
        using base_ok_parts(5) [OF ok] c unfolding notify_ok_def by blast
    qed
    moreover have "procs ?s' = procs s" by (simp add: set_notify_pending_def)
    moreover have "queues_ok ?s'" using base_ok_parts(1) [OF ok] by (simp add: set_notify_pending_def)
    moreover have "delivery_ok ?s'" using base_ok_parts(3) [OF ok] calculation by (simp add: delivery_ok_def)
    ultimately have "base_ok ?s'" using base_okI [OF w ok] by simp
    moreover have "mini_notify K caller e s = Some (ROK, ?s')" using False by (auto simp: mini_notify_def e)
    moreover have "notified ?s' caller dst"
      using id wakes_fields(1) [OF w] by (auto simp: notified_def set_notify_pending_def get_set_sys_bit)
    ultimately show ?thesis using w \<open>procs ?s' = procs s\<close> by (intro that [of ROK ?s']) (simp_all add: dst_def)
  qed
qed

lemma send_sig_base:
  assumes ok: "base_ok s" and e: "live s e"
  obtains s' where "send_sig_or_panic K e sig s = Some s'" and "base_ok s'" and "wakes s s'"
    and "\<And>p. \<not> receiving s p \<Longrightarrow> mail (procs s' p) = mail (procs s p)"
proof -
  define p where "p = ENDPOINT_P e"
  define s1 where "s1 = upd_priv_of p (\<lambda>v. v\<lparr>s_sig_pending := sigaddset K sig (s_sig_pending v)\<rparr>) s"
  define s2 where "s2 = upd_proc p increase_proc_signals s1"
  have s1: "base_ok s1" "wakes s s1" "procs s1 = procs s"
    unfolding s1_def by (rule base_ok_upd_priv_of [OF ok]; simp)+ simp
  have s2: "base_ok s2" "wakes s1 s2"
    unfolding s2_def
    by (rule base_ok_upd_proc [OF s1(1)]; use base_ok_parts(3) [OF s1(1)] in
      \<open>simp add: increase_proc_signals_def proc_links_def delivery_ok_def\<close>)+
  have "exclusive s2 SYSTEM" using base_ok_parts(4) [OF s2(1)] by (simp add: privs_ok_def)
  then obtain r s3 where s3: "mini_notify K SYSTEM (p_endpoint (procs s2 p)) s2 = Some (r, s3)" "base_ok s3" "wakes s2 s3"
    and misc: "\<And>p. \<not> receiving s2 p \<Longrightarrow> mail (procs s3 p) = mail (procs s2 p)"
    using mini_notify_base [OF s2(1)] by metis
  have "isokendpt s e = Some p" using e by (simp add: base_ok_live [OF ok] p_def)
  then have "send_sig_or_panic K e sig s = Some s3"
    using s3(1) by (simp add: send_sig_or_panic_def send_sig_def s2_def s1_def Let_def)
  moreover have "wakes s s3" using s1(2) s2(2) s3(3) by (blast intro: wakes_trans)
  moreover have "mail (procs s3 q) = mail (procs s q)" if "\<not> receiving s q" for q
  proof -
    have "mail (procs s2 q) = mail (procs s q)"
      by (simp add: s2_def s1(3) increase_proc_signals_def mail_def)
    moreover have "\<not> receiving s2 q" using that wakes_fields(11) [OF s1(2)] wakes_fields(11) [OF s2(2)] by blast
    ultimately show ?thesis using misc by simp
  qed
  ultimately show ?thesis using s3(2) by (intro that)
qed

text \<open>A process that manages its own signals panics on a lethal one; otherwise raising a signal always works.\<close>

definition own_manager :: "kstate \<Rightarrow> int \<Rightarrow> bool" where
  "own_manager s p \<longleftrightarrow> s_sig_mgr (priv_of s p) = SELF \<or> s_sig_mgr (priv_of s p) = p_endpoint (procs s p)"

lemma cause_sig_base:
  assumes ok: "base_ok s" and p: "in_use s p" and valid: "sig_valid K sig"
    and lethal: "SIGS_IS_LETHAL K sig \<Longrightarrow> \<not> own_manager s p"
  obtains s' where "cause_sig K p sig s = Some s'" and "base_ok s'" and "wakes s s'"
    and "\<And>q. \<not> receiving s q \<Longrightarrow> mail (procs s' q) = mail (procs s q)"
proof -
  define mgr where "mgr = (if s_sig_mgr (priv_of s p) = SELF then p_endpoint (procs s p) else s_sig_mgr (priv_of s p))"
  have self: "live s (p_endpoint (procs s p))" using base_ok_self [OF ok p] by simp
  have mgr: "live s mgr"
    using base_ok_parts(4) [OF ok] p self by (auto simp: privs_ok_def mgr_def)
  show ?thesis
  proof (cases "p_endpoint (procs s p) = mgr")
    case True
    then have sig: "\<not> SIGS_IS_LETHAL K sig" using lethal by (auto simp: own_manager_def mgr_def split: if_splits)
    define s1 where "s1 = upd_priv_of p (\<lambda>v. v\<lparr>s_sig_pending := sigaddset K sig (s_sig_pending v)\<rparr>) s"
    have s1: "base_ok s1" "wakes s s1" "procs s1 = procs s"
      unfolding s1_def by (rule base_ok_upd_priv_of [OF ok]; simp)+ simp
    obtain s2 where s2: "send_sig_or_panic K (p_endpoint (procs s p)) (SIGKSIGSM K) s1 = Some s2" "base_ok s2" "wakes s1 s2"
      and misc: "\<And>q. \<not> receiving s1 q \<Longrightarrow> mail (procs s2 q) = mail (procs s1 q)"
      using send_sig_base [OF s1(1), of "p_endpoint (procs s p)"] self wakes_use(2) [OF s1(2)] by metis
    have "cause_sig K p sig s = Some s2"
      using True sig s2(1) by (subst cause_sig.simps) (simp add: Let_def s1_def mgr_def)
    then show ?thesis using s2(2) misc wakes_trans [OF s1(2) s2(3)] by (intro that [of s2]) (auto simp: s1(3))
  next
    case False
    show ?thesis
    proof (cases "sig \<in> p_pending (procs s p)")
      case True
      then have "cause_sig K p sig s = Some s"
        using False valid by (subst cause_sig.simps) (simp add: Let_def mgr_def)
      then show ?thesis using ok by (intro that) auto
    next
      case np: False
      define s1 where "s1 = upd_proc p (\<lambda>x. increase_proc_signals (x\<lparr>p_pending := sigaddset K sig (p_pending x)\<rparr>)) s"
      have s1: "base_ok s1" "wakes s s1"
        unfolding s1_def
        by (rule base_ok_upd_proc [OF ok]; use base_ok_parts(3) [OF ok] in
          \<open>simp add: increase_proc_signals_def proc_links_def delivery_ok_def\<close>)+
      have m1: "mail (procs s1 q) = mail (procs s q)" for q
        by (simp add: s1_def increase_proc_signals_def mail_def)
      show ?thesis
      proof (cases "RTS_ISSET (procs s1 p) RTS_SIGNALED")
        case True
        then have "cause_sig K p sig s = Some s1"
          using False np valid by (subst cause_sig.simps) (simp add: Let_def mgr_def s1_def)
        then show ?thesis using s1 m1 by (intro that)
      next
        case ns: False
        obtain s2 where s2: "RTS_SET K p (RTS_SIGNALED OR RTS_SIG_PENDING) s1 = Some s2" "base_ok s2" "wakes s1 s2"
          and fr: "sched_frame s1 s2"
          by (rule RTS_SET_base [OF s1(1), of p "RTS_SIGNALED OR RTS_SIG_PENDING"])
            (use p wakes_use(1) [OF s1(2)] in \<open>auto simp: bit_or_iff bit_flags\<close>)
        have w2: "wakes s s2" using s1(2) s2(3) by (rule wakes_trans)
        obtain s3 where s3: "send_sig_or_panic K mgr (SIGKSIG K) s2 = Some s3" "base_ok s3" "wakes s2 s3"
          and misc: "\<And>q. \<not> receiving s2 q \<Longrightarrow> mail (procs s3 q) = mail (procs s2 q)"
          using send_sig_base [OF s2(2), of mgr] mgr wakes_use(2) [OF w2] by metis
        have "cause_sig K p sig s = Some s3"
          using False np ns valid s2(1) s3(1) by (subst cause_sig.simps) (simp add: Let_def mgr_def s1_def)
        moreover have "mail (procs s3 q) = mail (procs s q)" if "\<not> receiving s q" for q
          using misc [of q] that wakes_fields(11) [OF w2] m1 sched_frame_mail [OF fr] by auto
        ultimately show ?thesis using s3 wakes_trans [OF w2 s3(3)] by (intro that)
      qed
    qed
  qed
qed

end
