(* ===== verification/Kernel_Wait.thy ===== *)
theory Kernel_Wait
  imports Kernel_Frame
begin

unbundle bit_operations_syntax

text \<open>
  Processes that wait for each other: the graph of who is blocked on whom, the detection of deadlocks, and
  the queues of processes that wait to send. The invariant says that the graph has no cycle.
\<close>

section \<open>The graph of waiting processes\<close>

definition waits :: "kstate \<Rightarrow> (int \<times> int) set" where
  "waits s = {(p, q). isokprocn p \<and> P_BLOCKEDON (procs s p) \<noteq> NONE \<and> P_BLOCKEDON (procs s p) \<noteq> ANY \<and>
    q = ENDPOINT_P (P_BLOCKEDON (procs s p))}"

text \<open>
  Senders wait for processes that exist, receivers for those or for any; a process that is blocked in both
  halves of a \<open>SENDREC\<close> waits for the same process in both.
\<close>

definition wait_ok :: "kstate \<Rightarrow> bool" where
  "wait_ok s \<longleftrightarrow> (\<forall>p. isokprocn p \<longrightarrow>
    (sending s p \<longrightarrow> live s (p_sendto_e (procs s p)) \<and> in_use s p \<and> \<not> dead s p \<and>
      (receiving s p \<longrightarrow> p_getfrom_e (procs s p) = p_sendto_e (procs s p))) \<and>
    (receiving s p \<longrightarrow> p_getfrom_e (procs s p) = ANY \<or> live s (p_getfrom_e (procs s p))))"

lemma wait_ok_target:
  assumes "wait_ok s" and "isokprocn p" and "P_BLOCKEDON (procs s p) \<noteq> NONE" "P_BLOCKEDON (procs s p) \<noteq> ANY"
  shows "live s (P_BLOCKEDON (procs s p))"
  using assms by (auto simp: wait_ok_def P_BLOCKEDON_bit split: if_splits)

lemma waits_single: "(p, q) \<in> waits s \<Longrightarrow> (p, q') \<in> waits s \<Longrightarrow> q = q'"
  by (simp add: waits_def)

lemma waits_ok: "wait_ok s \<Longrightarrow> (p, q) \<in> waits s \<Longrightarrow> isokprocn p \<and> isokprocn q"
  using wait_ok_target [of s p] by (auto simp: waits_def live_def in_use_def)

lemma waits_finite: "wait_ok s \<Longrightarrow> finite (waits s)"
  by (rule finite_subset [of _ "{p. isokprocn p} \<times> {p. isokprocn p}"])
    (auto dest: waits_ok simp: finite_runnable)

lemma waits_reach_ok: "(p, q) \<in> (waits s)\<^sup>* \<Longrightarrow> wait_ok s \<Longrightarrow> isokprocn p \<Longrightarrow> isokprocn q"
  by (induction rule: rtrancl_induct) (auto dest: waits_ok)

text \<open>A pair of processes that send to and receive from each other is no deadlock.\<close>

definition exchange :: "kstate \<Rightarrow> int \<Rightarrow> int \<Rightarrow> bool" where
  "exchange s fn p \<longleftrightarrow> (rts s p XOR push_bit 2 (word_of_int fn)) AND RTS_SENDING \<noteq> 0"

lemma exchange_SEND: "exchange s SEND p \<longleftrightarrow> \<not> sending s p"
  unfolding exchange_def flag_exps and_exp_neq_0_iff
  by (simp add: bit_xor_iff SEND_def push_bit_eq_mult)

lemma exchange_RECEIVE: "exchange s RECEIVE p \<longleftrightarrow> sending s p"
  unfolding exchange_def flag_exps and_exp_neq_0_iff
  by (simp add: bit_xor_iff RECEIVE_def push_bit_eq_mult)

text \<open>
  What the loop of \<open>deadlock\<close> finds: whether the caller can be reached from the process \<open>x\<close> it is at,
  unless the two exchange a message. The bound on the array holds because the processes of the chain
  are distinct.
\<close>

lemma deadlock_loop_result:
  assumes ok: "base_ok s" and wok: "wait_ok s" and ac: "acyclic (waits s)" and cp: "in_use s cp"
    and e: "live s e" "ENDPOINT_P e \<noteq> cp"
    and room: "0 < n" "n + card ((waits s)\<^sup>* `` {ENDPOINT_P e} - {cp}) \<le> MAX_LOOP"
  shows "\<exists>d. deadlock_loop s fn cp e n = Some d \<and> (d \<noteq> 0 \<longleftrightarrow> (ENDPOINT_P e, cp) \<in> (waits s)\<^sup>+ \<and>
    \<not> (n = 1 \<and> (ENDPOINT_P e, cp) \<in> waits s \<and> exchange s fn (ENDPOINT_P e)))"
proof -
  have "wf ((waits s)\<inverse>)" by (rule finite_acyclic_wf_converse [OF waits_finite [OF wok] ac])
  then show ?thesis using e room
  proof (induction "ENDPOINT_P e" arbitrary: e n rule: wf_induct_rule)
    case less
    define x where "x = ENDPOINT_P e"
    define b where "b = P_BLOCKEDON (procs s x)"
    have x: "isokprocn x" "\<not> free s x" and xcp: "x \<noteq> cp"
      using less.prems by (auto simp: live_def in_use_def x_def)
    have eok: "e \<noteq> ANY" "isokendpt s e = Some x"
      using less.prems(1) ok_slot_not_special(1) [of e] x(1)
      by (auto simp: base_ok_live [OF ok] x_def)
    let ?R = "\<lambda>x. (waits s)\<^sup>* `` {x} - {cp}"
    have fin: "finite (?R x)"
      by (rule finite_subset [OF _ finite_runnable(1)]) (use x wok in \<open>auto dest: waits_reach_ok\<close>)
    have "x \<in> ?R x" using xcp by simp
    then have "0 < card (?R x)" using fin by (auto simp: card_gt_0_iff)
    then have room: "n < MAX_LOOP" using less.prems(4) by (simp add: x_def)
    have cpe: "ENDPOINT_P (p_endpoint (procs s cp)) = cp" using base_ok_self [OF ok cp] by simp
    have cpl: "p_endpoint (procs s cp) \<noteq> ANY" "p_endpoint (procs s cp) \<noteq> NONE"
      using ok_slot_not_special [of "p_endpoint (procs s cp)"] cpe cp by (auto simp: in_use_def)
    have step: "deadlock_loop s fn cp e n =
      (if b = NONE then Some 0
       else if b = p_endpoint (procs s cp) then
         if n = 1 \<and> exchange s fn x then Some 0 else Some (n + 1)
       else deadlock_loop s fn cp b (n + 1))"
      using eok room x by (subst deadlock_loop.simps) (simp add: Let_def b_def RTS_ISSET_bit exchange_def)
    show ?case
    proof (cases "b = NONE \<or> b = ANY")
      case True
      then have "(x, y) \<notin> waits s" for y by (auto simp: waits_def b_def)
      then have "(x, cp) \<notin> (waits s)\<^sup>+" by (meson tranclD)
      moreover have "deadlock_loop s fn cp e n = Some 0"
        using True step cpl by (auto simp: deadlock_loop.simps [of s fn cp ANY])
      ultimately show ?thesis by (simp add: x_def)
    next
      case False
      then have b: "live s b" using wait_ok_target [OF wok x(1)] by (simp add: b_def)
      define y where "y = ENDPOINT_P b"
      have xy: "(x, y) \<in> waits s" using False x by (simp add: waits_def b_def y_def)
      have nxt: "(x, z) \<in> waits s \<longleftrightarrow> z = y" for z using xy by (auto dest: waits_single)
      show ?thesis
      proof (cases "b = p_endpoint (procs s cp)")
        case True
        then have "y = cp" using cpe by (simp add: y_def)
        with xy have "(x, cp) \<in> waits s" by simp
        then show ?thesis using True False step by (auto simp: x_def)
      next
        case bcp: False
        then have ycp: "y \<noteq> cp" using b by (auto simp: live_def y_def)
        have sub: "?R y \<subseteq> ?R x - {x}"
        proof
          fix z assume z: "z \<in> ?R y"
          then have "(x, z) \<in> (waits s)\<^sup>+" using xy by (auto intro: rtrancl_into_trancl2)
          moreover from this have "z \<noteq> x" using ac by (auto simp: acyclic_def)
          ultimately show "z \<in> ?R x - {x}" using z by (auto dest: trancl_into_rtrancl)
        qed
        have "card (?R y) \<le> card (?R x - {x})" by (rule card_mono) (use fin sub in auto)
        also have "\<dots> < card (?R x)" by (rule card_Diff1_less [OF fin \<open>x \<in> ?R x\<close>])
        finally have "n + 1 + card (?R y) \<le> MAX_LOOP" using less.prems(4) by (simp add: x_def)
        then obtain d where d: "deadlock_loop s fn cp b (n + 1) = Some d"
          "d \<noteq> 0 \<longleftrightarrow> (y, cp) \<in> (waits s)\<^sup>+ \<and> \<not> (n + 1 = 1 \<and> (y, cp) \<in> waits s \<and> exchange s fn y)"
          using less.hyps [of b "n + 1"] b ycp xy unfolding y_def [symmetric] x_def [symmetric] by auto
        have "(x, cp) \<in> (waits s)\<^sup>+ \<longleftrightarrow> (y, cp) \<in> (waits s)\<^sup>+"
          using nxt ycp xy by (metis trancl_into_trancl2 tranclD2 converse_tranclE)
        moreover have "(x, cp) \<notin> waits s" using nxt ycp by auto
        ultimately show ?thesis using d step False bcp less.prems(3) by (simp add: x_def)
      qed
    qed
  qed
qed

text \<open>The whole function: it always answers, and 0 exactly when blocking closes no cycle.\<close>

lemma deadlock_result:
  assumes ok: "base_ok s" and wok: "wait_ok s" and ac: "acyclic (waits s)" and cp: "in_use s cp"
    and e: "live s e" "ENDPOINT_P e \<noteq> cp"
  shows "\<exists>d. deadlock s fn cp e = Some d \<and> (d \<noteq> 0 \<longleftrightarrow> (ENDPOINT_P e, cp) \<in> (waits s)\<^sup>+ \<and>
    \<not> ((ENDPOINT_P e, cp) \<in> waits s \<and> exchange s fn (ENDPOINT_P e)))"
proof -
  let ?R = "(waits s)\<^sup>* `` {ENDPOINT_P e} - {cp}"
  have "?R \<subseteq> {p. isokprocn p} - {cp}"
    using e wok by (auto dest: waits_reach_ok simp: live_def in_use_def)
  then have "card ?R \<le> card ({p. isokprocn p} - {cp})" by (rule card_mono [rotated]) (simp add: finite_runnable)
  also have "\<dots> = MAX_LOOP - 1"
    using cp finite_runnable by (simp add: in_use_def card_Diff_singleton)
  finally have "1 + card ?R \<le> MAX_LOOP" by (simp add: MAX_LOOP_def NR_PROCS_def)
  then show ?thesis
    using deadlock_loop_result [OF ok wok ac cp e, of 1 fn] by (simp add: deadlock_def)
qed

lemma deadlock_ANY: "deadlock s fn cp ANY = Some 0"
  by (simp add: deadlock_def deadlock_loop.simps [of s fn cp ANY])

section \<open>Queues of senders\<close>

abbreviation q_link :: "kstate \<Rightarrow> int \<Rightarrow> int option" where
  "q_link s \<equiv> \<lambda>p. p_q_link (procs s p)"

definition senders :: "kstate \<Rightarrow> int \<Rightarrow> int set" where
  "senders s d = {p. isokprocn p \<and> sending s p \<and> ENDPOINT_P (p_sendto_e (procs s p)) = d}"

text \<open>The queues of the processes hold the lists \<open>C\<close>: each sender is once in the queue of its destination.\<close>

definition callers_ok :: "kstate \<Rightarrow> (int \<Rightarrow> int list) \<Rightarrow> bool" where
  "callers_ok s C \<longleftrightarrow> (\<forall>d. isokprocn d \<longrightarrow> linked (q_link s) (p_caller_q (procs s d)) (C d) \<and> set (C d) = senders s d)"

definition links_ok :: "kstate \<Rightarrow> bool" where
  "links_ok s \<longleftrightarrow> (\<forall>p. isokprocn p \<longrightarrow> \<not> sending s p \<longrightarrow> p_q_link (procs s p) = None)"

definition ipc_ok :: "kstate \<Rightarrow> bool" where
  "ipc_ok s \<longleftrightarrow> base_ok s \<and> wait_ok s \<and> acyclic (waits s) \<and> (\<exists>C. callers_ok s C) \<and> links_ok s"

lemma wakes_blocked:
  assumes "wakes s s'" and "P_BLOCKEDON (procs s' p) \<noteq> NONE"
  shows "P_BLOCKEDON (procs s' p) = P_BLOCKEDON (procs s p)"
  using assms(2) wakes_fields(5,6,9,11) [OF assms(1), of p] by (auto simp: P_BLOCKEDON_bit split: if_splits)

lemma wakes_waits: "wakes s s' \<Longrightarrow> waits s' \<subseteq> waits s"
  using wakes_blocked [of s s'] by (auto simp: waits_def)

lemma wakes_senders: "wakes s s' \<Longrightarrow> senders s' d = senders s d"
  using wakes_fields [of s s'] by (simp add: senders_def)

lemma wakes_callers: "wakes s s' \<Longrightarrow> callers_ok s' C = callers_ok s C"
  using wakes_fields [of s s'] by (simp add: callers_ok_def wakes_senders)

lemma wakes_wait_ok:
  assumes "wakes s s'" and "wait_ok s"
  shows "wait_ok s'"
  using assms(2) wakes_fields [OF assms(1)] wakes_use [OF assms(1)] by (auto simp: wait_ok_def)

text \<open>Waking processes up keeps the rest of the invariant.\<close>

lemma ipc_ok_wakes:
  assumes "ipc_ok s" and "wakes s s'" and "base_ok s'"
  shows "ipc_ok s'"
proof -
  have "acyclic (waits s')" using assms wakes_waits [OF assms(2)] by (auto simp: ipc_ok_def intro: acyclic_subset)
  moreover have "links_ok s'" using assms(1) wakes_fields [OF assms(2)] by (simp add: ipc_ok_def links_ok_def)
  ultimately show ?thesis
    using assms wakes_wait_ok [OF assms(2)] wakes_callers [OF assms(2)] by (simp add: ipc_ok_def)
qed

end
