(* ===== verification/Kernel_Send.thy ===== *)
theory Kernel_Send
  imports Kernel_Wait
begin

unbundle bit_operations_syntax

text \<open>
  Sending: a message goes straight to a process that waits for it, or the sender joins the end of the
  destination's queue. Both branches return and keep the invariant, in particular the graph of waiting
  processes stays free of cycles.
\<close>

lemma assign_fields [simp]:
  "p_sendto_e (procs (assign l v s) p) = p_sendto_e (procs s p)"
  "p_getfrom_e (procs (assign l v s) p) = p_getfrom_e (procs s p)"
  "p_endpoint (procs (assign l v s) p) = p_endpoint (procs s p)"
  "p_priv (procs (assign l v s) p) = p_priv (procs s p)" "p_rts_flags (procs (assign l v s) p) = rts s p"
  "p_misc_flags (procs (assign l v s) p) = p_misc_flags (procs s p)"
  "p_sendmsg (procs (assign l v s) p) = p_sendmsg (procs s p)"
  "p_delivermsg (procs (assign l v s) p) = p_delivermsg (procs s p)"
  "privs (assign l v s) = privs s" "proc_ptr (assign l v s) = proc_ptr s"
  by (cases l; simp)+

lemma assign_links:
  "p_caller_q (procs (assign l v s) p) = (if l = Caller_q p then v else p_caller_q (procs s p))"
  "p_q_link (procs (assign l v s) p) = (if l = Q_link p then v else p_q_link (procs s p))"
  by (cases l; simp)+

lemma queue_end_last:
  assumes "linked (q_link s) (deref s xpp) xs"
  shows "queue_end s xpp = Some (if xs = [] then xpp else Q_link (last xs))"
  using assms
proof (induction xs arbitrary: xpp)
  case Nil
  then show ?case by (subst queue_end.simps) simp
next
  case (Cons x xs)
  then show ?case by (subst queue_end.simps) auto
qed

definition msg_fits :: "32 word \<Rightarrow> msg_ptr \<Rightarrow> bool" where
  "msg_fits flags m \<longleftrightarrow> (case m of User_ptr _ \<Rightarrow> flags AND FROM_KERNEL = 0 | Kernel_msg _ \<Rightarrow> flags AND FROM_KERNEL \<noteq> 0)"

text \<open>The message a pointer leads to.\<close>

definition the_msg :: "kenv \<Rightarrow> msg_ptr \<Rightarrow> kmessage option" where
  "the_msg K m = (case m of User_ptr a \<Rightarrow> copy_msg_from_user K a | Kernel_msg msg \<Rightarrow> Some msg)"

lemma fetch_msg_fits: "msg_fits flags m \<Longrightarrow> fetch_msg K flags m = Some (the_msg K m)"
  by (auto simp: msg_fits_def fetch_msg_def the_msg_def split: msg_ptr.splits)

section \<open>The destination waits\<close>

lemma send_now_ok:
  assumes ok: "base_ok s" and dst: "in_use s dst" and will: "WILLRECEIVE (procs s dst) (p_endpoint (procs s caller))"
    and fits: "msg_fits flags m"
  obtains r s' where "send_now K caller dst m flags s = Some (r, s')" and "base_ok s'" and "wakes s s'"
    and "case the_msg K m of None \<Rightarrow> r = RFAULT \<and> s' = s
      | Some msg \<Rightarrow> r = ROK \<and> \<not> receiving s' dst \<and> delivering s' dst \<and>
          p_delivermsg (procs s' dst) = msg\<lparr>m_source := p_endpoint (procs s caller)\<rparr> \<and>
          (\<forall>p. p \<noteq> dst \<longrightarrow> receiving s' p = receiving s p \<and> p_misc_flags (procs s' p) = p_misc_flags (procs s p))"
proof -
  have recv: "receiving s dst" "isokprocn dst" using will dst by (auto simp: WILLRECEIVE_bit in_use_def)
  then have nd: "\<not> delivering s dst" using base_ok_parts(3) [OF ok] by (simp add: delivery_ok_def)
  show ?thesis
  proof (cases "the_msg K m")
    case None
    then have "send_now K caller dst m flags s = Some (RFAULT, s)"
      using nd by (simp add: send_now_def fetch_msg_fits [OF fits] MF_ISSET_bit)
    then show ?thesis using ok None by (intro that [of RFAULT s]) auto
  next
    case (Some msg)
    define s1 where "s1 = (if flags AND FROM_KERNEL = 0 then s
      else upd_proc dst (IPC_STATUS_ADD_FLAGS IPC_FLG_MSG_FROM_KERNEL) s)"
    define call where "call = (if MF_ISSET (procs s1 caller) MF_REPLY_PEND then SENDREC
      else if flags AND NON_BLOCKING \<noteq> 0 then SENDNB else SEND)"
    define s2 where "s2 = upd_proc dst (deliver (p_endpoint (procs s1 caller)) msg call) s1"
    define s3 where "s3 = upd_proc dst (unset_misc MF_REPLY_PEND) s2"
    have w1: "wakes s s1" by (auto simp: s1_def IPC_STATUS_ADD_FLAGS_def intro: wakes_upd_proc)
    have w3: "wakes s s3"
      unfolding s3_def s2_def by (intro wakes_trans [OF w1] wakes_trans [OF wakes_upd_proc wakes_upd_proc]) simp_all
    have q3: "queues_ok s3"
      using base_ok_parts(1) [OF ok] by (simp add: s3_def s2_def s1_def IPC_STATUS_ADD_FLAGS_def)
    have "privs s3 = privs s" by (simp add: s3_def s2_def s1_def)
    then have n3: "notify_ok s3" by (intro notify_okI [OF w3 base_ok_parts(5) [OF ok]]) simp
    have r3: "\<And>p. rts s3 p = rts s p" by (simp add: s3_def s2_def s1_def IPC_STATUS_ADD_FLAGS_def)
    have m3: "\<And>p. p \<noteq> dst \<Longrightarrow> p_misc_flags (procs s3 p) = p_misc_flags (procs s p)"
      by (simp add: s3_def s2_def s1_def)
    have e1: "p_endpoint (procs s1 caller) = p_endpoint (procs s caller)"
      by (simp add: s1_def IPC_STATUS_ADD_FLAGS_def)
    have d3: "delivering s3 dst" "p_delivermsg (procs s3 dst) = msg\<lparr>m_source := p_endpoint (procs s caller)\<rparr>"
      by (simp_all add: s3_def s2_def bit_or_iff bit_and_iff bit_not_iff bit_flags e1)
    obtain s4 where s4: "RTS_UNSET K dst RTS_RECEIVING s3 = Some s4" "base_ok s4" "wakes s s4" "sched_frame s3 s4"
      and recv4: "\<And>p. receiving s4 p \<longleftrightarrow> receiving s p \<and> p \<noteq> dst"
      using wake_receiver [OF ok w3 dst q3 n3 r3, of K] m3 by metis
    have "send_now K caller dst m flags s = Some (ROK, s4)"
      using nd s4(1) Some
      by (simp add: send_now_def fetch_msg_fits [OF fits] MF_ISSET_bit Let_def s3_def s2_def call_def s1_def)
    then show ?thesis
      using s4 Some recv4 d3 m3 sched_frame_fields(2,12) [OF s4(4)] by (intro that [of ROK s4]) auto
  qed
qed

section \<open>The sender blocks\<close>

text \<open>A process that is neither sending nor receiving.\<close>

definition unblocked :: "kstate \<Rightarrow> int \<Rightarrow> bool" where
  "unblocked s p \<longleftrightarrow> in_use s p \<and> \<not> dead s p \<and> \<not> sending s p \<and> \<not> receiving s p"

lemma unblocked_no_wait: "unblocked s p \<Longrightarrow> (p, q) \<notin> waits s"
  by (simp add: waits_def P_BLOCKEDON_bit unblocked_def)

lemma callers_append:
  assumes C: "callers_ok s C" and links: "links_ok s" and c: "isokprocn c" "\<not> sending s c"
    and d: "isokprocn d" and e: "ENDPOINT_P e = d"
    and snd: "\<And>p. sending s' p \<longleftrightarrow> sending s p \<or> p = c"
    and to: "\<And>p. p_sendto_e (procs s' p) = (if p = c then e else p_sendto_e (procs s p))"
    and nxt: "q_link s' = (if C d = [] then q_link s else (q_link s)(last (C d) := Some c))"
    and head: "\<And>x. p_caller_q (procs s' x) = (if C d = [] \<and> x = d then Some c else p_caller_q (procs s x))"
  shows "callers_ok s' (C(d := C d @ [c]))" and "links_ok s'"
proof -
  have notin: "c \<notin> set (C x)" if "isokprocn x" for x
    using C c that by (auto simp: callers_ok_def senders_def)
  have cl: "q_link s c = None" using links c by (simp add: links_ok_def)
  have hold: "linked (q_link s) (p_caller_q (procs s x)) (C x)" "set (C x) = senders s x" if "isokprocn x" for x
    using C that by (auto simp: callers_ok_def)
  have last: "C d \<noteq> [] \<Longrightarrow> last (C d) \<in> senders s d" using hold(2) [OF d] by (metis last_in_set)
  have "linked (q_link s') (p_caller_q (procs s' d)) (C d @ [c])"
  proof (cases "C d = []")
    case True
    then show ?thesis using head cl nxt by simp
  next
    case False
    have "(q_link s)(last (C d) := Some c, c := None) = q_link s'"
      using False nxt cl notin [OF d] by (auto simp: fun_eq_iff)
    then show ?thesis using linked_snoc [OF hold(1) [OF d] notin [OF d] False] False head by simp
  qed
  moreover have "linked (q_link s') (p_caller_q (procs s' x)) (C x)" if "isokprocn x" "x \<noteq> d" for x
  proof -
    have "q_link s' p = q_link s p" if "p \<in> set (C x)" for p
    proof -
      have "p \<in> senders s x" using that hold(2) [OF \<open>isokprocn x\<close>] by simp
      then have "C d \<noteq> [] \<Longrightarrow> p \<noteq> last (C d)" using last \<open>x \<noteq> d\<close> by (auto simp: senders_def)
      then show ?thesis using fun_cong [OF nxt, of p] by (auto split: if_splits)
    qed
    then show ?thesis
      using hold(1) [OF that(1)] head that linked_cong [of "C x" "q_link s'" "q_link s"] by simp
  qed
  moreover have "set (C d @ [c]) = senders s' d"
    using hold(2) [OF d] snd to e c by (auto simp: senders_def)
  moreover have "set (C x) = senders s' x" if "isokprocn x" "x \<noteq> d" for x
    using hold(2) [OF that(1)] snd to e c that(2) by (auto simp: senders_def)
  ultimately show "callers_ok s' (C(d := C d @ [c]))" unfolding callers_ok_def by auto
  show "links_ok s'"
    unfolding links_ok_def
  proof (intro allI impI)
    fix p assume p: "isokprocn p" "\<not> sending s' p"
    then have "C d \<noteq> [] \<Longrightarrow> p \<noteq> last (C d)" using last snd by (auto simp: senders_def)
    then show "q_link s' p = None"
      using p snd links fun_cong [OF nxt, of p] by (auto simp: links_ok_def split: if_splits)
  qed
qed

lemma waits_block:
  assumes "isokprocn c" and "live s e" and "\<And>q. (c, q) \<notin> waits s"
    and "\<And>p. p \<noteq> c \<Longrightarrow> P_BLOCKEDON (procs s' p) = P_BLOCKEDON (procs s p)"
    and "P_BLOCKEDON (procs s' c) = e"
  shows "waits s' = insert (c, ENDPOINT_P e) (waits s)"
proof -
  have "e \<noteq> NONE" "e \<noteq> ANY" using assms(2) ok_slot_not_special [of e] by (auto simp: live_def in_use_def)
  moreover have "P_BLOCKEDON (procs s c) = NONE \<or> P_BLOCKEDON (procs s c) = ANY"
    using assms(1,3) by (auto simp: waits_def)
  ultimately show ?thesis
    using assms unfolding waits_def by (auto; metis)
qed

text \<open>After the deadlock check found nothing, no chain of waiting processes leads back to the sender.\<close>

lemma no_chain_back:
  assumes ok: "base_ok s" and wok: "wait_ok s" and c: "in_use s c" and d: "ENDPOINT_P e \<noteq> c"
    and res: "d \<noteq> 0 \<longleftrightarrow> (ENDPOINT_P e, c) \<in> (waits s)\<^sup>+ \<and> \<not> ((ENDPOINT_P e, c) \<in> waits s \<and> exchange s SEND (ENDPOINT_P e))"
    and zero: "d = 0" and will: "\<not> WILLRECEIVE (procs s (ENDPOINT_P e)) (p_endpoint (procs s c))"
  shows "(ENDPOINT_P e, c) \<notin> (waits s)\<^sup>*"
proof
  let ?x = "ENDPOINT_P e"
  assume "(?x, c) \<in> (waits s)\<^sup>*"
  with d have "(?x, c) \<in> (waits s)\<^sup>+" by (auto simp: rtrancl_eq_or_trancl)
  with res zero have edge: "(?x, c) \<in> waits s" and ns: "\<not> sending s ?x" by (auto simp: exchange_SEND)
  then have "live s (P_BLOCKEDON (procs s ?x))" "c = ENDPOINT_P (P_BLOCKEDON (procs s ?x))"
    and "P_BLOCKEDON (procs s ?x) \<noteq> NONE"
    using wait_ok_target [OF wok, of ?x] by (auto simp: waits_def)
  then have "receiving s ?x" "p_getfrom_e (procs s ?x) = p_endpoint (procs s c)"
    using ns by (auto simp: P_BLOCKEDON_bit live_def split: if_splits)
  with will ns show False by (simp add: WILLRECEIVE_bit)
qed

lemma send_blocking_ok:
  assumes ok: "ipc_ok s" and c: "unblocked s caller" and e: "live s e" "ENDPOINT_P e \<noteq> caller"
    and will: "\<not> WILLRECEIVE (procs s (ENDPOINT_P e)) (p_endpoint (procs s caller))" and fits: "msg_fits flags m"
    and C: "callers_ok s C"
  obtains r s' where "send_blocking K caller (ENDPOINT_P e) e m flags s = Some (r, s')" and "ipc_ok s'" and "steady s s'"
    and "r \<noteq> ROK \<Longrightarrow> s' = s \<and> (r = RLOCKED \<or> r = RFAULT \<and> the_msg K m = None)"
    and "r = ROK \<Longrightarrow> callers_ok s' (C(ENDPOINT_P e := C (ENDPOINT_P e) @ [caller])) \<and> sending s' caller \<and>
      p_sendto_e (procs s' caller) = e \<and> the_msg K m = Some (p_sendmsg (procs s' caller)) \<and> \<not> receiving s' caller"
    and "delivering s' caller = delivering s caller"
    and "r = RLOCKED \<longleftrightarrow> (ENDPOINT_P e, caller) \<in> (waits s)\<^sup>+"
proof -
  define dst where "dst = ENDPOINT_P e"
  have base: "base_ok s" and wok: "wait_ok s" and ac: "acyclic (waits s)" and links: "links_ok s"
    using ok by (auto simp: ipc_ok_def)
  have cu: "in_use s caller" "isokprocn caller" "\<not> sending s caller" "\<not> receiving s caller" "\<not> dead s caller"
    using c by (auto simp: unblocked_def in_use_def)
  have dst: "isokprocn dst" "in_use s dst" using e by (auto simp: live_def in_use_def dst_def)
  obtain d where dl: "deadlock s SEND caller e = Some d"
    and dres: "d \<noteq> 0 \<longleftrightarrow> (dst, caller) \<in> (waits s)\<^sup>+ \<and> \<not> ((dst, caller) \<in> waits s \<and> exchange s SEND dst)"
    using deadlock_result [OF base wok ac cu(1) e, of SEND] unfolding dst_def by blast
  have dres': "d \<noteq> 0 \<longleftrightarrow> (dst, caller) \<in> (waits s)\<^sup>+"
  proof (cases "d = 0")
    case True
    then show ?thesis
      using no_chain_back [OF base wok cu(1) e(2) _ True will] dres by (auto simp: dst_def dest: trancl_into_rtrancl)
  qed (use dres in blast)
  show ?thesis
  proof (cases "d = 0")
    case False
    then have "send_blocking K caller dst e m flags s = Some (RLOCKED, s)" using dl by (simp add: send_blocking_def)
    then show ?thesis
      using ok dres' False by (intro that [of RLOCKED s]) (auto simp: dst_def wakes_steady)
  next
    case zero: True
    have nolock: "(dst, caller) \<notin> (waits s)\<^sup>+" using zero dres' by simp
    then have nochain: "(dst, caller) \<notin> (waits s)\<^sup>*" using e(2) by (auto simp: rtrancl_eq_or_trancl dst_def)
    show ?thesis
    proof (cases "the_msg K m")
      case None
      then have "send_blocking K caller dst e m flags s = Some (RFAULT, s)"
        using dl zero by (simp add: send_blocking_def fetch_msg_fits [OF fits])
      then show ?thesis
        using ok nolock None by (intro that [of RFAULT s]) (auto simp: dst_def wakes_steady)
    next
      case (Some msg)
      define s1 where "s1 = upd_proc caller (\<lambda>x. x\<lparr>p_sendmsg := msg\<rparr>) s"
      define s2 where "s2 = (if flags AND FROM_KERNEL = 0 then s1 else upd_proc caller (set_misc MF_SENDING_FROM_KERNEL) s1)"
      have q2: "queues_ok s2" using base_ok_parts(1) [OF base] by (simp add: s2_def s1_def)
      have p2: "proc_links (procs s2 p) = proc_links (procs s p)" "rts s2 p = rts s p"
          "delivering s2 p = delivering s p" for p
        by (auto simp: s2_def s1_def bit_or_iff bit_flags)
      have m2: "p_sendmsg (procs s2 caller) = msg" by (simp add: s2_def s1_def)
      from RTS_SET_queues [OF q2 cu(2), of K RTS_SENDING] obtain s3 where
        s3: "RTS_SET K caller RTS_SENDING s2 = Some s3" and q3: "queues_ok s3" by auto
      have fr: "sched_frame s2 s3" and r3: "\<And>x. rts s3 x = (if x = caller then rts s2 caller OR RTS_SENDING else rts s2 x)"
        by (rule RTS_SET_frame [OF s3])+
      have p3: "proc_links (procs s3 p) = proc_links (procs s p)" for p
        using sched_frame_fields [OF fr] p2(1) [of p] by (simp add: proc_links_def)
      define s4 where "s4 = upd_proc caller (\<lambda>x. x\<lparr>p_sendto_e := e\<rparr>) s3"
      have cl: "p_q_link (procs s4 caller) = None"
        using links cu p3 [of caller] by (simp add: s4_def links_ok_def proc_links_def)
      have k4: "p_q_link (procs s4 p) = p_q_link (procs s p)" "p_caller_q (procs s4 p) = p_caller_q (procs s p)" for p
        using p3 [of p] by (cases "p = caller"; simp add: s4_def proc_links_def)+
      have lk: "linked (q_link s4) (deref s4 (Caller_q dst)) (C dst)"
        using C dst(1) by (simp add: callers_ok_def k4)
      define s5 where "s5 = assign (if C dst = [] then Caller_q dst else Q_link (last (C dst))) (Some caller) s4"
      have send: "send_blocking K caller dst e m flags s = Some (ROK, s5)"
      proof -
        note rules = s3 [unfolded s2_def s1_def] cl [unfolded s4_def] queue_end_last [OF lk, unfolded s4_def]
        show ?thesis
          using dl zero Some rules by (simp add: send_blocking_def fetch_msg_fits [OF fits] Let_def s5_def s4_def)
      qed
      have f5: "p_sendto_e (procs s5 p) = (if p = caller then e else p_sendto_e (procs s p))"
          "p_getfrom_e (procs s5 p) = p_getfrom_e (procs s p)" "p_endpoint (procs s5 p) = p_endpoint (procs s p)"
          "priority s5 p = priority s p" "p_priv (procs s5 p) = p_priv (procs s p)"
          "rts s5 p = (if p = caller then rts s caller OR RTS_SENDING else rts s p)"
          "delivering s5 p = delivering s p" for p
      proof -
        have l3: "p_sendto_e (procs s3 p) = p_sendto_e (procs s p)" "p_getfrom_e (procs s3 p) = p_getfrom_e (procs s p)"
          "p_endpoint (procs s3 p) = p_endpoint (procs s p)" "priority s3 p = priority s p"
          "p_priv (procs s3 p) = p_priv (procs s p)"
          using p3 [of p] by (simp_all add: proc_links_def)
        have l2: "rts s3 p = (if p = caller then rts s caller OR RTS_SENDING else rts s p)"
          "delivering s3 p = delivering s p"
          using r3 [of p] p2(2) p2(3) [of p] sched_frame_fields(2) [OF fr, of p] by simp_all
        show "p_sendto_e (procs s5 p) = (if p = caller then e else p_sendto_e (procs s p))"
          "p_getfrom_e (procs s5 p) = p_getfrom_e (procs s p)" "p_endpoint (procs s5 p) = p_endpoint (procs s p)"
          "priority s5 p = priority s p" "p_priv (procs s5 p) = p_priv (procs s p)"
          "rts s5 p = (if p = caller then rts s caller OR RTS_SENDING else rts s p)"
          "delivering s5 p = delivering s p"
          unfolding s5_def s4_def assign_fields deref_assign_others using l3 l2 by (cases "p = caller"; simp)+
      qed
      have g5: "privs s5 = privs s" "proc_ptr s5 = proc_ptr s"
        using sched_frame_fields(17,18) [OF fr] unfolding s5_def assign_fields by (simp_all add: s4_def s2_def s1_def)
      have q5: "queues_ok s5" using q3 by (simp add: s5_def s4_def)
      have bits: "free s5 p = free s p" "receiving s5 p = receiving s p" "dead s5 p = dead s p"
          "sending s5 p \<longleftrightarrow> sending s p \<or> p = caller" for p
        by (auto simp: f5 bit_or_iff bit_flags)
      have st: "steady s s5" using f5 g5 bits by (simp add: steady_def)
      have base5: "base_ok s5"
      proof (rule base_ok_steady [OF st base q5])
        show "delivery_ok s5" using base_ok_parts(3) [OF base] by (simp add: delivery_ok_def bits(2) f5(7))
        show "notify_ok s5" by (rule notify_ok_steady [OF st base_ok_parts(5) [OF base]]) (simp add: g5)
        show "isokprocn p \<Longrightarrow> free s p \<Longrightarrow> rts s5 p = rts s p" for p using cu by (auto simp: f5 in_use_def)
      qed
      have wok5: "wait_ok s5"
        using wok e(1) cu steady_use [OF st] unfolding wait_ok_def by (auto simp: bits f5(1,2))
      have blk: "P_BLOCKEDON (procs s5 p) = (if p = caller then e else P_BLOCKEDON (procs s p))" for p
        using bits [of p] f5(1,2) [of p] by (auto simp: P_BLOCKEDON_bit)
      have "waits s5 = insert (caller, dst) (waits s)"
        unfolding dst_def by (rule waits_block [OF cu(2) e(1)]) (use blk unblocked_no_wait [OF c] in auto)
      then have ac5: "acyclic (waits s5)" using ac nochain by simp
      have nxt: "q_link s5 = (if C dst = [] then q_link s else (q_link s)(last (C dst) := Some caller))"
        by (auto simp: fun_eq_iff s5_def assign_links k4)
      have head: "p_caller_q (procs s5 x) = (if C dst = [] \<and> x = dst then Some caller else p_caller_q (procs s x))" for x
        by (auto simp: s5_def assign_links k4)
      have C5: "callers_ok s5 (C(dst := C dst @ [caller]))" "links_ok s5"
        using callers_append [OF C links cu(2,3) dst(1) dst_def [symmetric] bits(4) f5(1) nxt head] by auto
      have "p_sendmsg (procs s5 caller) = msg"
        using m2 sched_frame_fields(11) [OF fr] unfolding s5_def assign_fields by (simp add: s4_def)
      moreover have "ipc_ok s5" using base5 wok5 ac5 C5 by (auto simp: ipc_ok_def)
      ultimately show ?thesis
        using send st C5(1) bits(2,4) f5(1,7) cu Some nolock unfolding dst_def
        by (intro that [of ROK s5]) simp_all
    qed
  qed
qed

section \<open>Sending\<close>

text \<open>
  \<open>mini_send\<close> returns. Unless it fails, either the message is with the destination and the sender goes
  on, or the sender is blocked on the destination.
\<close>

lemma mini_send_ok:
  assumes ok: "ipc_ok s" and c: "unblocked s caller" and e: "live s e" "ENDPOINT_P e \<noteq> caller"
    and fits: "msg_fits flags m"
  obtains r s' where "mini_send K caller e m flags s = Some (r, s')" and "ipc_ok s'" and "steady s s'"
    and "unblocked s' caller \<or> r = ROK \<and> sending s' caller \<and> p_sendto_e (procs s' caller) = e \<and>
      \<not> receiving s' caller"
    and "delivering s' caller = delivering s caller"
proof -
  let ?d = "ENDPOINT_P e"
  have base: "base_ok s" using ok by (simp add: ipc_ok_def)
  have d: "isokprocn ?d" "in_use s ?d" using e(1) by (auto simp: live_def in_use_def)
  consider (dead) "RTS_ISSET (procs s ?d) RTS_NO_ENDPOINT"
    | (now) "\<not> RTS_ISSET (procs s ?d) RTS_NO_ENDPOINT" "WILLRECEIVE (procs s ?d) (p_endpoint (procs s caller))"
    | (nb) "\<not> RTS_ISSET (procs s ?d) RTS_NO_ENDPOINT" "\<not> WILLRECEIVE (procs s ?d) (p_endpoint (procs s caller))"
        "flags AND NON_BLOCKING \<noteq> 0"
    | (block) "\<not> RTS_ISSET (procs s ?d) RTS_NO_ENDPOINT" "\<not> WILLRECEIVE (procs s ?d) (p_endpoint (procs s caller))"
        "flags AND NON_BLOCKING = 0"
    by blast
  then show ?thesis
  proof cases
    case dead
    then have "mini_send K caller e m flags s = Some (RDEADSRCDST, s)" using d by (simp add: mini_send_def)
    then show ?thesis using ok c by (intro that) (auto simp: wakes_steady)
  next
    case now
    obtain r s' where s': "send_now K caller ?d m flags s = Some (r, s')" "base_ok s'" "wakes s s'"
      and res: "case the_msg K m of None \<Rightarrow> r = RFAULT \<and> s' = s
        | Some msg \<Rightarrow> r = ROK \<and> \<not> receiving s' ?d \<and> delivering s' ?d \<and>
          p_delivermsg (procs s' ?d) = msg\<lparr>m_source := p_endpoint (procs s caller)\<rparr> \<and>
          (\<forall>p. p \<noteq> ?d \<longrightarrow> receiving s' p = receiving s p \<and> p_misc_flags (procs s' p) = p_misc_flags (procs s p))"
      by (rule send_now_ok [OF base d(2) now(2) fits])
    have "mini_send K caller e m flags s = Some (r, s')" using now d s' by (simp add: mini_send_def)
    moreover have "ipc_ok s'" by (rule ipc_ok_wakes [OF ok s'(3,2)])
    moreover have "unblocked s' caller"
      using c wakes_fields [OF s'(3)] wakes_use(1) [OF s'(3)] by (auto simp: unblocked_def)
    moreover have "delivering s' caller = delivering s caller"
      using res e(2) by (auto split: option.splits)
    ultimately show ?thesis using wakes_steady [OF s'(3)] by (intro that [of r s']) simp_all
  next
    case nb
    then have "mini_send K caller e m flags s = Some (RNOTREADY, s)" using d by (simp add: mini_send_def)
    then show ?thesis using ok c by (intro that) (auto simp: wakes_steady)
  next
    case block
    from ok obtain C where C: "callers_ok s C" by (auto simp: ipc_ok_def)
    show ?thesis
    proof (rule send_blocking_ok [OF ok c e block(2) fits C])
      fix r s'
      assume s': "send_blocking K caller ?d e m flags s = Some (r, s')" "ipc_ok s'" "steady s s'"
        and fail: "r \<noteq> ROK \<Longrightarrow> s' = s \<and> (r = RLOCKED \<or> r = RFAULT \<and> the_msg K m = None)"
        and succ: "r = ROK \<Longrightarrow> callers_ok s' (C(?d := C ?d @ [caller])) \<and> sending s' caller \<and>
          p_sendto_e (procs s' caller) = e \<and> the_msg K m = Some (p_sendmsg (procs s' caller)) \<and> \<not> receiving s' caller"
        and del: "delivering s' caller = delivering s caller"
      have "mini_send K caller e m flags s = Some (r, s')" using block d s'(1) by (simp add: mini_send_def)
      moreover have "unblocked s' caller \<or> r = ROK \<and> sending s' caller \<and> p_sendto_e (procs s' caller) = e \<and>
          \<not> receiving s' caller"
        using fail succ c by (cases "r = ROK") simp_all
      ultimately show ?thesis using s'(2,3) del by (intro that [of r s'])
    qed
  qed
qed

end
