(* ===== verification/Kernel_Receive.thy ===== *)
theory Kernel_Receive
  imports Kernel_Send
begin

unbundle bit_operations_syntax

text \<open>
  Receiving: pending notifications first, then asynchronous messages, then the queue of senders, and
  blocking when there is nothing. Every branch returns and keeps the invariant, provided that tables of
  asynchronous messages that can be read can also be written, and that the signals the kernel sends are
  valid and not lethal.
\<close>

definition env_ok :: "kenv \<Rightarrow> bool" where
  "env_ok K \<longleftrightarrow> (\<forall>e t i. tab_readable K e t i \<longrightarrow> tab_writable K e t i) \<and>
    sig_valid K (SIGSNDELAY K) \<and> \<not> SIGS_IS_LETHAL K (SIGSNDELAY K) \<and>
    sig_valid K (SIGTRAP K) \<and> \<not> SIGS_IS_LETHAL K (SIGTRAP K)"

section \<open>Searching the bitmaps\<close>

lemma next_sys_bit_found:
  assumes "get_sys_bit m j" and "i \<le> j"
  shows "\<exists>k. next_sys_bit m i = Some k \<and> i \<le> k \<and> k \<le> j \<and> get_sys_bit m k \<and> (\<forall>n. i \<le> n \<longrightarrow> n < k \<longrightarrow> \<not> get_sys_bit m n)"
  using assms(2)
proof (induction "j - i" arbitrary: i)
  case 0
  then have "i = j" by simp
  then show ?case using assms(1) by (subst next_sys_bit.simps) auto
next
  case (Suc n)
  show ?case
  proof (cases "get_sys_bit m i")
    case True
    then show ?thesis using Suc.prems by (subst next_sys_bit.simps) auto
  next
    case False
    have "n = j - (i + 1)" "i + 1 \<le> j" using Suc.hyps(2) by auto
    then obtain k where k: "next_sys_bit m (i + 1) = Some k" "i + 1 \<le> k" "k \<le> j" "get_sys_bit m k"
      "\<forall>n. i + 1 \<le> n \<longrightarrow> n < k \<longrightarrow> \<not> get_sys_bit m n"
      using Suc.hyps(1) [of "i + 1"] by blast
    have "\<forall>n. i \<le> n \<longrightarrow> n < k \<longrightarrow> \<not> get_sys_bit m n"
      using k(5) False by (metis Suc_eq_plus1 Suc_leI le_neq_implies_less)
    moreover have "next_sys_bit m i = Some k" using False k(1) by (subst next_sys_bit.simps) simp
    ultimately show ?thesis using k by (intro exI [of _ k]) auto
  qed
qed

lemma get_sys_bits_zero: "get_sys_bits m (32 * c) = 0 \<longleftrightarrow> (\<forall>j < 32. \<not> get_sys_bit m (32 * c + j))"
proof
  assume z: "get_sys_bits m (32 * c) = 0"
  show "\<forall>j < 32. \<not> get_sys_bit m (32 * c + j)"
  proof (intro allI impI)
    fix j :: nat assume "j < 32"
    have "\<not> bit (get_sys_bits m (32 * c)) j" using z by simp
    with \<open>j < 32\<close> show "\<not> get_sys_bit m (32 * c + j)"
      by (simp add: get_sys_bits_def get_sys_bit_def bit_take_bit_iff bit_drop_bit_eq ac_simps)
  qed
next
  assume "\<forall>j < 32. \<not> get_sys_bit m (32 * c + j)"
  then show "get_sys_bits m (32 * c) = 0"
    by (intro bit_word_eqI) (auto simp: get_sys_bits_def get_sys_bit_def bit_take_bit_iff bit_drop_bit_eq ac_simps)
qed

lemma scan_chunk:
  assumes "get_sys_bits m (32 * c) \<noteq> 0"
  shows "\<exists>k. next_sys_bit m (32 * c) = Some k \<and> get_sys_bit m k \<and> k < 32 * c + 32 \<and>
    (\<forall>n. 32 * c \<le> n \<longrightarrow> n < k \<longrightarrow> \<not> get_sys_bit m n)"
proof -
  obtain j where "j < 32" "get_sys_bit m (32 * c + j)" using assms by (auto simp: get_sys_bits_zero)
  with next_sys_bit_found [of m "32 * c + j" "32 * c"] obtain k where
    "next_sys_bit m (32 * c) = Some k" "k \<le> 32 * c + j" "get_sys_bit m k"
    "\<forall>n. 32 * c \<le> n \<longrightarrow> n < k \<longrightarrow> \<not> get_sys_bit m n" by auto
  with \<open>j < 32\<close> show ?thesis by (intro exI [of _ k]) auto
qed

text \<open>\<open>has_pending\<close> for any source finds the lowest bit of the map.\<close>

lemma has_pending_any:
  "\<exists>r. has_pending s m ANY = Some r \<and> (case r of None \<Rightarrow> \<forall>n < 64. \<not> get_sys_bit m n
    | Some k \<Rightarrow> k < 64 \<and> get_sys_bit m k \<and> (\<forall>n < k. \<not> get_sys_bit m n))"
proof -
  have scan: "scan_sys_bits m 0 = (if get_sys_bits m 0 \<noteq> 0 then next_sys_bit m 0
      else if get_sys_bits m 32 \<noteq> 0 then next_sys_bit m 32 else Some 64)"
    by (simp add: scan_sys_bits.simps [of m 0] scan_sys_bits.simps [of m 32] scan_sys_bits.simps [of m 64] NR_SYS_PROCS_def)
  consider (lo) "get_sys_bits m 0 \<noteq> 0" | (hi) "get_sys_bits m 0 = 0" "get_sys_bits m 32 \<noteq> 0"
    | (none) "get_sys_bits m 0 = 0" "get_sys_bits m 32 = 0" by blast
  then show ?thesis
  proof cases
    case lo
    with scan_chunk [of m 0] obtain k where
      "next_sys_bit m 0 = Some k" "get_sys_bit m k" "k < 32" "\<forall>n < k. \<not> get_sys_bit m n" by auto
    with lo scan show ?thesis by (auto simp: has_pending_def NR_SYS_PROCS_def)
  next
    case hi
    with scan_chunk [of m 1] obtain k where k: "next_sys_bit m 32 = Some k" "get_sys_bit m k" "k < 64"
      "\<forall>n. 32 \<le> n \<longrightarrow> n < k \<longrightarrow> \<not> get_sys_bit m n" by auto
    moreover have "\<not> get_sys_bit m n" if "n < 32" for n using hi(1) get_sys_bits_zero [of m 0] that by simp
    ultimately have "\<forall>n < k. \<not> get_sys_bit m n" by (metis not_less)
    with hi scan k show ?thesis by (auto simp: has_pending_def NR_SYS_PROCS_def)
  next
    case none
    then have "\<not> get_sys_bit m n" if "n < 64" for n
      using get_sys_bits_zero [of m 0] get_sys_bits_zero [of m 1] that
      by (cases "n < 32") (auto dest!: spec [of _ "n - 32"])
    with none scan show ?thesis by (auto simp: has_pending_def NR_SYS_PROCS_def)
  qed
qed

section \<open>Notifications\<close>

text \<open>Giving a message to the running process, which waits for nothing.\<close>

lemma base_ok_caller:
  assumes ok: "base_ok s" and c: "\<not> receiving s caller"
    and f: "proc_links (f (procs s caller)) = proc_links (procs s caller)" "p_rts_flags (f (procs s caller)) = rts s caller"
      "p_nextready (f (procs s caller)) = nextready s caller"
  shows "base_ok (upd_proc caller f s)" "wakes s (upd_proc caller f s)"
  using base_ok_upd_proc [OF ok, of f caller] f c by simp_all

lemma receive_done_ok:
  assumes "base_ok s" and "\<not> receiving s caller"
  shows "base_ok (snd (receive_done caller s))" "wakes s (snd (receive_done caller s))" "fst (receive_done caller s) = ROK"
  unfolding receive_done_def snd_conv fst_conv by (rule base_ok_caller [OF assms]; simp)+ simp

lemma receive_notify_ok:
  assumes ok: "base_ok s" and c: "in_use s caller" "\<not> receiving s caller" "\<not> delivering s caller"
    and src: "src_e = ANY \<or> live s src_e \<and> nr_to_id s (ENDPOINT_P src_e) = src_id"
    and pend: "get_sys_bit (s_notify_pending (priv_of s caller)) src_id"
  obtains s' where "receive_notify caller src_e src_id s = Some (ROK, s')" and "base_ok s'" and "wakes s s'"
    and "delivering s' caller"
proof -
  from base_ok_parts(5) [OF ok] pend obtain p where p: "exclusive s p" "p_priv (procs s p) = src_id"
    by (auto simp: notify_ok_def)
  have nr: "id_to_nr s src_id = p" using p by (auto simp: exclusive_def id_to_nr_def)
  have pu: "in_use s p" using p by (simp add: exclusive_def)
  then have "p \<noteq> NONE" by (auto simp: in_use_def isokprocn_def endpoint_consts push_bit_eq_mult)
  have ids: "s_id (privs s i) = i" for i using base_ok_parts(4) [OF ok] by (simp add: privs_ok_def)
  have hisep: "src_e = ANY \<or> p_endpoint (procs s p) = src_e"
  proof (cases "src_e = ANY")
    case False
    with src have "live s src_e" "p_priv (procs s (ENDPOINT_P src_e)) = src_id" by (auto simp: nr_to_id_def ids)
    then have "ENDPOINT_P src_e = p" using p by (auto simp: exclusive_def live_def)
    then show ?thesis using \<open>live s src_e\<close> by (simp add: live_def)
  qed simp
  define s1 where "s1 = unset_notify_pending caller src_id s"
  have s1: "base_ok s1" "wakes s s1" "procs s1 = procs s"
    unfolding s1_def unset_notify_pending_def
    by (rule base_ok_upd_priv_of [OF ok]; simp add: get_unset_sys_bit)+ simp
  obtain msg s2 where m: "BuildNotifyMessage s1 p caller = (msg, s2)" by fastforce
  have s2: "base_ok s2" "wakes s1 s2" "procs s2 = procs s"
    using BuildNotifyMessage_wakes [OF s1(1), of p caller] by (simp_all add: m s1(3))
  define s3 where "s3 = upd_proc caller (deliver (p_endpoint (procs s p)) msg NOTIFY) s2"
  have s3: "base_ok s3" "wakes s2 s3"
    unfolding s3_def by (rule base_ok_caller [OF s2(1)]; use c in \<open>simp add: s2(3)\<close>)+
  have "\<not> receiving s3 caller" using c by (simp add: s3_def s2(3))
  note s4 = receive_done_ok [OF s3(1) this]
  have "receive_notify caller src_e src_id s = Some (receive_done caller s3)"
    using hisep c \<open>p \<noteq> NONE\<close> m
    by (simp add: receive_notify_def Let_def nr MF_ISSET_bit s1_def s3_def)
  moreover have "wakes s (snd (receive_done caller s3))" using s1(2) s2(2) s3(2) s4(2) by (blast intro: wakes_trans)
  moreover have "delivering (snd (receive_done caller s3)) caller"
    by (simp add: receive_done_def s3_def deliver_def IPC_STATUS_ADD_CALL_def bit_or_iff bit_and_iff bit_not_iff bit_flags)
  ultimately show ?thesis using s4 by (intro that [of "snd (receive_done caller s3)"]) (auto simp: prod_eq_iff)
qed

section \<open>Asynchronous messages\<close>

lemma A_INSRT_base [simp]:
  "base_ok (A_INSRT e t i m s) = base_ok s" "wakes s0 (A_INSRT e t i m s) = wakes s0 s"
  "procs (A_INSRT e t i m s) = procs s"
proof -
  show p: "procs (A_INSRT e t i m s) = procs s" by (simp add: A_INSRT_def)
  have v: "privs (A_INSRT e t i m s) = privs s" "proc_ptr (A_INSRT e t i m s) = proc_ptr s" by (simp_all add: A_INSRT_def)
  have "queues_ok (A_INSRT e t i m s) = queues_ok s" by (simp add: A_INSRT_def)
  then show "base_ok (A_INSRT e t i m s) = base_ok s"
    by (simp add: base_ok_def slots_ok_def delivery_ok_def privs_ok_def notify_ok_def in_use_def live_def exclusive_def p v)
  show "wakes s0 (A_INSRT e t i m s) = wakes s0 s" by (simp add: wakes_def p v)
qed

lemma set_asyntab_base:
  "base_ok s \<Longrightarrow> base_ok (set_asyntab p t k s)" "wakes s (set_asyntab p t k s)" "procs (set_asyntab p t k s) = procs s"
  unfolding set_asyntab_def
  by (auto intro: base_ok_upd_priv_of wakes_upd_priv)

lemma asyn_pending_base:
  "base_ok s \<Longrightarrow> base_ok (set_asyn_pending d i s)" "wakes s (set_asyn_pending d i s)" "procs (set_asyn_pending d i s) = procs s"
  "base_ok s \<Longrightarrow> base_ok (unset_asyn_pending d i s)" "wakes s (unset_asyn_pending d i s)" "procs (unset_asyn_pending d i s) = procs s"
  unfolding set_asyn_pending_def unset_asyn_pending_def
  by (auto intro: base_ok_upd_priv_of wakes_upd_priv)

text \<open>A step that leaves the message of the running process \<open>c\<close> alone unless \<open>got\<close> says that it got one.\<close>

definition async_step :: "int \<Rightarrow> bool \<Rightarrow> kstate \<Rightarrow> kstate \<Rightarrow> bool" where
  "async_step c got s s' \<longleftrightarrow> base_ok s' \<and> wakes s s' \<and> delivering s' c = (got \<or> delivering s c)"

lemma async_step_trans: "async_step c False s t \<Longrightarrow> async_step c got t u \<Longrightarrow> async_step c got s u"
  by (auto simp: async_step_def intro: wakes_trans)

lemma async_step_trans': "async_step c got s t \<Longrightarrow> async_step c False t u \<Longrightarrow> async_step c got s u"
  by (auto simp: async_step_def intro: wakes_trans)

lemma notify_asyncm_ok:
  assumes ok: "base_ok s" and c: "\<not> receiving s c"
  obtains s' where "notify_asyncm K n p s = Some s'" and "async_step c False s s'"
proof (cases n)
  case True
  have "exclusive s ASYNCM" using base_ok_parts(4) [OF ok] by (simp add: privs_ok_def)
  then obtain r s' where "mini_notify K ASYNCM (p_endpoint (procs s p)) s = Some (r, s')" "base_ok s'" "wakes s s'"
    "\<And>p. \<not> receiving s p \<Longrightarrow> mail (procs s' p) = mail (procs s p)"
    using mini_notify_base [OF ok] by metis
  then show ?thesis using True c by (intro that [of s']) (auto simp: notify_asyncm_def async_step_def mail_def)
next
  case False
  then show ?thesis using ok by (intro that [of s]) (auto simp: notify_asyncm_def async_step_def)
qed

lemma try_one_loop_ok:
  assumes "base_ok s" and "\<not> receiving s dst" and "env_ok K"
  shows "case try_one_loop K src dst t is don s of Inl s' \<Rightarrow> s' = s
    | Inr (s', r, d, n) \<Rightarrow> async_step dst (r = ROK) s s' \<and> (r = ROK \<longrightarrow> delivering s' dst)"
  using assms
proof (induction "is" arbitrary: don)
  case Nil
  then show ?case by (simp add: async_step_def)
next
  case (Cons i "is")
  define ep where "ep = p_endpoint (procs s src)"
  define tabent where "tabent = asyn_mem s ep t i"
  define s1 where "s1 = upd_proc dst (\<lambda>x. set_misc MF_DELIVERMSG (x\<lparr>p_delivermsg := (am_msg tabent)\<lparr>m_source := ep\<rparr>\<rparr>)) s"
  note IH = Cons.IH [OF Cons.prems]
  show ?case
  proof (cases "tab_readable K ep t i")
    case False
    then show ?thesis by (simp add: Let_def ep_def)
  next
    case True
    then have w: "tab_writable K ep t i" using Cons.prems(3) by (auto simp: env_ok_def)
    have bad: "case store_result K ep t i tabent RINVAL s of Inl s' \<Rightarrow> s' = s
      | Inr (s', r, d, n) \<Rightarrow> async_step dst (r = ROK) s s' \<and> (r = ROK \<longrightarrow> delivering s' dst)"
      using w Cons.prems by (simp add: store_result_def async_step_def)
    have s1: "base_ok s1" "wakes s s1"
      unfolding s1_def by (rule base_ok_caller [OF Cons.prems(1,2)]; simp)+
    have "delivering s1 dst" by (simp add: s1_def bit_or_iff bit_flags)
    then have good: "case store_result K ep t i tabent ROK s1 of Inl s' \<Rightarrow> s' = s
      | Inr (s', r, d, n) \<Rightarrow> async_step dst (r = ROK) s s' \<and> (r = ROK \<longrightarrow> delivering s' dst)"
      using w s1 by (simp add: store_result_def async_step_def)
    show ?thesis
      using True IH bad good unfolding try_one_loop.simps(2) Let_def ep_def [symmetric] tabent_def [symmetric] s1_def
      by (auto split: if_split)
  qed
qed

lemma try_one_ok:
  assumes ok: "base_ok s" and dst: "\<not> receiving s dst" and env: "env_ok K"
  obtains r s' where "try_one K src dst s = Some (r, s')" and "async_step dst (r = ROK) s s'"
proof -
  let ?v = "priv_of s src"
  define s1 where "s1 = unset_asyn_pending dst (s_id ?v) s"
  have s1: "base_ok s1" "wakes s s1" "procs s1 = procs s"
    using asyn_pending_base ok by (auto simp: s1_def)
  have step1: "async_step dst False s s1" using s1 by (simp add: async_step_def)
  have dst1: "\<not> receiving s1 dst" using dst s1(3) by simp
  consider (perm) "s_flags ?v AND SYS_PROC = 0"
    | (empty) "s_flags ?v AND SYS_PROC \<noteq> 0" "s_asynsize ?v = 0"
    | (denied) "s_flags ?v AND SYS_PROC \<noteq> 0" "s_asynsize ?v \<noteq> 0" "\<not> may_send_to s1 src dst"
    | (loop) "s_flags ?v AND SYS_PROC \<noteq> 0" "s_asynsize ?v \<noteq> 0" "may_send_to s1 src dst" by blast
  then show ?thesis
  proof cases
    case perm
    then have "try_one K src dst s = Some (RPERM, s)" by (simp add: try_one_def)
    then show ?thesis using ok by (intro that) (auto simp: async_step_def)
  next
    case empty
    then have "try_one K src dst s = Some (RAGAIN, s1)" by (simp add: try_one_def s1_def)
    then show ?thesis using step1 by (intro that) auto
  next
    case denied
    then have "try_one K src dst s = Some (RCALLDENIED, s1)" by (simp add: try_one_def s1_def)
    then show ?thesis using step1 by (intro that) auto
  next
    case loop
    let ?l = "try_one_loop K src dst (s_asyntab ?v) [0..<s_asynsize ?v] True s1"
    note res = try_one_loop_ok [OF s1(1) dst1 env, of src "s_asyntab ?v" "[0..<s_asynsize ?v]" True]
    show ?thesis
    proof (cases ?l)
      case (Inl s2)
      then have "try_one K src dst s = Some (RFAULT, s1)" using loop res by (simp add: try_one_def s1_def)
      then show ?thesis using step1 by (intro that) auto
    next
      case (Inr b)
      obtain s2 r d n where b: "b = (s2, r, d, n)" by (cases b)
      have step2: "async_step dst (r = ROK) s1 s2" using res Inr b by simp
      then have "base_ok s2" "\<not> receiving s2 dst" using dst1 wakes_fields(11) by (auto simp: async_step_def)
      then obtain s3 where s3: "notify_asyncm K n src s2 = Some s3" "async_step dst False s2 s3"
        using notify_asyncm_ok by metis
      define s4 where "s4 = (if d then set_asyntab src (- 1) 0 s3 else set_asyn_pending dst (s_id ?v) s3)"
      have "async_step dst False s3 s4"
        using s3(2) set_asyntab_base asyn_pending_base by (auto simp: s4_def async_step_def)
      then have "async_step dst (r = ROK) s s4"
        using step1 step2 s3(2) by (meson async_step_trans async_step_trans')
      moreover have "try_one K src dst s = Some (r, s4)"
        using loop Inr b s3(1) by (simp add: try_one_def s1_def s4_def)
      ultimately show ?thesis by (intro that)
    qed
  qed
qed

lemma try_async_from_ok:
  assumes "base_ok s" and "\<not> receiving s c" and "env_ok K" and "\<not> delivering s c"
  shows "\<exists>r s'. try_async_from K c is s = Some (r, s') \<and> async_step c (r = ROK) s s'"
  using assms
proof (induction "is" arbitrary: s)
  case Nil
  then show ?case by (simp add: async_step_def)
next
  case (Cons i "is")
  obtain r s1 where s1: "try_one K (s_proc_nr (privs s i)) c s = Some (r, s1)" "async_step c (r = ROK) s s1"
    using try_one_ok [OF Cons.prems(1-3)] by metis
  show ?case
  proof (cases "r = ROK")
    case True
    then show ?thesis using Cons s1 by (auto simp: MF_ISSET_bit)
  next
    case False
    then have "base_ok s1" "\<not> receiving s1 c" "\<not> delivering s1 c"
      using s1(2) Cons.prems(2,4) wakes_fields(11) by (auto simp: async_step_def)
    then obtain r' s2 where "try_async_from K c is s1 = Some (r', s2)" "async_step c (r' = ROK) s1 s2"
      using Cons.IH Cons.prems(3) by metis
    moreover have "async_step c (r' = ROK) s s2"
      using s1(2) False calculation(2) by (auto intro: async_step_trans)
    ultimately show ?thesis using Cons.IH [OF Cons.prems] Cons.prems s1(1) False by (auto simp: MF_ISSET_bit)
  qed
qed

section \<open>Taking a message from the queue\<close>

definition accepts :: "int \<Rightarrow> int \<Rightarrow> bool" where
  "accepts src p \<longleftrightarrow> src = ANY \<or> src = p"

lemma find_sender_none:
  assumes "linked (q_link s) (deref s xpp) xs" and "\<And>y. y \<in> set xs \<Longrightarrow> \<not> accepts src y"
  shows "find_sender s src xpp = Some None"
  using assms
proof (induction xs arbitrary: xpp)
  case Nil
  then show ?case by (subst find_sender.simps) simp
next
  case (Cons x xs)
  have "find_sender s src (Q_link x) = Some None" using Cons by simp
  moreover have "\<not> accepts src x" using Cons.prems(2) by simp
  ultimately show ?case using Cons.prems(1) by (subst find_sender.simps) (auto simp: accepts_def)
qed

lemma find_sender_some:
  assumes "linked (q_link s) (deref s xpp) (as @ x # bs)" and "\<And>y. y \<in> set as \<Longrightarrow> \<not> accepts src y" and "accepts src x"
  shows "find_sender s src xpp = Some (Some (if as = [] then xpp else Q_link (last as), x))"
  using assms
proof (induction as arbitrary: xpp)
  case Nil
  then show ?case by (subst find_sender.simps) (auto simp: accepts_def)
next
  case (Cons a as)
  have "find_sender s src (Q_link a) = Some (Some (if as = [] then Q_link a else Q_link (last as), x))"
    using Cons by simp
  moreover have "\<not> accepts src a" using Cons.prems(2) by simp
  ultimately show ?case using Cons.prems(1) by (subst find_sender.simps) (auto simp: accepts_def)
qed

text \<open>A sender leaves the queue of its destination.\<close>

lemma callers_remove:
  assumes C: "callers_ok s C" and d: "isokprocn d" and split: "C d = as @ x # bs" and links: "links_ok s"
    and snd: "\<And>p. sending s' p \<longleftrightarrow> sending s p \<and> p \<noteq> x"
    and to: "\<And>p. p_sendto_e (procs s' p) = p_sendto_e (procs s p)"
    and nxt: "q_link s' = (if as = [] then q_link s else (q_link s)(last as := q_link s x))(x := None)"
    and head: "\<And>y. p_caller_q (procs s' y) = (if as = [] \<and> y = d then q_link s x else p_caller_q (procs s y))"
  shows "callers_ok s' (C(d := as @ bs))" and "links_ok s'"
proof -
  have hold: "linked (q_link s) (p_caller_q (procs s y)) (C y)" "set (C y) = senders s y" if "isokprocn y" for y
    using C that by (auto simp: callers_ok_def)
  have lk: "linked (q_link s) (p_caller_q (procs s d)) (as @ x # bs)" using hold(1) [OF d] split by simp
  have dist: "distinct (as @ x # bs)" by (rule linked_distinct [OF lk])
  have mem: "set (as @ x # bs) = senders s d" using hold(2) [OF d] split by simp
  have xd: "x \<in> senders s d" using mem by (metis in_set_conv_decomp)
  have lastd: "as \<noteq> [] \<Longrightarrow> last as \<in> senders s d" using mem by (metis UnCI last_in_set set_append)
  have "linked (q_link s') (p_caller_q (procs s' d)) (as @ bs)"
  proof -
    have eq: "linked (q_link s') h (as @ bs) = linked (if as = [] then q_link s else (q_link s)(last as := q_link s x)) h (as @ bs)" for h
    proof (rule linked_cong)
      fix y assume "y \<in> set (as @ bs)"
      then have "y \<noteq> x" using dist by auto
      then show "q_link s' y = (if as = [] then q_link s else (q_link s)(last as := q_link s x)) y"
        using fun_cong [OF nxt, of y] by simp
    qed
    show ?thesis unfolding eq using linked_remove [OF lk] head [of d] by (cases "as = []") simp_all
  qed
  moreover have "linked (q_link s') (p_caller_q (procs s' y)) (C y)" if "isokprocn y" "y \<noteq> d" for y
  proof -
    have "q_link s' p = q_link s p" if "p \<in> set (C y)" for p
    proof -
      have "p \<in> senders s y" using that hold(2) [OF \<open>isokprocn y\<close>] by simp
      then have "p \<notin> senders s d" using \<open>y \<noteq> d\<close> by (auto simp: senders_def)
      then have "p \<noteq> x" "as \<noteq> [] \<Longrightarrow> p \<noteq> last as" using xd lastd by blast+
      then show ?thesis using fun_cong [OF nxt, of p] by (auto split: if_splits)
    qed
    then show ?thesis
      using hold(1) [OF that(1)] head that linked_cong [of "C y" "q_link s'" "q_link s"] by simp
  qed
  moreover have "set (as @ bs) = senders s' d"
  proof -
    have "set (as @ bs) = set (as @ x # bs) - {x}" using dist by auto
    also have "\<dots> = senders s' d" unfolding mem using snd to by (auto simp: senders_def)
    finally show ?thesis .
  qed
  moreover have "set (C y) = senders s' y" if "isokprocn y" "y \<noteq> d" for y
  proof -
    have "x \<notin> senders s y" using xd that(2) by (auto simp: senders_def)
    then show ?thesis using hold(2) [OF that(1)] snd to by (auto simp: senders_def)
  qed
  ultimately show "callers_ok s' (C(d := as @ bs))" unfolding callers_ok_def by auto
  show "links_ok s'"
    unfolding links_ok_def
  proof (intro allI impI)
    fix p assume p: "isokprocn p" "\<not> sending s' p"
    show "q_link s' p = None"
    proof (cases "p = x")
      case True
      then show ?thesis using fun_cong [OF nxt, of p] by simp
    next
      case False
      then have ns: "\<not> sending s p" using p snd by simp
      have "as \<noteq> [] \<Longrightarrow> p \<noteq> last as" using ns lastd by (auto simp: senders_def)
      then show ?thesis
        using False ns p links fun_cong [OF nxt, of p] by (auto simp: links_ok_def split: if_splits)
    qed
  qed
qed

lemma ipc_ok_remove:
  assumes ok: "ipc_ok s" and base: "base_ok s'" and st: "steady s s'"
    and C: "callers_ok s C" and d: "isokprocn d" and split: "C d = as @ x # bs"
    and snd: "\<And>p. sending s' p \<longleftrightarrow> sending s p \<and> p \<noteq> x" and recv: "\<And>p. receiving s' p \<Longrightarrow> receiving s p"
    and dead: "\<And>p. dead s' p = dead s p"
    and to: "\<And>p. p_sendto_e (procs s' p) = p_sendto_e (procs s p)"
    and frm: "\<And>p. p_getfrom_e (procs s' p) = p_getfrom_e (procs s p)"
    and nxt: "q_link s' = (if as = [] then q_link s else (q_link s)(last as := q_link s x))(x := None)"
    and head: "\<And>y. p_caller_q (procs s' y) = (if as = [] \<and> y = d then q_link s x else p_caller_q (procs s y))"
  shows "ipc_ok s'" and "callers_ok s' (C(d := as @ bs))"
proof -
  have wok: "wait_ok s" and ac: "acyclic (waits s)" and links: "links_ok s" using ok by (auto simp: ipc_ok_def)
  show c: "callers_ok s' (C(d := as @ bs))" by (rule callers_remove(1) [OF C d split links snd to nxt head])
  have l: "links_ok s'" by (rule callers_remove(2) [OF C d split links snd to nxt head])
  have w: "wait_ok s'"
    using wok snd recv dead steady_use [OF st] unfolding wait_ok_def by (auto simp: to frm)
  have "P_BLOCKEDON (procs s' p) = P_BLOCKEDON (procs s p)" if "isokprocn p" "P_BLOCKEDON (procs s' p) \<noteq> NONE" for p
  proof -
    have "sending s p \<Longrightarrow> receiving s p \<Longrightarrow> p_getfrom_e (procs s p) = p_sendto_e (procs s p)"
      using wok that(1) by (simp add: wait_ok_def)
    then show ?thesis
      using that(2) snd [of p] recv [of p] to [of p] frm [of p]
      by (cases "sending s p"; cases "p = x"; cases "receiving s' p") (simp_all add: P_BLOCKEDON_bit)
  qed
  then have "waits s' \<subseteq> waits s" by (auto simp: waits_def)
  then have "acyclic (waits s')" by (rule acyclic_subset [OF ac])
  then show "ipc_ok s'" using base w c l by (auto simp: ipc_ok_def)
qed

text \<open>The steps of \<open>receive_queued\<close> before the sender is taken out of the queue, one lemma each.\<close>

definition unsends :: "int \<Rightarrow> kstate \<Rightarrow> kstate \<Rightarrow> bool" where
  "unsends x s s' \<longleftrightarrow> base_ok s' \<and> steady s s' \<and> (\<forall>p. proc_links (procs s' p) = proc_links (procs s p) \<and>
    (sending s' p \<longleftrightarrow> sending s p \<and> p \<noteq> x) \<and> (receiving s' p \<longrightarrow> receiving s p) \<and> dead s' p = dead s p)"

lemma unsends_wakes:
  assumes "unsends x s t" and "wakes t u" and "base_ok u"
  shows "unsends x s u"
  using assms steady_trans [of s t u] wakes_steady [of t u] by (simp add: unsends_def wakes_def)

lemma stop_sending_ok:
  assumes ok: "base_ok s" and x: "in_use s x"
  obtains s' where "RTS_UNSET K x RTS_SENDING s = Some s'" and "unsends x s s'" and "\<And>p. mail (procs s' p) = mail (procs s p)"
proof -
  have xo: "isokprocn x" using x by (simp add: in_use_def)
  obtain s1 where s1: "RTS_UNSET K x RTS_SENDING s = Some s1" and q1: "queues_ok s1" and fr: "sched_frame s s1"
    and bits: "\<And>p n. n \<noteq> 14 \<Longrightarrow> bit (rts s1 p) n \<longleftrightarrow> bit (rts s p) n \<and> \<not> (p = x \<and> bit RTS_SENDING n)"
    and same: "\<And>p. p \<noteq> x \<Longrightarrow> p \<noteq> proc_ptr s \<Longrightarrow> rts s1 p = rts s p"
    by (rule RTS_UNSET_bits [OF base_ok_parts(1) [OF ok] xo base_ok_parts(7) [OF ok xo], of K RTS_SENDING]) blast+
  have b: "free s1 p = free s p" "sending s1 p \<longleftrightarrow> sending s p \<and> p \<noteq> x" "receiving s1 p = receiving s p"
      "dead s1 p = dead s p" for p
    by (simp_all add: bits bit_flags)
  have l: "proc_links (procs s1 p) = proc_links (procs s p)" "delivering s1 p = delivering s p" for p
    using sched_frame_fields(1-16) [OF fr, of p] by (simp_all add: proc_links_def)
  have st: "steady s s1"
    using l(1) b(1) sched_frame_fields(17,18) [OF fr] by (simp add: steady_def proc_links_def)
  have "base_ok s1"
  proof (rule base_ok_steady [OF st ok q1])
    show "delivery_ok s1" using base_ok_parts(3) [OF ok] by (simp add: delivery_ok_def b(3) l(2))
    show "notify_ok s1"
      using sched_frame_fields(17) [OF fr] by (intro notify_ok_steady [OF st base_ok_parts(5) [OF ok]]) simp
    show "rts s1 p = rts s p" if "isokprocn p" "free s p" for p
      using same [of p] that x base_ok_parts(6) [OF ok] by (auto simp: in_use_def)
  qed
  then have "unsends x s s1" using st l(1) b by (simp add: unsends_def)
  then show ?thesis using s1 sched_frame_mail [OF fr] by (intro that)
qed

lemma sender_flags_ok:
  assumes ok: "base_ok s" and x: "isokprocn x" and c: "\<not> receiving s c" "x \<noteq> c"
  defines "t \<equiv> (if MF_ISSET (procs s x) MF_SENDING_FROM_KERNEL
    then upd_proc x (unset_misc MF_SENDING_FROM_KERNEL) (upd_proc c (IPC_STATUS_ADD_FLAGS IPC_FLG_MSG_FROM_KERNEL) s) else s)"
  shows "base_ok t" "wakes s t" "mail (procs t c) = mail (procs s c)"
proof -
  define u where "u = upd_proc c (IPC_STATUS_ADD_FLAGS IPC_FLG_MSG_FROM_KERNEL) s"
  have u: "base_ok u" "wakes s u"
    unfolding u_def IPC_STATUS_ADD_FLAGS_def by (rule base_ok_caller [OF ok c(1)]; simp)+
  have "receiving u x \<Longrightarrow> \<not> delivering u x" using base_ok_parts(3) [OF u(1)] x unfolding delivery_ok_def by blast
  then have v: "base_ok (upd_proc x (unset_misc MF_SENDING_FROM_KERNEL) u)" "wakes u (upd_proc x (unset_misc MF_SENDING_FROM_KERNEL) u)"
    using base_ok_upd_proc [OF u(1), of "unset_misc MF_SENDING_FROM_KERNEL" x] by (auto simp: bit_and_iff bit_not_iff)
  then show "base_ok t" "wakes s t"
    using ok u(2) unfolding t_def u_def [symmetric] by (auto intro: wakes_trans)
  show "mail (procs t c) = mail (procs s c)"
    using c(2) by (auto simp: t_def mail_def IPC_STATUS_ADD_FLAGS_def)
qed

lemma sig_delay_ok:
  assumes ok: "base_ok s" and x: "in_use s x" and env: "env_ok K" and c: "\<not> receiving s c" "x \<noteq> c"
  obtains s' where "(if MF_ISSET (procs s x) MF_SIG_DELAY then sig_delay_done K x s else Some s) = Some s'"
    and "base_ok s'" and "wakes s s'" and "mail (procs s' c) = mail (procs s c)"
proof (cases "MF_ISSET (procs s x) MF_SIG_DELAY")
  case True
  define t where "t = upd_proc x (unset_misc MF_SIG_DELAY) s"
  have "receiving s x \<Longrightarrow> \<not> delivering s x"
    using base_ok_parts(3) [OF ok] x unfolding delivery_ok_def in_use_def by blast
  then have t: "base_ok t" "wakes s t"
    using base_ok_upd_proc [OF ok, of "unset_misc MF_SIG_DELAY" x] by (auto simp: t_def bit_and_iff bit_not_iff)
  have "in_use t x" using x wakes_use(1) [OF t(2)] by simp
  then obtain s' where s': "cause_sig K x (SIGSNDELAY K) t = Some s'" "base_ok s'" "wakes t s'"
    "\<And>q. \<not> receiving t q \<Longrightarrow> mail (procs s' q) = mail (procs t q)"
    using cause_sig_base [OF t(1)] env unfolding env_ok_def by metis
  have "\<not> receiving t c" using c(1) wakes_fields(11) [OF t(2)] by blast
  then have "mail (procs s' c) = mail (procs s c)" using s'(4) c(2) by (simp add: t_def)
  then show ?thesis using True s' t(2) by (intro that [of s']) (auto simp: sig_delay_done_def t_def intro: wakes_trans)
next
  case False
  then show ?thesis using ok by (intro that [of s]) auto
qed

lemma base_ok_link:
  assumes ok: "base_ok s" and l: "l = Caller_q d \<or> l = Q_link d"
  shows "base_ok (assign l v s)" and "steady s (assign l v s)"
proof -
  show st: "steady s (assign l v s)" using l by (auto simp: steady_def)
  show "base_ok (assign l v s)"
  proof (rule base_ok_steady [OF st ok])
    show "queues_ok (assign l v s)" using l base_ok_parts(1) [OF ok] by auto
    show "delivery_ok (assign l v s)" using base_ok_parts(3) [OF ok] by (simp add: delivery_ok_def)
    show "notify_ok (assign l v s)" by (rule notify_ok_steady [OF st base_ok_parts(5) [OF ok]]) simp
  qed simp
qed

text \<open>The message of a queued sender is delivered and the sender leaves the queue.\<close>

lemma receive_queued_ok:
  assumes ok: "ipc_ok s" and c: "unblocked s caller" "\<not> delivering s caller" and C: "callers_ok s C"
    and split: "C caller = as @ x # bs" and env: "env_ok K"
  obtains s' where "receive_queued K caller (if as = [] then Caller_q caller else Q_link (last as)) x s = Some (ROK, s')"
    and "ipc_ok s'" and "steady s s'" and "callers_ok s' (C(caller := as @ bs))" and "\<not> sending s' x"
    and "delivering s' caller"
    and "p_delivermsg (procs s' caller) = (p_sendmsg (procs s x))\<lparr>m_source := p_endpoint (procs s x)\<rparr>"
proof -
  have base: "base_ok s" and wok: "wait_ok s" using ok by (auto simp: ipc_ok_def)
  have cu: "isokprocn caller" "\<not> sending s caller" "\<not> receiving s caller" using c by (auto simp: unblocked_def in_use_def)
  have "set (C caller) = senders s caller" using C cu(1) by (simp add: callers_ok_def)
  then have "x \<in> senders s caller" using split by (metis in_set_conv_decomp)
  then have x: "isokprocn x" "sending s x" "in_use s x" "\<not> dead s x" using wok by (auto simp: senders_def wait_ok_def)
  have xc: "x \<noteq> caller" using x cu by auto
  define msg where "msg = (p_sendmsg (procs s x))\<lparr>m_source := p_endpoint (procs s x)\<rparr>"
  define xpp where "xpp = (if as = [] then Caller_q caller else Q_link (last as))"
  define s0 where "s0 = upd_proc caller (\<lambda>y. set_misc MF_DELIVERMSG (y\<lparr>p_delivermsg := msg\<rparr>)) s"
  have s0: "base_ok s0" "wakes s s0" unfolding s0_def by (rule base_ok_caller [OF base cu(3)]; simp)+
  have "in_use s0 x" using x(3) wakes_use(1) [OF s0(2)] by simp
  then obtain s1 where s1: "RTS_UNSET K x RTS_SENDING s0 = Some s1" "unsends x s0 s1"
    and m1: "\<And>p. mail (procs s1 p) = mail (procs s0 p)"
    using stop_sending_ok [OF s0(1), of x K] by metis
  define call where "call = (if MF_ISSET (procs s1 x) MF_REPLY_PEND then SENDREC else SEND)"
  define s2 where "s2 = upd_proc caller (IPC_STATUS_ADD_CALL call) s1"
  define s3 where "s3 = (if MF_ISSET (procs s2 x) MF_SENDING_FROM_KERNEL
    then upd_proc x (unset_misc MF_SENDING_FROM_KERNEL) (upd_proc caller (IPC_STATUS_ADD_FLAGS IPC_FLG_MSG_FROM_KERNEL) s2) else s2)"
  have nr1: "\<not> receiving s1 caller" using cu wakes_fields(11) [OF s0(2)] s1(2) by (auto simp: unsends_def)
  have s2: "base_ok s2" "wakes s1 s2"
    unfolding s2_def IPC_STATUS_ADD_CALL_def
    by (rule base_ok_caller [OF _ nr1]; use s1(2) in \<open>simp add: unsends_def\<close>)+
  have nr2: "\<not> receiving s2 caller" using nr1 wakes_fields(11) [OF s2(2)] by blast
  have s3: "base_ok s3" "wakes s2 s3" "mail (procs s3 caller) = mail (procs s2 caller)"
    unfolding s3_def by (rule sender_flags_ok [OF s2(1) x(1) nr2 xc])+
  have nr3: "\<not> receiving s3 caller" using nr2 wakes_fields(11) [OF s3(2)] by blast
  have u3: "unsends x s0 s3" by (rule unsends_wakes [OF s1(2) wakes_trans [OF s2(2) s3(2)] s3(1)])
  then have "in_use s3 x" using x(3) steady_use(1) wakes_use(1) [OF s0(2)] by (auto simp: unsends_def)
  then obtain s4 where s4: "(if MF_ISSET (procs s3 x) MF_SIG_DELAY then sig_delay_done K x s3 else Some s3) = Some s4"
    "base_ok s4" "wakes s3 s4" "mail (procs s4 caller) = mail (procs s3 caller)"
    using sig_delay_ok [OF s3(1) _ env nr3 xc] by metis
  have u4: "unsends x s0 s4" by (rule unsends_wakes [OF u3 s4(3,2)])
  define s5 where "s5 = assign (Q_link x) None (assign xpp (p_q_link (procs s4 x)) s4)"
  define s6 where "s6 = snd (receive_done caller s5)"
  have run: "receive_queued K caller xpp x s = Some (receive_done caller s5)"
  proof -
    note rules = s1(1) [unfolded s0_def msg_def] s4(1) [unfolded s3_def s2_def call_def]
    show ?thesis
      using x c rules
      by (simp add: receive_queued_def RTS_ISSET_bit MF_ISSET_bit(1) in_use_def Let_def s5_def)
  qed
  have b5: "base_ok s5" "steady s4 s5"
  proof -
    note a = base_ok_link [OF s4(2), of xpp "if as = [] then caller else last as" "p_q_link (procs s4 x)"]
    have xpp': "xpp = Caller_q (if as = [] then caller else last as) \<or> xpp = Q_link (if as = [] then caller else last as)"
      by (simp add: xpp_def)
    show "base_ok s5" "steady s4 s5"
      unfolding s5_def using base_ok_link [OF a(1) [OF xpp'], of "Q_link x" x None] a(2) [OF xpp'] by (auto intro: steady_trans)
  qed
  have nr5: "\<not> receiving s5 caller"
    using cu wakes_fields(11) [OF s0(2)] u4 unfolding s5_def unsends_def by auto
  note b6 = receive_done_ok [OF b5(1) nr5, folded s6_def]
  have st6: "steady s s6"
    using wakes_steady [OF s0(2)] u4 b5(2) wakes_steady [OF b6(2)] unfolding unsends_def by (blast intro: steady_trans)
  have k4: "proc_links (procs s4 p) = proc_links (procs s p)" "sending s4 p \<longleftrightarrow> sending s p \<and> p \<noteq> x"
      "receiving s4 p \<Longrightarrow> receiving s p" "dead s4 p = dead s p" for p
    using u4 s0(2) by (simp_all add: unsends_def wakes_def)
  have k6: "proc_links (procs s6 p) = proc_links (procs s5 p)" "rts s6 p = rts s4 p" for p
    by (simp_all add: s6_def receive_done_def s5_def)
  have "ipc_ok s6 \<and> callers_ok s6 (C(caller := as @ bs))"
  proof -
    have k5: "p_sendto_e (procs s5 p) = p_sendto_e (procs s4 p)" "p_getfrom_e (procs s5 p) = p_getfrom_e (procs s4 p)"
        "p_q_link (procs s5 p) = (if p = x then None else if xpp = Q_link p then p_q_link (procs s4 x) else p_q_link (procs s4 p))"
        "p_caller_q (procs s5 p) = (if xpp = Caller_q p then p_q_link (procs s4 x) else p_caller_q (procs s4 p))" for p
      unfolding s5_def assign_fields assign_links by auto
    have f: "p_sendto_e (procs s6 p) = p_sendto_e (procs s p)" "p_getfrom_e (procs s6 p) = p_getfrom_e (procs s p)"
        "sending s6 p \<longleftrightarrow> sending s p \<and> p \<noteq> x" "receiving s6 p \<Longrightarrow> receiving s p" "dead s6 p = dead s p" for p
      using k4 [of p] k6 [of p] k5 [of p] by (simp_all add: proc_links_def)
    have n: "q_link s6 = (if as = [] then q_link s else (q_link s)(last as := q_link s x))(x := None)"
      using k4(1) k6(1) by (auto simp: fun_eq_iff proc_links_def k5 xpp_def)
    have h: "p_caller_q (procs s6 y) = (if as = [] \<and> y = caller then q_link s x else p_caller_q (procs s y))" for y
      using k4(1) [of y] k4(1) [of x] k6(1) [of y] by (auto simp: proc_links_def k5 xpp_def)
    show ?thesis
      using ipc_ok_remove [OF ok b6(1) st6 C cu(1) split f(3,4,5,1,2) n h] by simp
  qed
  moreover have "\<not> sending s6 x" using k4(2) k6(2) by simp
  moreover have "delivering s6 caller \<and> p_delivermsg (procs s6 caller) = msg"
  proof -
    have "mail (procs s4 caller) = mail (procs s0 caller)"
      using s4(4) s3(3) m1 [of caller] by (simp add: s2_def mail_def IPC_STATUS_ADD_CALL_def)
    then show ?thesis using xc
      by (simp add: mail_def s6_def receive_done_def s5_def s0_def bit_and_iff bit_or_iff bit_not_iff bit_flags)
  qed
  ultimately show ?thesis
    using run st6 b6(3) unfolding xpp_def msg_def
    by (intro that [of s6]) (simp_all add: s6_def prod_eq_iff)
qed

end
