(* ===== verification/Kernel_Calls.thy ===== *)
theory Kernel_Calls
  imports Kernel_Receive
begin

text \<open>
  The remaining operations of the kernel's message passing: blocking in a receive, \<open>mini_receive\<close>,
  \<open>do_sync_ipc\<close>, \<open>mini_senda\<close>, \<open>do_ipc\<close> and what runs before a process is resumed. Each lemma says
  that the operation returns (no assertion of the code fails and no loop runs forever) and keeps the
  invariant \<open>ipc_ok\<close>.
\<close>

section \<open>Blocking in a receive\<close>

text \<open>What the caller of a receive may wait for: any process, or a process other than itself.\<close>

definition source_ok :: "kstate \<Rightarrow> int \<Rightarrow> int \<Rightarrow> bool" where
  "source_ok s caller src_e \<longleftrightarrow> src_e = ANY \<or> live s src_e \<and> ENDPOINT_P src_e \<noteq> caller"

text \<open>The caller is not blocked, or it is in the middle of a \<open>SENDREC\<close> with the source.\<close>

definition may_block :: "kstate \<Rightarrow> int \<Rightarrow> int \<Rightarrow> bool" where
  "may_block s caller src_e \<longleftrightarrow> in_use s caller \<and> \<not> dead s caller \<and> \<not> receiving s caller \<and> \<not> delivering s caller \<and>
    (sending s caller \<longrightarrow> p_sendto_e (procs s caller) = src_e)"

lemma receive_no_chain:
  assumes ok: "ipc_ok s" and m: "may_block s caller e" and e: "live s e" "ENDPOINT_P e \<noteq> caller"
    and nos: "\<not> sending s caller \<Longrightarrow> ENDPOINT_P e \<notin> senders s caller"
  obtains d where "deadlock s RECEIVE caller e = Some d" and "d \<noteq> 0 \<longleftrightarrow> (ENDPOINT_P e, caller) \<in> (waits s)\<^sup>+"
proof -
  let ?x = "ENDPOINT_P e"
  have base: "base_ok s" and wok: "wait_ok s" and ac: "acyclic (waits s)" using ok by (auto simp: ipc_ok_def)
  have cu: "in_use s caller" "isokprocn caller" using m by (auto simp: may_block_def in_use_def)
  obtain d where d: "deadlock s RECEIVE caller e = Some d"
    and res: "d \<noteq> 0 \<longleftrightarrow> (?x, caller) \<in> (waits s)\<^sup>+ \<and> \<not> ((?x, caller) \<in> waits s \<and> exchange s RECEIVE ?x)"
    using deadlock_result [OF base wok ac cu(1) e, of RECEIVE] by blast
  have "\<not> ((?x, caller) \<in> waits s \<and> exchange s RECEIVE ?x)"
  proof
    assume a: "(?x, caller) \<in> waits s \<and> exchange s RECEIVE ?x"
    then have "?x \<in> senders s caller" by (auto simp: senders_def waits_def exchange_RECEIVE P_BLOCKEDON_bit)
    with nos have snd: "sending s caller" by blast
    then have "p_sendto_e (procs s caller) = e" using m by (simp add: may_block_def)
    then have "(caller, ?x) \<in> waits s"
      using snd cu(2) ok_slot_not_special [of e] e(1) by (auto simp: waits_def P_BLOCKEDON_bit live_def in_use_def)
    with a ac show False by (auto simp: acyclic_def dest: trancl_into_trancl2)
  qed
  then show ?thesis using d res by (intro that) blast+
qed

lemma start_receiving_ok:
  assumes ok: "ipc_ok s" and m: "may_block s caller e" and src: "source_ok s caller e"
    and nochain: "e \<noteq> ANY \<Longrightarrow> (ENDPOINT_P e, caller) \<notin> (waits s)\<^sup>+"
  obtains s' where "RTS_SET K caller RTS_RECEIVING (upd_proc caller (\<lambda>x. x\<lparr>p_getfrom_e := e\<rparr>) s) = Some s'"
    and "ipc_ok s'" and "steady s s'" and "\<And>C. callers_ok s' C = callers_ok s C"
    and "receiving s' caller" and "p_getfrom_e (procs s' caller) = e"
proof -
  have base: "base_ok s" and wok: "wait_ok s" and ac: "acyclic (waits s)" using ok by (auto simp: ipc_ok_def)
  have cu: "in_use s caller" "isokprocn caller" "\<not> receiving s caller" "\<not> delivering s caller"
    using m by (auto simp: may_block_def in_use_def)
  define s1 where "s1 = upd_proc caller (\<lambda>x. x\<lparr>p_getfrom_e := e\<rparr>) s"
  have q1: "queues_ok s1" using base_ok_parts(1) [OF base] by (simp add: s1_def)
  from RTS_SET_queues [OF q1 cu(2), of K RTS_RECEIVING] obtain s2 where
    s2: "RTS_SET K caller RTS_RECEIVING s1 = Some s2" and q2: "queues_ok s2" by auto
  have fr: "sched_frame s1 s2" and r2: "\<And>x. rts s2 x = (if x = caller then rts s1 caller OR RTS_RECEIVING else rts s1 x)"
    by (rule RTS_SET_frame [OF s2])+
  have bits: "free s2 p = free s p" "sending s2 p = sending s p" "dead s2 p = dead s p"
      "receiving s2 p \<longleftrightarrow> receiving s p \<or> p = caller" for p
    by (auto simp: r2 s1_def bit_or_iff bit_flags)
  have f: "p_sendto_e (procs s2 p) = p_sendto_e (procs s p)" "p_getfrom_e (procs s2 p) = (if p = caller then e else p_getfrom_e (procs s p))"
      "p_endpoint (procs s2 p) = p_endpoint (procs s p)" "priority s2 p = priority s p" "p_priv (procs s2 p) = p_priv (procs s p)"
      "delivering s2 p = delivering s p" "p_q_link (procs s2 p) = p_q_link (procs s p)" "p_caller_q (procs s2 p) = p_caller_q (procs s p)" for p
    using sched_frame_fields(1-16) [OF fr, of p] by (simp_all add: s1_def)
  have g: "privs s2 = privs s" "proc_ptr s2 = proc_ptr s" using sched_frame_fields(17,18) [OF fr] by (simp_all add: s1_def)
  have st: "steady s s2" using f g bits by (simp add: steady_def)
  have base2: "base_ok s2"
  proof (rule base_ok_steady [OF st base q2])
    show "delivery_ok s2" using base_ok_parts(3) [OF base] cu(4) by (auto simp: delivery_ok_def bits(4) f(6))
    show "notify_ok s2" by (rule notify_ok_steady [OF st base_ok_parts(5) [OF base]]) (simp add: g)
    show "isokprocn p \<Longrightarrow> free s p \<Longrightarrow> rts s2 p = rts s p" for p using cu by (auto simp: r2 s1_def in_use_def)
  qed
  have C2: "callers_ok s2 C = callers_ok s C" for C by (simp add: callers_ok_def senders_def bits f)
  have wok2: "wait_ok s2"
    using wok src m steady_use [OF st] unfolding wait_ok_def source_ok_def may_block_def by (auto simp: bits f(1,2))
  have "acyclic (waits s2)"
  proof (cases "sending s caller \<or> e = ANY")
    case True
    then have "P_BLOCKEDON (procs s2 p) = P_BLOCKEDON (procs s p) \<or> P_BLOCKEDON (procs s2 p) = ANY" for p
      using bits [of p] f(1,2) [of p] by (auto simp: P_BLOCKEDON_bit)
    then have "waits s2 \<subseteq> waits s" unfolding waits_def by auto metis+
    then show ?thesis by (rule acyclic_subset [OF ac])
  next
    case False
    then have e: "live s e" "ENDPOINT_P e \<noteq> caller" "e \<noteq> ANY" using src by (auto simp: source_ok_def)
    have blk: "P_BLOCKEDON (procs s2 p) = (if p = caller then e else P_BLOCKEDON (procs s p))" for p
      using False bits [of p] f(1,2) [of p] by (auto simp: P_BLOCKEDON_bit)
    have "(caller, q) \<notin> waits s" for q using False cu(3) by (auto simp: waits_def P_BLOCKEDON_bit)
    then have "waits s2 = insert (caller, ENDPOINT_P e) (waits s)"
      by (intro waits_block [OF cu(2) e(1)]) (use blk in auto)
    then show ?thesis using ac nochain [OF e(3)] e(2) by (simp add: rtrancl_eq_or_trancl)
  qed
  moreover have "links_ok s2" using ok by (simp add: ipc_ok_def links_ok_def bits f)
  ultimately have "ipc_ok s2" using ok base2 wok2 C2 by (simp add: ipc_ok_def)
  then show ?thesis using s2 st C2 bits(4) f(2) by (intro that [of s2]) (simp_all add: s1_def)
qed

lemma receive_block_ok:
  assumes ok: "ipc_ok s" and m: "may_block s caller e" and src: "source_ok s caller e"
    and nos: "\<not> sending s caller \<Longrightarrow> ENDPOINT_P e \<notin> senders s caller"
  obtains r s' where "receive_block K caller e flags s = Some (r, s')" and "ipc_ok s'" and "steady s s'"
    and "\<And>C. callers_ok s' C = callers_ok s C"
    and "r = ROK \<and> receiving s' caller \<and> p_getfrom_e (procs s' caller) = e \<or>
      s' = s \<and> (r = RNOTREADY \<and> flags AND NON_BLOCKING \<noteq> 0 \<or> r = RLOCKED \<and> e \<noteq> ANY \<and> (ENDPOINT_P e, caller) \<in> (waits s)\<^sup>+)"
proof (cases "flags AND NON_BLOCKING = 0")
  case nb: True
  obtain d where d: "deadlock s RECEIVE caller e = Some d"
    "d \<noteq> 0 \<longleftrightarrow> e \<noteq> ANY \<and> (ENDPOINT_P e, caller) \<in> (waits s)\<^sup>+"
  proof (cases "e = ANY")
    case True
    then show ?thesis using deadlock_ANY by (intro that [of 0]) simp_all
  next
    case False
    then show ?thesis using src nos that by (auto simp: source_ok_def intro: receive_no_chain [OF ok m])
  qed
  show ?thesis
  proof (cases "d = 0")
    case True
    with d(2) have "e \<noteq> ANY \<Longrightarrow> (ENDPOINT_P e, caller) \<notin> (waits s)\<^sup>+" by blast
    then obtain s' where s': "RTS_SET K caller RTS_RECEIVING (upd_proc caller (\<lambda>x. x\<lparr>p_getfrom_e := e\<rparr>) s) = Some s'"
      "ipc_ok s'" "steady s s'" "\<And>C. callers_ok s' C = callers_ok s C" "receiving s' caller" "p_getfrom_e (procs s' caller) = e"
      using start_receiving_ok [OF ok m src] by blast
    then show ?thesis using nb d(1) True by (intro that [of ROK s']) (simp_all add: receive_block_def)
  next
    case False
    then show ?thesis using nb d ok by (intro that [of RLOCKED s]) (simp_all add: receive_block_def wakes_steady)
  qed
next
  case False
  then show ?thesis using ok by (intro that [of RNOTREADY s]) (simp_all add: receive_block_def wakes_steady)
qed

section \<open>Receiving\<close>

definition src_slot :: "int \<Rightarrow> int" where
  "src_slot e = (if e = ANY then ANY else ENDPOINT_P e)"

lemma unblocked_may_block: "unblocked s p \<Longrightarrow> \<not> delivering s p \<Longrightarrow> may_block s p e"
  by (simp add: unblocked_def may_block_def)

lemma wakes_unblocked: "wakes s s' \<Longrightarrow> unblocked s p \<Longrightarrow> unblocked s' p"
  using wakes_fields [of s s'] wakes_use(1) [of s s'] by (auto simp: unblocked_def)

lemma steady_source: "steady s s' \<Longrightarrow> source_ok s' c e = source_ok s c e"
  by (simp add: source_ok_def steady_use)

text \<open>
  What a receive leaves: the call succeeded and the caller has a message or waits for one, or it failed and
  the caller goes on.
\<close>

definition received :: "int \<Rightarrow> int \<Rightarrow> result \<Rightarrow> kstate \<Rightarrow> bool" where
  "received caller e r s' \<longleftrightarrow> (if r = ROK then delivering s' caller \<or> receiving s' caller \<and> p_getfrom_e (procs s' caller) = e
    else \<not> receiving s' caller \<and> \<not> delivering s' caller)"

lemma receive_from_queue_ok:
  assumes ok: "ipc_ok s" and c: "unblocked s caller" "\<not> delivering s caller" and src: "source_ok s caller e"
    and env: "env_ok K"
  obtains r s' where "receive_from_queue K caller e (src_slot e) flags s = Some (r, s')" and "ipc_ok s'" and "steady s s'"
    and "received caller e r s'"
proof -
  from ok obtain C where C: "callers_ok s C" by (auto simp: ipc_ok_def)
  have co: "isokprocn caller" using c by (auto simp: unblocked_def in_use_def)
  then have q: "linked (q_link s) (deref s (Caller_q caller)) (C caller)" "set (C caller) = senders s caller"
    using C by (simp_all add: callers_ok_def)
  show ?thesis
  proof (cases "\<exists>y \<in> set (C caller). accepts (src_slot e) y")
    case True
    from split_list_first_prop [OF this] obtain as x bs where split: "C caller = as @ x # bs"
      and x: "accepts (src_slot e) x" "\<forall>y \<in> set as. \<not> accepts (src_slot e) y" by blast
    obtain s' where s': "receive_queued K caller (if as = [] then Caller_q caller else Q_link (last as)) x s = Some (ROK, s')"
      "ipc_ok s'" "steady s s'" "delivering s' caller"
      using receive_queued_ok [OF ok c C split env] by blast
    have "find_sender s (src_slot e) (Caller_q caller) = Some (Some (if as = [] then Caller_q caller else Q_link (last as), x))"
      using find_sender_some [of s "Caller_q caller" as x bs "src_slot e"] q(1) split x by simp
    then show ?thesis
      using s' by (intro that [of ROK s']) (simp_all add: receive_from_queue_def received_def)
  next
    case False
    then have none: "find_sender s (src_slot e) (Caller_q caller) = Some None" by (intro find_sender_none [OF q(1)]) blast
    have nos: "ENDPOINT_P e \<notin> senders s caller"
    proof (cases "e = ANY")
      case True
      then show ?thesis using ok_slot_not_special [of ANY] by (auto simp: senders_def)
    qed (use False q(2) in \<open>auto simp: accepts_def src_slot_def\<close>)
    obtain r s' where s': "receive_block K caller e flags s = Some (r, s')" "ipc_ok s'" "steady s s'"
      and res: "r = ROK \<and> receiving s' caller \<and> p_getfrom_e (procs s' caller) = e \<or> s' = s \<and> r \<noteq> ROK"
      by (rule receive_block_ok [OF ok unblocked_may_block [OF c] src nos, of K flags]) auto
    then show ?thesis
      using none c by (intro that [of r s']) (auto simp: receive_from_queue_def received_def unblocked_def)
  qed
qed

lemma has_pending_ok:
  obtains r where "has_pending s m p = Some r"
    and "\<And>k. r = Some k \<Longrightarrow> get_sys_bit m k \<and> (p \<noteq> ANY \<longrightarrow> nr_to_id s p = k)"
proof (cases "p = ANY")
  case True
  from has_pending_any [of s m] obtain r where "has_pending s m ANY = Some r" "\<And>k. r = Some k \<Longrightarrow> get_sys_bit m k" by force
  then show ?thesis using True by (intro that) auto
next
  case False
  then show ?thesis by (intro that [of "if get_sys_bit m (nr_to_id s p) then Some (nr_to_id s p) else None"])
    (auto simp: has_pending_def split: if_splits)
qed

lemma receive_async_ok:
  assumes ok: "ipc_ok s" and c: "unblocked s caller" "\<not> delivering s caller" and src: "source_ok s caller e"
    and env: "env_ok K"
  obtains r s' where "receive_async K caller e (src_slot e) flags s = Some (r, s')" and "ipc_ok s'" and "steady s s'"
    and "received caller e r s'"
proof -
  have base: "base_ok s" using ok by (simp add: ipc_ok_def)
  have nr: "\<not> receiving s caller" using c by (simp add: unblocked_def)
  obtain pend where pend: "has_pending_asend s caller (src_slot e) = Some pend"
    unfolding has_pending_asend_def by (rule has_pending_ok)
  show ?thesis
  proof (cases pend)
    case None
    obtain r s' where "receive_from_queue K caller e (src_slot e) flags s = Some (r, s')" "ipc_ok s'" "steady s s'"
      "received caller e r s'"
      by (rule receive_from_queue_ok [OF ok c src env])
    then show ?thesis using None pend by (intro that [of r s']) (simp_all add: receive_async_def)
  next
    case (Some i)
    obtain r s1 where s1: "(if src_slot e \<noteq> ANY then try_one K (src_slot e) caller s else try_async K caller s) = Some (r, s1)"
      and step: "async_step caller (r = ROK) s s1"
      using try_one_ok [OF base nr env, of "src_slot e"] try_async_from_ok [OF base nr env c(2)]
      unfolding try_async_def by (metis (full_types))
    have b1: "base_ok s1" and w1: "wakes s s1" and d1: "delivering s1 caller \<longleftrightarrow> r = ROK" using step c(2) by (auto simp: async_step_def)
    have ok1: "ipc_ok s1" by (rule ipc_ok_wakes [OF ok w1 b1])
    have c1: "unblocked s1 caller" by (rule wakes_unblocked [OF w1 c(1)])
    show ?thesis
    proof (cases "r = ROK")
      case True
      define s2 where "s2 = upd_proc caller (IPC_STATUS_ADD_CALL SENDA) s1"
      have b2: "base_ok s2" "wakes s1 s2"
        unfolding s2_def IPC_STATUS_ADD_CALL_def by (rule base_ok_caller [OF b1]; use c1 in \<open>simp add: unblocked_def\<close>)+
      have "\<not> receiving s2 caller" using c1 wakes_fields(11) [OF b2(2)] by (auto simp: unblocked_def)
      note b3 = receive_done_ok [OF b2(1) this]
      let ?s' = "snd (receive_done caller s2)"
      have w: "wakes s ?s'" using w1 b2(2) b3(2) by (blast intro: wakes_trans)
      have "delivering ?s' caller"
        using d1 True by (simp add: receive_done_def s2_def IPC_STATUS_ADD_CALL_def bit_and_iff bit_not_iff bit_flags)
      moreover have "receive_async K caller e (src_slot e) flags s = Some (receive_done caller s2)"
        using pend Some s1 True by (simp add: receive_async_def s2_def)
      ultimately show ?thesis
        using b3(3) wakes_steady [OF w] ipc_ok_wakes [OF ok w b3(1)]
        by (intro that [of ROK ?s']) (simp_all add: received_def prod_eq_iff)
    next
      case False
      obtain r' s' where "receive_from_queue K caller e (src_slot e) flags s1 = Some (r', s')" "ipc_ok s'" "steady s1 s'"
        "received caller e r' s'"
        using receive_from_queue_ok [OF ok1 c1 _ _ env] d1 False src steady_source [OF wakes_steady [OF w1]] by metis
      then show ?thesis
        using pend Some s1 False steady_trans [OF wakes_steady [OF w1]]
        by (intro that [of r' s']) (simp_all add: receive_async_def)
    qed
  qed
qed

lemma receive_any_ok:
  assumes ok: "ipc_ok s" and m: "may_block s caller e" and src: "source_ok s caller e" and env: "env_ok K"
  obtains r s' where "receive_any K caller e (src_slot e) flags s = Some (r, s')" and "ipc_ok s'" and "steady s s'"
    and "received caller e r s'"
proof (cases "sending s caller")
  case True
  obtain r s' where "receive_block K caller e flags s = Some (r, s')" "ipc_ok s'" "steady s s'"
    "r = ROK \<and> receiving s' caller \<and> p_getfrom_e (procs s' caller) = e \<or> s' = s \<and> r \<noteq> ROK"
    by (rule receive_block_ok [OF ok m src, of K flags]) (use True in auto)
  then show ?thesis
    using True m by (intro that [of r s']) (auto simp: receive_any_def RTS_ISSET_bit received_def may_block_def)
next
  case False
  then have c: "unblocked s caller" "\<not> delivering s caller" using m by (auto simp: may_block_def unblocked_def)
  obtain r s' where async: "receive_async K caller e (src_slot e) flags s = Some (r, s')" "ipc_ok s'" "steady s s'"
    "received caller e r s'" by (rule receive_async_ok [OF ok c src env])
  obtain pend where pend: "has_pending_notify s caller (src_slot e) = Some pend"
    "\<And>k. pend = Some k \<Longrightarrow> get_sys_bit (s_notify_pending (priv_of s caller)) k \<and> (src_slot e \<noteq> ANY \<longrightarrow> nr_to_id s (src_slot e) = k)"
    unfolding has_pending_notify_def by (rule has_pending_ok) blast
  show ?thesis
  proof (cases "MF_ISSET (procs s caller) MF_REPLY_PEND \<or> pend = None")
    case True
    then show ?thesis using \<open>\<not> sending s caller\<close> async pend(1)
      by (intro that [of r s']) (auto simp: receive_any_def RTS_ISSET_bit)
  next
    case no: False
    then obtain k where k: "pend = Some k" by auto
    have "e = ANY \<or> live s e \<and> nr_to_id s (ENDPOINT_P e) = k"
      using pend(2) [OF k] src ok_slot_not_special [of e]
      by (auto simp: source_ok_def src_slot_def live_def in_use_def isokprocn_def endpoint_consts push_bit_eq_mult split: if_splits)
    then obtain s2 where s2: "receive_notify caller e k s = Some (ROK, s2)" "base_ok s2" "wakes s s2" "delivering s2 caller"
      using receive_notify_ok [of s caller e k] ok c pend(2) [OF k] by (auto simp: ipc_ok_def unblocked_def)
    then show ?thesis
      using no False k pend(1) ipc_ok_wakes [OF ok s2(3,2)] wakes_steady [OF s2(3)]
      by (intro that [of ROK s2]) (auto simp: receive_any_def RTS_ISSET_bit received_def)
  qed
qed

lemma wakes_may_block:
  assumes "wakes s s'" and "may_block s p e" and "delivering s' p = delivering s p"
  shows "may_block s' p e"
  using assms wakes_fields [OF assms(1)] wakes_use(1) [OF assms(1)] by (auto simp: may_block_def)

lemma mini_receive_ok:
  assumes ok: "ipc_ok s" and m: "may_block s caller e" and src: "source_ok s caller e" and env: "env_ok K"
  obtains r s' where "mini_receive K caller e buf flags s = Some (r, s')" and "ipc_ok s'" and "steady s s'"
    and "received caller e r s'"
proof -
  define s1 where "s1 = upd_proc caller (\<lambda>x. x\<lparr>p_delivermsg_vir := buf\<rparr>) s"
  have b1: "base_ok s1" "wakes s s1"
    unfolding s1_def by (rule base_ok_caller; use ok m in \<open>simp add: ipc_ok_def may_block_def proc_links_def\<close>)+
  have ok1: "ipc_ok s1" by (rule ipc_ok_wakes [OF ok b1(2,1)])
  have m1: "may_block s1 caller e" by (rule wakes_may_block [OF b1(2) m]) (simp add: s1_def)
  have src1: "source_ok s1 caller e" using src steady_source [OF wakes_steady [OF b1(2)]] by simp
  obtain r s' where s': "receive_any K caller e (src_slot e) flags s1 = Some (r, s')" "ipc_ok s'" "steady s1 s'" "received caller e r s'"
    by (rule receive_any_ok [OF ok1 m1 src1 env])
  have st: "steady s s'" using wakes_steady [OF b1(2)] s'(3) by (rule steady_trans)
  have nd: "\<not> MF_ISSET (procs s caller) MF_DELIVERMSG" using m by (simp add: may_block_def MF_ISSET_bit)
  consider (any) "e = ANY" | (dead) "e \<noteq> ANY" "RTS_ISSET (procs s1 (ENDPOINT_P e)) RTS_NO_ENDPOINT"
    | (one) "e \<noteq> ANY" "\<not> RTS_ISSET (procs s1 (ENDPOINT_P e)) RTS_NO_ENDPOINT" by blast
  then show ?thesis
  proof cases
    case dead
    then have "mini_receive K caller e buf flags s = Some (RDEADSRCDST, s1)"
      using nd src1 base_ok_live [OF b1(1), of e]
      by (simp add: mini_receive_def Let_def s1_def [symmetric] source_ok_def)
    then show ?thesis
      using ok1 wakes_steady [OF b1(2)] m1
      by (intro that [of RDEADSRCDST s1]) (simp_all add: received_def may_block_def)
  next
    case any
    then have "mini_receive K caller e buf flags s = Some (r, s')"
      using nd s'(1) by (simp add: mini_receive_def Let_def s1_def [symmetric] src_slot_def)
    then show ?thesis using s'(2,4) st by (intro that)
  next
    case one
    then have "mini_receive K caller e buf flags s = Some (r, s')"
      using nd s'(1) src1 base_ok_live [OF b1(1), of e]
      by (simp add: mini_receive_def Let_def s1_def [symmetric] src_slot_def source_ok_def)
    then show ?thesis using s'(2,4) st by (intro that)
  qed
qed

section \<open>System calls\<close>

text \<open>A process that may send to another one sends neither to itself nor to a slot that is not in use.\<close>

lemma sync_ipc_allowed:
  assumes ok: "base_ok s" and c: "in_use s caller" and a: "sync_ipc_denied s caller nr e = None"
  shows "nr \<in> set ipc_call_names" and "bit (s_trap_mask (priv_of s caller)) (nat nr)"
    and "e = ANY \<and> nr = RECEIVE \<or> live s e" and "nr \<noteq> RECEIVE \<Longrightarrow> ENDPOINT_P e \<noteq> caller \<and> live s e"
proof -
  note live = base_ok_live [OF ok, of e]
  show nr: "nr \<in> set ipc_call_names" and "bit (s_trap_mask (priv_of s caller)) (nat nr)"
    and l: "e = ANY \<and> nr = RECEIVE \<or> live s e"
    using a by (auto simp: sync_ipc_denied_def Let_def live split: if_splits)
  assume nr: "nr \<noteq> RECEIVE"
  with l have e: "live s e" by simp
  then have "e \<noteq> ANY" using ok_slot_not_special [of e] by (auto simp: live_def in_use_def)
  then have "may_send_to s caller (ENDPOINT_P e)"
    using a nr e by (simp add: sync_ipc_denied_def Let_def live split: if_splits)
  moreover have "\<not> may_send_to s caller caller"
    using base_ok_parts(4) [OF ok] c by (simp add: privs_ok_def may_send_to_def nr_to_id_def)
  ultimately show "ENDPOINT_P e \<noteq> caller \<and> live s e" using e by metis
qed

lemmas call_numbers = SEND_def RECEIVE_def SENDREC_def NOTIFY_def SENDNB_def SENDA_def

text \<open>The two halves of a \<open>SENDREC\<close>.\<close>

lemma sendrec_ok:
  assumes ok: "ipc_ok s" and c: "unblocked s caller" "\<not> delivering s caller" and e: "live s e" "ENDPOINT_P e \<noteq> caller"
    and env: "env_ok K"
  obtains r s' where "do { (r, s1) \<leftarrow> mini_send K caller e (User_ptr ptr) 0 (upd_proc caller (set_misc MF_REPLY_PEND) s);
      if r \<noteq> ROK then Some (r, s1) else mini_receive K caller e ptr 0 s1 } = Some (r, s')" and "ipc_ok s'" and "steady s s'"
proof -
  have base: "base_ok s" using ok by (simp add: ipc_ok_def)
  have cu: "in_use s caller" "\<not> receiving s caller" using c by (auto simp: unblocked_def)
  have user: "msg_fits 0 (User_ptr ptr)" by (simp add: msg_fits_def)
  define s1 where "s1 = upd_proc caller (set_misc MF_REPLY_PEND) s"
  have b1: "base_ok s1" "wakes s s1" unfolding s1_def by (rule base_ok_caller [OF base cu(2)]; simp)+
  have ok1: "ipc_ok s1" by (rule ipc_ok_wakes [OF ok b1(2,1)])
  have c1: "unblocked s1 caller" by (rule wakes_unblocked [OF b1(2) c(1)])
  have e1: "live s1 e" using e(1) wakes_use(2) [OF b1(2)] by simp
  obtain r s2 where s2: "mini_send K caller e (User_ptr ptr) 0 s1 = Some (r, s2)" "ipc_ok s2" "steady s1 s2"
    and c2: "unblocked s2 caller \<or> r = ROK \<and> sending s2 caller \<and> p_sendto_e (procs s2 caller) = e \<and> \<not> receiving s2 caller"
    and d2: "delivering s2 caller = delivering s1 caller"
    by (rule mini_send_ok [OF ok1 c1 e1 e(2) user, of K])
  have st2: "steady s s2" using wakes_steady [OF b1(2)] s2(3) by (rule steady_trans)
  show ?thesis
  proof (cases "r = ROK")
    case True
    have "\<not> delivering s1 caller" using c(2) by (simp add: s1_def bit_or_iff bit_flags)
    moreover have "in_use s2 caller" using cu(1) steady_use(1) [OF st2] by simp
    moreover have "\<not> dead s2 caller" if "sending s2 caller"
      using s2(2) that \<open>in_use s2 caller\<close> by (auto simp: ipc_ok_def wait_ok_def in_use_def)
    ultimately have "may_block s2 caller e" using c2 d2 by (auto simp: may_block_def unblocked_def)
    moreover have "source_ok s2 caller e" using e steady_use(2) [OF st2] by (simp add: source_ok_def)
    ultimately obtain r' s' where "mini_receive K caller e ptr 0 s2 = Some (r', s')" "ipc_ok s'" "steady s2 s'"
      using mini_receive_ok [OF s2(2) _ _ env] by metis
    then show ?thesis
      using s2(1) True steady_trans [OF st2]
      by (intro that [of r' s']) (simp_all add: do_sync_ipc_def s1_def)
  next
    case False
    then show ?thesis
      using s2(1,2) st2 by (intro that [of r s2]) (simp_all add: s1_def)
  qed
qed

lemma do_sync_ipc_ok:
  assumes ok: "ipc_ok s" and c: "unblocked s caller" "\<not> delivering s caller" and nr: "nr \<noteq> SENDA"
    and self: "nr = RECEIVE \<Longrightarrow> e \<noteq> p_endpoint (procs s caller)" and env: "env_ok K"
  obtains r s' where "do_sync_ipc K caller nr e ptr s = Some (r, s')" and "ipc_ok s'" and "steady s s'"
proof -
  have base: "base_ok s" using ok by (simp add: ipc_ok_def)
  have cu: "in_use s caller" "\<not> receiving s caller" using c by (auto simp: unblocked_def)
  have user: "msg_fits 0 (User_ptr ptr)" "msg_fits NON_BLOCKING (User_ptr ptr)"
    by (simp_all add: msg_fits_def NON_BLOCKING_def FROM_KERNEL_def)
  show ?thesis
  proof (cases "sync_ipc_denied s caller nr e")
    case (Some r)
    then show ?thesis using nr ok by (intro that [of r s]) (simp_all add: do_sync_ipc_def wakes_steady)
  next
    case None
    note allowed = sync_ipc_allowed [OF base cu(1) None]
    from allowed(1) nr consider (sendrec) "nr = SENDREC" | (send) "nr = SEND" | (receive) "nr = RECEIVE"
      | (notify) "nr = NOTIFY" | (sendnb) "nr = SENDNB" by (auto simp: ipc_call_names_def)
    then show ?thesis
    proof cases
      case sendrec
      then have e: "live s e" "ENDPOINT_P e \<noteq> caller" using allowed(4) by (auto simp: call_numbers)
      obtain r s' where "do { (r, s1) \<leftarrow> mini_send K caller e (User_ptr ptr) 0 (upd_proc caller (set_misc MF_REPLY_PEND) s);
          if r \<noteq> ROK then Some (r, s1) else mini_receive K caller e ptr 0 s1 } = Some (r, s')" "ipc_ok s'" "steady s s'"
        by (rule sendrec_ok [OF ok c e env])
      then show ?thesis using sendrec None nr by (intro that [of r s']) (simp_all add: do_sync_ipc_def)
    next
      case send
      then have e: "live s e" "ENDPOINT_P e \<noteq> caller" using allowed(4) by (auto simp: call_numbers)
      show ?thesis
        by (rule mini_send_ok [OF ok c(1) e user(1), of K])
          (use send None in \<open>auto intro: that simp: do_sync_ipc_def call_numbers\<close>)
    next
      case sendnb
      then have e: "live s e" "ENDPOINT_P e \<noteq> caller" using allowed(4) by (auto simp: call_numbers)
      show ?thesis
        by (rule mini_send_ok [OF ok c(1) e user(2), of K])
          (use sendnb None in \<open>auto intro: that simp: do_sync_ipc_def call_numbers\<close>)
    next
      case notify
      have "exclusive s caller" using allowed(2) base_ok_parts(4) [OF base] cu(1) notify by (simp add: privs_ok_def)
      then obtain r s' where s': "mini_notify K caller e s = Some (r, s')" "base_ok s'" "wakes s s'"
        using mini_notify_base [OF base] by metis
      then show ?thesis
        using notify None ipc_ok_wakes [OF ok s'(3,2)] wakes_steady [OF s'(3)]
        by (intro that [of r s']) (simp_all add: do_sync_ipc_def call_numbers)
    next
      case receive
      define s1 where "s1 = upd_proc caller (\<lambda>x. IPC_STATUS_CLEAR (unset_misc MF_REPLY_PEND x)) s"
      have b1: "base_ok s1" "wakes s s1"
        unfolding s1_def IPC_STATUS_CLEAR_def by (rule base_ok_caller [OF base cu(2)]; simp)+
      have "\<not> delivering s1 caller"
        using c(2) by (simp add: s1_def IPC_STATUS_CLEAR_def bit_and_iff)
      then have m1: "may_block s1 caller e" using wakes_unblocked [OF b1(2) c(1)] by (simp add: unblocked_may_block)
      have "source_ok s caller e" using allowed(3) self [OF receive] by (auto simp: source_ok_def live_def)
      then have src1: "source_ok s1 caller e" using steady_source [OF wakes_steady [OF b1(2)]] by simp
      obtain r s' where "mini_receive K caller e ptr 0 s1 = Some (r, s')" "ipc_ok s'" "steady s1 s'"
        using mini_receive_ok [OF ipc_ok_wakes [OF ok b1(2,1)] m1 src1 env] by metis
      then show ?thesis
        using receive None nr steady_trans [OF wakes_steady [OF b1(2)]]
        by (intro that [of r s']) (simp_all add: do_sync_ipc_def s1_def call_numbers)
    qed
  qed
qed

section \<open>Asynchronous sends\<close>

lemma senda_check_live:
  assumes "base_ok s" and "senda_check s caller e = ROK"
  shows "live s e"
  using assms(2) by (auto simp: senda_check_def base_ok_live [OF assms(1)] split: if_splits)

lemma deliver_senda_ok:
  assumes ok: "base_ok s" and dst: "in_use s dst" "receiving s dst" and c: "\<not> receiving s c"
  obtains s' where "RTS_UNSET K dst RTS_RECEIVING (upd_proc dst (deliver ep m SENDA) s) = Some s'" and "async_step c False s s'"
proof -
  let ?t = "upd_proc dst (deliver ep m SENDA) s"
  have w: "wakes s ?t" by (rule wakes_upd_proc; simp)
  have q: "queues_ok ?t" using base_ok_parts(1) [OF ok] by simp
  have n: "notify_ok ?t" by (rule notify_okI [OF w base_ok_parts(5) [OF ok]]) simp
  have r: "\<And>p. rts ?t p = rts s p" by simp
  have d: "\<And>p. p \<noteq> dst \<Longrightarrow> delivering ?t p = delivering s p" by simp
  obtain s' where s': "RTS_UNSET K dst RTS_RECEIVING ?t = Some s'" "base_ok s'" "wakes s s'" "sched_frame ?t s'"
    using wake_receiver [OF ok w dst(1) q n r d, of K] by metis
  have "c \<noteq> dst" using c dst by auto
  then have "delivering s' c = delivering s c" using sched_frame_fields(2) [OF s'(4), of c] by simp
  then show ?thesis using s' by (intro that [of s']) (simp_all add: async_step_def)
qed

lemma senda_entry_ok:
  assumes ok: "base_ok s" and c: "\<not> receiving s c"
  shows "\<exists>s' d' n'. senda_entry K c t i (s, d, n) = Some (s', d', n') \<and> async_step c False s s'"
proof -
  define ep where "ep = p_endpoint (procs s c)"
  define tabent where "tabent = asyn_mem s ep t i"
  define dst where "dst = ENDPOINT_P (am_dst tabent)"
  define r where "r = senda_check s c (am_dst tabent)"
  have store: "async_step c False s (A_INSRT ep t i m u) = async_step c False s u" for m u by (simp add: async_step_def)
  have refl: "async_step c False s s" using ok by (simp add: async_step_def)
  note run = senda_entry_def ep_def [symmetric] tabent_def [symmetric] dst_def [symmetric] r_def [symmetric]
  consider (skip) "\<not> tab_readable K ep t i \<or> am_flags tabent = 0 \<or> amf_bad (am_flags tabent) \<or> am_flags tabent AND AMF_DONE \<noteq> 0"
    | (go) "\<not> (\<not> tab_readable K ep t i \<or> am_flags tabent = 0 \<or> amf_bad (am_flags tabent) \<or> am_flags tabent AND AMF_DONE \<noteq> 0)"
    by blast
  then show ?thesis
  proof cases
    case skip
    then show ?thesis using refl by (auto simp: run Let_def)
  next
    case go
    show ?thesis
    proof (cases "r = ROK \<and> WILLRECEIVE (procs s dst) ep \<and> (am_flags tabent AND AMF_NOREPLY = 0 \<or> \<not> MF_ISSET (procs s dst) MF_REPLY_PEND)")
      case True
      then have "in_use s dst" "receiving s dst"
        using senda_check_live [OF ok, of c "am_dst tabent"] by (auto simp: r_def dst_def live_def WILLRECEIVE_bit)
      then obtain s' where "RTS_UNSET K dst RTS_RECEIVING (upd_proc dst (deliver ep (am_msg tabent) SENDA) s) = Some s'"
        "async_step c False s s'"
        using deliver_senda_ok [OF ok _ _ c] by metis
      then show ?thesis using go True by (simp add: run Let_def store)
    next
      case False
      have "async_step c False s (set_asyn_pending dst (s_id (priv_of s c)) s)"
        using asyn_pending_base(1-3) ok by (auto simp: async_step_def)
      then show ?thesis using go False refl by (auto simp: run Let_def store)
    qed
  qed
qed

lemma senda_entries_ok:
  assumes "base_ok s" and "\<not> receiving s c"
  shows "\<exists>s' d' n'. senda_entries K c t is (s, d, n) = Some (s', d', n') \<and> async_step c False s s'"
  using assms
proof (induction "is" arbitrary: s d n)
  case Nil
  then show ?case by (simp add: async_step_def)
next
  case (Cons i "is")
  from senda_entry_ok [OF Cons.prems] obtain s1 d1 n1 where
    s1: "senda_entry K c t i (s, d, n) = Some (s1, d1, n1)" "async_step c False s s1" by blast
  then have "base_ok s1" "\<not> receiving s1 c" using Cons.prems(2) wakes_fields(11) by (auto simp: async_step_def)
  from Cons.IH [OF this, of d1 n1] s1 show ?case by (auto intro: async_step_trans)
qed

lemma mini_senda_ok:
  assumes ok: "base_ok s" and c: "\<not> receiving s caller"
  obtains r s' where "mini_senda K caller t n s = Some (r, s')" and "async_step caller False s s'"
proof -
  define s1 where "s1 = set_asyntab caller (- 1) 0 s"
  have s1: "async_step caller False s s1" "base_ok s1" "\<not> receiving s1 caller"
    using set_asyntab_base ok c by (auto simp: s1_def async_step_def)
  from senda_entries_ok [OF s1(2,3)] obtain s2 d2 n2 where
    s2: "senda_entries K caller t [0..<n] (s1, True, False) = Some (s2, d2, n2)" "async_step caller False s1 s2" by blast
  then have b2: "base_ok s2" "\<not> receiving s2 caller" using s1(3) wakes_fields(11) by (auto simp: async_step_def)
  obtain s3 where s3: "notify_asyncm K n2 caller s2 = Some s3" "async_step caller False s2 s3"
    by (rule notify_asyncm_ok [OF b2])
  have step: "async_step caller False s s3"
    using s1(1) s2(2) s3(2) by (blast intro: async_step_trans)
  then have "async_step caller False s (set_asyntab caller t n s3)"
    using set_asyntab_base by (auto simp: async_step_def intro: wakes_trans)
  with step show ?thesis
    using that ok s1(1) s2(1) s3(1)
    by (cases "s_flags (priv_of s caller) AND SYS_PROC = 0"; cases "n = 0"; cases "n > ASYN_LIMIT"; cases d2)
      (auto simp: mini_senda_def try_deliver_senda_def Let_def s1_def [symmetric] async_step_def)
qed

section \<open>The entry point\<close>

lemma proc_links_call [simp]:
  "proc_links (x\<lparr>p_cpu_time_left := t\<rparr>) = proc_links x"
  by (simp_all add: proc_links_def)

lemma MF_ISSET_trace:
  "MF_ISSET x MF_SC_TRACE = bit (p_misc_flags x) 10" "MF_ISSET x (f OR g) = (MF_ISSET x f \<or> MF_ISSET x g)"
  unfolding MF_ISSET_def flag_exps and_exp_neq_0_iff by (simp_all add: bit.conj_disj_distrib or_eq_0_iff)

lemma kbill_base [simp]:
  "base_ok (s\<lparr>kbill_ipc := c\<rparr>) = base_ok s" "wakes s (s\<lparr>kbill_ipc := c\<rparr>)" "unblocked (s\<lparr>kbill_ipc := c\<rparr>) p = unblocked s p"
proof -
  have "queues_ok (s\<lparr>kbill_ipc := c\<rparr>) = queues_ok s" by (rule queues_ok_cong) simp_all
  then show "base_ok (s\<lparr>kbill_ipc := c\<rparr>) = base_ok s"
    by (simp add: base_ok_def slots_ok_def delivery_ok_def privs_ok_def notify_ok_def in_use_def live_def exclusive_def)
  show "wakes s (s\<lparr>kbill_ipc := c\<rparr>)" by (simp add: wakes_def)
  show "unblocked (s\<lparr>kbill_ipc := c\<rparr>) p = unblocked s p" by (simp add: unblocked_def in_use_def)
qed

text \<open>The state in which a process makes a call: it runs, and no earlier call of it is unfinished.\<close>

definition calling :: "kstate \<Rightarrow> bool" where
  "calling s \<longleftrightarrow> unblocked s (proc_ptr s) \<and> \<not> delivering s (proc_ptr s) \<and>
    (MF_ISSET (procs s (proc_ptr s)) MF_SC_DEFER \<longrightarrow> \<not> MF_ISSET (procs s (proc_ptr s)) MF_SC_ACTIVE)"

lemma trace_call_ok:
  assumes ok: "base_ok s" and p: "p = proc_ptr s" and c: "calling s" and env: "env_ok K"
  obtains r where "trace_call K p r1 r2 r3 s = Some r"
    and "case r of Inl (res, s') \<Rightarrow> base_ok s' \<and> wakes s s'
      | Inr s' \<Rightarrow> base_ok s' \<and> wakes s s' \<and> delivering s' p = delivering s p \<and>
        p_endpoint (procs s' p) = p_endpoint (procs s p)"
proof -
  have cu: "in_use s p" "\<not> receiving s p" using c p by (auto simp: calling_def unblocked_def)
  define s1 where "s1 = upd_proc p (\<lambda>x. (set_misc MF_SC_DEFER (unset_misc MF_SC_TRACE x))\<lparr>p_defer := (r1, r2, r3)\<rparr>) s"
  define s2 where "s2 = upd_proc p (\<lambda>x. set_misc MF_SC_ACTIVE (unset_misc MF_SC_DEFER x)) s"
  have s1: "base_ok s1" "wakes s s1"
    unfolding s1_def by (rule base_ok_caller [OF ok cu(2)]; simp)+
  have s2: "base_ok s2" "wakes s s2" unfolding s2_def by (rule base_ok_caller [OF ok cu(2)]; simp)+
  have d2: "delivering s2 p = delivering s p" "p_endpoint (procs s2 p) = p_endpoint (procs s p)"
    by (simp_all add: s2_def bit_or_iff bit_and_iff bit_not_iff bit_flags)
  have "in_use s1 p" using cu(1) wakes_use(1) [OF s1(2)] by simp
  then obtain s3 where s3: "cause_sig K p (SIGTRAP K) s1 = Some s3" "base_ok s3" "wakes s1 s3"
    using cause_sig_base [OF s1(1)] env unfolding env_ok_def by metis
  let ?f = "p_misc_flags (procs s p)"
  consider (off) "\<not> MF_ISSET (procs s p) (MF_SC_TRACE OR MF_SC_DEFER)"
    | (first) "MF_ISSET (procs s p) (MF_SC_TRACE OR MF_SC_DEFER)" "?f AND (MF_SC_TRACE OR MF_SC_DEFER) = MF_SC_TRACE"
    | (second) "MF_ISSET (procs s p) (MF_SC_TRACE OR MF_SC_DEFER)" "?f AND (MF_SC_TRACE OR MF_SC_DEFER) \<noteq> MF_SC_TRACE" by blast
  then show ?thesis
  proof cases
    case off
    then show ?thesis using ok by (intro that [of "Inr s"]) (simp_all add: trace_call_def)
  next
    case first
    then show ?thesis
      using s3 wakes_trans [OF s1(2) s3(3)]
      by (intro that [of "Inl (p_retreg (procs s3 p), s3)"]) (simp_all add: trace_call_def s1_def)
  next
    case second
    have "MF_ISSET (procs s p) MF_SC_DEFER"
    proof (rule ccontr)
      assume d: "\<not> MF_ISSET (procs s p) MF_SC_DEFER"
      have "bit ?f 10"
        using second(1) d by (simp add: MF_ISSET_trace)
      then have "?f AND (MF_SC_TRACE OR MF_SC_DEFER) = MF_SC_TRACE"
        using d unfolding MF_ISSET_bit by (intro bit_word_eqI) (auto simp: bit_and_iff bit_or_iff bit_flags)
      with second(2) show False by simp
    qed
    then have "\<not> MF_ISSET (procs s p) MF_SC_ACTIVE" using c p by (simp add: calling_def)
    then show ?thesis
      using second s2 d2 by (intro that [of "Inr s2"]) (simp_all add: trace_call_def s2_def)
  qed
qed

lemma ipc_switch_ok:
  assumes ok: "ipc_ok s" and c: "unblocked s p" "\<not> delivering s p" and env: "env_ok K"
    and self: "nr = RECEIVE \<Longrightarrow> sint r2 \<noteq> p_endpoint (procs s p)"
  obtains r s' where "ipc_switch K p nr r2 r3 s = Some (r, s')" and "ipc_ok s'" and "steady s s'"
proof -
  have base: "base_ok s" and nr: "\<not> receiving s p" using ok c by (auto simp: ipc_ok_def unblocked_def)
  have upd: thesis if r: "\<And>s2. base_ok s2 \<Longrightarrow> wakes s s2 \<Longrightarrow> unblocked s2 p \<Longrightarrow> \<not> delivering s2 p \<Longrightarrow> ipc_ok s2 \<Longrightarrow>
      s2 = upd_proc p f s \<Longrightarrow> thesis"
    and f: "proc_links (f (procs s p)) = proc_links (procs s p)" "p_rts_flags (f (procs s p)) = rts s p"
      "p_nextready (f (procs s p)) = nextready s p" "p_misc_flags (f (procs s p)) = p_misc_flags (procs s p)" for f
  proof (rule r [OF _ _ _ _ _ refl])
    note b = base_ok_caller [OF base nr, of f, OF f(1-3)]
    show "base_ok (upd_proc p f s)" "wakes s (upd_proc p f s)" "ipc_ok (upd_proc p f s)" "unblocked (upd_proc p f s) p"
      using b ipc_ok_wakes [OF ok b(2,1)] wakes_unblocked [OF b(2) c(1)] by simp_all
    show "\<not> delivering (upd_proc p f s) p" using c(2) f(4) by simp
  qed
  consider (sync) "nr \<in> {SENDREC, SEND, RECEIVE, NOTIFY, SENDNB}" | (senda) "nr = SENDA"
    | (info) "nr = MINIX_KERNINFO" | (other) "nr \<notin> {SENDREC, SEND, RECEIVE, NOTIFY, SENDNB, SENDA, MINIX_KERNINFO}" by auto
  then show ?thesis
  proof cases
    case sync
    show ?thesis
    proof (rule upd [of "\<lambda>x. x\<lparr>ipc_sync := ipc_sync x + 1\<rparr>"])
      fix s2 assume s2: "unblocked s2 p" "\<not> delivering s2 p" "ipc_ok s2" "wakes s s2" "s2 = upd_proc p (\<lambda>x. x\<lparr>ipc_sync := ipc_sync x + 1\<rparr>) s"
      have "nr \<noteq> SENDA" using sync by (auto simp: call_numbers)
      moreover have "sint r2 \<noteq> p_endpoint (procs s2 p)" if "nr = RECEIVE" using self [OF that] s2(5) by simp
      ultimately obtain r s' where "do_sync_ipc K p nr (sint r2) r3 s2 = Some (r, s')" "ipc_ok s'" "steady s2 s'"
        using do_sync_ipc_ok [OF s2(3,1,2) _ _ env] by metis
      then show ?thesis
        using sync s2(5) steady_trans [OF wakes_steady [OF s2(4)]] by (intro that [of r s']) (auto simp: ipc_switch_def)
    qed simp_all
  next
    case senda
    show ?thesis
    proof (rule upd [of "\<lambda>x. x\<lparr>ipc_async := ipc_async x + 1\<rparr>"])
      fix s2 assume s2: "base_ok s2" "unblocked s2 p" "ipc_ok s2" "wakes s s2" "s2 = upd_proc p (\<lambda>x. x\<lparr>ipc_async := ipc_async x + 1\<rparr>) s"
      obtain r s' where s': "mini_senda K p r3 (unat r2) s2 = Some (r, s')" "async_step p False s2 s'"
        using mini_senda_ok [OF s2(1)] s2(2) unfolding unblocked_def by metis
      have "ipc_ok s'" "steady s s'"
        using s'(2) s2(3,4) ipc_ok_wakes wakes_trans wakes_steady unfolding async_step_def by blast+
      then show ?thesis
        using senda s'(1) s2 that [of RDOM s2] that [of r s'] wakes_steady [OF s2(4)]
        by (cases "unat r2 > ASYN_LIMIT") (auto simp: ipc_switch_def Let_def call_numbers)
    qed simp_all
  next
    case info
    show ?thesis
    proof (rule upd [of "\<lambda>x. x\<lparr>p_bx := minix_kerninfo_user s\<rparr>"])
      fix s2 assume s2: "ipc_ok s2" "wakes s s2" "s2 = upd_proc p (\<lambda>x. x\<lparr>p_bx := minix_kerninfo_user s\<rparr>) s"
      show ?thesis
        using info s2 that [of ROK s2] that [of RBADCALL s] ok wakes_steady [OF s2(2)] wakes_steady [of s s]
        by (cases "minix_kerninfo_user s = 0") (auto simp: ipc_switch_def call_numbers MINIX_KERNINFO_def)
    qed simp_all
  next
    case other
    then show ?thesis using that [of RBADCALL s] ok wakes_steady [of s s] by (auto simp: ipc_switch_def)
  qed
qed

lemma do_ipc_ok:
  assumes ok: "ipc_ok s" and c: "calling s" and env: "env_ok K"
    and self: "sint r1 = RECEIVE \<Longrightarrow> sint r2 \<noteq> p_endpoint (procs s (proc_ptr s))"
  obtains r s' where "do_ipc K r1 r2 r3 s = Some (r, s')" and "ipc_ok s'" and "steady s s'"
proof -
  define p where "p = proc_ptr s"
  define s0 where "s0 = s\<lparr>kbill_ipc := p\<rparr>"
  have s0: "base_ok s0" "wakes s s0" "calling s0" "proc_ptr s0 = p"
    using ok c by (simp_all add: s0_def ipc_ok_def calling_def p_def)
  have nf: "\<not> RTS_ISSET (procs s p) RTS_SLOT_FREE"
    using c by (simp add: calling_def unblocked_def in_use_def p_def RTS_ISSET_bit)
  obtain tr where tr: "trace_call K p r1 r2 r3 s0 = Some tr"
    and res: "case tr of Inl (res, s') \<Rightarrow> base_ok s' \<and> wakes s0 s'
      | Inr s' \<Rightarrow> base_ok s' \<and> wakes s0 s' \<and> delivering s' p = delivering s0 p \<and> p_endpoint (procs s' p) = p_endpoint (procs s0 p)"
    by (rule trace_call_ok [OF s0(1) s0(4) [symmetric] s0(3) env])
  note run = do_ipc_def Let_def p_def [symmetric] s0_def [symmetric]
  show ?thesis
  proof (cases tr)
    case (Inl a)
    obtain r s' where a: "a = (r, s')" by (cases a)
    have s': "base_ok s'" "wakes s s'" using res Inl a wakes_trans [OF s0(2)] by auto
    then show ?thesis
      using nf tr Inl a ipc_ok_wakes [OF ok s'(2,1)] wakes_steady [OF s'(2)] by (intro that [of r s']) (simp_all add: run)
  next
    case (Inr s1)
    have s1: "base_ok s1" "wakes s s1" "\<not> delivering s1 p" "p_endpoint (procs s1 p) = p_endpoint (procs s p)"
      using res Inr wakes_trans [OF s0(2)] c by (auto simp: s0_def calling_def p_def)
    have c1: "unblocked s1 p" using wakes_unblocked [OF s1(2)] c by (simp add: calling_def p_def)
    obtain r s' where "ipc_switch K p (sint r1) r2 r3 s1 = Some (r, s')" "ipc_ok s'" "steady s1 s'"
      using ipc_switch_ok [OF ipc_ok_wakes [OF ok s1(2,1)] c1 s1(3) env] self s1(4) unfolding p_def by metis
    then show ?thesis
      using nf tr Inr s1(3) steady_trans [OF wakes_steady [OF s1(2)]]
      by (intro that [of r s']) (simp_all add: run MF_ISSET_bit)
  qed
qed

end
