(* ===== verification/Kernel_System.thy ===== *)
theory Kernel_System
  imports Kernel_Calls
begin

unbundle bit_operations_syntax

text \<open>
  Kernel calls (kernel/system.c and kernel/system/): the privilege structures and the masks that say who may
  send to whom, the end of a process, scheduling on behalf of the user-space scheduler, and the calls with
  which a signal manager handles signals. Each handler gets the fields of its request message; the model is
  that of a kernel for one processor.
\<close>

section \<open>Privileges\<close>

definition NR_STATIC_PRIV_IDS :: nat where "NR_STATIC_PRIV_IDS = nat NR_TASKS + 12"
definition NULL_PRIV_ID :: int where "NULL_PRIV_ID = - 1"

definition is_static_priv_id :: "int \<Rightarrow> bool" where
  "is_static_priv_id sid \<longleftrightarrow> 0 \<le> sid \<and> sid < int NR_STATIC_PRIV_IDS"

definition take_priv :: "int \<Rightarrow> nat \<Rightarrow> kstate \<Rightarrow> kstate" where
  "take_priv rc i s = upd_priv i (\<lambda>v. v\<lparr>s_proc_nr := rc\<rparr>) (upd_proc rc (\<lambda>x. x\<lparr>p_priv := i\<rparr>) s)"

definition get_priv :: "int \<Rightarrow> int \<Rightarrow> kstate \<Rightarrow> result \<times> kstate" where
  "get_priv rc priv_id s =
    (if priv_id = NULL_PRIV_ID then
       (case find (\<lambda>i. s_proc_nr (privs s i) = NONE) [NR_STATIC_PRIV_IDS..<NR_SYS_PROCS] of
         None \<Rightarrow> (RNOSPC, s)
       | Some i \<Rightarrow> (ROK, take_priv rc i s))
     else if \<not> is_static_priv_id priv_id then (RINVAL, s)
     else if s_proc_nr (privs s (nat priv_id)) \<noteq> NONE then (RBUSY, s)
     else (ROK, take_priv rc (nat priv_id) s))"

definition set_ipc_to :: "nat \<Rightarrow> nat \<Rightarrow> kstate \<Rightarrow> kstate" where
  "set_ipc_to i sid = upd_priv i (\<lambda>v. v\<lparr>s_ipc_to := set_sys_bit sid (s_ipc_to v)\<rparr>)"

definition unset_ipc_to :: "nat \<Rightarrow> nat \<Rightarrow> kstate \<Rightarrow> kstate" where
  "unset_ipc_to i sid = upd_priv i (\<lambda>v. v\<lparr>s_ipc_to := unset_sys_bit sid (s_ipc_to v)\<rparr>)"

definition set_sendto_bit :: "int \<Rightarrow> nat \<Rightarrow> kstate \<Rightarrow> kstate" where
  "set_sendto_bit rp sid s =
    (if id_to_nr s sid = NONE \<or> s_id (priv_of s rp) = sid then unset_ipc_to (p_priv (procs s rp)) sid s
     else let s1 = set_ipc_to (p_priv (procs s rp)) sid s in
       if s_trap_mask (privs s1 sid) AND NOT (push_bit (nat RECEIVE) 1) \<noteq> 0
       then set_ipc_to sid (s_id (priv_of s1 rp)) s1 else s1)"

definition unset_sendto_bit :: "int \<Rightarrow> nat \<Rightarrow> kstate \<Rightarrow> kstate" where
  "unset_sendto_bit rp sid s =
    (let s1 = unset_ipc_to (p_priv (procs s rp)) sid s in unset_ipc_to sid (s_id (priv_of s1 rp)) s1)"

definition fill_sendto_mask :: "int \<Rightarrow> 64 word \<Rightarrow> kstate \<Rightarrow> kstate" where
  "fill_sendto_mask rp m s =
    fold (\<lambda>i s. if get_sys_bit m i then set_sendto_bit rp i s else unset_sendto_bit rp i s) [0..<NR_SYS_PROCS] s"

fun send_diag_sig_from :: "kenv \<Rightarrow> nat list \<Rightarrow> kstate \<Rightarrow> kstate option" where
  "send_diag_sig_from K [] s = Some s"
| "send_diag_sig_from K (i # is) s =
    (let v = privs s i in
     if s_proc_nr v \<noteq> NONE \<and> s_diag_sig v then do {
       (_, s1) \<leftarrow> send_sig K (p_endpoint (procs s (s_proc_nr v))) (SIGKMESS K) s;
       send_diag_sig_from K is s1 }
     else send_diag_sig_from K is s)"

definition send_diag_sig :: "kenv \<Rightarrow> kstate \<Rightarrow> kstate option" where
  "send_diag_sig K s = send_diag_sig_from K [0..<NR_SYS_PROCS] s"

section \<open>The end of a process\<close>

text \<open>The loop of \<open>clear_ipc\<close> takes the process out of the queue of its destination.\<close>

partial_function (option) unqueue :: "kstate \<Rightarrow> int \<Rightarrow> link \<Rightarrow> kstate option" where
  "unqueue s rc xpp = (case deref s xpp of
      None \<Rightarrow> Some s
    | Some x \<Rightarrow> if x = rc then Some (assign xpp (p_q_link (procs s x)) s) else unqueue s rc (Q_link x))"

definition clear_ipc :: "kenv \<Rightarrow> int \<Rightarrow> kstate \<Rightarrow> kstate option" where
  "clear_ipc K rc s = do {
     s1 \<leftarrow> (if RTS_ISSET (procs s rc) RTS_SENDING then
         (case isokendpt s (p_sendto_e (procs s rc)) of
           None \<Rightarrow> None
         | Some target_proc \<Rightarrow> do { t \<leftarrow> unqueue s rc (Caller_q target_proc); RTS_UNSET K rc RTS_SENDING t })
       else Some s);
     RTS_UNSET K rc RTS_RECEIVING s1 }"

partial_function (option) cancel_all :: "kenv \<Rightarrow> int \<Rightarrow> kstate \<Rightarrow> kstate option" where
  "cancel_all K rc s = do {
     pending \<leftarrow> has_pending_asend s rc ANY;
     case pending of
       None \<Rightarrow> Some s
     | Some src_id \<Rightarrow> do { (r, s1) \<leftarrow> cancel_async K (id_to_nr s src_id) rc s; cancel_all K rc s1 } }"

definition clear_ref :: "kenv \<Rightarrow> int \<Rightarrow> result \<Rightarrow> int \<Rightarrow> kstate \<Rightarrow> kstate option" where
  "clear_ref K rc caller_ret rp s =
    (if isemptyp (procs s rp) then Some s
     else let sid = s_id (priv_of s rc); s1 = unset_asyn_pending rp sid (unset_notify_pending rp sid s) in
       if P_BLOCKEDON (procs s1 rp) = p_endpoint (procs s1 rc)
       then clear_ipc K rp (upd_proc rp (\<lambda>x. x\<lparr>p_retreg := caller_ret\<rparr>) s1) else Some s1)"

fun clear_refs :: "kenv \<Rightarrow> int \<Rightarrow> result \<Rightarrow> int list \<Rightarrow> kstate \<Rightarrow> kstate option" where
  "clear_refs K rc caller_ret [] s = Some s"
| "clear_refs K rc caller_ret (rp # rps) s = do {
     s1 \<leftarrow> clear_ref K rc caller_ret rp s;
     clear_refs K rc caller_ret rps s1 }"

definition clear_ipc_refs :: "kenv \<Rightarrow> int \<Rightarrow> result \<Rightarrow> kstate \<Rightarrow> kstate option" where
  "clear_ipc_refs K rc caller_ret s = do {
     s1 \<leftarrow> cancel_all K rc s;
     clear_refs K rc caller_ret [- NR_TASKS..int NR_PROCS - 1] s1 }"

definition clear_endpoint :: "kenv \<Rightarrow> int \<Rightarrow> kstate \<Rightarrow> kstate option" where
  "clear_endpoint K rc s =
    (if isemptyp (procs s rc) then None
     else do {
       s1 \<leftarrow> RTS_SET K rc RTS_NO_ENDPOINT s;
       let s2 = (if s_flags (priv_of s1 rc) AND SYS_PROC \<noteq> 0 then upd_priv_of rc (\<lambda>v. v\<lparr>s_asynsize := 0\<rparr>) s1 else s1);
       s3 \<leftarrow> clear_ipc K rc s2;
       clear_ipc_refs K rc RDEADSRCDST s3 })"

section \<open>Scheduling\<close>

definition sched_proc :: "kenv \<Rightarrow> int \<Rightarrow> int \<Rightarrow> int \<Rightarrow> kstate \<Rightarrow> (result \<times> kstate) option" where
  "sched_proc K p prio quantum s =
    (if prio < 0 \<and> prio \<noteq> - 1 \<or> prio > int NR_RUN_QUEUES then Some (RINVAL, s)
     else if quantum < 1 \<and> quantum \<noteq> - 1 then Some (RINVAL, s)
     else do {
       s1 \<leftarrow> (if proc_is_runnable (procs s p) then RTS_SET K p RTS_NO_QUANTUM s else Some s);
       s2 \<leftarrow> (if proc_is_runnable (procs s1 p) then RTS_SET K p RTS_NO_QUANTUM s1 else Some s1);
       let s3 = (if prio \<noteq> - 1 then upd_proc p (\<lambda>x. x\<lparr>p_priority := prio\<rparr>) s2 else s2);
       let s4 = (if quantum \<noteq> - 1 then upd_proc p (\<lambda>x. x\<lparr>p_quantum_size_ms := word_of_int quantum,
         p_cpu_time_left := ms_2_cpu_time K (word_of_int quantum)\<rparr>) s3 else s3);
       s5 \<leftarrow> RTS_UNSET K p RTS_NO_QUANTUM s4;
       Some (ROK, s5) })"

definition do_schedule :: "kenv \<Rightarrow> int \<Rightarrow> int \<Rightarrow> int \<Rightarrow> int \<Rightarrow> kstate \<Rightarrow> (result \<times> kstate) option" where
  "do_schedule K caller ep prio quantum s = (case isokendpt s ep of
      None \<Rightarrow> Some (RINVAL, s)
    | Some p \<Rightarrow>
        if p_scheduler (procs s p) \<noteq> Some caller then Some (RPERM, s) else sched_proc K p prio quantum s)"

definition SCHEDCTL_FLAG_KERNEL :: "32 word" where "SCHEDCTL_FLAG_KERNEL = 1"

text \<open>The comparison with \<open>OK\<close> is inside the assignment, so the error that is returned is its value 1.\<close>

definition do_schedctl :: "kenv \<Rightarrow> int \<Rightarrow> 32 word \<Rightarrow> int \<Rightarrow> int \<Rightarrow> int \<Rightarrow> kstate \<Rightarrow> (result \<times> kstate) option" where
  "do_schedctl K caller flags ep prio quantum s =
    (if flags AND NOT SCHEDCTL_FLAG_KERNEL \<noteq> 0 then Some (RINVAL, s)
     else case isokendpt s ep of
       None \<Rightarrow> Some (RINVAL, s)
     | Some p \<Rightarrow>
         if flags AND SCHEDCTL_FLAG_KERNEL = SCHEDCTL_FLAG_KERNEL then do {
           (r, s1) \<leftarrow> sched_proc K p prio quantum s;
           Some (if r \<noteq> ROK then (EOTHER 1, s1) else (ROK, upd_proc p (\<lambda>x. x\<lparr>p_scheduler := None\<rparr>) s1)) }
         else Some (ROK, upd_proc p (\<lambda>x. x\<lparr>p_scheduler := Some caller\<rparr>) s))"

definition RC_STOP :: int where "RC_STOP = 0"
definition RC_RESUME :: int where "RC_RESUME = 1"
definition RC_DELAY :: "32 word" where "RC_DELAY = 1"

definition do_runctl :: "kenv \<Rightarrow> int \<Rightarrow> int \<Rightarrow> 32 word \<Rightarrow> kstate \<Rightarrow> (result \<times> kstate) option" where
  "do_runctl K ep action flags s = (case isokendpt s ep of
      None \<Rightarrow> Some (RINVAL, s)
    | Some rp \<Rightarrow>
        if iskerneln rp then Some (RPERM, s)
        else
          let delay = (action = RC_STOP \<and> flags AND RC_DELAY \<noteq> 0);
            s1 = (if delay \<and> (RTS_ISSET (procs s rp) RTS_SENDING \<or> MF_ISSET (procs s rp) MF_SC_DEFER)
              then upd_proc rp (set_misc MF_SIG_DELAY) s else s) in
          if delay \<and> MF_ISSET (procs s1 rp) MF_SIG_DELAY then Some (RBUSY, s1)
          else if action = RC_STOP then do { s2 \<leftarrow> RTS_SET K rp RTS_PROC_STOP s1; Some (ROK, s2) }
          else if action = RC_RESUME then
            if \<not> RTS_ISSET (procs s1 rp) RTS_PROC_STOP then None
            else do { s2 \<leftarrow> RTS_UNSET K rp RTS_PROC_STOP s1; Some (ROK, s2) }
          else Some (RINVAL, s1))"

section \<open>Signals\<close>

definition do_kill :: "kenv \<Rightarrow> int \<Rightarrow> int \<Rightarrow> kstate \<Rightarrow> (result \<times> kstate) option" where
  "do_kill K ep sig_nr s = (case isokendpt s ep of
      None \<Rightarrow> Some (RINVAL, s)
    | Some p \<Rightarrow>
        if sig_nr \<ge> NSIG K then Some (RINVAL, s)
        else if iskerneln p then Some (RPERM, s)
        else do { s1 \<leftarrow> cause_sig K p sig_nr s; Some (ROK, s1) })"

text \<open>The reply holds the endpoint of the process and its pending signals, or \<open>NONE\<close> and no signals.\<close>

fun do_getksig_from :: "kenv \<Rightarrow> int \<Rightarrow> int list \<Rightarrow> kstate \<Rightarrow> (result \<times> (int \<times> int set option) \<times> kstate) option" where
  "do_getksig_from K caller [] s = Some (ROK, (NONE, None), s)"
| "do_getksig_from K caller (rp # rps) s =
    (if RTS_ISSET (procs s rp) RTS_SIGNALED \<and> p_endpoint (procs s caller) = s_sig_mgr (priv_of s rp) then do {
       s1 \<leftarrow> RTS_UNSET K rp RTS_SIGNALED (upd_proc rp (\<lambda>x. x\<lparr>p_pending := {}\<rparr>) s);
       Some (ROK, (p_endpoint (procs s rp), Some (p_pending (procs s rp))), s1) }
     else do_getksig_from K caller rps s)"

definition do_getksig :: "kenv \<Rightarrow> int \<Rightarrow> kstate \<Rightarrow> (result \<times> (int \<times> int set option) \<times> kstate) option" where
  "do_getksig K caller s = do_getksig_from K caller [0..int NR_PROCS - 1] s"

definition do_endksig :: "kenv \<Rightarrow> int \<Rightarrow> int \<Rightarrow> kstate \<Rightarrow> (result \<times> kstate) option" where
  "do_endksig K caller ep s = (case isokendpt s ep of
      None \<Rightarrow> Some (RINVAL, s)
    | Some rp \<Rightarrow>
        if p_endpoint (procs s caller) \<noteq> s_sig_mgr (priv_of s rp) then Some (RPERM, s)
        else if \<not> RTS_ISSET (procs s rp) RTS_SIG_PENDING then Some (RINVAL, s)
        else if \<not> RTS_ISSET (procs s rp) RTS_SIGNALED then do {
          s1 \<leftarrow> RTS_UNSET K rp RTS_SIG_PENDING s;
          Some (ROK, s1) }
        else Some (ROK, s))"

definition do_exit :: "kenv \<Rightarrow> int \<Rightarrow> kstate \<Rightarrow> (result \<times> kstate) option" where
  "do_exit K caller s = do { s1 \<leftarrow> cause_sig K caller (SIGABRT K) s; Some (RDONTREPLY, s1) }"

definition SYS_STATE_CLEAR_IPC_REFS :: int where "SYS_STATE_CLEAR_IPC_REFS = 1"

definition do_statectl :: "kenv \<Rightarrow> int \<Rightarrow> int \<Rightarrow> kstate \<Rightarrow> (result \<times> kstate) option" where
  "do_statectl K caller request s =
    (if request = SYS_STATE_CLEAR_IPC_REFS then do { s1 \<leftarrow> clear_ipc_refs K caller RDEADSRCDST s; Some (ROK, s1) }
     else Some (RINVAL, s))"

section \<open>The dispatcher\<close>

definition KERNEL_CALL :: int where "KERNEL_CALL = 0x600"
definition NR_SYS_CALLS :: int where "NR_SYS_CALLS = 58"

text \<open>The vector of handlers is a parameter: it says what the handler of a call number does.\<close>

definition kernel_call_dispatch ::
    "(nat \<Rightarrow> (int \<Rightarrow> kmessage \<Rightarrow> kstate \<Rightarrow> (result \<times> kstate) option) option) \<Rightarrow> int \<Rightarrow> kmessage \<Rightarrow> kstate \<Rightarrow>
      (result \<times> kstate) option" where
  "kernel_call_dispatch call_vec caller msg s =
    (let call_nr = m_type msg - KERNEL_CALL in
     if call_nr < 0 \<or> call_nr \<ge> NR_SYS_CALLS then Some (RBADREQUEST, s)
     else if \<not> bit (s_k_call_mask (priv_of s caller)) (nat call_nr) then Some (RCALLDENIED, s)
     else case call_vec (nat call_nr) of
       None \<Rightarrow> Some (RBADREQUEST, s)
     | Some handler \<Rightarrow> handler caller msg s)"

section \<open>The calls keep the invariant\<close>

text \<open>A change of one process that does not concern its links, its run-time flags and the arrival of a message.\<close>

lemma ipc_ok_touch:
  assumes ok: "ipc_ok s" and f: "proc_links (f (procs s p)) = proc_links (procs s p)" "p_rts_flags (f (procs s p)) = rts s p"
      "p_nextready (f (procs s p)) = nextready s p" "bit (p_misc_flags (f (procs s p))) 6 \<Longrightarrow> delivering s p"
  shows "ipc_ok (upd_proc p f s)" and "wakes s (upd_proc p f s)"
proof -
  have base: "base_ok s" using ok by (simp add: ipc_ok_def)
  have m: "isokprocn p \<Longrightarrow> receiving s p \<Longrightarrow> \<not> bit (p_misc_flags (f (procs s p))) 6"
    using base_ok_parts(3) [OF base] f(4) by (auto simp: delivery_ok_def)
  show "wakes s (upd_proc p f s)" by (rule base_ok_upd_proc(2) [OF base, of f p, OF f(1-3) m])
  then show "ipc_ok (upd_proc p f s)" by (rule ipc_ok_wakes [OF ok]) (rule base_ok_upd_proc(1) [OF base, of f p, OF f(1-3) m])
qed

lemma RTS_UNSET_ok:
  assumes ok: "ipc_ok s" and p: "in_use s p" and f: "\<not> bit f 0" "\<not> bit f 2" "\<not> bit f 3" "\<not> bit f 8"
  obtains s' where "RTS_UNSET K p f s = Some s'" and "ipc_ok s'" and "wakes s s'" and "sched_frame s s'"
    and "\<And>x n. n \<noteq> 14 \<Longrightarrow> bit (rts s' x) n \<longleftrightarrow> bit (rts s x) n \<and> \<not> (x = p \<and> bit f n)"
proof -
  have base: "base_ok s" using ok by (simp add: ipc_ok_def)
  have po: "isokprocn p" using p by (simp add: in_use_def)
  obtain s' where s': "RTS_UNSET K p f s = Some s'" and q: "queues_ok s'" and fr: "sched_frame s s'"
    and bits: "\<And>x n. n \<noteq> 14 \<Longrightarrow> bit (rts s' x) n \<longleftrightarrow> bit (rts s x) n \<and> \<not> (x = p \<and> bit f n)"
    and same: "\<And>x. x \<noteq> p \<Longrightarrow> x \<noteq> proc_ptr s \<Longrightarrow> rts s' x = rts s x"
    by (rule RTS_UNSET_bits [OF base_ok_parts(1) [OF base] po base_ok_parts(7) [OF base po], of K f]) blast+
  have w: "wakes s s'" using f by (intro sched_frame_wakes [OF fr]) (simp_all add: bits)
  have "base_ok s'"
  proof (rule base_ok_steady [OF wakes_steady [OF w] base q])
    show "delivery_ok s'"
      using base_ok_parts(3) [OF base] wakes_fields(11) [OF w] sched_frame_fields(2) [OF fr] by (auto simp: delivery_ok_def)
    show "notify_ok s'" by (rule sched_frame_notify [OF fr base_ok_parts(5) [OF base] w])
    show "rts s' x = rts s x" if "isokprocn x" "free s x" for x
      using same [of x] that p base_ok_parts(6) [OF base] by (auto simp: in_use_def)
  qed
  then show ?thesis using s' w fr bits ipc_ok_wakes [OF ok w] by (intro that [of s'])
qed

lemma RTS_SET_ok:
  assumes ok: "ipc_ok s" and p: "in_use s p" and f: "\<not> bit f 0" "\<not> bit f 2" "\<not> bit f 3" "\<not> bit f 8"
  obtains s' where "RTS_SET K p f s = Some s'" and "ipc_ok s'" and "wakes s s'" and "sched_frame s s'"
    and "\<And>x. rts s' x = (if x = p then rts s p OR f else rts s x)"
proof -
  have base: "base_ok s" using ok by (simp add: ipc_ok_def)
  obtain s' where s': "RTS_SET K p f s = Some s'" "base_ok s'" "wakes s s'" "sched_frame s s'"
    "\<And>x. rts s' x = (if x = p then rts s p OR f else rts s x)"
    by (rule RTS_SET_base [OF base p f, of K]) blast+
  then show ?thesis using ipc_ok_wakes [OF ok s'(3,2)] by (intro that [of s'])
qed

text \<open>The priority of a process that is not ready may be set to any queue there is.\<close>

lemma ipc_ok_priority:
  assumes ok: "ipc_ok s" and p: "p \<notin> runnable s" and q: "queue_ok prio"
  shows "ipc_ok (upd_proc p (\<lambda>x. x\<lparr>p_priority := prio\<rparr>) s)"
proof -
  define t where "t = upd_proc p (\<lambda>x. x\<lparr>p_priority := prio\<rparr>) s"
  have f: "rts t x = rts s x" "p_misc_flags (procs t x) = p_misc_flags (procs s x)" "p_endpoint (procs t x) = p_endpoint (procs s x)"
      "p_priv (procs t x) = p_priv (procs s x)" "p_nextready (procs t x) = p_nextready (procs s x)"
      "p_q_link (procs t x) = p_q_link (procs s x)" "p_caller_q (procs t x) = p_caller_q (procs s x)"
      "p_sendto_e (procs t x) = p_sendto_e (procs s x)" "p_getfrom_e (procs t x) = p_getfrom_e (procs s x)"
      "privs t = privs s" "proc_ptr t = proc_ptr s" "run_q_head t = run_q_head s" "run_q_tail t = run_q_tail s"
      "priority t x = (if x = p then prio else priority s x)" for x
    by (simp_all add: t_def)
  have run: "runnable t = runnable s" by (simp add: runnable_rts f)
  from ok obtain Q where Q: "ready_in s (runnable s) Q" by (auto simp: ipc_ok_def base_ok_def queues_ok_def)
  have prio: "priority t x = priority s x" if "x \<in> runnable s" for x using that p by (auto simp: f)
  have "{x \<in> runnable s. priority t x = k} = {x \<in> runnable s. priority s x = k}" for k using prio by auto
  then have "ready_in t (runnable s) Q" using Q prio by (simp add: ready_in_def holds_queue_def f(5,12,13))
  then have "queues_ok t" using ok run by (auto simp: ipc_ok_def base_ok_def queues_ok_def f)
  moreover have "slots_ok t" using ok q by (auto simp: ipc_ok_def base_ok_def slots_ok_def in_use_def f)
  moreover have same: "in_use t x = in_use s x" "live t e = live s e" "exclusive t x = exclusive s x" for x e
    by (simp_all add: in_use_def live_def exclusive_def f)
  moreover have "delivery_ok t" "notify_ok t" "links_ok t" "\<And>C. callers_ok t C = callers_ok s C"
    using ok same by (simp_all add: ipc_ok_def base_ok_def delivery_ok_def notify_ok_def links_ok_def callers_ok_def senders_def f)
  moreover have "privs_ok t" using ok by (simp add: ipc_ok_def base_ok_def privs_ok_def same f)
  moreover have "wait_ok t" using ok by (simp add: ipc_ok_def wait_ok_def same f)
  moreover have "P_BLOCKEDON (procs t x) = P_BLOCKEDON (procs s x)" for x by (simp add: P_BLOCKEDON_bit f)
  then have "waits t = waits s" by (simp add: waits_def)
  ultimately show ?thesis using ok by (simp add: ipc_ok_def base_ok_def t_def)
qed

lemma sched_proc_ok:
  assumes ok: "ipc_ok s" and p: "in_use s p" and prio: "prio \<noteq> int NR_RUN_QUEUES"
  obtains r s' where "sched_proc K p prio quantum s = Some (r, s')" and "ipc_ok s'"
    and "r = (if (prio = - 1 \<or> queue_ok prio) \<and> (quantum = - 1 \<or> 1 \<le> quantum) then ROK else RINVAL)"
    and "r = RINVAL \<Longrightarrow> s' = s" and "r = ROK \<Longrightarrow> \<not> bit (rts s' p) 15"
    and "r = ROK \<Longrightarrow> queue_ok prio \<Longrightarrow> p_priority (procs s' p) = prio"
proof (cases "(prio = - 1 \<or> queue_ok prio) \<and> (quantum = - 1 \<or> 1 \<le> quantum)")
  case False
  then have "sched_proc K p prio quantum s = Some (RINVAL, s)" using prio by (auto simp: sched_proc_def queue_ok_def)
  then show ?thesis using False ok by (intro that [of RINVAL s]) auto
next
  case True
  obtain s1 where s1: "(if proc_is_runnable (procs s p) then RTS_SET K p RTS_NO_QUANTUM s else Some s) = Some s1" "ipc_ok s1" "wakes s s1"
    and nr1: "\<not> proc_is_runnable (procs s1 p)"
  proof (cases "proc_is_runnable (procs s p)")
    case True
    obtain s1 where s1: "RTS_SET K p RTS_NO_QUANTUM s = Some s1" "ipc_ok s1" "wakes s s1"
      and r: "\<And>x. rts s1 x = (if x = p then rts s p OR RTS_NO_QUANTUM else rts s x)"
      by (rule RTS_SET_ok [OF ok p, of RTS_NO_QUANTUM K]) (auto simp: bit_flags)
    have "bit (rts s1 p) 15" by (simp add: r bit_or_iff bit_flags)
    then have "\<not> proc_is_runnable (procs s1 p)" by (auto simp: proc_is_runnable_def)
    then show ?thesis using True s1 by (intro that [of s1]) simp_all
  next
    case False
    then show ?thesis using ok by (intro that [of s]) simp_all
  qed
  define s3 where "s3 = (if prio \<noteq> - 1 then upd_proc p (\<lambda>x. x\<lparr>p_priority := prio\<rparr>) s1 else s1)"
  define s4 where "s4 = (if quantum \<noteq> - 1 then upd_proc p (\<lambda>x. x\<lparr>p_quantum_size_ms := word_of_int quantum,
    p_cpu_time_left := ms_2_cpu_time K (word_of_int quantum)\<rparr>) s3 else s3)"
  have "p \<notin> runnable s1" using nr1 by (simp add: runnable_def)
  then have s3: "ipc_ok s3" using ipc_ok_priority [OF s1(2)] s1(2) True by (auto simp: s3_def)
  have s4: "ipc_ok s4"
    using s3 ipc_ok_touch [OF s3, of "\<lambda>x. x\<lparr>p_quantum_size_ms := word_of_int quantum,
      p_cpu_time_left := ms_2_cpu_time K (word_of_int quantum)\<rparr>" p] by (simp add: s4_def proc_links_def)
  have "in_use s1 p" using p wakes_use(1) [OF s1(3)] by simp
  then have "in_use s4 p" by (simp add: s4_def s3_def in_use_def)
  then obtain s5 where s5: "RTS_UNSET K p RTS_NO_QUANTUM s4 = Some s5" "ipc_ok s5" "sched_frame s4 s5"
    and b5: "\<And>x n. n \<noteq> 14 \<Longrightarrow> bit (rts s5 x) n \<longleftrightarrow> bit (rts s4 x) n \<and> \<not> (x = p \<and> bit RTS_NO_QUANTUM n)"
    by (rule RTS_UNSET_ok [OF s4, of p RTS_NO_QUANTUM K]) (auto simp: bit_flags)
  have "sched_proc K p prio quantum s = Some (ROK, s5)"
    using True s1(1) nr1 s5(1) by (auto simp: sched_proc_def queue_ok_def Let_def s4_def s3_def)
  moreover have "p_priority (procs s5 p) = prio" if "queue_ok prio"
    using that sched_frame_fields(3) [OF s5(3), of p] by (auto simp: s4_def s3_def queue_ok_def)
  ultimately show ?thesis using True s5(2) b5 [of 15 p] by (intro that [of ROK s5]) (auto simp: bit_flags)
qed

text \<open>The calls of schedulers and signal managers as one operation.\<close>

datatype kcall = Schedule int int int | Schedctl "32 word" int int int | Runctl int int "32 word" | Kill int int
  | Getksig | Endksig int

fun do_kcall :: "kenv \<Rightarrow> kcall \<Rightarrow> int \<Rightarrow> kstate \<Rightarrow> (result \<times> kstate) option" where
  "do_kcall K (Schedule ep prio quantum) caller s = do_schedule K caller ep prio quantum s"
| "do_kcall K (Schedctl flags ep prio quantum) caller s = do_schedctl K caller flags ep prio quantum s"
| "do_kcall K (Runctl ep action flags) caller s = do_runctl K ep action flags s"
| "do_kcall K (Kill ep sig_nr) caller s = do_kill K ep sig_nr s"
| "do_kcall K Getksig caller s = do { (r, reply, s1) \<leftarrow> do_getksig K caller s; Some (r, s1) }"
| "do_kcall K (Endksig ep) caller s = do_endksig K caller ep s"

text \<open>
  What the handlers rely on without a check: the priority is not the one past the last queue, only a stopped
  process is resumed, and a signal is one that exists and does not kill a process that manages its own signals.
\<close>

fun kcall_ok :: "kenv \<Rightarrow> kcall \<Rightarrow> kstate \<Rightarrow> bool" where
  "kcall_ok K (Schedule ep prio quantum) s \<longleftrightarrow> prio \<noteq> int NR_RUN_QUEUES"
| "kcall_ok K (Schedctl flags ep prio quantum) s \<longleftrightarrow> prio \<noteq> int NR_RUN_QUEUES"
| "kcall_ok K (Runctl ep action flags) s \<longleftrightarrow> (action = RC_RESUME \<longrightarrow> RTS_ISSET (procs s (ENDPOINT_P ep)) RTS_PROC_STOP)"
| "kcall_ok K (Kill ep sig_nr) s \<longleftrightarrow> sig_valid K sig_nr \<and> (SIGS_IS_LETHAL K sig_nr \<longrightarrow> \<not> own_manager s (ENDPOINT_P ep))"
| "kcall_ok K Getksig s \<longleftrightarrow> True"
| "kcall_ok K (Endksig ep) s \<longleftrightarrow> True"

lemma do_runctl_ok:
  assumes ok: "ipc_ok s" and res: "action = RC_RESUME \<Longrightarrow> RTS_ISSET (procs s (ENDPOINT_P ep)) RTS_PROC_STOP"
  obtains r s' where "do_runctl K ep action flags s = Some (r, s')" and "ipc_ok s'"
proof (cases "live s ep \<and> \<not> iskerneln (ENDPOINT_P ep)")
  case True
  define p where "p = ENDPOINT_P ep"
  have p: "in_use s p" "isokendpt s ep = Some p" "\<not> iskerneln p"
    using True ok base_ok_live [of s ep] by (auto simp: ipc_ok_def live_def p_def)
  define t where "t = upd_proc p (set_misc MF_SIG_DELAY) s"
  have t: "ipc_ok t" "wakes s t" unfolding t_def by (rule ipc_ok_touch [OF ok]; simp add: bit_or_iff bit_flags)+
  have pt: "in_use t p" using p(1) wakes_use(1) [OF t(2)] by simp
  have stop: "\<exists>u'. RTS_SET K p RTS_PROC_STOP u = Some u' \<and> ipc_ok u'" if "ipc_ok u" "in_use u p" for u
    by (rule RTS_SET_ok [OF that, of RTS_PROC_STOP K]) (auto simp: bit_flags)
  have resume: "\<exists>u'. RTS_UNSET K p RTS_PROC_STOP u = Some u' \<and> ipc_ok u'" if "ipc_ok u" "in_use u p" for u
    by (rule RTS_UNSET_ok [OF that, of RTS_PROC_STOP K]) (auto simp: bit_flags)
  have r0: "RC_STOP \<noteq> RC_RESUME" by (simp add: RC_STOP_def RC_RESUME_def)
  from stop [OF ok p(1)] stop [OF t(1) pt] resume [OF ok p(1)] obtain u1 u2 u3 where
    u: "RTS_SET K p RTS_PROC_STOP s = Some u1" "ipc_ok u1" "RTS_SET K p RTS_PROC_STOP t = Some u2" "ipc_ok u2"
      "RTS_UNSET K p RTS_PROC_STOP s = Some u3" "ipc_ok u3" by blast
  have "\<exists>r s'. do_runctl K ep action flags s = Some (r, s') \<and> ipc_ok s'"
    using u ok t(1) res p(2,3) r0 unfolding do_runctl_def t_def p_def [symmetric]
    by (auto simp: Let_def split: if_splits)
  then show ?thesis using that by blast
next
  case False
  have "base_ok s" using ok by (simp add: ipc_ok_def)
  note live = base_ok_live [OF this, of ep]
  show ?thesis
  proof (cases "live s ep")
    case True
    then show ?thesis using False ok by (intro that [of RPERM s]) (simp_all add: do_runctl_def live)
  qed (use ok in \<open>intro that [of RINVAL s]; simp add: do_runctl_def live\<close>)
qed

lemma do_getksig_ok:
  assumes ok: "ipc_ok s" and rps: "\<forall>rp \<in> set rps. isokprocn rp"
  shows "\<exists>r e s'. do_getksig_from K caller rps s = Some (r, e, s') \<and> ipc_ok s'"
  using rps
proof (induction rps)
  case (Cons rp rps)
  show ?case
  proof (cases "RTS_ISSET (procs s rp) RTS_SIGNALED \<and> p_endpoint (procs s caller) = s_sig_mgr (priv_of s rp)")
    case True
    define t where "t = upd_proc rp (\<lambda>x. x\<lparr>p_pending := {}\<rparr>) s"
    have t: "ipc_ok t" "wakes s t" unfolding t_def by (rule ipc_ok_touch [OF ok]; simp)+
    have "\<not> free s rp"
    proof
      assume "free s rp"
      then have "rts s rp = RTS_SLOT_FREE" using ok Cons.prems by (simp add: ipc_ok_def base_ok_def slots_ok_def)
      then show False using True by (simp add: RTS_ISSET_def RTS_SLOT_FREE_def RTS_SIGNALED_def)
    qed
    then have "in_use s rp" using Cons.prems by (simp add: in_use_def)
    then have "in_use t rp" using wakes_use(1) [OF t(2)] by simp
    then obtain s' where "RTS_UNSET K rp RTS_SIGNALED t = Some s'" "ipc_ok s'"
      by (rule RTS_UNSET_ok [OF t(1), of rp RTS_SIGNALED K]) (auto simp: bit_flags)
    then show ?thesis using True by (simp add: t_def)
  qed (use Cons in auto)
qed (use ok in simp)

lemma do_kcall_ok:
  assumes ok: "ipc_ok s" and k: "kcall_ok K c s"
  obtains r s' where "do_kcall K c caller s = Some (r, s')" and "ipc_ok s'"
proof -
  note live = base_ok_live [of s]
  have base: "base_ok s" using ok by (simp add: ipc_ok_def)
  have sched: "\<exists>r s'. sched_proc K p prio quantum s = Some (r, s') \<and> ipc_ok s'"
    if "in_use s p" "prio \<noteq> int NR_RUN_QUEUES" for p prio quantum
    using sched_proc_ok [OF ok that] by blast
  have setsched: "ipc_ok u \<Longrightarrow> ipc_ok (upd_proc p (\<lambda>x. x\<lparr>p_scheduler := v\<rparr>) u)" for p v u
    by (rule ipc_ok_touch) (simp_all add: proc_links_def)
  have "\<exists>r s'. do_kcall K c caller s = Some (r, s') \<and> ipc_ok s'"
  proof (cases c)
    case (Schedule ep prio quantum)
    then show ?thesis using k sched ok by (auto simp: do_schedule_def live [OF base] live_def)
  next
    case (Schedctl flags ep prio quantum)
    then show ?thesis
      using k sched [of "ENDPOINT_P ep" prio quantum] ok setsched by (fastforce simp: do_schedctl_def live [OF base] live_def)
  next
    case (Runctl ep action flags)
    then have "action = RC_RESUME \<Longrightarrow> RTS_ISSET (procs s (ENDPOINT_P ep)) RTS_PROC_STOP" using k by simp
    then obtain r s' where "do_runctl K ep action flags s = Some (r, s')" "ipc_ok s'" using do_runctl_ok [OF ok] by metis
    then show ?thesis using Runctl by simp
  next
    case (Kill ep sig_nr)
    show ?thesis
    proof (cases "live s ep")
      case True
      then have "in_use s (ENDPOINT_P ep)" by (simp add: live_def)
      then obtain s' where s': "cause_sig K (ENDPOINT_P ep) sig_nr s = Some s'" "base_ok s'" "wakes s s'"
        using cause_sig_base [OF base, of "ENDPOINT_P ep" K sig_nr] k Kill by (metis kcall_ok.simps(4))
      then show ?thesis using Kill True ok ipc_ok_wakes [OF ok s'(3,2)] by (simp add: do_kill_def live [OF base])
    qed (use Kill ok in \<open>simp add: do_kill_def live [OF base]\<close>)
  next
    case Getksig
    have "\<exists>r e s'. do_getksig_from K caller [0..int NR_PROCS - 1] s = Some (r, e, s') \<and> ipc_ok s'"
      by (rule do_getksig_ok [OF ok]) (auto simp: isokprocn_def NR_TASKS_def)
    then show ?thesis using Getksig by (auto simp: do_getksig_def)
  next
    case (Endksig ep)
    have "\<exists>s'. RTS_UNSET K p RTS_SIG_PENDING s = Some s' \<and> ipc_ok s'" if "in_use s p" for p
      by (rule RTS_UNSET_ok [OF ok that, of RTS_SIG_PENDING K]) (auto simp: bit_flags)
    then show ?thesis using Endksig ok by (fastforce simp: do_endksig_def live [OF base] live_def)
  qed
  then show ?thesis using that by blast
qed

end
