(* ===== verification/Kernel_Switch.thy ===== *)
theory Kernel_Switch
  imports Kernel_System
begin

text \<open>
  What runs between two processes: the message of a process is copied to it, a deferred call is made, a
  process whose quantum is used up is reported to its scheduler and the next process is picked. With the
  system calls, the kernel calls and the signals these are the events of the model; none of them ends in an
  assertion or a panic, and each keeps the invariant.
\<close>

section \<open>Events\<close>

text \<open>
  The loop at \<open>check_misc_flags\<close> in \<open>switch_to_user\<close>: its condition and one turn of its body, which says
  whether the loop is left with \<open>break\<close>. The kernel call that a process resumes is the parameter \<open>resume\<close>.
\<close>

definition misc_pending :: "kproc \<Rightarrow> bool" where
  "misc_pending p \<longleftrightarrow> p_misc_flags p AND
    (MF_KCALL_RESUME OR MF_DELIVERMSG OR MF_SC_DEFER OR MF_SC_TRACE OR MF_SC_ACTIVE) \<noteq> 0"

definition deferred_call :: "kenv \<Rightarrow> int \<Rightarrow> kstate \<Rightarrow> kstate option" where
  "deferred_call K p s =
    (if MF_ISSET (procs s p) MF_SC_ACTIVE then None
     else do {
       s1 \<leftarrow> arch_do_syscall K p s;
       if MF_ISSET (procs s1 p) MF_SIG_DELAY \<and> \<not> RTS_ISSET (procs s1 p) RTS_SENDING then sig_delay_done K p s1
       else Some s1 })"

definition misc_turn :: "kenv \<Rightarrow> (int \<Rightarrow> kstate \<Rightarrow> kstate option) \<Rightarrow> int \<Rightarrow> kstate \<Rightarrow> (kstate \<times> bool) option" where
  "misc_turn K resume p s =
    (if \<not> proc_is_runnable (procs s p) then None
     else if MF_ISSET (procs s p) MF_KCALL_RESUME then do { s1 \<leftarrow> resume p s; Some (s1, False) }
     else if MF_ISSET (procs s p) MF_DELIVERMSG then do { s1 \<leftarrow> delivermsg K p s; Some (s1, False) }
     else if MF_ISSET (procs s p) MF_SC_DEFER then do { s1 \<leftarrow> deferred_call K p s; Some (s1, False) }
     else if MF_ISSET (procs s p) MF_SC_TRACE then
       if \<not> MF_ISSET (procs s p) MF_SC_ACTIVE then Some (s, True)
       else do {
         s1 \<leftarrow> cause_sig K p (SIGTRAP K) (upd_proc p (unset_misc (MF_SC_TRACE OR MF_SC_ACTIVE)) s);
         Some (s1, False) }
     else if MF_ISSET (procs s p) MF_SC_ACTIVE then Some (upd_proc p (unset_misc MF_SC_ACTIVE) s, True)
     else Some (s, False))"

text \<open>
  The events: \<open>Trap\<close> is a system call of the running process, whose result goes to its return register, and
  \<open>Kcall\<close> one of its kernel calls;
  \<open>Misc\<close> is a turn of the loop above, \<open>No_time\<close> the test of the quantum after it and \<open>Pick\<close> the part of
  \<open>switch_to_user\<close> behind \<open>not_runnable_pick_new\<close>; \<open>Raise\<close> is a signal that the kernel raises for a
  process. The jumps of \<open>switch_to_user\<close> are sequences of these.
\<close>

datatype kevent = Trap "32 word" "32 word" "32 word" | Kcall kcall | Misc | No_time | Pick | Raise int int

fun kstep :: "kenv \<Rightarrow> (int \<Rightarrow> kstate \<Rightarrow> kstate option) \<Rightarrow> kevent \<Rightarrow> kstate \<Rightarrow> kstate option" where
  "kstep K resume (Trap r1 r2 r3) s = do {
     (r, s1) \<leftarrow> do_ipc K r1 r2 r3 s;
     Some (upd_proc (proc_ptr s) (\<lambda>x. x\<lparr>p_retreg := r\<rparr>) s1) }"
| "kstep K resume (Kcall c) s = do { (r, s1) \<leftarrow> do_kcall K c (proc_ptr s) s; Some s1 }"
| "kstep K resume Misc s = do { (s1, brk) \<leftarrow> misc_turn K resume (proc_ptr s) s; Some s1 }"
| "kstep K resume No_time s =
    (if p_cpu_time_left (procs s (proc_ptr s)) = 0 then proc_no_time K (proc_ptr s) s else Some s)"
| "kstep K resume Pick s = do { (p, s1) \<leftarrow> pick_new K s; Some s1 }"
| "kstep K resume (Raise p sig) s = cause_sig K p sig s"

section \<open>System calls\<close>

lemma deferred_call_ok:
  assumes ok: "ipc_ok s" and c: "calling s" and env: "env_ok K" and d: "MF_ISSET (procs s (proc_ptr s)) MF_SC_DEFER"
    and self: "case p_defer (procs s (proc_ptr s)) of (r1, r2, r3) \<Rightarrow> sint r1 = RECEIVE \<longrightarrow> sint r2 \<noteq> p_endpoint (procs s (proc_ptr s))"
  obtains s' where "deferred_call K (proc_ptr s) s = Some s'" and "ipc_ok s'" and "steady s s'"
proof -
  define p where "p = proc_ptr s"
  obtain r1 r2 r3 where r: "p_defer (procs s p) = (r1, r2, r3)" by (cases "p_defer (procs s p)")
  have "sint r1 = RECEIVE \<Longrightarrow> sint r2 \<noteq> p_endpoint (procs s (proc_ptr s))" using self r by (simp add: p_def)
  then obtain res s1 where s1: "do_ipc K r1 r2 r3 s = Some (res, s1)" "ipc_ok s1" "steady s s1"
    using do_ipc_ok [OF ok c env] by metis
  define s2 where "s2 = upd_proc p (\<lambda>x. x\<lparr>p_retreg := res\<rparr>) s1"
  have s2: "ipc_ok s2" "steady s s2"
    using ipc_ok_touch [OF s1(2), of "\<lambda>x. x\<lparr>p_retreg := res\<rparr>" p] steady_trans [OF s1(3)] wakes_steady by (auto simp: s2_def)
  have arch: "arch_do_syscall K p s = Some s2"
    using s1(1) r d by (simp add: arch_do_syscall_def p_def [symmetric] s2_def)
  have na: "\<not> MF_ISSET (procs s p) MF_SC_ACTIVE" using c d by (simp add: calling_def p_def)
  show ?thesis
  proof (cases "MF_ISSET (procs s2 p) MF_SIG_DELAY \<and> \<not> RTS_ISSET (procs s2 p) RTS_SENDING")
    case True
    define s3 where "s3 = upd_proc p (unset_misc MF_SIG_DELAY) s2"
    have s3: "ipc_ok s3" "wakes s2 s3"
      unfolding s3_def by (rule ipc_ok_touch [OF s2(1)]; simp add: bit_and_iff)+
    have "in_use s3 p"
      using c steady_use(1) [OF s2(2), of p] wakes_use(1) [OF s3(2), of p] by (simp add: calling_def unblocked_def p_def)
    then obtain s4 where s4: "cause_sig K p (SIGSNDELAY K) s3 = Some s4" "base_ok s4" "wakes s3 s4"
      using cause_sig_base [of s3 p K] s3(1) env unfolding env_ok_def ipc_ok_def by metis
    have w: "wakes s2 s4" by (rule wakes_trans [OF s3(2) s4(3)])
    then show ?thesis
      using arch na True s4(1) ipc_ok_wakes [OF s2(1) w s4(2)] steady_trans [OF s2(2) wakes_steady [OF w]]
      by (intro that [of s4]) (simp_all add: deferred_call_def p_def [symmetric] sig_delay_done_def s3_def)
  next
    case False
    then show ?thesis using arch na s2 by (intro that [of s2]) (auto simp: deferred_call_def p_def [symmetric])
  qed
qed

section \<open>Delivering a message\<close>

lemma delivermsg_ok:
  assumes ok: "ipc_ok s" and p: "in_use s p" "delivering s p" "m_source (p_delivermsg (procs s p)) \<noteq> NONE"
    and fault: "copy_msg_to_user K (p_delivermsg_vir (procs s p)) \<Longrightarrow>
      sig_valid K (SIGSEGV K) \<and> (SIGS_IS_LETHAL K (SIGSEGV K) \<longrightarrow> \<not> own_manager s p)"
  obtains s' where "delivermsg K p s = Some s'" and "ipc_ok s'" and "steady s s'" and "\<not> delivering s' p"
proof -
  let ?fault = "copy_msg_to_user K (p_delivermsg_vir (procs s p))"
  obtain s1 where s1: "(if ?fault then cause_sig K p (SIGSEGV K) s else Some s) = Some s1" "ipc_ok s1" "wakes s s1"
  proof (cases ?fault)
    case True
    obtain s1 where s1: "cause_sig K p (SIGSEGV K) s = Some s1" "base_ok s1" "wakes s s1"
      using cause_sig_base [of s p K "SIGSEGV K"] ok p(1) fault [OF True] unfolding ipc_ok_def by metis
    then show ?thesis using True ipc_ok_wakes [OF ok s1(3,2)] by (intro that [of s1]) simp_all
  next
    case False
    then show ?thesis using ok by (intro that [of s]) simp_all
  qed
  define s2 where "s2 = upd_proc p (\<lambda>x. unset_misc MF_DELIVERMSG (x\<lparr>p_delivermsg := (p_delivermsg x)\<lparr>m_source := NONE\<rparr>\<rparr>)) s1"
  have s2: "ipc_ok s2" "wakes s1 s2" and d2: "\<not> delivering s2 p"
    unfolding s2_def by (rule ipc_ok_touch [OF s1(2)]; simp add: bit_and_iff bit_not_iff bit_flags)+
      (simp add: bit_and_iff bit_not_iff bit_flags)
  define s3 where "s3 = (if MF_ISSET (procs s2 p) MF_CONTEXT_SET then s2
    else upd_proc p (\<lambda>x. x\<lparr>p_retreg := if ?fault then RFAULT else ROK\<rparr>) s2)"
  have s3: "ipc_ok s3" "wakes s2 s3" "\<not> delivering s3 p"
    using s2(1) d2 ipc_ok_touch [OF s2(1), of "\<lambda>x. x\<lparr>p_retreg := if ?fault then RFAULT else ROK\<rparr>" p] by (auto simp: s3_def)
  have "delivermsg K p s = Some s3"
    using p(2,3) s1(1) by (simp add: delivermsg_def MF_ISSET_bit Let_def s3_def s2_def)
  moreover have "steady s s3" using s1(3) s2(2) s3(2) by (blast intro: wakes_steady wakes_trans)
  ultimately show ?thesis using s3 by (intro that)
qed

section \<open>The quantum\<close>

text \<open>A message that the kernel itself sends for a process always gets through, unless this would be a deadlock.\<close>

lemma mini_send_kernel_ok:
  assumes ok: "ipc_ok s" and c: "unblocked s caller" and e: "live s e" "ENDPOINT_P e \<noteq> caller"
    and up: "\<not> dead s (ENDPOINT_P e)" and nolock: "(ENDPOINT_P e, caller) \<notin> (waits s)\<^sup>+"
  obtains s' where "mini_send K caller e (Kernel_msg m) FROM_KERNEL s = Some (ROK, s')" and "ipc_ok s'" and "steady s s'"
proof -
  let ?d = "ENDPOINT_P e"
  have base: "base_ok s" using ok by (simp add: ipc_ok_def)
  from ok obtain C where C: "callers_ok s C" by (auto simp: ipc_ok_def)
  have fits: "msg_fits FROM_KERNEL (Kernel_msg m)" by (simp add: msg_fits_def FROM_KERNEL_def)
  have d: "isokprocn ?d" "in_use s ?d" "\<not> RTS_ISSET (procs s ?d) RTS_NO_ENDPOINT"
    using e(1) up by (auto simp: live_def in_use_def RTS_ISSET_bit)
  show ?thesis
  proof (cases "WILLRECEIVE (procs s ?d) (p_endpoint (procs s caller))")
    case True
    obtain s' where s': "send_now K caller ?d (Kernel_msg m) FROM_KERNEL s = Some (ROK, s')" "base_ok s'" "wakes s s'"
      by (rule send_now_ok [OF base d(2) True fits, of K]) (auto simp: the_msg_def)
    then show ?thesis
      using True d ipc_ok_wakes [OF ok s'(3,2)] wakes_steady [OF s'(3)]
      by (intro that [of s']) (simp_all add: mini_send_def Let_def)
  next
    case False
    obtain s' where s': "send_blocking K caller ?d e (Kernel_msg m) FROM_KERNEL s = Some (ROK, s')" "ipc_ok s'" "steady s s'"
    proof (rule send_blocking_ok [OF ok c e False fits C, of K])
      fix r s'
      assume a: "send_blocking K caller ?d e (Kernel_msg m) FROM_KERNEL s = Some (r, s')" "ipc_ok s'" "steady s s'"
        and fail: "r \<noteq> ROK \<Longrightarrow> s' = s \<and> (r = RLOCKED \<or> r = RFAULT \<and> the_msg K (Kernel_msg m) = None)"
        and lock: "r = RLOCKED \<longleftrightarrow> (?d, caller) \<in> (waits s)\<^sup>+"
      have "r = ROK" using fail lock nolock by (auto simp: the_msg_def)
      then show thesis using a that by simp
    qed
    then show ?thesis
      using False d by (intro that [of s']) (auto simp: mini_send_def Let_def NON_BLOCKING_def FROM_KERNEL_def)
  qed
qed

text \<open>The scheduler of a process is another process that is up and does not wait for it.\<close>

definition scheduler_ok :: "kstate \<Rightarrow> int \<Rightarrow> bool" where
  "scheduler_ok s p \<longleftrightarrow> (\<forall>d. p_scheduler (procs s p) = Some d \<longrightarrow> d \<noteq> p \<longrightarrow>
    in_use s d \<and> \<not> dead s d \<and> (d, p) \<notin> (waits s)\<^sup>+)"

lemma proc_no_time_ok:
  assumes ok: "ipc_ok s" and c: "unblocked s p" and sched: "scheduler_ok s p"
  obtains s' where "proc_no_time K p s = Some s'" and "ipc_ok s'" and "steady s s'"
proof (cases "\<not> proc_kernel_scheduler s p \<and> s_flags (priv_of s p) AND PREEMPTIBLE \<noteq> 0")
  case True
  then obtain d where d: "p_scheduler (procs s p) = Some d" "d \<noteq> p" by (auto simp: proc_kernel_scheduler_def)
  then have up: "in_use s d" "\<not> dead s d" "(d, p) \<notin> (waits s)\<^sup>+" using sched by (auto simp: scheduler_ok_def)
  have base: "base_ok s" and p: "in_use s p" using ok c by (auto simp: ipc_ok_def unblocked_def)
  obtain s1 where s1: "RTS_SET K p RTS_NO_QUANTUM s = Some s1" "base_ok s1" "wakes s s1" "sched_frame s s1"
    by (rule RTS_SET_base [OF base p, of RTS_NO_QUANTUM K]) (auto simp: bit_flags)
  define s2 where "s2 = upd_proc p reset_proc_accounting s1"
  have s2: "ipc_ok s2" "wakes s1 s2"
    unfolding s2_def
    by (rule ipc_ok_touch [OF ipc_ok_wakes [OF ok s1(3,2)]]; simp add: reset_proc_accounting_def proc_links_def)+
  have w2: "wakes s s2" by (rule wakes_trans [OF s1(3) s2(2)])
  define e where "e = p_endpoint (procs s1 d)"
  have e: "e = p_endpoint (procs s d)" using sched_frame_fields(10) [OF s1(4)] by (simp add: e_def)
  then have live: "live s2 e" "ENDPOINT_P e = d" using base_ok_self [OF base up(1)] wakes_use(2) [OF w2] by auto
  have "p_scheduler (procs s1 p) = Some d" using d(1) sched_frame_fields(4) [OF s1(4)] by simp
  have nolock: "(d, p) \<notin> (waits s2)\<^sup>+" using up(3) trancl_mono [OF _ wakes_waits [OF w2]] by blast
  have up2: "\<not> dead s2 d" using up(2) w2 by (simp add: wakes_def)
  define m where "m = \<lparr>m_source = p_endpoint (procs s1 p), m_type = SCHEDULING_NO_QUANTUM,
    m_body = Accounting (cpu_time_2_ms K (time_in_queue (procs s1 p))) (dequeues (procs s1 p)) (ipc_sync (procs s1 p))
      (ipc_async (procs s1 p)) (preempted (procs s1 p)) 0 (cpu_load K)\<rparr>"
  obtain s' where "mini_send K p e (Kernel_msg m) FROM_KERNEL s2 = Some (ROK, s')" "ipc_ok s'" "steady s2 s'"
    by (rule mini_send_kernel_ok [OF s2(1) wakes_unblocked [OF w2 c] live(1)]) (use live(2) d(2) up2 nolock in auto)
  then show ?thesis
    using True s1(1) \<open>p_scheduler (procs s1 p) = Some d\<close> steady_trans [OF wakes_steady [OF w2]]
    by (intro that [of s']) (simp_all add: proc_no_time_def notify_scheduler_def m_def e_def s2_def)
next
  case False
  show ?thesis
  proof (rule that)
    show "proc_no_time K p s = Some (upd_proc p (\<lambda>x. x\<lparr>p_cpu_time_left := ms_2_cpu_time K (p_quantum_size_ms x)\<rparr>) s)"
      using False by (auto simp: proc_no_time_def)
  qed (use ipc_ok_touch [OF ok, of "\<lambda>x. x\<lparr>p_cpu_time_left := ms_2_cpu_time K (p_quantum_size_ms x)\<rparr>" p] wakes_steady in auto)
qed

section \<open>Picking the next process\<close>

lemma ipc_ok_proc_ptr:
  assumes ok: "ipc_ok s" and p: "in_use s p"
    and t: "procs t = procs s" "privs t = privs s" "run_q_head t = run_q_head s" "run_q_tail t = run_q_tail s" "proc_ptr t = p"
  shows "ipc_ok t"
proof -
  have "ready_in t R Q = ready_in s R Q" for R Q by (rule ready_in_cong) (simp_all add: t)
  moreover have "runnable t = runnable s" by (simp add: runnable_def t)
  ultimately have "queues_ok t" using ok p by (simp add: ipc_ok_def base_ok_def queues_ok_def in_use_def t)
  moreover have "slots_ok t" using ok p by (simp add: ipc_ok_def base_ok_def slots_ok_def in_use_def t)
  moreover have "delivery_ok t" "privs_ok t" "notify_ok t" "wait_ok t" "waits t = waits s" "links_ok t"
    "\<And>C. callers_ok t C = callers_ok s C"
    using ok by (simp_all add: ipc_ok_def base_ok_def delivery_ok_def privs_ok_def notify_ok_def in_use_def live_def exclusive_def
      wait_ok_def waits_def links_ok_def callers_ok_def senders_def t)
  ultimately show ?thesis using ok by (simp add: ipc_ok_def base_ok_def)
qed

lemma requeue_preempted_ok:
  assumes ok: "ipc_ok s"
  obtains s' where "requeue_preempted K s = Some s'" and "ipc_ok s'" and "wakes s s'"
proof (cases "rts s (proc_ptr s) AND RTS_PREEMPTED \<noteq> 0")
  case False
  then show ?thesis using ok by (intro that [of s]) (simp_all add: requeue_preempted_def)
next
  case True
  define p where "p = proc_ptr s"
  define s1 where "s1 = upd_proc p (unset_rts RTS_PREEMPTED) s"
  have base: "base_ok s" using ok by (simp add: ipc_ok_def)
  have p: "isokprocn p" "in_use s p" "queue_ok (priority s p)"
    using base_ok_parts(6,7) [OF base] by (auto simp: p_def in_use_def)
  from base_ok_parts(1) [OF base] obtain Q where Q: "ready_in s (runnable s) Q" by (auto simp: queues_ok_def)
  have f1: "sched_frame s s1" unfolding s1_def by (rule sched_frame_upd) simp
  have pn: "p \<notin> runnable s" using True by (auto simp: runnable_rts p_def)
  have r1: "runnable s1 - {p} = runnable s" using pn by (auto simp: runnable_rts s1_def)
  have Q1: "ready_in s1 (runnable s1 - {p}) Q" using Q unfolding r1 by (simp add: s1_def)
  have b1: "bit (rts s1 x) n \<longleftrightarrow> bit (rts s x) n \<and> \<not> (x = p \<and> n = 14)" for x n
    by (auto simp: s1_def unset_rts_def bit_and_iff bit_not_iff bit_flags dest: bit_imp_le_length)
  obtain s2 where s2: "requeue_preempted K s = Some s2" "queues_ok s2" "sched_frame s1 s2"
    "\<And>x n. n \<noteq> 14 \<Longrightarrow> bit (rts s2 x) n = bit (rts s1 x) n" "\<And>x. x \<noteq> p \<Longrightarrow> rts s2 x = rts s1 x"
  proof (cases "proc_is_runnable (procs s1 p)")
    case run: True
    have pp: "proc_ptr s1 = p" "isokprocn (proc_ptr s1)" "queue_ok (priority s1 p)" using p by (simp_all add: s1_def p_def)
    note step = requeue_preempted_def Let_def p_def [symmetric] s1_def [symmetric]
    show ?thesis
    proof (cases "p_cpu_time_left (procs s1 p) = 0")
      case True
      obtain s2 where s2: "enqueue K p s1 = Some s2" "queues_ok s2" "sched_frame s1 s2" "preempts s1 s2"
        by (rule enqueue_queues [OF Q1 p(1) pp(2) run pp(3)])
      have "bit (rts s2 x) n = bit (rts s1 x) n" if "n \<noteq> 14" for x n
        using s2(4) that unfolding preempts_def by (metis bit_or_iff bit_flags(9))
      moreover have "rts s2 x = rts s1 x" if "x \<noteq> p" for x using s2(4) that pp(1) by (auto simp: preempts_def)
      ultimately show ?thesis
        using that [of s2] s2(1-3) run True \<open>rts s (proc_ptr s) AND RTS_PREEMPTED \<noteq> 0\<close> by (simp add: step)
    next
      case False
      obtain s2 where s2: "enqueue_head K p s1 = Some s2" "queues_ok s2" "sched_frame s1 s2" "\<And>x. rts s2 x = rts s1 x"
        by (rule enqueue_head_queues [OF Q1 p(1) pp(2) run pp(3) False]) blast
      then show ?thesis
        using that [of s2] run False \<open>rts s (proc_ptr s) AND RTS_PREEMPTED \<noteq> 0\<close> by (simp add: step)
    qed
  next
    case False
    then have "runnable s1 = runnable s" using r1 by (auto simp: runnable_def)
    then have "ready_in s1 (runnable s1) Q" using Q1 r1 by simp
    then have "queues_ok s1" using p(1) by (auto simp: queues_ok_def s1_def p_def)
    then show ?thesis
      using that [of s1] False True by (simp add: requeue_preempted_def Let_def s1_def p_def)
  qed
  have fr: "sched_frame s s2" by (rule sched_frame_trans [OF f1 s2(3)])
  have w: "wakes s s2" by (rule sched_frame_wakes [OF fr]) (simp_all add: s2(4) b1)
  have "base_ok s2"
  proof (rule base_ok_steady [OF wakes_steady [OF w] base s2(2)])
    show "delivery_ok s2"
      using base_ok_parts(3) [OF base] wakes_fields(11) [OF w] sched_frame_fields(2) [OF fr] by (auto simp: delivery_ok_def)
    show "notify_ok s2" by (rule sched_frame_notify [OF fr base_ok_parts(5) [OF base] w])
    show "isokprocn x \<Longrightarrow> free s x \<Longrightarrow> rts s2 x = rts s x" for x
      using s2(5) [of x] p(2) by (cases "x = p") (auto simp: s1_def in_use_def)
  qed
  then show ?thesis using s2(1) w ipc_ok_wakes [OF ok w] by (intro that)
qed

lemma pick_new_ok:
  assumes ok: "ipc_ok s"
  obtains r s' where "pick_new K s = Some (r, s')" and "ipc_ok s'"
    and "case r of None \<Rightarrow> runnable s' = {}
      | Some p \<Rightarrow> proc_ptr s' = p \<and> p \<in> runnable s' \<and> (\<forall>x \<in> runnable s'. priority s' p \<le> priority s' x)"
proof -
  obtain s1 where s1: "requeue_preempted K s = Some s1" "ipc_ok s1" by (rule requeue_preempted_ok [OF ok])
  then have q1: "queues_ok s1" by (simp add: ipc_ok_def base_ok_def)
  obtain r s2 where s2: "pick_proc s1 = Some (r, s2)"
    "case r of None \<Rightarrow> runnable s1 = {} | Some p \<Rightarrow> p \<in> runnable s1 \<and> (\<forall>x \<in> runnable s1. priority s1 p \<le> priority s1 x)"
    and t: "procs s2 = procs s1" "privs s2 = privs s1" "run_q_head s2 = run_q_head s1" "run_q_tail s2 = run_q_tail s1"
      "proc_ptr s2 = proc_ptr s1"
    by (rule pick_proc_best [OF q1])
  show ?thesis
  proof (cases r)
    case None
    have "in_use s1 (proc_ptr s1)" using s1(2) base_ok_parts(6) by (simp add: ipc_ok_def)
    then have "ipc_ok s2" by (rule ipc_ok_proc_ptr [OF s1(2) _ t])
    then show ?thesis using None s1(1) s2 t(1) by (intro that [of None s2]) (simp_all add: pick_new_def runnable_def)
  next
    case (Some p)
    then have p: "p \<in> runnable s1" using s2(2) by simp
    then have "in_use s1 p" by (auto simp: runnable_rts in_use_def)
    then have "ipc_ok (s2\<lparr>proc_ptr := p\<rparr>)" by (rule ipc_ok_proc_ptr [OF s1(2)]) (simp_all add: t)
    then show ?thesis
      using Some s1(1) s2 t(1) by (intro that [of "Some p" "s2\<lparr>proc_ptr := p\<rparr>"]) (simp_all add: pick_new_def runnable_def)
  qed
qed

section \<open>Reachable states\<close>

text \<open>
  When an event can happen. A process that makes a call, is given its message or runs on is runnable and not
  in the middle of another call; a call does not receive from the caller itself; a fault while a message is
  copied concerns a process that has a signal manager; a kernel call asks for what its handler relies on.
\<close>

definition no_self_receive :: "kstate \<Rightarrow> 32 word \<Rightarrow> 32 word \<Rightarrow> bool" where
  "no_self_receive s r1 r2 \<longleftrightarrow> \<not> (sint r1 = RECEIVE \<and> sint r2 = p_endpoint (procs s (proc_ptr s)))"

definition misc_ok :: "kenv \<Rightarrow> kstate \<Rightarrow> bool" where
  "misc_ok K s \<longleftrightarrow> (let p = proc_ptr s in
    proc_is_runnable (procs s p) \<and> \<not> MF_ISSET (procs s p) MF_KCALL_RESUME \<and>
    (if delivering s p then m_source (p_delivermsg (procs s p)) \<noteq> NONE \<and>
       (copy_msg_to_user K (p_delivermsg_vir (procs s p)) \<longrightarrow>
         sig_valid K (SIGSEGV K) \<and> (SIGS_IS_LETHAL K (SIGSEGV K) \<longrightarrow> \<not> own_manager s p))
     else MF_ISSET (procs s p) MF_SC_DEFER \<longrightarrow> \<not> MF_ISSET (procs s p) MF_SC_ACTIVE \<and>
       (case p_defer (procs s p) of (r1, r2, _) \<Rightarrow> no_self_receive s r1 r2)))"

fun enabled :: "kenv \<Rightarrow> kevent \<Rightarrow> kstate \<Rightarrow> bool" where
  "enabled K (Trap r1 r2 r3) s \<longleftrightarrow> calling s \<and> no_self_receive s r1 r2"
| "enabled K (Kcall c) s \<longleftrightarrow> kcall_ok K c s"
| "enabled K Misc s \<longleftrightarrow> misc_ok K s"
| "enabled K No_time s \<longleftrightarrow> unblocked s (proc_ptr s) \<and> scheduler_ok s (proc_ptr s)"
| "enabled K Pick s \<longleftrightarrow> \<not> proc_is_runnable (procs s (proc_ptr s))"
| "enabled K (Raise p sig) s \<longleftrightarrow> in_use s p \<and> sig_valid K sig \<and> (SIGS_IS_LETHAL K sig \<longrightarrow> \<not> own_manager s p)"

lemma runnable_unblocked: "proc_is_runnable (procs s p) \<Longrightarrow> isokprocn p \<Longrightarrow> unblocked s p"
  by (simp add: unblocked_def in_use_def proc_is_runnable_def)

lemma misc_turn_ok:
  assumes ok: "ipc_ok s" and env: "env_ok K" and m: "misc_ok K s"
  obtains s' brk where "misc_turn K resume (proc_ptr s) s = Some (s', brk)" and "ipc_ok s'"
proof -
  define p where "p = proc_ptr s"
  have run: "proc_is_runnable (procs s p)" and nk: "\<not> MF_ISSET (procs s p) MF_KCALL_RESUME"
    using m by (auto simp: misc_ok_def Let_def p_def)
  have u: "in_use s p" "unblocked s p"
    using ok base_ok_parts(6) [of s] runnable_unblocked [OF run] by (auto simp: ipc_ok_def p_def in_use_def)
  show ?thesis
  proof (cases "delivering s p")
    case True
    obtain s' where "delivermsg K p s = Some s'" "ipc_ok s'"
      by (rule delivermsg_ok [OF ok u(1) True, of K]) (use m True in \<open>auto simp: misc_ok_def Let_def p_def\<close>)
    then show ?thesis using run nk True that by (simp add: misc_turn_def p_def MF_ISSET_bit)
  next
    case nd: False
    show ?thesis
    proof (cases "MF_ISSET (procs s p) MF_SC_DEFER")
      case True
      have "calling s" using u nd m True by (auto simp: calling_def misc_ok_def Let_def p_def)
      then obtain s' where "deferred_call K p s = Some s'" "ipc_ok s'"
        using deferred_call_ok [OF ok _ env] True nd m
        unfolding p_def misc_ok_def Let_def no_self_receive_def by (auto split: prod.splits)
      then show ?thesis using run nk nd True that by (simp add: misc_turn_def p_def MF_ISSET_bit(1))
    next
      case nt: False
      have t: "ipc_ok (upd_proc p (unset_misc f) s)" "wakes s (upd_proc p (unset_misc f) s)" for f
        by (rule ipc_ok_touch [OF ok]; simp add: bit_and_iff)+
      let ?t = "upd_proc p (unset_misc (MF_SC_TRACE OR MF_SC_ACTIVE)) s"
      have "in_use ?t p" using u(1) wakes_use(1) [OF t(2)] by simp
      then obtain s1 where s1: "cause_sig K p (SIGTRAP K) ?t = Some s1" "base_ok s1" "wakes ?t s1"
        using cause_sig_base [of ?t p K "SIGTRAP K"] t(1) env unfolding ipc_ok_def env_ok_def by metis
      have "ipc_ok s1" by (rule ipc_ok_wakes [OF t(1) s1(3,2)])
      moreover have "\<not> MF_ISSET (procs s p) MF_DELIVERMSG" using nd by (simp add: MF_ISSET_bit)
      ultimately show ?thesis
        using run nk nt s1(1) t(1) ok
          that [of s1 False] that [of s True] that [of s False] that [of "upd_proc p (unset_misc MF_SC_ACTIVE) s" True]
        by (cases "MF_ISSET (procs s p) MF_SC_TRACE"; cases "MF_ISSET (procs s p) MF_SC_ACTIVE")
          (simp_all add: misc_turn_def p_def)
    qed
  qed
qed

lemma kstep_ok:
  assumes ok: "ipc_ok s" and env: "env_ok K" and en: "enabled K ev s"
  obtains s' where "kstep K resume ev s = Some s'" and "ipc_ok s'"
proof (cases ev)
  case (Trap r1 r2 r3)
  then have c: "calling s" "sint r1 = RECEIVE \<Longrightarrow> sint r2 \<noteq> p_endpoint (procs s (proc_ptr s))"
    using en by (auto simp: no_self_receive_def)
  obtain r s1 where s1: "do_ipc K r1 r2 r3 s = Some (r, s1)" "ipc_ok s1" by (rule do_ipc_ok [OF ok c(1) env c(2)])
  have "ipc_ok (upd_proc (proc_ptr s) (\<lambda>x. x\<lparr>p_retreg := r\<rparr>) s1)" by (rule ipc_ok_touch [OF s1(2)]) simp_all
  then show ?thesis using Trap s1(1) by (intro that) simp_all
next
  case (Kcall c)
  then have "kcall_ok K c s" using en by simp
  then obtain r s' where "do_kcall K c (proc_ptr s) s = Some (r, s')" "ipc_ok s'" by (rule do_kcall_ok [OF ok])
  then show ?thesis using Kcall by (intro that [of s']) simp_all
next
  case Misc
  then have "misc_ok K s" using en by simp
  from misc_turn_ok [OF ok env this, of resume] obtain s' brk where
    "misc_turn K resume (proc_ptr s) s = Some (s', brk)" "ipc_ok s'" by blast
  then show ?thesis using Misc by (intro that [of s']) simp_all
next
  case No_time
  obtain s' where "proc_no_time K (proc_ptr s) s = Some s'" "ipc_ok s'"
    using proc_no_time_ok [OF ok] en No_time by (metis enabled.simps(4))
  then show ?thesis using No_time ok that by (cases "p_cpu_time_left (procs s (proc_ptr s)) = 0") simp_all
next
  case Pick
  obtain r s' where "pick_new K s = Some (r, s')" "ipc_ok s'" by (rule pick_new_ok [OF ok])
  then show ?thesis using Pick by (intro that [of s']) simp_all
next
  case (Raise p sig)
  have base: "base_ok s" using ok by (simp add: ipc_ok_def)
  obtain s' where s': "cause_sig K p sig s = Some s'" "base_ok s'" "wakes s s'"
    using cause_sig_base [OF base, of p K sig] en Raise by (metis enabled.simps(6))
  then show ?thesis using Raise ipc_ok_wakes [OF ok s'(3,2)] by (intro that [of s']) simp_all
qed

inductive kreach :: "kenv \<Rightarrow> (int \<Rightarrow> kstate \<Rightarrow> kstate option) \<Rightarrow> kstate \<Rightarrow> kstate \<Rightarrow> bool" for K resume s0 where
  kreach_start: "kreach K resume s0 s0"
| kreach_step: "kreach K resume s0 s \<Longrightarrow> enabled K ev s \<Longrightarrow> kstep K resume ev s = Some s' \<Longrightarrow> kreach K resume s0 s'"

lemma kreach_ok:
  assumes "kreach K resume s0 s" and "ipc_ok s0" and "env_ok K"
  shows "ipc_ok s"
  using assms
proof (induction rule: kreach.induct)
  case (kreach_step s ev s')
  then show ?case using kstep_ok [of s K ev resume] by auto
qed

end
