(* ===== verification/Kernel_Claims.thy ===== *)
theory Kernel_Claims
  imports Kernel_Switch
begin

text \<open>
  The properties of the kernel's scheduling and message passing, and an example state on which they are
  shown: process 0 runs, the processes 1 and 3 wait to send to it and process 2 waits for a message from process 1.
\<close>

section \<open>An example\<close>

definition ex_message :: kmessage where
  "ex_message = \<lparr>m_source = 1, m_type = 77, m_body = Payload [1, 2, 3]\<rparr>"

definition ex_priv :: "nat \<Rightarrow> kpriv" where
  "ex_priv i = \<lparr>s_proc_nr = (if i = 0 then SYSTEM else if i = 1 then ASYNCM else int i - 2), s_id = i,
    s_flags = SYS_PROC OR PREEMPTIBLE OR BILLABLE, s_asyntab = - 1, s_asynsize = 0, s_trap_mask = - 1,
    s_ipc_to = (if i < 64 then unset_sys_bit i (- 1) else 0), s_k_call_mask = - 1, s_sig_mgr = SELF, s_bak_sig_mgr = NONE,
    s_notify_pending = 0, s_asyn_pending = 0, s_int_pending = 0, s_sig_pending = {}, s_diag_sig = False, s_grant_table = 0, s_grant_entries = 0\<rparr>"

definition ex_proc :: "int \<Rightarrow> kproc" where
  "ex_proc p = \<lparr>p_priv = (if p = SYSTEM then 0 else if p = ASYNCM then 1 else nat (p + 2)),
    p_rts_flags = (if p = 0 then 0 else if p = 1 \<or> p = 3 then RTS_SENDING else if p = 2 then RTS_RECEIVING
      else if p = SYSTEM \<or> p = ASYNCM then RTS_PROC_STOP else RTS_SLOT_FREE),
    p_misc_flags = 0, p_priority = 7, p_cpu_time_left = 100, p_quantum_size_ms = 200, p_scheduler = None,
    enter_queue = 0, time_in_queue = 0, dequeues = 0, ipc_sync = 0, ipc_async = 0, preempted = 0,
    p_nextready = None, p_caller_q = (if p = 0 then Some 1 else None), p_q_link = (if p = 1 then Some 3 else None),
    p_getfrom_e = (if p = 2 then 1 else NONE), p_sendto_e = (if p = 1 \<or> p = 3 then 0 else NONE), p_pending = {}, p_endpoint = p,
    p_sendmsg = ex_message, p_delivermsg = ex_message, p_delivermsg_vir = 0, p_defer = (0, 0, 0),
    p_signal_received = 0, p_bx = 0, p_retreg = ROK\<rparr>"

definition ex_state :: kstate where
  "ex_state = \<lparr>procs = ex_proc, privs = ex_priv, run_q_head = (\<lambda>q. if q = 7 then Some 0 else None),
    run_q_tail = (\<lambda>q. if q = 7 then Some 0 else None), proc_ptr = 0, bill_ptr = 0, kbill_ipc = 0,
    asyn_mem = (\<lambda>_ _ _. \<lparr>am_flags = 0, am_dst = NONE, am_result = ROK, am_msg = ex_message\<rparr>), monotonic = 0,
    tsc_reads = 0, minix_kerninfo_user = 0\<rparr>"

definition ex_env :: kenv where
  "ex_env = \<lparr>copy_msg_from_user = (\<lambda>_. Some ex_message), copy_msg_to_user = (\<lambda>_. False), tab_readable = (\<lambda>_ _ _. True),
    tab_writable = (\<lambda>_ _ _. True), read_tsc = (\<lambda>n. of_nat n), ms_2_cpu_time = ucast, cpu_time_2_ms = ucast, cpu_load = 0,
    SIGTRAP = 5, SIGSEGV = 11, SIGABRT = 6, SIGSNDELAY = 26, SIGKSIG = 27, SIGKSIGSM = 28, SIGKMESS = 29, NSIG = 32,
    sig_valid = (\<lambda>n. 0 < n \<and> n < 32), SIGS_IS_LETHAL = (\<lambda>n. n \<in> {4, 6, 7, 8, 10, 11})\<rparr>"

lemma ex_env_ok: "env_ok ex_env"
  by (simp add: env_ok_def ex_env_def)

lemma ex_fields [simp]:
  "procs ex_state = ex_proc" "privs ex_state = ex_priv" "proc_ptr ex_state = 0"
  "run_q_head ex_state = (\<lambda>q. if q = 7 then Some 0 else None)" "run_q_tail ex_state = (\<lambda>q. if q = 7 then Some 0 else None)"
  by (simp_all add: ex_state_def)

lemma ex_proc_fields [simp]:
  "p_endpoint (ex_proc p) = p" "p_misc_flags (ex_proc p) = 0" "p_priority (ex_proc p) = 7" "p_nextready (ex_proc p) = None"
  "p_q_link (ex_proc p) = (if p = 1 then Some 3 else None)" "p_caller_q (ex_proc p) = (if p = 0 then Some 1 else None)" "p_scheduler (ex_proc p) = None"
  "p_getfrom_e (ex_proc p) = (if p = 2 then 1 else NONE)" "p_sendto_e (ex_proc p) = (if p = 1 \<or> p = 3 then 0 else NONE)"
  "p_priv (ex_proc p) = (if p = SYSTEM then 0 else if p = ASYNCM then 1 else nat (p + 2))" "p_sendmsg (ex_proc p) = ex_message"
  by (simp_all add: ex_proc_def)

lemma ex_rts: "p_rts_flags (ex_proc p) = (if p = 0 then 0 else if p = 1 \<or> p = 3 then RTS_SENDING else if p = 2 then RTS_RECEIVING
    else if p = SYSTEM \<or> p = ASYNCM then RTS_PROC_STOP else RTS_SLOT_FREE)"
  by (simp add: ex_proc_def)

lemma ex_bits:
  "bit (p_rts_flags (ex_proc p)) 0 \<longleftrightarrow> p \<noteq> 0 \<and> p \<noteq> 1 \<and> p \<noteq> 2 \<and> p \<noteq> 3 \<and> p \<noteq> SYSTEM \<and> p \<noteq> ASYNCM"
  "bit (p_rts_flags (ex_proc p)) 2 \<longleftrightarrow> p = 1 \<or> p = 3" "bit (p_rts_flags (ex_proc p)) 3 \<longleftrightarrow> p = 2"
  "\<not> bit (p_rts_flags (ex_proc p)) 8" "p_rts_flags (ex_proc p) = 0 \<longleftrightarrow> p = 0"
  by (simp_all add: ex_rts bit_flags)
    (simp add: RTS_SENDING_def RTS_RECEIVING_def RTS_PROC_STOP_def RTS_SLOT_FREE_def)

lemma ex_in_use: "in_use ex_state p \<longleftrightarrow> p \<in> {0, 1, 2, 3, SYSTEM, ASYNCM}"
  by (auto simp: in_use_def ex_bits isokprocn_def NR_TASKS_def NR_PROCS_def SYSTEM_def ASYNCM_def)

lemma ex_slot: "isokprocn p \<Longrightarrow> ENDPOINT_P p = p"
  by (auto simp: ENDPOINT_P_eq isokprocn_def NR_TASKS_def NR_PROCS_def)

lemma ex_live: "live ex_state e \<longleftrightarrow> e \<in> {0, 1, 2, 3, SYSTEM, ASYNCM}"
proof -
  have "live ex_state e \<longleftrightarrow> in_use ex_state e"
    using ex_slot [of e] by (auto simp: live_def in_use_def ex_bits)
  then show ?thesis by (simp add: ex_in_use)
qed

lemma ex_blocked: "P_BLOCKEDON (ex_proc p) = (if p = 1 \<or> p = 3 then 0 else if p = 2 then 1 else NONE)"
  by (simp add: P_BLOCKEDON_bit ex_bits)

lemma ex_waits: "waits ex_state = {(1, 0), (2, 1), (3, 0)}"
proof -
  have "ENDPOINT_P 0 = 0" "ENDPOINT_P 1 = 1" by (simp_all add: ENDPOINT_P_eq)
  moreover have "isokprocn 1" "isokprocn 2" "isokprocn 3" by (simp_all add: isokprocn_def NR_TASKS_def NR_PROCS_def)
  moreover have "NONE \<noteq> 0" "NONE \<noteq> 1" "ANY \<noteq> 0" "ANY \<noteq> 1" by (simp_all add: endpoint_consts push_bit_eq_mult)
  ultimately show ?thesis by (auto simp: waits_def ex_blocked split: if_splits)
qed

lemma ex_callers: "callers_ok ex_state (\<lambda>d. if d = 0 then [1, 3] else [])"
proof -
  have "senders ex_state d = (if d = 0 then {1, 3} else {})" for d
    using ex_slot [of 1] ex_slot [of 3] by (auto simp: senders_def ex_bits isokprocn_def NR_TASKS_def NR_PROCS_def ENDPOINT_P_eq)
  then show ?thesis by (auto simp: callers_ok_def)
qed

lemma ex_base: "base_ok ex_state"
proof -
  have ok0: "isokprocn 0" by (simp add: isokprocn_def NR_TASKS_def NR_PROCS_def)
  have run: "runnable ex_state = {0}"
    using ok0 by (auto simp: runnable_rts ex_bits(5))
  have "ready_in ex_state (runnable ex_state) (\<lambda>q. if q = 7 then [0] else [])"
    unfolding run by (auto simp: ready_in_def holds_queue_def ok0 queue_ok_def NR_RUN_QUEUES_def)
  then have "queues_ok ex_state" using ok0 by (auto simp: queues_ok_def)
  moreover have "slots_ok ex_state"
    by (simp add: slots_ok_def ex_in_use ex_slot queue_ok_def NR_RUN_QUEUES_def ex_bits(1)) (simp add: ex_rts)
  moreover have "delivery_ok ex_state" by (simp add: delivery_ok_def)
  moreover have "privs_ok ex_state"
    by (auto simp: privs_ok_def ex_in_use exclusive_def ex_priv_def SYSTEM_def ASYNCM_def NR_SYS_PROCS_def get_unset_sys_bit)
  moreover have "notify_ok ex_state" by (simp add: notify_ok_def ex_priv_def get_sys_bit_def)
  ultimately show ?thesis by (simp add: base_ok_def)
qed

lemma ex_ok: "ipc_ok ex_state"
proof -
  have "acyclic (waits ex_state)" unfolding ex_waits by (auto simp: acyclic_insert acyclic_def [of "{}"] elim: converse_rtranclE)
  moreover have "wait_ok ex_state" by (auto simp: wait_ok_def ex_bits ex_live ex_in_use)
  moreover have "links_ok ex_state" by (simp add: links_ok_def ex_bits)
  ultimately show ?thesis using ex_base ex_callers by (auto simp: ipc_ok_def)
qed

section \<open>Reachable states\<close>


lemma ex_unblocked: "unblocked ex_state 0"
  by (simp add: unblocked_def ex_in_use ex_bits)

lemma ex_calling: "calling ex_state"
  using ex_unblocked by (simp add: calling_def MF_ISSET_bit)




text \<open>
  C18. The kernel's own check of the ready queues succeeds in every reachable state: the queues hold exactly the
  runnable processes, each once and in the queue of its priority, and their ends are where the tables say.
\<close>

theorem ready_queues_sane:
  assumes "ipc_ok s0" and "env_ok K" and "kreach K resume s0 s"
  shows "runqueues_ok_cpu s"
  using kreach_ok [OF assms(3,1,2)] queues_ok_sane by (simp add: ipc_ok_def base_ok_def)

theorem ready_queues_sane_witness: "runqueues_ok_cpu ex_state"
  using ready_queues_sane [OF ex_ok ex_env_ok kreach_start] by simp



section \<open>Scheduling\<close>



section \<open>Deadlocks\<close>

text \<open>
  C15. The deadlock check always answers, and it answers exactly: a call of \<open>cp\<close> on \<open>e\<close> is refused if and only
  if following who waits for whom from \<open>e\<close> leads back to \<open>cp\<close>, except when \<open>e\<close> waits for \<open>cp\<close> directly and
  one of the two sends what the other receives.
\<close>

theorem deadlock_exact:
  assumes "ipc_ok s" and "in_use s cp" and "live s e" and "ENDPOINT_P e \<noteq> cp" and "fn = SEND \<or> fn = RECEIVE"
  shows "\<exists>d. deadlock s fn cp e = Some d \<and> (d \<noteq> 0 \<longleftrightarrow> (ENDPOINT_P e, cp) \<in> (waits s)\<^sup>+ \<and>
    ((ENDPOINT_P e, cp) \<in> waits s \<longrightarrow> sending s (ENDPOINT_P e) = (fn = SEND)))"
proof -
  have "RECEIVE \<noteq> SEND" by (simp add: call_numbers)
  then have "exchange s fn x \<longleftrightarrow> sending s x \<noteq> (fn = SEND)" for x
    using assms(5) by (auto simp: exchange_SEND exchange_RECEIVE)
  then show ?thesis
    using deadlock_result [OF _ _ _ assms(2-4), of fn] assms(1) by (auto simp: ipc_ok_def)
qed

theorem deadlock_exact_witness: "\<exists>d. deadlock ex_state SEND 0 2 = Some d \<and> d \<noteq> 0"
proof -
  have "(2, 0) \<in> (waits ex_state)\<^sup>+" unfolding ex_waits by (meson insertCI r_into_trancl trancl_into_trancl)
  moreover have "(2, 0) \<notin> waits ex_state" unfolding ex_waits by simp
  ultimately show ?thesis
    using deadlock_exact [OF ex_ok, of 0 2 SEND] by (simp add: ex_in_use ex_live ex_slot isokprocn_def NR_TASKS_def NR_PROCS_def)
qed

section \<open>Messages\<close>

text \<open>
  C16. A send that has to wait puts the caller at the end of the destination's queue with its message, and
  fails, without any effect, exactly if it cannot read the message or would complete a circle.
\<close>

theorem send_appends_to_queue:
  assumes "ipc_ok s" and "unblocked s c" and "live s e" and "ENDPOINT_P e \<noteq> c" and "\<not> dead s (ENDPOINT_P e)"
    and "\<not> WILLRECEIVE (procs s (ENDPOINT_P e)) (p_endpoint (procs s c))" and "callers_ok s C"
  shows "\<exists>r s'. mini_send K c e (User_ptr a) 0 s = Some (r, s') \<and>
    (if (ENDPOINT_P e, c) \<in> (waits s)\<^sup>+ then r = RLOCKED \<and> s' = s
     else case copy_msg_from_user K a of None \<Rightarrow> r = RFAULT \<and> s' = s
       | Some m \<Rightarrow> r = ROK \<and> ipc_ok s' \<and> callers_ok s' (C(ENDPOINT_P e := C (ENDPOINT_P e) @ [c])) \<and>
           p_sendmsg (procs s' c) = m \<and> sending s' c \<and> p_sendto_e (procs s' c) = e)"
proof (rule send_blocking_ok [OF assms(1-4,6) _ assms(7), of 0 "User_ptr a" K])
  show "msg_fits 0 (User_ptr a)" by (simp add: msg_fits_def)
  fix r s'
  assume s': "send_blocking K c (ENDPOINT_P e) e (User_ptr a) 0 s = Some (r, s')" "ipc_ok s'"
    and fail: "r \<noteq> ROK \<Longrightarrow> s' = s \<and> (r = RLOCKED \<or> r = RFAULT \<and> the_msg K (User_ptr a) = None)"
    and succ: "r = ROK \<Longrightarrow> callers_ok s' (C(ENDPOINT_P e := C (ENDPOINT_P e) @ [c])) \<and> sending s' c \<and>
      p_sendto_e (procs s' c) = e \<and> the_msg K (User_ptr a) = Some (p_sendmsg (procs s' c)) \<and> \<not> receiving s' c"
    and lock: "r = RLOCKED \<longleftrightarrow> (ENDPOINT_P e, c) \<in> (waits s)\<^sup>+"
  have "mini_send K c e (User_ptr a) 0 s = Some (r, s')"
    using s'(1) assms(3,5,6) by (simp add: mini_send_def Let_def live_def in_use_def RTS_ISSET_bit)
  moreover have "if (ENDPOINT_P e, c) \<in> (waits s)\<^sup>+ then r = RLOCKED \<and> s' = s
     else case copy_msg_from_user K a of None \<Rightarrow> r = RFAULT \<and> s' = s
       | Some m \<Rightarrow> r = ROK \<and> ipc_ok s' \<and> callers_ok s' (C(ENDPOINT_P e := C (ENDPOINT_P e) @ [c])) \<and>
           p_sendmsg (procs s' c) = m \<and> sending s' c \<and> p_sendto_e (procs s' c) = e"
    using fail succ lock s'(2) by (cases "r = ROK") (auto simp: the_msg_def)
  ultimately show ?thesis by blast
qed

lemma ex_slots: "ENDPOINT_P 0 = 0" "ENDPOINT_P 1 = 1" "ENDPOINT_P 2 = 2" "ENDPOINT_P SYSTEM = SYSTEM" "isokprocn 0" "isokprocn 1"
  by (simp_all add: ENDPOINT_P_eq SYSTEM_def isokprocn_def NR_TASKS_def NR_PROCS_def)

theorem send_appends_to_queue_witness:
  "\<exists>s'. mini_send ex_env 0 SYSTEM (User_ptr 0) 0 ex_state = Some (ROK, s') \<and>
    callers_ok s' ((\<lambda>d. if d = 0 then [1, 3] else [])(SYSTEM := [0])) \<and> p_sendmsg (procs s' 0) = ex_message"
proof -
  have "(SYSTEM, 0) \<notin> (waits ex_state)\<^sup>+"
    unfolding ex_waits by (auto simp: SYSTEM_def elim: converse_tranclE)
  moreover have "SYSTEM \<noteq> 0" "SYSTEM \<noteq> 2" by (simp_all add: SYSTEM_def)
  moreover have "copy_msg_from_user ex_env 0 = Some ex_message" by (simp add: ex_env_def)
  ultimately show ?thesis
    using send_appends_to_queue [OF ex_ok ex_unblocked, of SYSTEM "\<lambda>d. if d = 0 then [1, 3] else []" ex_env 0] ex_callers
    by (auto simp: ex_live ex_slots ex_bits WILLRECEIVE_bit)
qed

text \<open>
  C17. A receive that takes a message from the caller's queue takes that of the first sender it accepts: the
  message and its source are what the receiver is given, the sender is not blocked any more, and the others
  stay in the queue in their order.
\<close>

theorem receive_takes_first_sender:
  assumes "ipc_ok s" and "unblocked s c" and "\<not> delivering s c" and "env_ok K" and "callers_ok s C"
    and "C c = as @ x # bs" and "\<forall>y \<in> set as. src \<noteq> ANY \<and> src \<noteq> y" and "src = ANY \<or> src = x"
  shows "\<exists>s'. receive_from_queue K c e src flags s = Some (ROK, s') \<and> ipc_ok s' \<and> callers_ok s' (C(c := as @ bs)) \<and>
    delivering s' c \<and> p_delivermsg (procs s' c) = (p_sendmsg (procs s x))\<lparr>m_source := p_endpoint (procs s x)\<rparr> \<and> \<not> sending s' x"
proof -
  have "isokprocn c" using assms(2) by (auto simp: unblocked_def in_use_def)
  then have "linked (q_link s) (deref s (Caller_q c)) (as @ x # bs)" using assms(5,6) by (auto simp: callers_ok_def)
  then have "find_sender s src (Caller_q c) = Some (Some (if as = [] then Caller_q c else Q_link (last as), x))"
    by (rule find_sender_some) (use assms(7,8) in \<open>auto simp: accepts_def\<close>)
  then have "receive_from_queue K c e src flags s = receive_queued K c (if as = [] then Caller_q c else Q_link (last as)) x s"
    by (simp add: receive_from_queue_def)
  then show ?thesis using receive_queued_ok [OF assms(1-3,5,6,4)] by metis
qed

theorem receive_takes_first_sender_witness:
  "\<exists>s'. receive_from_queue ex_env 0 ANY ANY 0 ex_state = Some (ROK, s') \<and>
    p_delivermsg (procs s' 0) = \<lparr>m_source = 1, m_type = 77, m_body = Payload [1, 2, 3]\<rparr> \<and> \<not> sending s' 1"
  using receive_takes_first_sender [OF ex_ok ex_unblocked _ ex_env_ok ex_callers, of "[]" 1 "[3]" ANY ANY 0]
  by (auto simp: ex_message_def)


lemma ex_exclusive: "exclusive ex_state 0"
  by (auto simp: exclusive_def ex_in_use ex_priv_def SYSTEM_def ASYNCM_def)


text \<open>
  C24. A call changes the state only for a caller that has the right to make it: the bit of the call is in its
  trap mask, the source or destination is a process that exists (or any process, for a receive), sends go only
  to processes in the caller's mask, and the kernel's tasks get nothing but requests.
\<close>

theorem ipc_access_control:
  assumes "do_sync_ipc K c nr e ptr s = Some (r, s')" and "s' \<noteq> s"
  shows "bit (s_trap_mask (priv_of s c)) (nat nr) \<and> nr \<in> {SEND, RECEIVE, SENDREC, NOTIFY, SENDNB} \<and>
    (nr = RECEIVE \<and> e = ANY \<or> (\<exists>p. isokendpt s e = Some p \<and> (nr = RECEIVE \<or> may_send_to s c p) \<and>
      (iskerneln p \<longrightarrow> nr = SENDREC \<or> nr = RECEIVE)))"
proof -
  have "sync_ipc_denied s c nr e = None" using assms by (auto simp: do_sync_ipc_def split: if_splits option.splits)
  moreover have "nr \<noteq> SENDA" using assms(1) by (auto simp: do_sync_ipc_def split: if_splits)
  ultimately show ?thesis
    by (auto simp: sync_ipc_denied_def Let_def ipc_call_names_def split: if_splits option.splits)
qed

theorem ipc_access_control_witness:
  "\<exists>s'. do_sync_ipc ex_env 0 NOTIFY 1 0 ex_state = Some (ROK, s') \<and> s' \<noteq> ex_state \<and> may_send_to ex_state 0 1"
proof -
  have e: "isokendpt ex_state 1 = Some 1" using base_ok_live [OF ex_base, of 1] by (simp add: ex_live ex_slots)
  have may: "may_send_to ex_state 0 1"
    by (simp add: may_send_to_def nr_to_id_def ex_priv_def get_unset_sys_bit SYSTEM_def ASYNCM_def)
      (simp add: get_sys_bit_def)
  have "sync_ipc_denied ex_state 0 NOTIFY 1 = None"
    using e may
    by (simp add: sync_ipc_denied_def Let_def ipc_call_names_def call_numbers IPCNO_HIGHEST_def iskerneln_def ex_priv_def
      SYSTEM_def ASYNCM_def endpoint_consts push_bit_eq_mult)
  then have r: "do_sync_ipc ex_env 0 NOTIFY 1 0 ex_state = Some (ROK, set_notify_pending 1 2 ex_state)"
    using e by (simp add: do_sync_ipc_def mini_notify_def call_numbers WILLRECEIVE_bit ex_bits ex_priv_def SYSTEM_def ASYNCM_def)
  have ne: "set_notify_pending 1 2 ex_state \<noteq> ex_state"
  proof
    assume "set_notify_pending 1 2 ex_state = ex_state"
    then have "s_notify_pending (privs (set_notify_pending 1 2 ex_state) 3) = s_notify_pending (privs ex_state 3)" by simp
    then show False by (simp add: set_notify_pending_def SYSTEM_def ASYNCM_def ex_priv_def set_sys_bit_def)
  qed
  from ipc_access_control [OF r ne] show ?thesis using r ne e by (auto simp: call_numbers endpoint_consts push_bit_eq_mult)
qed

section \<open>Receiving from oneself\<close>

lemma deadlock_loop_spins:
  assumes "isokendpt s e = Some c" and "P_BLOCKEDON (procs s c) = e" and "e \<noteq> ANY" "e \<noteq> NONE" "e \<noteq> p_endpoint (procs s q)"
  shows "deadlock_loop s fn q e n = None"
proof (induction "MAX_LOOP - n" arbitrary: n rule: less_induct)
  case less
  then show ?case using assms by (subst deadlock_loop.simps) (simp add: Let_def del: deadlock_loop.simps)
qed

lemma self_receive_blocks:
  assumes ok: "ipc_ok s" and c: "unblocked s c" "\<not> delivering s c" and e: "e = p_endpoint (procs s c)"
    and none: "s_notify_pending (priv_of s c) = 0" "s_asyn_pending (priv_of s c) = 0"
  obtains s' where "mini_receive K c e ptr 0 s = Some (ROK, s')" and "sched_frame (upd_proc c (\<lambda>x. x\<lparr>p_delivermsg_vir := ptr, p_getfrom_e := e\<rparr>) s) s'"
    and "\<And>x. rts s' x = (if x = c then rts s c OR RTS_RECEIVING else rts s x)"
proof -
  have base: "base_ok s" using ok by (simp add: ipc_ok_def)
  have cu: "in_use s c" "isokprocn c" "\<not> sending s c" "\<not> receiving s c" "\<not> dead s c" using c by (auto simp: unblocked_def in_use_def)
  define s1 where "s1 = upd_proc c (\<lambda>x. x\<lparr>p_delivermsg_vir := ptr\<rparr>) s"
  define s2 where "s2 = upd_proc c (\<lambda>x. x\<lparr>p_delivermsg_vir := ptr, p_getfrom_e := e\<rparr>) s"
  have s2: "upd_proc c (\<lambda>x. x\<lparr>p_getfrom_e := e\<rparr>) s1 = s2" by (simp add: s1_def s2_def upd_proc_def)
  have b1: "base_ok s1" "wakes s s1" unfolding s1_def by (rule base_ok_caller [OF base cu(4)]; simp)+
  have live: "ENDPOINT_P e = c" "live s1 e" using base_ok_self [OF base cu(1)] e wakes_use(2) [OF b1(2)] by auto
  then have ep: "isokendpt s1 e = Some c" "e \<noteq> ANY" "c \<noteq> ANY"
    using base_ok_live [OF b1(1), of e] ok_slot_not_special [of e] cu(2)
    by (auto simp: isokprocn_def NR_TASKS_def NR_PROCS_def endpoint_consts push_bit_eq_mult)
  from ok obtain C where C: "callers_ok s C" by (auto simp: ipc_ok_def)
  then have q: "linked (q_link s) (p_caller_q (procs s c)) (C c)" "set (C c) = senders s c"
    using cu(2) by (simp_all add: callers_ok_def)
  have "p_q_link (procs s1 x) = p_q_link (procs s x)" "p_caller_q (procs s1 x) = p_caller_q (procs s x)" for x by (simp_all add: s1_def)
  then have q1: "linked (q_link s1) (deref s1 (Caller_q c)) (C c)" using q(1) by simp
  have "c \<notin> set (C c)" unfolding q(2) using cu(3) by (simp add: senders_def)
  then have "find_sender s1 c (Caller_q c) = Some None" using ep(3) by (intro find_sender_none [OF q1]) (auto simp: accepts_def)
  moreover have "has_pending_notify s1 c c = Some None" "has_pending_asend s1 c c = Some None"
    using none ep(3) by (simp_all add: has_pending_notify_def has_pending_asend_def has_pending_def s1_def get_sys_bit_def)
  moreover have "deadlock s1 RECEIVE c e = Some 0"
    unfolding deadlock_def using ep cu
    by (subst deadlock_loop.simps) (simp add: Let_def P_BLOCKEDON_bit RTS_ISSET_bit s1_def in_use_def MAX_LOOP_def NR_PROCS_def
      del: deadlock_loop.simps)
  moreover have "\<not> RTS_ISSET (procs s1 c) RTS_NO_ENDPOINT" "\<not> RTS_ISSET (procs s1 c) RTS_SENDING"
    using cu by (simp_all add: RTS_ISSET_bit s1_def)
  moreover have "queues_ok s2" using base_ok_parts(1) [OF base] by (simp add: s2_def)
  then obtain s' where s': "RTS_SET K c RTS_RECEIVING s2 = Some s'" using RTS_SET_queues [OF _ cu(2)] by blast
  ultimately have "mini_receive K c e ptr 0 s = Some (ROK, s')"
    using ep c(2)
    by (simp add: mini_receive_def Let_def s1_def [symmetric] MF_ISSET_bit(1) receive_any_def receive_async_def
      receive_from_queue_def receive_block_def s2 NON_BLOCKING_def)
  moreover have "rts s' x = (if x = c then rts s c OR RTS_RECEIVING else rts s x)" for x
    using RTS_SET_frame(2) [OF s', of x] by (simp add: s2_def)
  ultimately show ?thesis using RTS_SET_frame(1) [OF s'] unfolding s2_def by (intro that [of s'])
qed

text \<open>
  C39. The check of the rights does not stop a process from receiving from itself, and the deadlock check lets it
  block. Afterwards the deadlock check of a call on that process does not end: it follows the process to itself
  until it runs over its array. The premise of the theorem above that a call does not receive from its caller
  is therefore needed.
\<close>

theorem self_receive_breaks_deadlock_check:
  assumes "ipc_ok s" and "unblocked s c" and "\<not> delivering s c" and "bit (s_trap_mask (priv_of s c)) (nat RECEIVE)"
    and "s_notify_pending (priv_of s c) = 0" and "s_asyn_pending (priv_of s c) = 0"
  shows "\<exists>s'. do_sync_ipc K c RECEIVE (p_endpoint (procs s c)) ptr s = Some (ROK, s') \<and>
    (\<forall>q. in_use s q \<longrightarrow> q \<noteq> c \<longrightarrow> deadlock s' SEND q (p_endpoint (procs s c)) = None)"
proof -
  define e where "e = p_endpoint (procs s c)"
  define s1 where "s1 = upd_proc c (\<lambda>x. IPC_STATUS_CLEAR (unset_misc MF_REPLY_PEND x)) s"
  have base: "base_ok s" using assms(1) by (simp add: ipc_ok_def)
  have cu: "in_use s c" "isokprocn c" "\<not> free s c" "\<not> sending s c" "\<not> receiving s c" using assms(2) by (auto simp: unblocked_def in_use_def)
  have b1: "base_ok s1" "wakes s s1"
    unfolding s1_def IPC_STATUS_CLEAR_def by (rule base_ok_caller [OF base cu(5)]; simp)+
  have e1: "e = p_endpoint (procs s1 c)" using wakes_fields(7) [OF b1(2)] by (simp add: e_def)
  have n1: "\<not> delivering s1 c" "s_notify_pending (priv_of s1 c) = 0" "s_asyn_pending (priv_of s1 c) = 0"
    using assms(3,5,6) by (simp_all add: s1_def IPC_STATUS_CLEAR_def unset_misc_def bit_and_iff)
  obtain s' where s': "mini_receive K c e ptr 0 s1 = Some (ROK, s')"
    and fr: "sched_frame (upd_proc c (\<lambda>x. x\<lparr>p_delivermsg_vir := ptr, p_getfrom_e := e\<rparr>) s1) s'"
    and r: "\<And>x. rts s' x = (if x = c then rts s1 c OR RTS_RECEIVING else rts s1 x)"
    by (rule self_receive_blocks [OF ipc_ok_wakes [OF assms(1) b1(2,1)] wakes_unblocked [OF b1(2) assms(2)] n1(1) e1 n1(2,3), of K ptr]) blast
  have live: "ENDPOINT_P e = c" "isokendpt s e = Some c" "e \<noteq> ANY" "e \<noteq> NONE"
    using base_ok_self [OF base cu(1)] base_ok_live [OF base, of e] ok_slot_not_special [of e] cu(2) by (auto simp: e_def)
  have "sync_ipc_denied s c RECEIVE e = None"
    using live assms(4) by (simp add: sync_ipc_denied_def Let_def ipc_call_names_def call_numbers IPCNO_HIGHEST_def)
  then have "do_sync_ipc K c RECEIVE e ptr s = Some (ROK, s')"
    using s' by (simp add: do_sync_ipc_def call_numbers s1_def)
  moreover have "deadlock s' SEND q e = None" if q: "in_use s q" "q \<noteq> c" for q
    unfolding deadlock_def
  proof (rule deadlock_loop_spins)
    have f: "p_endpoint (procs s' x) = p_endpoint (procs s x)" "p_getfrom_e (procs s' c) = e" for x
      using sched_frame_fields(10) [OF fr, of x] sched_frame_fields(7) [OF fr, of c] wakes_fields(7) [OF b1(2), of x] by auto
    have r': "rts s' c = rts s c OR RTS_RECEIVING" using r [of c] by (simp add: s1_def IPC_STATUS_CLEAR_def)
    show "P_BLOCKEDON (procs s' c) = e"
      using cu f(2) by (simp add: P_BLOCKEDON_bit r' bit_or_iff bit_flags)
    have "\<not> bit (rts s' c) 0" "bit RTS_SLOT_FREE 0" using cu(3) by (simp_all add: r' bit_or_iff bit_flags)
    then have "rts s' c \<noteq> RTS_SLOT_FREE" by auto
    then show "isokendpt s' e = Some c"
      using live(1) cu(2) f(1) by (simp add: isokendpt_def Let_def isemptyp_def e_def)
    show "e \<noteq> p_endpoint (procs s' q)" using base_ok_self [OF base q(1)] live(1) q(2) f(1) by auto
  qed (use live in auto)
  ultimately show ?thesis unfolding e_def by blast
qed

theorem self_receive_breaks_deadlock_check_witness:
  "\<exists>s'. do_sync_ipc ex_env 0 RECEIVE 0 0 ex_state = Some (ROK, s') \<and> deadlock s' SEND 1 0 = None"
proof -
  have "p_priv (procs ex_state 0) = 2" by (simp add: SYSTEM_def ASYNCM_def)
  then have v: "bit (s_trap_mask (priv_of ex_state 0)) (nat RECEIVE)" "s_notify_pending (priv_of ex_state 0) = 0"
      "s_asyn_pending (priv_of ex_state 0) = 0"
    by (simp_all add: ex_priv_def RECEIVE_def)
  have "\<not> delivering ex_state 0" by simp
  from self_receive_breaks_deadlock_check [OF ex_ok ex_unblocked this v, of ex_env 0]
  obtain s' where s': "do_sync_ipc ex_env 0 RECEIVE 0 0 ex_state = Some (ROK, s')"
    "\<forall>q. in_use ex_state q \<longrightarrow> q \<noteq> 0 \<longrightarrow> deadlock s' SEND q 0 = None" by auto
  have "deadlock s' SEND 1 0 = None" using s'(2) [rule_format, of 1] by (simp add: ex_in_use)
  with s'(1) show ?thesis by blast
qed

end
