(* ===== verification/Kernel_System_Claims.thy ===== *)
theory Kernel_System_Claims
  imports Kernel_Claims
begin

unbundle bit_operations_syntax

text \<open>
  Properties of the kernel calls: what the send masks allow, what the kernel calls of schedulers and signal
  managers do, and two requests after which the kernel has no defined behaviour.
\<close>

section \<open>Send masks\<close>

text \<open>The fields other than the send mask.\<close>

definition but_ipc_to :: "kpriv \<Rightarrow> kpriv" where
  "but_ipc_to v = v\<lparr>s_ipc_to := 0\<rparr>"

lemma but_ipc_to_fields:
  assumes "but_ipc_to v = but_ipc_to w"
  shows "s_id v = s_id w" "s_proc_nr v = s_proc_nr w" "s_trap_mask v = s_trap_mask w" "s_sig_mgr v = s_sig_mgr w"
    "s_notify_pending v = s_notify_pending w"
  using assms by (cases v; cases w; simp add: but_ipc_to_def)+

text \<open>Who may reply: a process that can make other calls than \<open>RECEIVE\<close>.\<close>

definition replies :: "kstate \<Rightarrow> nat \<Rightarrow> bool" where
  "replies s i \<longleftrightarrow> s_trap_mask (privs s i) AND NOT (push_bit (nat RECEIVE) 1) \<noteq> 0"

text \<open>The masks after the turns of the loop of \<open>fill_sendto_mask\<close> for the ids below \<open>n\<close>.\<close>

definition mask_filled :: "int \<Rightarrow> 64 word \<Rightarrow> nat \<Rightarrow> kstate \<Rightarrow> kstate \<Rightarrow> bool" where
  "mask_filled rp m n s s' \<longleftrightarrow> (let own = p_priv (procs s rp) in
    procs s' = procs s \<and> (\<forall>j. but_ipc_to (privs s' j) = but_ipc_to (privs s j)) \<and>
    (\<forall>i < n. get_sys_bit (s_ipc_to (privs s' own)) i \<longleftrightarrow> get_sys_bit m i \<and> s_proc_nr (privs s i) \<noteq> NONE \<and> i \<noteq> own) \<and>
    (\<forall>j. j \<noteq> own \<longrightarrow> ((get_sys_bit (s_ipc_to (privs s' j)) own \<longleftrightarrow>
      (if j < n then get_sys_bit m j \<and> (get_sys_bit (s_ipc_to (privs s j)) own \<or> s_proc_nr (privs s j) \<noteq> NONE \<and> replies s j)
       else get_sys_bit (s_ipc_to (privs s j)) own)) \<and>
      (\<forall>i. i \<noteq> own \<longrightarrow> get_sys_bit (s_ipc_to (privs s' j)) i = get_sys_bit (s_ipc_to (privs s j)) i))))"

lemma set_sendto_bit_bits:
  assumes n: "n < 64" and own: "own = p_priv (procs t rp)" "own < 64" and ids: "\<And>i. s_id (privs t i) = i"
  shows "procs (set_sendto_bit rp n t) = procs t" and "but_ipc_to (privs (set_sendto_bit rp n t) j) = but_ipc_to (privs t j)"
    and "get_sys_bit (s_ipc_to (privs (set_sendto_bit rp n t) j)) i \<longleftrightarrow>
      (if j = own \<and> i = n then s_proc_nr (privs t n) \<noteq> NONE \<and> n \<noteq> own
       else j = n \<and> i = own \<and> s_proc_nr (privs t n) \<noteq> NONE \<and> replies t n \<or> get_sys_bit (s_ipc_to (privs t j)) i)"
  using assms by (auto simp: set_sendto_bit_def set_ipc_to_def unset_ipc_to_def but_ipc_to_def replies_def id_to_nr_def Let_def
      get_set_sys_bit get_unset_sys_bit upd_priv_def)

lemma unset_sendto_bit_bits:
  assumes n: "n < 64" and own: "own = p_priv (procs t rp)" "own < 64" and ids: "\<And>i. s_id (privs t i) = i"
  shows "procs (unset_sendto_bit rp n t) = procs t" and "but_ipc_to (privs (unset_sendto_bit rp n t) j) = but_ipc_to (privs t j)"
    and "get_sys_bit (s_ipc_to (privs (unset_sendto_bit rp n t) j)) i \<longleftrightarrow>
      \<not> (j = own \<and> i = n) \<and> \<not> (j = n \<and> i = own) \<and> get_sys_bit (s_ipc_to (privs t j)) i"
  using assms by (auto simp: unset_sendto_bit_def set_ipc_to_def unset_ipc_to_def but_ipc_to_def Let_def
      get_unset_sys_bit upd_priv_def)

lemma mask_filled_step:
  assumes f: "mask_filled rp m n s t" and n: "n < 64" and own: "p_priv (procs s rp) < 64" and ids: "\<And>i. s_id (privs s i) = i"
  shows "mask_filled rp m (Suc n) s (if get_sys_bit m n then set_sendto_bit rp n t else unset_sendto_bit rp n t)"
proof -
  define own where "own = p_priv (procs s rp)"
  have p: "procs t = procs s" "own = p_priv (procs t rp)" and b: "\<And>j. but_ipc_to (privs t j) = but_ipc_to (privs s j)"
    and below: "\<And>i. i < n \<Longrightarrow> get_sys_bit (s_ipc_to (privs t own)) i \<longleftrightarrow> get_sys_bit m i \<and> s_proc_nr (privs s i) \<noteq> NONE \<and> i \<noteq> own"
    and others: "\<And>j. j \<noteq> own \<Longrightarrow> get_sys_bit (s_ipc_to (privs t j)) own \<longleftrightarrow>
      (if j < n then get_sys_bit m j \<and> (get_sys_bit (s_ipc_to (privs s j)) own \<or> s_proc_nr (privs s j) \<noteq> NONE \<and> replies s j)
       else get_sys_bit (s_ipc_to (privs s j)) own)"
    and rest: "\<And>j i. j \<noteq> own \<Longrightarrow> i \<noteq> own \<Longrightarrow> get_sys_bit (s_ipc_to (privs t j)) i = get_sys_bit (s_ipc_to (privs s j)) i"
    using f by (simp_all add: mask_filled_def Let_def own_def)
  have t: "s_id (privs t j) = j" "s_proc_nr (privs t j) = s_proc_nr (privs s j)" "replies t j = replies s j" for j
    using but_ipc_to_fields [OF b [of j]] ids by (simp_all add: replies_def)
  have own64: "own < 64" using own by (simp add: own_def)
  note set_bits = set_sendto_bit_bits [OF n p(2) own64 t(1)] and unset_bits = unset_sendto_bit_bits [OF n p(2) own64 t(1)]
  show ?thesis
  proof (cases "get_sys_bit m n")
    case True
    then show ?thesis unfolding mask_filled_def own_def [symmetric] Let_def
      by (auto simp: set_bits p(1) b t below others rest less_Suc_eq)
  next
    case False
    then show ?thesis unfolding mask_filled_def own_def [symmetric] Let_def
      by (auto simp: unset_bits p(1) b t below others rest less_Suc_eq)
  qed
qed

lemma fill_sendto_mask_filled:
  assumes "p_priv (procs s rp) < 64" and "\<And>i. s_id (privs s i) = i"
  shows "mask_filled rp m NR_SYS_PROCS s (fill_sendto_mask rp m s)"
proof -
  have "n \<le> 64 \<Longrightarrow> mask_filled rp m n s
      (fold (\<lambda>i s. if get_sys_bit m i then set_sendto_bit rp i s else unset_sendto_bit rp i s) [0..<n] s)" for n
  proof (induction n)
    case 0
    then show ?case by (simp add: mask_filled_def Let_def)
  next
    case (Suc n)
    then show ?case using mask_filled_step [of rp m n s, OF _ _ assms] by simp
  qed
  then show ?thesis by (simp add: fill_sendto_mask_def NR_SYS_PROCS_def)
qed

lemma ipc_ok_masks:
  assumes ok: "ipc_ok s" and p: "procs t = procs s" and b: "\<And>j. but_ipc_to (privs t j) = but_ipc_to (privs s j)"
    and q: "run_q_head t = run_q_head s" "run_q_tail t = run_q_tail s" "proc_ptr t = proc_ptr s"
    and no: "\<And>x. in_use s x \<Longrightarrow> \<not> get_sys_bit (s_ipc_to (privs t (p_priv (procs s x)))) (p_priv (procs s x))"
  shows "ipc_ok t"
proof -
  have f: "s_id (privs t j) = s_id (privs s j)" "s_proc_nr (privs t j) = s_proc_nr (privs s j)"
      "s_trap_mask (privs t j) = s_trap_mask (privs s j)" "s_sig_mgr (privs t j) = s_sig_mgr (privs s j)"
      "s_notify_pending (privs t j) = s_notify_pending (privs s j)" for j
    using but_ipc_to_fields [OF b [of j]] by simp_all
  have same: "in_use t x = in_use s x" "live t e = live s e" "exclusive t x = exclusive s x" "runnable t = runnable s"
      "waits t = waits s" "senders t x = senders s x" for x e
    by (simp_all add: in_use_def live_def exclusive_def runnable_def waits_def senders_def p f)
  have "queues_ok t" using ok by (simp add: ipc_ok_def base_ok_def queues_ok_def ready_in_def holds_queue_def same p q)
  moreover have "slots_ok t" "delivery_ok t" "notify_ok t" "wait_ok t" "links_ok t" "\<And>C. callers_ok t C = callers_ok s C"
    using ok by (simp_all add: ipc_ok_def base_ok_def slots_ok_def delivery_ok_def notify_ok_def wait_ok_def links_ok_def callers_ok_def same p q f)
  moreover have "privs_ok t" using ok no by (simp add: ipc_ok_def base_ok_def privs_ok_def same p f)
  ultimately show ?thesis using ok by (simp add: ipc_ok_def base_ok_def same)
qed

lemma fill_sendto_mask_queues:
  "run_q_head (fill_sendto_mask rp m s) = run_q_head s" "run_q_tail (fill_sendto_mask rp m s) = run_q_tail s"
  "proc_ptr (fill_sendto_mask rp m s) = proc_ptr s"
proof -
  have "run_q_head (fold f xs t) = run_q_head t \<and> run_q_tail (fold f xs t) = run_q_tail t \<and> proc_ptr (fold f xs t) = proc_ptr t"
    if "f = (\<lambda>i s. if get_sys_bit m i then set_sendto_bit rp i s else unset_sendto_bit rp i s)" for f xs t
    unfolding that by (induction xs arbitrary: t)
      (simp_all add: set_sendto_bit_def unset_sendto_bit_def set_ipc_to_def unset_ipc_to_def Let_def upd_priv_def)
  then show "run_q_head (fill_sendto_mask rp m s) = run_q_head s" "run_q_tail (fill_sendto_mask rp m s) = run_q_tail s"
    "proc_ptr (fill_sendto_mask rp m s) = proc_ptr s" by (simp_all add: fill_sendto_mask_def)
qed

lemma fill_sendto_mask_bits:
  fixes m :: "64 word"
  assumes ok: "ipc_ok s" and rp: "in_use s rp"
  defines "own \<equiv> p_priv (procs s rp)" and "s' \<equiv> fill_sendto_mask rp m s"
  shows "procs s' = procs s" and "but_ipc_to (privs s' j) = but_ipc_to (privs s j)"
    and "i < NR_SYS_PROCS \<Longrightarrow>
      get_sys_bit (s_ipc_to (privs s' own)) i \<longleftrightarrow> get_sys_bit m i \<and> s_proc_nr (privs s i) \<noteq> NONE \<and> i \<noteq> own"
    and "j \<noteq> own \<Longrightarrow> j < NR_SYS_PROCS \<Longrightarrow> get_sys_bit (s_ipc_to (privs s' j)) own \<longleftrightarrow>
      get_sys_bit m j \<and> (get_sys_bit (s_ipc_to (privs s j)) own \<or> s_proc_nr (privs s j) \<noteq> NONE \<and> replies s j)"
    and "j \<noteq> own \<Longrightarrow> i \<noteq> own \<Longrightarrow> get_sys_bit (s_ipc_to (privs s' j)) i = get_sys_bit (s_ipc_to (privs s j)) i"
proof -
  have "p_priv (procs s rp) < 64" "\<And>i. s_id (privs s i) = i"
    using ok rp by (auto simp: ipc_ok_def base_ok_def privs_ok_def NR_SYS_PROCS_def)
  then have "mask_filled rp m NR_SYS_PROCS s s'" unfolding s'_def by (rule fill_sendto_mask_filled)
  then show "procs s' = procs s" and "but_ipc_to (privs s' j) = but_ipc_to (privs s j)"
    and "i < NR_SYS_PROCS \<Longrightarrow>
      get_sys_bit (s_ipc_to (privs s' own)) i \<longleftrightarrow> get_sys_bit m i \<and> s_proc_nr (privs s i) \<noteq> NONE \<and> i \<noteq> own"
    and "j \<noteq> own \<Longrightarrow> j < NR_SYS_PROCS \<Longrightarrow> get_sys_bit (s_ipc_to (privs s' j)) own \<longleftrightarrow>
      get_sys_bit m j \<and> (get_sys_bit (s_ipc_to (privs s j)) own \<or> s_proc_nr (privs s j) \<noteq> NONE \<and> replies s j)"
    and "j \<noteq> own \<Longrightarrow> i \<noteq> own \<Longrightarrow> get_sys_bit (s_ipc_to (privs s' j)) i = get_sys_bit (s_ipc_to (privs s j)) i"
    unfolding mask_filled_def Let_def own_def by simp_all
qed

lemma fill_sendto_mask_ok:
  assumes ok: "ipc_ok s" and rp: "in_use s rp"
  shows "ipc_ok (fill_sendto_mask rp m s)"
proof (rule ipc_ok_masks [OF ok fill_sendto_mask_bits(1,2) [OF ok rp] fill_sendto_mask_queues])
  fix x assume x: "in_use s x"
  then have "p_priv (procs s x) < NR_SYS_PROCS" "\<not> get_sys_bit (s_ipc_to (priv_of s x)) (p_priv (procs s x))"
    using ok by (auto simp: ipc_ok_def base_ok_def privs_ok_def)
  then show "\<not> get_sys_bit (s_ipc_to (privs (fill_sendto_mask rp m s) (p_priv (procs s x)))) (p_priv (procs s x))"
    using fill_sendto_mask_bits(3,5) [OF ok rp, where i = "p_priv (procs s x)"] by (cases "p_priv (procs s x) = p_priv (procs s rp)") simp_all
qed

text \<open>
  C27. Filling the send mask of a process from a mask of privilege ids gives it the right to send to exactly the
  other processes in that mask, takes from all others the right to send to it, and gives it to those of the mask
  that can make other calls than \<open>RECEIVE\<close>, so that they can reply. Rights between other processes stay, and so
  does the invariant of the message-passing code, in particular that no process may send to itself.
\<close>

theorem send_mask_filled_exactly:
  assumes "ipc_ok s" and "in_use s rp" and "in_use s q" and "s_proc_nr (priv_of s q) = q"
    and "p_priv (procs s q) \<noteq> p_priv (procs s rp)"
  shows "(may_send_to (fill_sendto_mask rp m s) rp q \<longleftrightarrow> get_sys_bit m (nr_to_id s q)) \<and>
    (may_send_to (fill_sendto_mask rp m s) q rp \<longleftrightarrow>
      get_sys_bit m (nr_to_id s q) \<and> (may_send_to s q rp \<or> replies s (p_priv (procs s q)))) \<and>
    (\<forall>x. p_priv (procs s x) \<noteq> p_priv (procs s rp) \<longrightarrow> may_send_to (fill_sendto_mask rp m s) x q = may_send_to s x q) \<and>
    \<not> may_send_to (fill_sendto_mask rp m s) rp rp \<and> ipc_ok (fill_sendto_mask rp m s)"
proof -
  have ids: "s_id (privs s i) = i" for i using assms(1) by (simp add: ipc_ok_def base_ok_def privs_ok_def)
  have lt: "p_priv (procs s q) < NR_SYS_PROCS" "p_priv (procs s rp) < NR_SYS_PROCS"
    using assms(1-3) by (auto simp: ipc_ok_def base_ok_def privs_ok_def)
  have "q \<noteq> NONE" using assms(3) by (auto simp: in_use_def isokprocn_def endpoint_consts push_bit_eq_mult NR_TASKS_def NR_PROCS_def)
  then have nr: "s_proc_nr (priv_of s q) \<noteq> NONE" using assms(4) by simp
  note b = fill_sendto_mask_bits [OF assms(1,2), where m = m]
  have "s_id (privs (fill_sendto_mask rp m s) i) = i" for i using but_ipc_to_fields(1) [OF b(2) [of i]] ids by simp
  then show ?thesis using fill_sendto_mask_ok [OF assms(1,2)] lt nr assms(5) ids
    by (simp add: may_send_to_def nr_to_id_def b)
qed

theorem send_mask_filled_exactly_witness:
  "ipc_ok ex_state \<and> in_use ex_state 0 \<and> in_use ex_state 1 \<and> may_send_to ex_state 0 2 \<and>
    may_send_to (fill_sendto_mask 0 8 ex_state) 0 1 \<and> \<not> may_send_to (fill_sendto_mask 0 8 ex_state) 0 2"
proof -
  have bits: "get_sys_bit 8 3" "\<not> get_sys_bit 8 4" by (simp_all add: get_sys_bit_def)
  have priv: "s_proc_nr (ex_priv 3) = 1" "s_proc_nr (ex_priv 4) = 2" "s_id (ex_priv 3) = 3" "s_id (ex_priv 4) = 4"
    by (simp_all add: ex_priv_def)
  have "may_send_to ex_state 0 2"
    by (simp add: may_send_to_def nr_to_id_def SYSTEM_def ASYNCM_def ex_priv_def get_unset_sys_bit) (simp add: get_sys_bit_def)
  moreover have "may_send_to (fill_sendto_mask 0 8 ex_state) 0 1"
    using send_mask_filled_exactly [of ex_state 0 1 8] ex_ok
    by (simp add: ex_in_use nr_to_id_def SYSTEM_def ASYNCM_def priv bits)
  moreover have "\<not> may_send_to (fill_sendto_mask 0 8 ex_state) 0 2"
    using send_mask_filled_exactly [of ex_state 0 2 8] ex_ok
    by (simp add: ex_in_use nr_to_id_def SYSTEM_def ASYNCM_def priv bits)
  ultimately show ?thesis using ex_ok by (simp add: ex_in_use)
qed

section \<open>Taking a process out of a queue of senders\<close>

lemma unqueue_found:
  assumes "linked (q_link s) (deref s l) (as @ x # bs)" and "x \<notin> set as"
  shows "unqueue s x l = Some (assign (if as = [] then l else Q_link (last as)) (p_q_link (procs s x)) s)"
  using assms
proof (induction as arbitrary: l)
  case Nil
  then show ?case by (subst unqueue.simps) simp
next
  case (Cons a as)
  then have "unqueue s x l = unqueue s x (Q_link a)" by (subst unqueue.simps) auto
  then show ?case using Cons by auto
qed

text \<open>The sender leaves the queue and is not blocked any more, but its own link stays.\<close>

lemma clear_ipc_sender:
  assumes ok: "ipc_ok s" and C: "callers_ok s C" and d: "isokprocn d" and split: "C d = as @ x # bs"
  obtains s' where "clear_ipc K x s = Some s'" and "base_ok s'" and "ipc_ok (assign (Q_link x) None s')"
    and "callers_ok (assign (Q_link x) None s') (C(d := as @ bs))" and "p_q_link (procs s' x) = p_q_link (procs s x)"
    and "\<And>p. sending s' p \<longleftrightarrow> sending s p \<and> p \<noteq> x" and "\<And>p. receiving s' p \<longleftrightarrow> receiving s p \<and> p \<noteq> x"
    and "steady s s'" and "\<And>p. dead s' p = dead s p"
proof -
  have base: "base_ok s" and wok: "wait_ok s" using ok by (auto simp: ipc_ok_def)
  have lk: "linked (q_link s) (deref s (Caller_q d)) (as @ x # bs)" and "x \<in> senders s d"
    using C d split by (auto simp: callers_ok_def) (metis in_set_conv_decomp)
  then have x: "isokprocn x" "sending s x" "ENDPOINT_P (p_sendto_e (procs s x)) = d" "in_use s x" "live s (p_sendto_e (procs s x))"
    using wok by (auto simp: senders_def wait_ok_def)
  have xas: "x \<notin> set as" using linked_distinct [OF lk] by simp
  define l where "l = (if as = [] then Caller_q d else Q_link (last as))"
  define t where "t = assign l (p_q_link (procs s x)) s"
  have "l = Caller_q (if as = [] then d else last as) \<or> l = Q_link (if as = [] then d else last as)" by (simp add: l_def)
  note bt = base_ok_link [OF base this, of "p_q_link (procs s x)", folded t_def]
  have "in_use t x" using x(4) steady_use(1) [OF bt(2)] by simp
  obtain s1 where s1: "RTS_UNSET K x RTS_SENDING t = Some s1" "unsends x t s1"
    using stop_sending_ok [OF bt(1) \<open>in_use t x\<close>, of K] by metis
  have b1: "base_ok s1" and st1: "steady t s1" using s1(2) by (simp_all add: unsends_def)
  have "in_use s1 x" using \<open>in_use t x\<close> steady_use(1) [OF st1] by simp
  obtain s2 where s2: "RTS_UNSET K x RTS_RECEIVING s1 = Some s2" "base_ok s2" "wakes s1 s2"
    "\<And>p. receiving s2 p \<longleftrightarrow> receiving s1 p \<and> p \<noteq> x"
    using wake_receiver [OF b1 wakes_refl \<open>in_use s1 x\<close> base_ok_parts(1,5) [OF b1], of K] by metis
  have run: "clear_ipc K x s = Some s2"
    using s1(1) s2(1) x unqueue_found [OF lk xas] base_ok_live [OF base]
    by (simp add: clear_ipc_def RTS_ISSET_bit t_def l_def)
  define s3 where "s3 = assign (Q_link x) None s2"
  have b3: "base_ok s3" "steady s2 s3" unfolding s3_def by (rule base_ok_link [OF s2(2)], simp)+
  have st: "steady s s2" by (rule steady_trans [OF bt(2) steady_trans [OF st1 wakes_steady [OF s2(3)]]])
  have k: "proc_links (procs s2 p) = proc_links (procs t p)" "sending s2 p \<longleftrightarrow> sending t p \<and> p \<noteq> x" "dead s2 p = dead t p" for p
    using s1(2) s2(3) by (simp_all add: unsends_def wakes_def)
  have recv: "receiving s2 p \<longleftrightarrow> receiving s p \<and> p \<noteq> x" for p
  proof -
    obtain s1' where "RTS_UNSET K x RTS_SENDING t = Some s1'" "\<And>p. receiving s1' p = receiving t p"
      using RTS_UNSET_bits [OF base_ok_parts(1) [OF bt(1)] x(1) base_ok_parts(7) [OF bt(1) x(1)], of K RTS_SENDING]
      by (metis bit_flags(3) numeral_eq_iff semiring_norm(83,84,88,89))
    then show ?thesis using s1(1) s2(4) [of p] by (simp add: t_def)
  qed
  have t: "p_sendto_e (procs t p) = p_sendto_e (procs s p)" "p_getfrom_e (procs t p) = p_getfrom_e (procs s p)" "rts t p = rts s p"
      "p_q_link (procs t p) = (if l = Q_link p then p_q_link (procs s x) else p_q_link (procs s p))"
      "p_caller_q (procs t p) = (if l = Caller_q p then p_q_link (procs s x) else p_caller_q (procs s p))" for p
    unfolding t_def assign_fields assign_links by simp_all
  have r3: "rts s3 p = rts s2 p" for p by (simp add: s3_def)
  have f: "p_sendto_e (procs s3 p) = p_sendto_e (procs s p)" "p_getfrom_e (procs s3 p) = p_getfrom_e (procs s p)"
      "sending s3 p \<longleftrightarrow> sending s p \<and> p \<noteq> x" "receiving s3 p \<Longrightarrow> receiving s p" "dead s3 p = dead s p"
      "p_q_link (procs s3 p) = (if p = x then None else p_q_link (procs t p))" "p_caller_q (procs s3 p) = p_caller_q (procs t p)" for p
    using k [of p] recv [of p] t(1-3) [of p] unfolding r3 unfolding s3_def assign_fields assign_links
    by (simp_all add: proc_links_def)
  have n: "q_link s3 = (if as = [] then q_link s else (q_link s)(last as := q_link s x))(x := None)"
    by (auto simp: fun_eq_iff f(6) t(4) l_def)
  have h: "p_caller_q (procs s3 y) = (if as = [] \<and> y = d then q_link s x else p_caller_q (procs s y))" for y
    by (auto simp: f(7) t(5) l_def)
  note ok3 = ipc_ok_remove [OF ok b3(1) steady_trans [OF st b3(2)] C d split f(3,4,5,1,2) n h]
  have "p_q_link (procs s2 x) = p_q_link (procs s x)" using k(1) [of x] t(4) [of x] xas by (auto simp: proc_links_def l_def)
  moreover have "sending s2 p \<longleftrightarrow> sending s p \<and> p \<noteq> x" "dead s2 p = dead s p" for p using k(2,3) t(3) by simp_all
  ultimately show ?thesis using ok3 [unfolded s3_def] by (intro that [OF run s2(2) _ _ _ _ recv st])
qed

text \<open>
  C40. Taking a sender out of the middle of a queue leaves its link to the next sender. Every other part of the
  state is as it should be, but the next time the process has to wait for a destination the kernel stops at the
  assertion that a process that starts to wait has no link.
\<close>

theorem clear_ipc_leaves_link:
  assumes "ipc_ok s" and "callers_ok s C" and "isokprocn d" and "C d = as @ x # y # bs"
  shows "\<exists>s'. clear_ipc K x s = Some s' \<and> \<not> sending s' x \<and> \<not> receiving s' x \<and> p_q_link (procs s' x) = Some y \<and>
    ipc_ok (assign (Q_link x) None s') \<and> callers_ok (assign (Q_link x) None s') (C(d := as @ y # bs)) \<and>
    (\<forall>e a m. live s e \<longrightarrow> \<not> sending s (ENDPOINT_P e) \<longrightarrow> \<not> receiving s (ENDPOINT_P e) \<longrightarrow> \<not> dead s (ENDPOINT_P e) \<longrightarrow>
      copy_msg_from_user K a = Some m \<longrightarrow> mini_send K x e (User_ptr a) 0 s' = None)"
proof -
  obtain s' where s': "clear_ipc K x s = Some s'" "base_ok s'" "ipc_ok (assign (Q_link x) None s')"
    "callers_ok (assign (Q_link x) None s') (C(d := as @ y # bs))" and link: "p_q_link (procs s' x) = p_q_link (procs s x)"
    and b: "\<And>p. sending s' p \<longleftrightarrow> sending s p \<and> p \<noteq> x" "\<And>p. receiving s' p \<longleftrightarrow> receiving s p \<and> p \<noteq> x" "\<And>p. dead s' p = dead s p"
    and st: "steady s s'"
    by (rule clear_ipc_sender [OF assms, of K]) blast+
  have "linked (q_link s) (p_caller_q (procs s d)) (as @ x # y # bs)" using assms(2-4) by (auto simp: callers_ok_def)
  then have "p_q_link (procs s x) = Some y" by (induction as arbitrary: d) (auto dest: linked_suffix)
  then have y: "p_q_link (procs s' x) = Some y" using link by simp
  have "mini_send K x e (User_ptr a) 0 s' = None"
    if e: "live s e" "\<not> sending s (ENDPOINT_P e)" "\<not> receiving s (ENDPOINT_P e)" "\<not> dead s (ENDPOINT_P e)"
      and m: "copy_msg_from_user K a = Some m" for e a m
  proof -
    have live: "live s' e" using e(1) steady_use [OF st] by simp
    then have e': "isokendpt s' e = Some (ENDPOINT_P e)" "isokprocn (ENDPOINT_P e)" "\<not> free s' (ENDPOINT_P e)" "e \<noteq> ANY"
      using base_ok_live [OF s'(2)] ok_slot_not_special(1) by (auto simp: live_def in_use_def)
    have blk: "P_BLOCKEDON (procs s' (ENDPOINT_P e)) = NONE" using b e by (simp add: P_BLOCKEDON_bit)
    have "deadlock s' SEND x e = Some 0"
      unfolding deadlock_def using e' blk by (subst deadlock_loop.simps) (simp add: Let_def RTS_ISSET_bit MAX_LOOP_def NR_PROCS_def del: deadlock_loop.simps)
    moreover have "p_q_link (procs s3 x) = Some y"
      if "RTS_SET K x RTS_SENDING (upd_proc x (\<lambda>z. z\<lparr>p_sendmsg := m\<rparr>) s') = Some s3" for s3
      using sched_frame_fields(6) [OF RTS_SET_frame(1) [OF that], of x] y by simp
    ultimately have "send_blocking K x (ENDPOINT_P e) e (User_ptr a) 0 s' = None"
      using m by (cases "RTS_SET K x RTS_SENDING (upd_proc x (\<lambda>z. z\<lparr>p_sendmsg := m\<rparr>) s')")
        (simp_all add: send_blocking_def fetch_msg_def Let_def)
    then show ?thesis using e e' b by (simp add: mini_send_def Let_def RTS_ISSET_bit WILLRECEIVE_bit)
  qed
  then show ?thesis using s' y b by (intro exI [of _ s']) auto
qed

theorem clear_ipc_leaves_link_witness:
  "\<exists>s'. clear_ipc ex_env 1 ex_state = Some s' \<and> p_q_link (procs s' 1) = Some 3 \<and> mini_send ex_env 1 SYSTEM (User_ptr 0) 0 s' = None"
proof -
  have "SYSTEM \<noteq> 1" "SYSTEM \<noteq> 2" "SYSTEM \<noteq> 3" by (simp_all add: SYSTEM_def)
  moreover have "copy_msg_from_user ex_env 0 = Some ex_message" by (simp add: ex_env_def)
  ultimately show ?thesis
    using clear_ipc_leaves_link [OF ex_ok ex_callers ex_slots(5), of "[]" 1 3 "[]" ex_env]
    by (auto simp: ex_live ex_slots ex_bits)
qed

section \<open>Scheduling\<close>


lemma ex_scheduled: "ipc_ok (upd_proc 1 (\<lambda>x. x\<lparr>p_scheduler := Some 0\<rparr>) ex_state)"
  by (rule ipc_ok_touch [OF ex_ok]) (simp_all add: proc_links_def)


text \<open>
  The priority one past the last queue passes the check of a scheduler's request, and a process that only
  waits for its quantum is then put into a queue that does not exist.
\<close>

theorem schedule_past_last_queue:
  assumes "isokendpt s ep = Some p" and "p_scheduler (procs s p) = Some caller" and "p_rts_flags (procs s p) = RTS_NO_QUANTUM"
    and "quantum = - 1 \<or> 1 \<le> quantum"
  shows "do_schedule K caller ep (int NR_RUN_QUEUES) quantum s = None"
proof -
  have "\<not> proc_is_runnable (procs s p)" using assms(3) by (simp add: proc_is_runnable_def RTS_NO_QUANTUM_def)
  moreover have "RTS_UNSET K p RTS_NO_QUANTUM t = None"
    if "p_rts_flags (procs t p) = RTS_NO_QUANTUM" "p_priority (procs t p) = int NR_RUN_QUEUES" for t
  proof -
    have "RTS_NO_QUANTUM \<noteq> 0" by (simp add: RTS_NO_QUANTUM_def)
    then show ?thesis using that by (simp add: RTS_UNSET_def enqueue_def Let_def proc_is_runnable_def queue_ok_def)
  qed
  ultimately show ?thesis
    using assms by (auto simp: do_schedule_def sched_proc_def Let_def NR_RUN_QUEUES_def)
qed

theorem schedule_past_last_queue_witness:
  "do_schedule ex_env 0 1 16 100 (upd_proc 1 (\<lambda>x. x\<lparr>p_scheduler := Some 0, p_rts_flags := RTS_NO_QUANTUM\<rparr>) ex_state) = None"
proof -
  have "isokendpt (upd_proc 1 (\<lambda>x. x\<lparr>p_scheduler := Some 0, p_rts_flags := RTS_NO_QUANTUM\<rparr>) ex_state) 1 = Some 1"
    by (simp add: isokendpt_def ex_slots isemptyp_def RTS_NO_QUANTUM_def RTS_SLOT_FREE_def)
  then show ?thesis using schedule_past_last_queue [of _ 1 1 0 100 ex_env] by (simp add: NR_RUN_QUEUES_def)
qed

text \<open>
  If the kernel cannot become the scheduler of a process because the priority or the quantum is wrong, the
  caller is told 1, the value of the comparison, and not \<open>EINVAL\<close>.
\<close>

lemma schedctl_hides_error:
  assumes "flags = SCHEDCTL_FLAG_KERNEL" and "isokendpt s ep = Some p" and "sched_proc K p prio quantum s = Some (RINVAL, s)"
  shows "do_schedctl K caller flags ep prio quantum s = Some (EOTHER 1, s)"
  using assms by (simp add: do_schedctl_def SCHEDCTL_FLAG_KERNEL_def)

end
