(* ===== verification/Grants.thy ===== *)
theory Grants
  imports Endpoint
begin

unbundle bit_operations_syntax

text \<open>
  Grants (include/minix/safecopies.h, lib/libsys/safecopies.c): a process that lets another one read or write
  a part of its memory puts an entry into its table of grants, which the kernel reads when the other process
  asks for a copy. This theory models the table and the library functions that maintain it; the kernel, which
  is told where the table is, is a parameter with the contract of the locale \<open>grant_kernel\<close>.
\<close>

section \<open>Entries\<close>

text \<open>
  The members of the union of an entry overlap: \<open>cp_u0\<close> to \<open>cp_u3\<close> are its words. The reserved bytes are
  never used.
\<close>

record cp_grant_t =
  cp_flags :: "32 word"
  cp_u0 :: "32 word"
  cp_u1 :: "32 word"
  cp_u2 :: "32 word"
  cp_u3 :: "32 word"

definition direct_who_to :: "cp_grant_t \<Rightarrow> int" where "direct_who_to g = sint (cp_u0 g)"
definition direct_start :: "cp_grant_t \<Rightarrow> 32 word" where "direct_start g = cp_u1 g"
definition direct_len :: "cp_grant_t \<Rightarrow> 32 word" where "direct_len g = cp_u2 g"

definition indirect_who_to :: "cp_grant_t \<Rightarrow> int" where "indirect_who_to g = sint (cp_u0 g)"
definition indirect_who_from :: "cp_grant_t \<Rightarrow> int" where "indirect_who_from g = sint (cp_u1 g)"
definition indirect_grant :: "cp_grant_t \<Rightarrow> int" where "indirect_grant g = sint (cp_u2 g)"

definition magic_who_from :: "cp_grant_t \<Rightarrow> int" where "magic_who_from g = sint (cp_u0 g)"
definition magic_who_to :: "cp_grant_t \<Rightarrow> int" where "magic_who_to g = sint (cp_u1 g)"
definition magic_start :: "cp_grant_t \<Rightarrow> 32 word" where "magic_start g = cp_u2 g"
definition magic_len :: "cp_grant_t \<Rightarrow> 32 word" where "magic_len g = cp_u3 g"

text \<open>Four bytes of flags, a union of 24 bytes and eight reserved ones.\<close>

definition sizeof_grant :: nat where "sizeof_grant = 36"

definition GRANT_INVALID :: int where "GRANT_INVALID = - 1"
definition GRANT_VALID :: "int \<Rightarrow> bool" where "GRANT_VALID g \<longleftrightarrow> g > GRANT_INVALID"

definition CPF_READ :: "32 word" where "CPF_READ = 0x000001"
definition CPF_WRITE :: "32 word" where "CPF_WRITE = 0x000002"
definition CPF_TRY :: "32 word" where "CPF_TRY = 0x000010"
definition CPF_USED :: "32 word" where "CPF_USED = 0x000100"
definition CPF_DIRECT :: "32 word" where "CPF_DIRECT = 0x000200"
definition CPF_INDIRECT :: "32 word" where "CPF_INDIRECT = 0x000400"
definition CPF_MAGIC :: "32 word" where "CPF_MAGIC = 0x000800"
definition CPF_VALID :: "32 word" where "CPF_VALID = 0x001000"

section \<open>The library\<close>

text \<open>
  The table of a process and its address, \<open>None\<close> before the first grant; the variable \<open>ngrants\<close> is the length
  of the list. The functions set \<open>errno\<close> together with their result \<open>-1\<close>; it is left out.
\<close>

record grant_table =
  grants :: "cp_grant_t list"
  grants_at :: "32 word option"

abbreviation ngrants :: "grant_table \<Rightarrow> int" where
  "ngrants t \<equiv> int (length (grants t))"

text \<open>
  What the library relies on: where the static table is, \<open>malloc\<close>, what memory holds that has not been
  written, and the kernel call that tells the kernel about the table. All may depend on the state \<open>'k\<close> of
  the rest of the system.
\<close>

record 'k grant_os =
  static_grants :: "32 word"
  malloc_grants :: "'k \<Rightarrow> 32 word \<Rightarrow> 32 word option"
  junk_grant :: "'k \<Rightarrow> nat \<Rightarrow> cp_grant_t"
  sys_setgrant :: "32 word \<Rightarrow> int \<Rightarrow> 'k \<Rightarrow> result \<times> 'k"

definition used :: "cp_grant_t \<Rightarrow> bool" where
  "used g \<longleftrightarrow> cp_flags g AND CPF_USED \<noteq> 0"

definition access_bad :: "32 word \<Rightarrow> bool" where
  "access_bad a \<longleftrightarrow> a AND NOT (CPF_READ OR CPF_WRITE OR CPF_TRY) \<noteq> 0"

definition gid_bad :: "grant_table \<Rightarrow> int \<Rightarrow> bool" where
  "gid_bad t gid \<longleftrightarrow> \<not> GRANT_VALID gid \<or> gid < 0 \<or> gid \<ge> ngrants t"

definition gid_bad_used :: "grant_table \<Rightarrow> int \<Rightarrow> bool" where
  "gid_bad_used t gid \<longleftrightarrow> gid_bad t gid \<or> \<not> used (grants t ! nat gid)"

definition NR_STATIC_GRANTS :: nat where "NR_STATIC_GRANTS = 2"

text \<open>The table moves to a block of \<open>new_size\<close> entries at \<open>a\<close>, unless the kernel refuses.\<close>

definition grow_to :: "'k grant_os \<Rightarrow> 32 word \<Rightarrow> nat \<Rightarrow> grant_table \<Rightarrow> 'k \<Rightarrow> grant_table \<times> 'k" where
  "grow_to os a new_size t k =
    (let new_grants = grants t @ map (\<lambda>g. (junk_grant os k g)\<lparr>cp_flags := 0\<rparr>) [length (grants t)..<new_size];
       (r, k') = sys_setgrant os a (int new_size) k in
     if r \<noteq> ROK then (t, k') else (t\<lparr>grants := new_grants, grants_at := Some a\<rparr>, k'))"

text \<open>A size that is no \<open>int\<close>, or a block that is smaller than the table because its size in bytes is none of 32 bits, has no defined result.\<close>

definition cpf_grow :: "'k grant_os \<Rightarrow> grant_table \<Rightarrow> 'k \<Rightarrow> (grant_table \<times> 'k) option" where
  "cpf_grow os t k =
    (if grants t = [] then Some (grow_to os (static_grants os) NR_STATIC_GRANTS t k)
     else let new_size = (1 + length (grants t)) * 2 in
       if int new_size \<ge> 2 ^ 31 then None
       else case malloc_grants os k (of_nat (new_size * sizeof_grant)) of
         None \<Rightarrow> Some (t, k)
       | Some a \<Rightarrow> if new_size * sizeof_grant \<ge> 2 ^ 32 then None else Some (grow_to os a new_size t k))"

definition first_free :: "grant_table \<Rightarrow> nat" where
  "first_free t = length (takeWhile used (grants t))"

definition cpf_new_grantslot :: "'k grant_os \<Rightarrow> grant_table \<Rightarrow> 'k \<Rightarrow> (int \<times> grant_table \<times> 'k) option" where
  "cpf_new_grantslot os t k =
    (let g = first_free t in
     if g = length (grants t) then do {
       (t', k') \<leftarrow> cpf_grow os t k;
       if g > length (grants t') then None
       else if g = length (grants t') then Some (- 1, t', k')
       else if used (grants t' ! g) then None
       else Some (int g, t', k') }
     else Some (int g, t, k))"

definition cpf_revoke :: "int \<Rightarrow> grant_table \<Rightarrow> int \<times> grant_table" where
  "cpf_revoke g t =
    (if gid_bad_used t g then (- 1, t)
     else (0, t\<lparr>grants := (grants t)[nat g := (grants t ! nat g)\<lparr>cp_flags := 0\<rparr>]\<rparr>))"

definition cpf_setgrant_direct :: "int \<Rightarrow> int \<Rightarrow> 32 word \<Rightarrow> 32 word \<Rightarrow> 32 word \<Rightarrow> grant_table \<Rightarrow> int \<times> grant_table" where
  "cpf_setgrant_direct gid who addr bytes access t =
    (if gid_bad t gid \<or> access_bad access then (- 1, t)
     else (0, t\<lparr>grants := (grants t)[nat gid := (grants t ! nat gid)
       \<lparr>cp_flags := access OR CPF_DIRECT OR CPF_USED OR CPF_VALID, cp_u0 := word_of_int who, cp_u1 := addr, cp_u2 := bytes\<rparr>]\<rparr>))"

definition cpf_setgrant_indirect :: "int \<Rightarrow> int \<Rightarrow> int \<Rightarrow> int \<Rightarrow> grant_table \<Rightarrow> int \<times> grant_table" where
  "cpf_setgrant_indirect gid who_to who_from his_gid t =
    (if gid_bad t gid then (- 1, t)
     else (0, t\<lparr>grants := (grants t)[nat gid := (grants t ! nat gid)
       \<lparr>cp_flags := CPF_USED OR CPF_INDIRECT OR CPF_VALID, cp_u0 := word_of_int who_to, cp_u1 := word_of_int who_from,
        cp_u2 := word_of_int his_gid\<rparr>]\<rparr>))"

definition cpf_setgrant_magic :: "int \<Rightarrow> int \<Rightarrow> int \<Rightarrow> 32 word \<Rightarrow> 32 word \<Rightarrow> 32 word \<Rightarrow> grant_table \<Rightarrow> int \<times> grant_table" where
  "cpf_setgrant_magic gid who_to who_from addr bytes access t =
    (if gid_bad t gid \<or> access_bad access then (- 1, t)
     else (0, t\<lparr>grants := (grants t)[nat gid := (grants t ! nat gid)
       \<lparr>cp_flags := CPF_USED OR CPF_MAGIC OR CPF_VALID OR access, cp_u1 := word_of_int who_to, cp_u0 := word_of_int who_from,
        cp_u2 := addr, cp_u3 := bytes\<rparr>]\<rparr>))"

definition cpf_setgrant_disable :: "int \<Rightarrow> grant_table \<Rightarrow> int \<times> grant_table" where
  "cpf_setgrant_disable gid t =
    (if gid_bad t gid then (- 1, t)
     else (0, t\<lparr>grants := (grants t)[nat gid := (grants t ! nat gid)\<lparr>cp_flags := CPF_USED\<rparr>]\<rparr>))"

definition cpf_grant_direct ::
    "'k grant_os \<Rightarrow> int \<Rightarrow> 32 word \<Rightarrow> 32 word \<Rightarrow> 32 word \<Rightarrow> grant_table \<Rightarrow> 'k \<Rightarrow> (int \<times> grant_table \<times> 'k) option" where
  "cpf_grant_direct os who_to addr bytes access t k = do {
     (g, t1, k1) \<leftarrow> cpf_new_grantslot os t k;
     if g < 0 then Some (GRANT_INVALID, t1, k1)
     else let (r, t2) = cpf_setgrant_direct g who_to addr bytes access t1 in
       if r < 0 then Some (GRANT_INVALID, snd (cpf_revoke g t2), k1) else Some (g, t2, k1) }"

definition cpf_grant_indirect ::
    "'k grant_os \<Rightarrow> int \<Rightarrow> int \<Rightarrow> int \<Rightarrow> grant_table \<Rightarrow> 'k \<Rightarrow> (int \<times> grant_table \<times> 'k) option" where
  "cpf_grant_indirect os who_to who_from gr t k = do {
     (g, t1, k1) \<leftarrow> cpf_new_grantslot os t k;
     if g < 0 then Some (- 1, t1, k1)
     else let (r, t2) = cpf_setgrant_indirect g who_to who_from gr t1 in
       if r < 0 then Some (GRANT_INVALID, snd (cpf_revoke g t2), k1) else Some (g, t2, k1) }"

definition cpf_grant_magic ::
    "'k grant_os \<Rightarrow> int \<Rightarrow> int \<Rightarrow> 32 word \<Rightarrow> 32 word \<Rightarrow> 32 word \<Rightarrow> grant_table \<Rightarrow> 'k \<Rightarrow> (int \<times> grant_table \<times> 'k) option" where
  "cpf_grant_magic os who_to who_from addr bytes access t k =
    (if access_bad access then Some (- 1, t, k)
     else do {
       (g, t1, k1) \<leftarrow> cpf_new_grantslot os t k;
       if g < 0 then Some (- 1, t1, k1)
       else let (r, t2) = cpf_setgrant_magic g who_to who_from addr bytes access t1 in
         if r < 0 then Some (- 1, snd (cpf_revoke g t2), k1) else Some (g, t2, k1) })"

text \<open>The endpoints of granter and grantee; \<open>None\<close> for the result \<open>-1\<close>.\<close>

definition cpf_lookup :: "int \<Rightarrow> grant_table \<Rightarrow> (int \<times> int) option" where
  "cpf_lookup g t =
    (if gid_bad_used t g then None
     else let e = grants t ! nat g in
       if cp_flags e AND CPF_DIRECT \<noteq> 0 then Some (SELF, direct_who_to e)
       else if cp_flags e AND CPF_MAGIC \<noteq> 0 then Some (magic_who_from e, magic_who_to e)
       else None)"

text \<open>The identifiers that were assigned, in order; the result is their number.\<close>

fun cpf_getgrants :: "'k grant_os \<Rightarrow> nat \<Rightarrow> grant_table \<Rightarrow> 'k \<Rightarrow> (int list \<times> grant_table \<times> 'k) option" where
  "cpf_getgrants os 0 t k = Some ([], t, k)"
| "cpf_getgrants os (Suc n) t k = do {
     (g, t1, k1) \<leftarrow> cpf_new_grantslot os t k;
     if g < 0 then Some ([], t1, k1)
     else do {
       (gs, t2, k2) \<leftarrow> cpf_getgrants os n (t1\<lparr>grants := (grants t1)[nat g := (grants t1 ! nat g)\<lparr>cp_flags := CPF_USED\<rparr>]\<rparr>) k1;
       Some (g # gs, t2, k2) } }"

definition cpf_reload :: "'k grant_os \<Rightarrow> grant_table \<Rightarrow> 'k \<Rightarrow> 'k" where
  "cpf_reload os t k = (case grants_at t of None \<Rightarrow> k | Some a \<Rightarrow> snd (sys_setgrant os a (ngrants t) k))"

end
