(* ===== verification/Kernel_Grants.thy ===== *)
theory Kernel_Grants
  imports Kernel_Types Grants
begin

unbundle bit_operations_syntax

text \<open>
  Copying through grants (kernel/system/do_safecopy.c, do_safememset.c, do_setgrant.c): the kernel reads the entry
  of a grant from the memory of the granter, follows indirect grants to the one they stand for and checks it
  before it copies. Reading a grant, and the copies themselves, are memory management and parameters: they work
  on the state \<open>'m\<close> of the memories and on the tables of the kernel, because a process may have to wait for
  a page.
\<close>

section \<open>The check\<close>

record vir_addr =
  proc_nr_e :: int
  vir_offset :: "32 word"

record vscp_vec =
  v_from :: int
  v_to :: int
  v_gid :: int
  v_offset :: "32 word"
  v_addr :: "32 word"
  v_bytes :: "32 word"

type_synonym 'm machine = "'m \<times> kstate"

text \<open>
  \<open>read_grant\<close> is \<open>data_copy\<close> of an entry into the kernel, \<open>fetch_vec\<close> is \<open>virtual_copy_vmcheck\<close> of a
  vector of requests into the kernel.
\<close>

record 'm copy_env =
  read_grant :: "'m \<Rightarrow> int \<Rightarrow> 32 word \<Rightarrow> cp_grant_t option"
  virtual_copy :: "vir_addr \<Rightarrow> vir_addr \<Rightarrow> 32 word \<Rightarrow> 'm machine \<Rightarrow> result \<times> 'm machine"
  virtual_copy_vmcheck :: "int \<Rightarrow> vir_addr \<Rightarrow> vir_addr \<Rightarrow> 32 word \<Rightarrow> 'm machine \<Rightarrow> result \<times> 'm machine"
  fetch_vec :: "int \<Rightarrow> vir_addr \<Rightarrow> 32 word \<Rightarrow> 'm machine \<Rightarrow> result \<times> vscp_vec list \<times> 'm machine"
  vm_memset :: "int \<Rightarrow> int \<Rightarrow> 32 word \<Rightarrow> int \<Rightarrow> 32 word \<Rightarrow> 'm machine \<Rightarrow> result \<times> 'm machine"

definition VFS_PROC_NR :: int where "VFS_PROC_NR = 1"
definition MAX_INDIRECT_DEPTH :: nat where "MAX_INDIRECT_DEPTH = 5"
definition MEM_TOP :: "32 word" where "MEM_TOP = 0xFFFFFFFF"
definition SCPVEC_NR :: nat where "SCPVEC_NR = 64"

text \<open>Every process in use has a privilege structure, so only the table is tested.\<close>

definition HASGRANTTABLE :: "kstate \<Rightarrow> int \<Rightarrow> bool" where
  "HASGRANTTABLE s p \<longleftrightarrow> s_grant_table (priv_of s p) \<noteq> 0"

text \<open>The entry of a grant, up to the check that it is valid.\<close>

definition grant_entry :: "'m copy_env \<Rightarrow> 'm machine \<Rightarrow> int \<Rightarrow> int \<Rightarrow> result + cp_grant_t" where
  "grant_entry E ms granter grant = (case ms of (m, s) \<Rightarrow>
    (case isokendpt s granter of
       None \<Rightarrow> Inl RINVAL
     | Some p \<Rightarrow>
         if \<not> GRANT_VALID grant then Inl RINVAL
         else if \<not> HASGRANTTABLE s p then Inl RPERM
         else if s_grant_entries (priv_of s p) \<le> grant then Inl RPERM
         else case read_grant E m granter (s_grant_table (priv_of s p) + of_nat sizeof_grant * word_of_int grant) of
           None \<Rightarrow> Inl RPERM
         | Some g \<Rightarrow> if cp_flags g AND (CPF_USED OR CPF_VALID) \<noteq> CPF_USED OR CPF_VALID then Inl RPERM else Inr g))"

text \<open>The loop over indirect grants. The depth counts up from 0, so reaching the maximum is the same as being equal to it.\<close>

function follow_grants :: "'m copy_env \<Rightarrow> 'm machine \<Rightarrow> int \<Rightarrow> int \<Rightarrow> int \<Rightarrow> nat \<Rightarrow> result + int \<times> int \<times> cp_grant_t" where
  "follow_grants E ms granter grantee grant depth = (case grant_entry E ms granter grant of
      Inl r \<Rightarrow> Inl r
    | Inr g \<Rightarrow>
        if cp_flags g AND CPF_INDIRECT \<noteq> 0 then
          if depth \<ge> MAX_INDIRECT_DEPTH then Inl RLOOP
          else if indirect_who_to g \<noteq> grantee \<and> grantee \<noteq> ANY \<and> indirect_who_to g \<noteq> ANY then Inl RPERM
          else follow_grants E ms (indirect_who_from g) granter (indirect_grant g) (depth + 1)
        else Inr (granter, grantee, g))"
  by pat_completeness auto
termination by (relation "measure (\<lambda>(E, ms, r, e, g, d). MAX_INDIRECT_DEPTH - d)") auto

declare follow_grants.simps [simp del]

text \<open>The results are the address in the memory of the granter, the granter and the flags of the grant.\<close>

definition verify_grant ::
    "'m copy_env \<Rightarrow> 'm machine \<Rightarrow> int \<Rightarrow> int \<Rightarrow> int \<Rightarrow> 32 word \<Rightarrow> 32 word \<Rightarrow> 32 word \<Rightarrow> result + 32 word \<times> int \<times> 32 word" where
  "verify_grant E ms granter grantee grant bytes access offset_in = (case follow_grants E ms granter grantee grant 0 of
      Inl r \<Rightarrow> Inl r
    | Inr (granter, grantee, g) \<Rightarrow>
        if cp_flags g AND access \<noteq> access then Inl RPERM
        else if cp_flags g AND CPF_DIRECT \<noteq> 0 then
          if MEM_TOP - direct_len g + 1 < direct_start g then Inl RPERM
          else if direct_who_to g \<noteq> grantee \<and> grantee \<noteq> ANY \<and> direct_who_to g \<noteq> ANY then Inl RPERM
          else if offset_in + bytes < offset_in \<or> offset_in + bytes > direct_len g then Inl RPERM
          else Inr (direct_start g + offset_in, granter, cp_flags g)
        else if cp_flags g AND CPF_MAGIC \<noteq> 0 then
          if granter \<noteq> VFS_PROC_NR then Inl RPERM
          else if magic_who_to g \<noteq> grantee \<and> grantee \<noteq> ANY \<and> direct_who_to g \<noteq> ANY then Inl RPERM
          else if offset_in + bytes < offset_in \<or> offset_in + bytes > magic_len g then Inl RPERM
          else Inr (magic_start g + offset_in, magic_who_from g, cp_flags g)
        else Inl RPERM)"

section \<open>Copies\<close>

definition safecopy ::
    "'m copy_env \<Rightarrow> int \<Rightarrow> int \<Rightarrow> int \<Rightarrow> int \<Rightarrow> 32 word \<Rightarrow> 32 word \<Rightarrow> 32 word \<Rightarrow> 32 word \<Rightarrow> 'm machine \<Rightarrow> result \<times> 'm machine" where
  "safecopy E caller granter grantee grantid bytes g_offset addr access ms =
    (if granter = NONE \<or> grantee = NONE then (RFAULT, ms)
     else case endpoint_lookup (snd ms) granter of
       None \<Rightarrow> (RINVAL, ms)
     | Some granter_p \<Rightarrow>
         if \<not> HASGRANTTABLE (snd ms) granter_p then (RPERM, ms)
         else case verify_grant E ms granter grantee grantid bytes access g_offset of
           Inl r \<Rightarrow> (r, ms)
         | Inr (v_off, new_granter, flags) \<Rightarrow>
             let there = \<lparr>proc_nr_e = new_granter, vir_offset = v_off\<rparr>;
               here = \<lparr>proc_nr_e = grantee, vir_offset = addr\<rparr>;
               (v_src, v_dst) = (if access AND CPF_READ \<noteq> 0 then (there, here) else (here, there)) in
             if flags AND CPF_TRY \<noteq> 0 then
               let (r, ms') = virtual_copy E v_src v_dst bytes ms in
               (if r = RFAULT_SRC \<or> r = RFAULT_DST then RFAULT else r, ms')
             else virtual_copy_vmcheck E caller v_src v_dst bytes ms)"

definition do_safecopy_to ::
    "'m copy_env \<Rightarrow> int \<Rightarrow> int \<Rightarrow> int \<Rightarrow> 32 word \<Rightarrow> 32 word \<Rightarrow> 32 word \<Rightarrow> 'm machine \<Rightarrow> result \<times> 'm machine" where
  "do_safecopy_to E caller from_to gid bytes offset address ms =
    safecopy E caller from_to (p_endpoint (procs (snd ms) caller)) gid bytes offset address CPF_WRITE ms"

definition do_safecopy_from ::
    "'m copy_env \<Rightarrow> int \<Rightarrow> int \<Rightarrow> int \<Rightarrow> 32 word \<Rightarrow> 32 word \<Rightarrow> 32 word \<Rightarrow> 'm machine \<Rightarrow> result \<times> 'm machine" where
  "do_safecopy_from E caller from_to gid bytes offset address ms =
    safecopy E caller from_to (p_endpoint (procs (snd ms) caller)) gid bytes offset address CPF_READ ms"

text \<open>The loop of \<open>do_vsafecopy\<close> over the requests that were copied.\<close>

fun vsafecopy_elements :: "'m copy_env \<Rightarrow> int \<Rightarrow> vscp_vec list \<Rightarrow> 'm machine \<Rightarrow> result \<times> 'm machine" where
  "vsafecopy_elements E caller [] ms = (ROK, ms)"
| "vsafecopy_elements E caller (v # vs) ms =
    (if v_from v \<noteq> SELF \<and> v_to v \<noteq> SELF then (RINVAL, ms)
     else let (access, granter) = (if v_from v = SELF then (CPF_WRITE, v_to v) else (CPF_READ, v_from v));
         (r, ms') = safecopy E caller granter (p_endpoint (procs (snd ms) caller)) (v_gid v) (v_bytes v) (v_offset v) (v_addr v) access ms in
       if r \<noteq> ROK then (r, ms') else vsafecopy_elements E caller vs ms')"

definition sizeof_vscp :: nat where "sizeof_vscp = 24"

text \<open>
  The number of elements is not checked: a vector that does not fit into the array of the kernel, or more
  elements than that, has no defined result.
\<close>

definition do_vsafecopy :: "'m copy_env \<Rightarrow> int \<Rightarrow> 32 word \<Rightarrow> int \<Rightarrow> 'm machine \<Rightarrow> (result \<times> 'm machine) option" where
  "do_vsafecopy E caller vec_addr els ms =
    (let e = p_endpoint (procs (snd ms) caller); bytes = (word_of_int els :: 32 word) * of_nat sizeof_vscp in
     if e = NONE \<or> unat bytes > SCPVEC_NR * sizeof_vscp \<or> els > int SCPVEC_NR then None
     else let (r, vec, ms') = fetch_vec E caller \<lparr>proc_nr_e = e, vir_offset = vec_addr\<rparr> bytes ms in
       Some (if r \<noteq> ROK then (r, ms') else vsafecopy_elements E caller (take (nat els) vec) ms'))"

definition do_safememset ::
    "'m copy_env \<Rightarrow> int \<Rightarrow> int \<Rightarrow> int \<Rightarrow> 32 word \<Rightarrow> int \<Rightarrow> 32 word \<Rightarrow> 'm machine \<Rightarrow> result \<times> 'm machine" where
  "do_safememset E caller dst_endpt grantid g_offset pattern len ms =
    (let caller_endpt = p_endpoint (procs (snd ms) caller) in
     if dst_endpt = NONE \<or> caller_endpt = NONE then (RFAULT, ms)
     else case endpoint_lookup (snd ms) dst_endpt of
       None \<Rightarrow> (RINVAL, ms)
     | Some dst_p \<Rightarrow>
         if \<not> HASGRANTTABLE (snd ms) dst_p then (RINVAL, ms)
         else case verify_grant E ms dst_endpt caller_endpt grantid len CPF_WRITE g_offset of
           Inl r \<Rightarrow> (r, ms)
         | Inr (v_off, new_granter, flags) \<Rightarrow> vm_memset E caller new_granter v_off pattern len ms)"

definition do_setgrant :: "int \<Rightarrow> 32 word \<Rightarrow> int \<Rightarrow> kstate \<Rightarrow> result \<times> kstate" where
  "do_setgrant caller addr n s =
    (if RTS_ISSET (procs s caller) RTS_NO_PRIV then (RPERM, s)
     else (ROK, upd_priv_of caller (\<lambda>v. v\<lparr>s_grant_table := addr, s_grant_entries := n\<rparr>) s))"

end
