(* ===== verification/Grant_Props.thy ===== *)
theory Grant_Props
  imports Kernel_Grants
begin

unbundle bit_operations_syntax

text \<open>
  Grants: the rights that the tables of grants describe, the kernel's check against them, and the agreement
  between the library of a process and the kernel about where its table is.
\<close>

section \<open>Rights\<close>

text \<open>The grantee of an entry may be a certain process or any; the kernel itself may ask on behalf of any process.\<close>

definition meant_for :: "int \<Rightarrow> int \<Rightarrow> bool" where
  "meant_for who grantee \<longleftrightarrow> who = grantee \<or> grantee = ANY \<or> who = ANY"

text \<open>
  The right that a grant of \<open>granter\<close> gives to \<open>grantee\<close> over \<open>n\<close> indirections: a part of the memory of a
  process, its start and length, and the flags with the kinds of access. A direct grant of no bytes counts only
  at address 0, and of a magic grant the process whose memory it is may be any where its grantee should be
  compared with that; both is what the kernel's arithmetic and its use of the union amount to.
\<close>

inductive right :: "'m copy_env \<Rightarrow> 'm machine \<Rightarrow> nat \<Rightarrow> int \<Rightarrow> int \<Rightarrow> int \<Rightarrow> int \<times> 32 word \<times> 32 word \<times> 32 word \<Rightarrow> bool"
  for E ms where
  right_direct: "grant_entry E ms granter grant = Inr g \<Longrightarrow> cp_flags g AND CPF_INDIRECT = 0 \<Longrightarrow> cp_flags g AND CPF_DIRECT \<noteq> 0 \<Longrightarrow>
    meant_for (direct_who_to g) grantee \<Longrightarrow> unat (direct_start g) + unat (direct_len g) \<le> 2 ^ 32 \<Longrightarrow>
    (direct_len g = 0 \<longrightarrow> direct_start g = 0) \<Longrightarrow>
    right E ms 0 granter grant grantee (granter, direct_start g, direct_len g, cp_flags g)"
| right_magic: "grant_entry E ms VFS_PROC_NR grant = Inr g \<Longrightarrow> cp_flags g AND CPF_INDIRECT = 0 \<Longrightarrow> cp_flags g AND CPF_DIRECT = 0 \<Longrightarrow>
    cp_flags g AND CPF_MAGIC \<noteq> 0 \<Longrightarrow> magic_who_to g = grantee \<or> grantee = ANY \<or> magic_who_from g = ANY \<Longrightarrow>
    right E ms 0 VFS_PROC_NR grant grantee (magic_who_from g, magic_start g, magic_len g, cp_flags g)"
| right_indirect: "grant_entry E ms granter grant = Inr g \<Longrightarrow> cp_flags g AND CPF_INDIRECT \<noteq> 0 \<Longrightarrow>
    meant_for (indirect_who_to g) grantee \<Longrightarrow> right E ms n (indirect_who_from g) (indirect_grant g) granter R \<Longrightarrow>
    right E ms (Suc n) granter grant grantee R"

inductive_cases right_0E: "right E ms 0 granter grant grantee R"
inductive_cases right_SucE: "right E ms (Suc n) granter grant grantee R"

text \<open>A request for \<open>bytes\<close> bytes at an offset within a right.\<close>

definition within :: "32 word \<Rightarrow> 32 word \<Rightarrow> 32 word \<Rightarrow> bool" where
  "within off bytes len \<longleftrightarrow> unat off + unat bytes \<le> unat len"

lemma unat_bound: "unat (x :: 32 word) < 2 ^ 32"
  by (rule order_less_le_trans [OF unsigned_less]) simp

lemma within_check: "within off bytes len \<longleftrightarrow> \<not> (off + bytes < off \<or> off + bytes > len)"
proof (cases "unat off + unat bytes < 2 ^ 32")
  case True
  then have "unat (off + bytes) = unat off + unat bytes" by (subst unat_add_lem [THEN iffD1]) simp_all
  then show ?thesis by (auto simp: within_def word_less_nat_alt)
next
  case False
  have "unat (off + bytes) = (unat off + unat bytes) mod 2 ^ 32" by (simp add: unat_word_ariths)
  also have "\<dots> = unat off + unat bytes - 2 ^ 32"
    using False unat_bound [of off] unat_bound [of bytes] by (subst le_mod_geq) simp_all
  finally have "off + bytes < off" using False unat_bound [of bytes] by (simp add: word_less_nat_alt)
  moreover have "\<not> within off bytes len" using False unat_bound [of len] by (simp add: within_def)
  ultimately show ?thesis by simp
qed

lemma no_wrap_check:
  "MEM_TOP - len + 1 < start \<longleftrightarrow> \<not> (unat start + unat len \<le> 2 ^ 32 \<and> (len = 0 \<longrightarrow> start = 0))"
proof -
  have neg: "MEM_TOP - len + 1 = - len" by (simp add: MEM_TOP_def)
  show ?thesis
  proof (cases "len = 0")
    case True
    then show ?thesis unfolding neg using unat_bound [of start] by (auto simp: word_gt_0 less_imp_le)
  next
    case False
    then have "uint len \<noteq> 0" by (simp add: unsigned_eq_0_iff)
    then have "0 < uint len" by (simp add: order_less_le)
    moreover have lt: "uint len < 2 ^ 32" by (rule order_less_le_trans [OF unsigned_less]) simp
    ultimately have "uint (- len) = 2 ^ 32 - uint len" by (simp add: uint_word_ariths zmod_zminus1_eq_if)
    then have "- len < start \<longleftrightarrow> 2 ^ 32 - uint len < uint start" by (simp only: word_less_def)
    also have "\<dots> \<longleftrightarrow> \<not> (uint start + uint len \<le> 2 ^ 32)" by linarith
    also have "uint start + uint len \<le> 2 ^ 32 \<longleftrightarrow> unat start + unat len \<le> 2 ^ 32"
      unfolding unat_eq_nat_uint using \<open>0 < uint len\<close> unsigned_greater_eq [of start] by (subst nat_add_distrib [symmetric]) auto
    finally show ?thesis unfolding neg using False by simp
  qed
qed

section \<open>The check is exact\<close>

text \<open>What remains of the check at the end of a chain of grants.\<close>

definition last_check :: "int \<times> int \<times> cp_grant_t \<Rightarrow> 32 word \<Rightarrow> 32 word \<Rightarrow> 32 word \<Rightarrow> 32 word \<times> int \<times> 32 word \<Rightarrow> bool" where
  "last_check = (\<lambda>(granter, grantee, g) bytes access off (a, owner, flags).
    flags = cp_flags g \<and> flags AND access = access \<and>
    (if flags AND CPF_DIRECT \<noteq> 0 then meant_for (direct_who_to g) grantee \<and> within off bytes (direct_len g) \<and>
       unat (direct_start g) + unat (direct_len g) \<le> 2 ^ 32 \<and> (direct_len g = 0 \<longrightarrow> direct_start g = 0) \<and>
       a = direct_start g + off \<and> owner = granter
     else flags AND CPF_MAGIC \<noteq> 0 \<and> granter = VFS_PROC_NR \<and>
       (magic_who_to g = grantee \<or> grantee = ANY \<or> magic_who_from g = ANY) \<and> within off bytes (magic_len g) \<and>
       a = magic_start g + off \<and> owner = magic_who_from g))"

lemma verify_grant_last:
  "verify_grant E ms granter grantee grant bytes access off = Inr r \<longleftrightarrow>
    (\<exists>e. follow_grants E ms granter grantee grant 0 = Inr e \<and> last_check e bytes access off r)"
proof -
  have magic: "magic_who_from g = direct_who_to g" for g by (simp add: magic_who_from_def direct_who_to_def)
  show ?thesis
  proof (cases "follow_grants E ms granter grantee grant 0")
    case (Inl x)
    then show ?thesis by (simp add: verify_grant_def)
  next
    case (Inr e)
    obtain granter' grantee' g where e: "e = (granter', grantee', g)" by (cases e)
    obtain a owner flags where r: "r = (a, owner, flags)" by (cases r)
    note simps = verify_grant_def last_check_def Inr e r no_wrap_check meant_for_def magic within_check
    show ?thesis
    proof (cases "cp_flags g AND CPF_DIRECT = 0")
      case True
      then show ?thesis by (simp add: simps) blast
    next
      case False
      then show ?thesis by (simp add: simps) blast
    qed
  qed
qed

lemma follow_grants_right:
  assumes "follow_grants E ms granter grantee grant d = Inr e" and "last_check e bytes access off (a, owner, flags)"
  shows "\<exists>n start len. d + n \<le> max d MAX_INDIRECT_DEPTH \<and> right E ms n granter grant grantee (owner, start, len, flags) \<and>
    flags AND access = access \<and> within off bytes len \<and> a = start + off"
  using assms
proof (induction E ms granter grantee grant d rule: follow_grants.induct)
  case (1 E ms granter grantee grant d)
  from 1(2) obtain g where g: "grant_entry E ms granter grant = Inr g"
    by (subst (asm) follow_grants.simps) (auto split: sum.splits)
  show ?case
  proof (cases "cp_flags g AND CPF_INDIRECT = 0")
    case True
    then have e: "e = (granter, grantee, g)" using 1(2) g by (subst (asm) follow_grants.simps) simp
    show ?thesis
    proof (cases "cp_flags g AND CPF_DIRECT = 0")
      case False
      then show ?thesis using 1(3) right_direct [OF g True False] unfolding e last_check_def
        by (intro exI [of _ "0 :: nat"] exI [of _ "direct_start g"] exI [of _ "direct_len g"]) auto
    next
      case d: True
      then have "granter = VFS_PROC_NR" using 1(3) unfolding e last_check_def by auto
      then show ?thesis using 1(3) right_magic [of E ms grant g, OF _ True d] g d unfolding e last_check_def
        by (intro exI [of _ "0 :: nat"] exI [of _ "magic_start g"] exI [of _ "magic_len g"]) auto
    qed
  next
    case False
    then have step: "d < MAX_INDIRECT_DEPTH" "meant_for (indirect_who_to g) grantee"
      "follow_grants E ms (indirect_who_from g) granter (indirect_grant g) (d + 1) = Inr e"
      using 1(2) g by (subst (asm) follow_grants.simps; auto simp: meant_for_def split: if_splits)+
    from 1(1) [OF g False] step 1(3) obtain n start len where
      "d + 1 + n \<le> max (d + 1) MAX_INDIRECT_DEPTH" "right E ms n (indirect_who_from g) (indirect_grant g) granter (owner, start, len, flags)"
      "flags AND access = access" "within off bytes len" "a = start + off"
      by (auto simp: meant_for_def)
    then show ?thesis using right_indirect [OF g False step(2)] step(1)
      by (intro exI [of _ "Suc n"] exI [of _ start] exI [of _ len]) auto
  qed
qed

lemma right_follow_grants:
  assumes "right E ms n granter grant grantee (owner, start, len, flags)" and "d + n \<le> MAX_INDIRECT_DEPTH"
    and "flags AND access = access" and "within off bytes len"
  shows "\<exists>e. follow_grants E ms granter grantee grant d = Inr e \<and> last_check e bytes access off (start + off, owner, flags)"
  using assms
proof (induction n arbitrary: granter grant grantee d)
  case 0
  from 0(1) obtain g where "grant_entry E ms granter grant = Inr g" "cp_flags g AND CPF_INDIRECT = 0"
    "last_check (granter, grantee, g) bytes access off (start + off, owner, flags)"
    by (rule right_0E) (use 0 in \<open>auto simp: last_check_def\<close>)
  then show ?case by (subst follow_grants.simps) simp
next
  case (Suc n)
  from Suc(2) obtain g where g: "grant_entry E ms granter grant = Inr g" "cp_flags g AND CPF_INDIRECT \<noteq> 0"
    "meant_for (indirect_who_to g) grantee" "right E ms n (indirect_who_from g) (indirect_grant g) granter (owner, start, len, flags)"
    by (cases rule: right_SucE) auto
  have "follow_grants E ms granter grantee grant d = follow_grants E ms (indirect_who_from g) granter (indirect_grant g) (d + 1)"
    using g(1-3) Suc(3) by (subst follow_grants.simps) (auto simp: meant_for_def)
  then show ?case using Suc.IH [OF g(4), of "d + 1"] Suc.prems by simp
qed

lemma verify_grant_right:
  "verify_grant E ms granter grantee grant bytes access off = Inr (a, owner, flags) \<longleftrightarrow>
    (\<exists>n start len. n \<le> MAX_INDIRECT_DEPTH \<and> right E ms n granter grant grantee (owner, start, len, flags) \<and>
      flags AND access = access \<and> within off bytes len \<and> a = start + off)"
proof
  assume "verify_grant E ms granter grantee grant bytes access off = Inr (a, owner, flags)"
  then show "\<exists>n start len. n \<le> MAX_INDIRECT_DEPTH \<and> right E ms n granter grant grantee (owner, start, len, flags) \<and>
      flags AND access = access \<and> within off bytes len \<and> a = start + off"
    unfolding verify_grant_last using follow_grants_right by fastforce
next
  assume "\<exists>n start len. n \<le> MAX_INDIRECT_DEPTH \<and> right E ms n granter grant grantee (owner, start, len, flags) \<and>
      flags AND access = access \<and> within off bytes len \<and> a = start + off"
  then show "verify_grant E ms granter grantee grant bytes access off = Inr (a, owner, flags)"
    unfolding verify_grant_last using right_follow_grants [of E ms _ granter grant grantee owner _ _ flags 0 access off bytes] by auto
qed

section \<open>The library and the kernel agree\<close>

text \<open>What the kernel knows about the table of a process is what its library has.\<close>

definition agrees :: "('k \<Rightarrow> 32 word \<times> int) \<Rightarrow> grant_table \<Rightarrow> 'k \<Rightarrow> bool" where
  "agrees place t k \<longleftrightarrow> (case grants_at t of None \<Rightarrow> grants t = [] | Some a \<Rightarrow> a \<noteq> 0 \<and> place k = (a, ngrants t))"

lemma agrees_update:
  assumes "length (grants t') = length (grants t)" and "grants_at t' = grants_at t"
  shows "agrees place t' k = agrees place t k"
  using assms by (cases "grants t"; cases "grants t'") (simp_all add: agrees_def split: option.splits)

text \<open>Memory is not allocated at the null address.\<close>

definition memory_ok :: "'k grant_os \<Rightarrow> bool" where
  "memory_ok os \<longleftrightarrow> static_grants os \<noteq> 0 \<and> (\<forall>k n. malloc_grants os k n \<noteq> Some 0)"

text \<open>
  The contract of the kernel for the library: a call that succeeds makes the given table the table of the
  process, and one that fails changes nothing about it.
\<close>

locale grant_kernel =
  fixes setgrant :: "32 word \<Rightarrow> int \<Rightarrow> 'k \<Rightarrow> result \<times> 'k"
    and place :: "'k \<Rightarrow> 32 word \<times> int"
  assumes accepted: "setgrant a n k = (ROK, k') \<Longrightarrow> place k' = (a, n)"
    and refused: "setgrant a n k = (r, k') \<Longrightarrow> r \<noteq> ROK \<Longrightarrow> place k' = place k"
begin

lemma grow_to_agrees:
  assumes "sys_setgrant os = setgrant" and "agrees place t k" and "a \<noteq> 0" and "length (grants t) \<le> n"
    and "grow_to os a n t k = (t', k')"
  shows "agrees place t' k'" and "\<exists>new. grants t' = grants t @ new \<and> list_all (\<lambda>g. \<not> used g) new"
proof -
  obtain r k1 where r: "setgrant a (int n) k = (r, k1)" by (cases "setgrant a (int n) k")
  have new: "list_all (\<lambda>g. \<not> used g) (map (\<lambda>g. (junk_grant os k g)\<lparr>cp_flags := 0\<rparr>) [length (grants t)..<n])"
    by (simp add: list_all_iff used_def)
  show "agrees place t' k'" "\<exists>new. grants t' = grants t @ new \<and> list_all (\<lambda>g. \<not> used g) new"
    using assms r accepted [of a "int n" k k1] refused [OF r] new
    by (auto simp: grow_to_def agrees_def Let_def split: if_splits option.splits)
qed

lemma cpf_grow_agrees:
  assumes "sys_setgrant os = setgrant" and "memory_ok os" and "agrees place t k" and "cpf_grow os t k = Some (t', k')"
  shows "agrees place t' k'" and "\<exists>new. grants t' = grants t @ new \<and> list_all (\<lambda>g. \<not> used g) new"
proof -
  have "agrees place t' k' \<and> (\<exists>new. grants t' = grants t @ new \<and> list_all (\<lambda>g. \<not> used g) new)"
  proof (cases "grants t = []")
    case True
    then have "grow_to os (static_grants os) NR_STATIC_GRANTS t k = (t', k')" "static_grants os \<noteq> 0"
      using assms(2,4) by (auto simp: cpf_grow_def memory_ok_def)
    then show ?thesis using grow_to_agrees [OF assms(1,3), of "static_grants os" NR_STATIC_GRANTS] True by auto
  next
    case False
    show ?thesis
    proof (cases "malloc_grants os k (of_nat ((1 + length (grants t)) * 2 * sizeof_grant))")
      case None
      then have "t' = t" "k' = k" using assms(4) False by (auto simp: cpf_grow_def Let_def split: if_splits)
      then show ?thesis using assms(3) by simp
    next
      case (Some a)
      then have "a \<noteq> 0" using assms(2) by (auto simp: memory_ok_def)
      moreover have "grow_to os a ((1 + length (grants t)) * 2) t k = (t', k')"
        using assms(4) False Some by (auto simp: cpf_grow_def Let_def split: if_splits)
      ultimately show ?thesis using grow_to_agrees [OF assms(1,3), of a "(1 + length (grants t)) * 2"] by simp
    qed
  qed
  then show "agrees place t' k'" "\<exists>new. grants t' = grants t @ new \<and> list_all (\<lambda>g. \<not> used g) new" by auto
qed

text \<open>A new slot is a free one, and no entry is lost.\<close>

lemma new_grantslot_agrees:
  assumes "sys_setgrant os = setgrant" and "memory_ok os" and "agrees place t k" and "cpf_new_grantslot os t k = Some (g, t', k')"
  shows "agrees place t' k'" and "g = - 1 \<or> 0 \<le> g \<and> g < ngrants t' \<and> \<not> used (grants t' ! nat g)" and "\<exists>new. grants t' = grants t @ new"
proof -
  have free: "\<not> used (grants t ! first_free t)" if "first_free t \<noteq> length (grants t)"
    using that length_takeWhile_le [of used "grants t"] nth_length_takeWhile [of used "grants t"] by (simp add: first_free_def)
  have "agrees place t' k' \<and> (g = - 1 \<or> 0 \<le> g \<and> g < ngrants t' \<and> \<not> used (grants t' ! nat g)) \<and> (\<exists>new. grants t' = grants t @ new)"
  proof (cases "first_free t = length (grants t)")
    case True
    then obtain t1 k1 where "cpf_grow os t k = Some (t1, k1)" using assms(4) by (auto simp: cpf_new_grantslot_def Let_def bind_eq_Some_conv)
    then show ?thesis using cpf_grow_agrees [OF assms(1-3)] assms(4) True
      by (auto simp: cpf_new_grantslot_def Let_def split: if_splits)
  next
    case False
    then have "first_free t < length (grants t)" using length_takeWhile_le [of used "grants t"] by (simp add: first_free_def)
    then show ?thesis using assms(3,4) False free by (auto simp: cpf_new_grantslot_def Let_def)
  qed
  then show "agrees place t' k'" "g = - 1 \<or> 0 \<le> g \<and> g < ngrants t' \<and> \<not> used (grants t' ! nat g)" "\<exists>new. grants t' = grants t @ new"
    by blast+
qed

end

text \<open>The calls of the library as operations on its table and the rest of the system.\<close>

datatype grant_op = Grant_direct int "32 word" "32 word" "32 word" | Grant_indirect int int int
  | Grant_magic int int "32 word" "32 word" "32 word" | Revoke int | Disable int
  | Set_direct int int "32 word" "32 word" "32 word" | Set_indirect int int int int
  | Set_magic int int int "32 word" "32 word" "32 word" | Get_grants nat | Reload

fun grant_step :: "'k grant_os \<Rightarrow> grant_op \<Rightarrow> grant_table \<times> 'k \<Rightarrow> (grant_table \<times> 'k) option" where
  "grant_step os (Grant_direct who addr len access) (t, k) = map_option snd (cpf_grant_direct os who addr len access t k)"
| "grant_step os (Grant_indirect to from gr) (t, k) = map_option snd (cpf_grant_indirect os to from gr t k)"
| "grant_step os (Grant_magic to from addr len access) (t, k) = map_option snd (cpf_grant_magic os to from addr len access t k)"
| "grant_step os (Revoke g) (t, k) = Some (snd (cpf_revoke g t), k)"
| "grant_step os (Disable g) (t, k) = Some (snd (cpf_setgrant_disable g t), k)"
| "grant_step os (Set_direct g who addr len access) (t, k) = Some (snd (cpf_setgrant_direct g who addr len access t), k)"
| "grant_step os (Set_indirect g to from gr) (t, k) = Some (snd (cpf_setgrant_indirect g to from gr t), k)"
| "grant_step os (Set_magic g to from addr len access) (t, k) = Some (snd (cpf_setgrant_magic g to from addr len access t), k)"
| "grant_step os (Get_grants n) (t, k) = map_option snd (cpf_getgrants os n t k)"
| "grant_step os Reload (t, k) = Some (t, cpf_reload os t k)"

text \<open>Changing entries keeps the size and the place of the table.\<close>

lemma set_ops_place:
  "length (grants (snd (cpf_revoke g t))) = length (grants t)" "grants_at (snd (cpf_revoke g t)) = grants_at t"
  "length (grants (snd (cpf_setgrant_disable g t))) = length (grants t)" "grants_at (snd (cpf_setgrant_disable g t)) = grants_at t"
  "length (grants (snd (cpf_setgrant_direct g w a n acc t))) = length (grants t)" "grants_at (snd (cpf_setgrant_direct g w a n acc t)) = grants_at t"
  "length (grants (snd (cpf_setgrant_indirect g w f h t))) = length (grants t)" "grants_at (snd (cpf_setgrant_indirect g w f h t)) = grants_at t"
  "length (grants (snd (cpf_setgrant_magic g w f a n acc t))) = length (grants t)" "grants_at (snd (cpf_setgrant_magic g w f a n acc t)) = grants_at t"
  by (simp_all add: cpf_revoke_def cpf_setgrant_disable_def cpf_setgrant_direct_def cpf_setgrant_indirect_def cpf_setgrant_magic_def)

context grant_kernel
begin

lemma set_agrees:
  assumes "agrees place t k"
  shows "agrees place (snd (cpf_revoke g t)) k" "agrees place (snd (cpf_setgrant_disable g t)) k"
    "agrees place (snd (cpf_setgrant_direct g w a n acc t)) k" "agrees place (snd (cpf_setgrant_indirect g w f h t)) k"
    "agrees place (snd (cpf_setgrant_magic g w f a n acc t)) k"
  using assms by (subst agrees_update [where t = t]; simp only: set_ops_place)+

lemma getgrants_agrees:
  assumes "sys_setgrant os = setgrant" and "memory_ok os"
  shows "agrees place t k \<Longrightarrow> cpf_getgrants os n t k = Some (gs, t', k') \<Longrightarrow> agrees place t' k'"
proof (induction n arbitrary: t k gs)
  case (Suc n)
  from Suc.prems(2) obtain g t1 k1 where new: "cpf_new_grantslot os t k = Some (g, t1, k1)" by (auto simp: bind_eq_Some_conv)
  have a1: "agrees place t1 k1" by (rule new_grantslot_agrees(1) [OF assms Suc.prems(1) new])
  then have "agrees place (t1\<lparr>grants := (grants t1)[nat g := (grants t1 ! nat g)\<lparr>cp_flags := CPF_USED\<rparr>]\<rparr>) k1"
    by (subst agrees_update [where t = t1]) simp_all
  then show ?case using Suc.prems(2) Suc.IH a1 new by (auto simp: bind_eq_Some_conv split: if_splits)
qed simp

lemma grant_step_agrees:
  assumes "sys_setgrant os = setgrant" and "memory_ok os" and "agrees place t k" and "grant_step os op (t, k) = Some (t', k')"
  shows "agrees place t' k'"
proof (cases op)
  case (Grant_direct who addr len access)
  with assms(4) obtain g t1 k1 where new: "cpf_new_grantslot os t k = Some (g, t1, k1)" by (auto simp: cpf_grant_direct_def bind_eq_Some_conv)
  note a1 = new_grantslot_agrees(1) [OF assms(1-3) new]
  show ?thesis using Grant_direct assms(4) a1 set_agrees [OF a1] set_agrees(1) [OF set_agrees(3) [OF a1]]
    by (auto simp: cpf_grant_direct_def new split: prod.splits if_splits) (metis snd_conv)+
next
  case (Grant_indirect to fr gr)
  with assms(4) obtain g t1 k1 where new: "cpf_new_grantslot os t k = Some (g, t1, k1)" by (auto simp: cpf_grant_indirect_def bind_eq_Some_conv)
  note a1 = new_grantslot_agrees(1) [OF assms(1-3) new]
  show ?thesis using Grant_indirect assms(4) a1 set_agrees [OF a1] set_agrees(1) [OF set_agrees(4) [OF a1]]
    by (auto simp: cpf_grant_indirect_def new split: prod.splits if_splits) (metis snd_conv)+
next
  case (Grant_magic to fr addr len access)
  show ?thesis
  proof (cases "access_bad access")
    case False
    with Grant_magic assms(4) obtain g t1 k1 where new: "cpf_new_grantslot os t k = Some (g, t1, k1)"
      by (auto simp: cpf_grant_magic_def bind_eq_Some_conv)
    note a1 = new_grantslot_agrees(1) [OF assms(1-3) new]
    show ?thesis using Grant_magic False assms(4) a1 set_agrees [OF a1] set_agrees(1) [OF set_agrees(5) [OF a1]]
      by (auto simp: cpf_grant_magic_def new split: prod.splits if_splits) (metis snd_conv)+
  qed (use Grant_magic assms(3,4) in \<open>auto simp: cpf_grant_magic_def\<close>)
next
  case (Get_grants n)
  then show ?thesis using assms(4) getgrants_agrees [OF assms(1-3)] by auto
next
  case Reload
  then show ?thesis using assms(1,3,4) accepted refused
    by (auto simp: cpf_reload_def agrees_def split: option.splits) (metis prod.collapse)+
qed (use assms(4) set_agrees [OF assms(3)] in auto)

end

end
