(* ===== verification/Grant_Claims.thy ===== *)
theory Grant_Claims
  imports Grant_Props Kernel_Claims
begin

unbundle bit_operations_syntax

text \<open>
  The properties of grants: that the kernel checks exactly the rights the tables describe, that copies are
  confined to them, and that the library and the kernel together give a process the access it was granted
  and no other.
\<close>

section \<open>The kernel keeps its side\<close>

text \<open>What the kernel knows about the table of grants of a process.\<close>

definition grant_place :: "int \<Rightarrow> kstate \<Rightarrow> 32 word \<times> int" where
  "grant_place p s = (s_grant_table (priv_of s p), s_grant_entries (priv_of s p))"

interpretation kernel_grants: grant_kernel "do_setgrant p" "grant_place p" for p
  by unfold_locales (auto simp: do_setgrant_def grant_place_def split: if_splits)

text \<open>The library of process \<open>p\<close> on this kernel.\<close>

definition on_kernel :: "int \<Rightarrow> kstate grant_os \<Rightarrow> kstate grant_os" where
  "on_kernel p os = os\<lparr>sys_setgrant := do_setgrant p\<rparr>"

interpretation grant_library: step_invariant "grant_step (on_kernel p os)" "\<lambda>_. memory_ok os" "\<lambda>(t, s). agrees (grant_place p) t s" for p os
proof unfold_locales
  fix x i y
  assume a: "case x of (t, s) \<Rightarrow> agrees (grant_place p) t s" "memory_ok os" "grant_step (on_kernel p os) i x = Some y"
  have "memory_ok (on_kernel p os)" "sys_setgrant (on_kernel p os) = do_setgrant p"
    using a(2) by (simp_all add: memory_ok_def on_kernel_def)
  then show "case y of (t, s) \<Rightarrow> agrees (grant_place p) t s"
    using a kernel_grants.grant_step_agrees [of "on_kernel p os" p "fst x" "snd x" i "fst y" "snd y"] by (auto split: prod.splits)
qed

definition no_grants :: grant_table where
  "no_grants = \<lparr>grants = [], grants_at = None\<rparr>"

lemma library_agrees:
  assumes "memory_ok os" and "run_steps (grant_step (on_kernel p os)) ops (no_grants, s0) = Some (t, s)"
  shows "agrees (grant_place p) t s"
  using grant_library.run_inv [OF _ _ assms(2)] assms(1) by (simp add: agrees_def no_grants_def list_all_iff)

text \<open>The memory of the granter holds its table.\<close>

definition shows_table :: "'m copy_env \<Rightarrow> 'm \<Rightarrow> int \<Rightarrow> grant_table \<Rightarrow> bool" where
  "shows_table E m e t \<longleftrightarrow> (\<forall>a i. grants_at t = Some a \<longrightarrow> i < length (grants t) \<longrightarrow>
    read_grant E m e (a + of_nat (sizeof_grant * i)) = Some (grants t ! i))"

lemma grant_entry_library:
  assumes "agrees (grant_place p) t s" and "shows_table E m e t" and "isokendpt s e = Some p" and "0 \<le> g" "g < ngrants t"
  shows "grant_entry E (m, s) e g = (if cp_flags (grants t ! nat g) AND (CPF_USED OR CPF_VALID) \<noteq> CPF_USED OR CPF_VALID
    then Inl RPERM else Inr (grants t ! nat g))"
proof -
  obtain a where a: "grants_at t = Some a" using assms(1,4,5) by (cases "grants_at t") (auto simp: agrees_def)
  then have k: "s_grant_table (priv_of s p) = a" "s_grant_entries (priv_of s p) = ngrants t" "a \<noteq> 0"
    using assms(1) by (simp_all add: agrees_def grant_place_def)
  have "a + of_nat sizeof_grant * word_of_int g = a + of_nat (sizeof_grant * nat g)" using assms(4) by (simp add: of_nat_nat)
  moreover have "nat g < length (grants t)" using assms(4,5) by simp
  ultimately have "read_grant E m e (a + of_nat sizeof_grant * word_of_int g) = Some (grants t ! nat g)"
    using assms(2) a unfolding shows_table_def by metis
  then show ?thesis using assms(3-5) k by (simp add: grant_entry_def HASGRANTTABLE_def GRANT_VALID_def GRANT_INVALID_def)
qed

lemma follow_grants_entry:
  assumes "grant_entry E ms granter grant = Inr g" and "cp_flags g AND CPF_INDIRECT = 0"
  shows "follow_grants E ms granter grantee grant d = Inr (granter, grantee, g)"
  using assms by (subst follow_grants.simps) simp

lemma follow_grants_refused:
  assumes "grant_entry E ms granter grant = Inl r"
  shows "follow_grants E ms granter grantee grant d = Inl r"
  using assms by (subst follow_grants.simps) simp

text \<open>The flags of the library's grants.\<close>

lemma cpf_exps:
  "CPF_READ = 2 ^ 0" "CPF_WRITE = 2 ^ 1" "CPF_TRY = 2 ^ 4" "CPF_USED = 2 ^ 8" "CPF_DIRECT = 2 ^ 9" "CPF_INDIRECT = 2 ^ 10"
  "CPF_MAGIC = 2 ^ 11" "CPF_VALID = 2 ^ 12"
  by (simp_all add: CPF_READ_def CPF_WRITE_def CPF_TRY_def CPF_USED_def CPF_DIRECT_def CPF_INDIRECT_def CPF_MAGIC_def CPF_VALID_def)

lemma bit_cpf:
  "bit CPF_READ n = (n = 0)" "bit CPF_WRITE n = (n = 1)" "bit CPF_TRY n = (n = 4)" "bit CPF_USED n = (n = 8)"
  "bit CPF_DIRECT n = (n = 9)" "bit CPF_INDIRECT n = (n = 10)" "bit CPF_MAGIC n = (n = 11)" "bit CPF_VALID n = (n = 12)"
  unfolding cpf_exps bit_exp_iff by auto

lemma access_bits: "\<not> access_bad acc \<Longrightarrow> bit acc n \<Longrightarrow> n = 0 \<or> n = 1 \<or> n = 4"
proof (rule ccontr)
  assume a: "\<not> access_bad acc" "bit acc n" "\<not> (n = 0 \<or> n = 1 \<or> n = 4)"
  then have "bit (acc AND NOT (CPF_READ OR CPF_WRITE OR CPF_TRY)) n"
    using bit_imp_le_length [OF a(2)] by (simp add: bit_and_iff bit_not_iff bit_or_iff bit_cpf)
  then show False using a(1) by (simp add: access_bad_def)
qed

lemma cpf_tests:
  "w AND CPF_INDIRECT = 0 \<longleftrightarrow> \<not> bit w 10" "w AND CPF_DIRECT = 0 \<longleftrightarrow> \<not> bit w 9" "w AND CPF_READ = CPF_READ \<longleftrightarrow> bit w 0"
  "w AND CPF_WRITE = CPF_WRITE \<longleftrightarrow> bit w 1"
  unfolding cpf_exps and_exp_eq_0_iff_not_bit by (rule refl, rule refl) (rule and_exp_eq_iff; simp)+

lemma grant_flags:
  assumes "\<not> access_bad acc"
  defines "flags \<equiv> acc OR CPF_DIRECT OR CPF_USED OR CPF_VALID"
  shows "flags AND (CPF_USED OR CPF_VALID) = CPF_USED OR CPF_VALID" "flags AND CPF_INDIRECT = 0" "flags AND CPF_DIRECT \<noteq> 0"
    "a = CPF_READ \<or> a = CPF_WRITE \<Longrightarrow> (flags AND a = a) = (acc AND a = a)"
proof -
  have "\<not> bit acc 10" using access_bits [OF assms(1), of 10] by auto
  then show "flags AND CPF_INDIRECT = 0" by (simp add: cpf_tests flags_def bit_or_iff bit_cpf)
  show "flags AND (CPF_USED OR CPF_VALID) = CPF_USED OR CPF_VALID"
    by (rule bit_word_eqI) (auto simp: flags_def bit_or_iff bit_and_iff)
  show "flags AND CPF_DIRECT \<noteq> 0" by (simp add: cpf_tests flags_def bit_or_iff bit_cpf)
  show "a = CPF_READ \<or> a = CPF_WRITE \<Longrightarrow> (flags AND a = a) = (acc AND a = a)"
    by (auto simp: cpf_tests flags_def bit_or_iff bit_cpf)
qed

section \<open>The check\<close>


text \<open>
  The copies of the memory management write only the destination: a byte of the memories that changes belongs
  to the destination process and is one of the bytes asked for.
\<close>

definition copies_confined :: "'m copy_env \<Rightarrow> ('m \<Rightarrow> int \<Rightarrow> 32 word \<Rightarrow> 8 word) \<Rightarrow> bool" where
  "copies_confined E byte \<longleftrightarrow> (\<forall>c src dst n ms r ms' p a.
    (virtual_copy E src dst n ms = (r, ms') \<or> virtual_copy_vmcheck E c src dst n ms = (r, ms')) \<longrightarrow>
    byte (fst ms') p a \<noteq> byte (fst ms) p a \<longrightarrow> p = proc_nr_e dst \<and> unat (a - vir_offset dst) < unat n)"

lemma safecopy_copy:
  assumes "safecopy E caller granter grantee gid bytes off addr access ms = (r, ms')" and "ms' \<noteq> ms"
  obtains v owner flags where "verify_grant E ms granter grantee gid bytes access off = Inr (v, owner, flags)"
    and "(\<exists>r'. virtual_copy E
        (if access AND CPF_READ \<noteq> 0 then \<lparr>proc_nr_e = owner, vir_offset = v\<rparr> else \<lparr>proc_nr_e = grantee, vir_offset = addr\<rparr>)
        (if access AND CPF_READ \<noteq> 0 then \<lparr>proc_nr_e = grantee, vir_offset = addr\<rparr> else \<lparr>proc_nr_e = owner, vir_offset = v\<rparr>)
        bytes ms = (r', ms')) \<or>
      virtual_copy_vmcheck E caller
        (if access AND CPF_READ \<noteq> 0 then \<lparr>proc_nr_e = owner, vir_offset = v\<rparr> else \<lparr>proc_nr_e = grantee, vir_offset = addr\<rparr>)
        (if access AND CPF_READ \<noteq> 0 then \<lparr>proc_nr_e = grantee, vir_offset = addr\<rparr> else \<lparr>proc_nr_e = owner, vir_offset = v\<rparr>)
        bytes ms = (r, ms')"
proof (cases "verify_grant E ms granter grantee gid bytes access off")
  case (Inl x)
  then show ?thesis using assms by (auto simp: safecopy_def split: if_splits option.splits)
next
  case (Inr x)
  obtain v owner flags where x: "x = (v, owner, flags)" by (cases x)
  show ?thesis
    using assms Inr x by (intro that [of v owner flags]) (auto simp: safecopy_def Let_def split: if_splits option.splits prod.splits)
qed

lemma offset_in_part:
  assumes "unat (a - (start + off)) < unat bytes" and "within off bytes len"
  shows "unat (a - start) < unat (len :: 32 word)"
proof -
  have "unat (a - start) = unat ((a - (start + off)) + off)" by simp
  also have "\<dots> \<le> unat (a - (start + off)) + unat off"
    by (subst unat_word_ariths(1)) (rule mod_less_eq_dividend)
  finally show ?thesis using assms by (simp add: within_def)
qed

text \<open>
  C10. Copies through grants are confined: a copy from a granter changes only bytes of the buffer of the caller,
  and a copy to a granter changes a byte of a process only if a grant gives the caller, over at most five
  indirections, the right to write a part of the memory of that process in which the byte lies.
\<close>

theorem grants_confine_copies:
  assumes "copies_confined E byte" and "safecopy E caller granter grantee gid bytes off addr access ms = (r, ms')"
    and "byte (fst ms') p a \<noteq> byte (fst ms) p a"
  shows "if access AND CPF_READ \<noteq> 0 then p = grantee \<and> unat (a - addr) < unat bytes
    else \<exists>n start len flags. n \<le> 5 \<and> right E ms n granter gid grantee (p, start, len, flags) \<and>
      flags AND access = access \<and> unat (a - start) < unat len"
proof -
  have "ms' \<noteq> ms" using assms(3) by auto
  with assms(2) obtain v owner flags where v: "verify_grant E ms granter grantee gid bytes access off = Inr (v, owner, flags)"
    and c: "(\<exists>r'. virtual_copy E
        (if access AND CPF_READ \<noteq> 0 then \<lparr>proc_nr_e = owner, vir_offset = v\<rparr> else \<lparr>proc_nr_e = grantee, vir_offset = addr\<rparr>)
        (if access AND CPF_READ \<noteq> 0 then \<lparr>proc_nr_e = grantee, vir_offset = addr\<rparr> else \<lparr>proc_nr_e = owner, vir_offset = v\<rparr>)
        bytes ms = (r', ms')) \<or>
      virtual_copy_vmcheck E caller
        (if access AND CPF_READ \<noteq> 0 then \<lparr>proc_nr_e = owner, vir_offset = v\<rparr> else \<lparr>proc_nr_e = grantee, vir_offset = addr\<rparr>)
        (if access AND CPF_READ \<noteq> 0 then \<lparr>proc_nr_e = grantee, vir_offset = addr\<rparr> else \<lparr>proc_nr_e = owner, vir_offset = v\<rparr>)
        bytes ms = (r, ms')"
    by (rule safecopy_copy)
  from v obtain n start len where right: "n \<le> 5" "right E ms n granter gid grantee (owner, start, len, flags)" "flags AND access = access"
    "within off bytes len" "v = start + off" by (auto simp: verify_grant_right MAX_INDIRECT_DEPTH_def)
  show ?thesis
  proof (cases "access AND CPF_READ = 0")
    case True
    then have "p = owner" "unat (a - v) < unat bytes" using assms(1,3) c unfolding copies_confined_def by fastforce+
    then show ?thesis using True right offset_in_part [of a start off bytes len] by auto
  next
    case False
    then show ?thesis using assms(1,3) c unfolding copies_confined_def by fastforce
  qed
qed

section \<open>Granting and revoking\<close>


text \<open>C13. A grant that has been revoked gives no process any access, whatever the table held before.\<close>

theorem revoked_grant_refused:
  assumes "memory_ok os" and "run_steps (grant_step (on_kernel p os)) ops (no_grants, s0) = Some (t, s)"
    and "cpf_revoke g t = (0, t')" and "shows_table E m e t'" and "isokendpt s e = Some p"
  shows "verify_grant E (m, s) e grantee g bytes access off = Inl RPERM"
proof -
  have g: "0 \<le> g" "g < ngrants t" and t': "t' = t\<lparr>grants := (grants t)[nat g := (grants t ! nat g)\<lparr>cp_flags := 0\<rparr>]\<rparr>"
    using assms(3) by (auto simp: cpf_revoke_def gid_bad_used_def gid_bad_def split: if_splits)
  have "agrees (grant_place p) t' s"
    unfolding t' using library_agrees [OF assms(1,2)] by (subst agrees_update [where t = t]) simp_all
  moreover have "CPF_USED OR CPF_VALID \<noteq> 0" by (simp add: CPF_USED_def CPF_VALID_def)
  ultimately have "grant_entry E (m, s) e g = Inl RPERM"
    using grant_entry_library [OF _ assms(4,5) g(1)] g by (simp add: t')
  then show ?thesis by (simp add: verify_grant_def follow_grants_refused)
qed

section \<open>An example\<close>

text \<open>
  Process 0 grants process 1 the right to write 64 bytes at 0x8000; memory is a function from processes and
  addresses to bytes, in which a copy always succeeds, and the table of process 0 is at 0x1000.
\<close>

definition gex_os :: "kstate grant_os" where
  "gex_os = \<lparr>static_grants = 0x1000, malloc_grants = (\<lambda>_ _. None),
    junk_grant = (\<lambda>_ _. \<lparr>cp_flags = 0, cp_u0 = 0, cp_u1 = 0, cp_u2 = 0, cp_u3 = 0\<rparr>), sys_setgrant = (\<lambda>_ _ s. (RPERM, s))\<rparr>"

definition gex_grant :: cp_grant_t where
  "gex_grant = \<lparr>cp_flags = 0x1302, cp_u0 = 1, cp_u1 = 0x8000, cp_u2 = 64, cp_u3 = 0\<rparr>"

definition gex_free :: cp_grant_t where
  "gex_free = \<lparr>cp_flags = 0, cp_u0 = 0, cp_u1 = 0, cp_u2 = 0, cp_u3 = 0\<rparr>"

type_synonym bytes = "int \<Rightarrow> 32 word \<Rightarrow> 8 word"

definition gex_copy :: "vir_addr \<Rightarrow> vir_addr \<Rightarrow> 32 word \<Rightarrow> bytes \<Rightarrow> bytes" where
  "gex_copy src dst n m = (\<lambda>p a. if p = proc_nr_e dst \<and> unat (a - vir_offset dst) < unat n
    then m (proc_nr_e src) (vir_offset src + (a - vir_offset dst)) else m p a)"

definition gex_env :: "bytes copy_env" where
  "gex_env = \<lparr>read_grant = (\<lambda>m e a. if e = 0 \<and> a = 0x1000 then Some gex_grant else if e = 0 \<and> a = 0x1024 then Some gex_free else None),
    virtual_copy = (\<lambda>src dst n (m, s). (ROK, (gex_copy src dst n m, s))),
    virtual_copy_vmcheck = (\<lambda>c src dst n (m, s). (ROK, (gex_copy src dst n m, s))),
    fetch_vec = (\<lambda>c src n ms. (RFAULT, [], ms)), vm_memset = (\<lambda>c e a b n ms. (ROK, ms))\<rparr>"

definition gex_state :: kstate where
  "gex_state = snd (do_setgrant 0 0x1000 2 ex_state)"

definition gex_table :: grant_table where
  "gex_table = \<lparr>grants = [gex_grant, gex_free], grants_at = Some 0x1000\<rparr>"

lemma gex_memory_ok: "memory_ok gex_os"
  by (simp add: memory_ok_def gex_os_def)

lemma gex_priv: "do_setgrant 0 0x1000 2 ex_state = (ROK, gex_state)"
  by (simp add: gex_state_def do_setgrant_def RTS_ISSET_def ex_rts RTS_NO_PRIV_def)

lemma gex_grants: "cpf_grant_direct (on_kernel 0 gex_os) 1 0x8000 64 CPF_WRITE no_grants ex_state = Some (0, gex_table, gex_state)"
proof -
  have "cpf_new_grantslot (on_kernel 0 gex_os) no_grants ex_state =
      Some (0, \<lparr>grants = [gex_free, gex_free], grants_at = Some 0x1000\<rparr>, gex_state)"
    by (simp add: cpf_new_grantslot_def cpf_grow_def grow_to_def no_grants_def first_free_def on_kernel_def gex_os_def gex_priv
        NR_STATIC_GRANTS_def gex_free_def used_def Let_def upt_rec numeral_2_eq_2)
  then show ?thesis
    by (simp add: cpf_grant_direct_def cpf_setgrant_direct_def gid_bad_def GRANT_VALID_def GRANT_INVALID_def access_bad_def
        CPF_READ_def CPF_WRITE_def CPF_TRY_def CPF_DIRECT_def CPF_USED_def CPF_VALID_def gex_table_def gex_grant_def gex_free_def)
qed

lemma gex_shows: "shows_table gex_env m 0 gex_table"
  by (auto simp: shows_table_def gex_table_def gex_env_def sizeof_grant_def less_Suc_eq)

lemma gex_endpoint: "isokendpt gex_state 0 = Some 0"
  by (simp add: isokendpt_def gex_state_def do_setgrant_def ex_slots isemptyp_def ex_rts RTS_SLOT_FREE_def Let_def)


lemma gex_run: "run_steps (grant_step (on_kernel 0 gex_os)) [Grant_direct 1 0x8000 64 CPF_WRITE] (no_grants, ex_state) = Some (gex_table, gex_state)"
  by (simp add: gex_grants)

definition gex_revoked :: "bytes copy_env" where
  "gex_revoked = gex_env\<lparr>read_grant := \<lambda>m e a. if e = 0 \<and> a = 0x1000 then Some (gex_grant\<lparr>cp_flags := 0\<rparr>)
    else if e = 0 \<and> a = 0x1024 then Some gex_free else None\<rparr>"

theorem revoked_grant_refused_witness:
  "used (grants gex_table ! 0) \<and> fst (cpf_revoke 0 gex_table) = 0 \<and>
    verify_grant gex_revoked ((\<lambda>_ _. 0), gex_state) 0 1 0 16 CPF_WRITE 48 = Inl RPERM"
proof -
  have u: "used gex_grant" by (simp add: used_def gex_grant_def CPF_USED_def)
  then have r: "cpf_revoke 0 gex_table = (0, \<lparr>grants = [gex_grant\<lparr>cp_flags := 0\<rparr>, gex_free], grants_at = Some 0x1000\<rparr>)"
    by (simp add: cpf_revoke_def gid_bad_used_def gid_bad_def GRANT_VALID_def GRANT_INVALID_def gex_table_def)
  have "shows_table gex_revoked (\<lambda>_ _. 0) 0 \<lparr>grants = [gex_grant\<lparr>cp_flags := 0\<rparr>, gex_free], grants_at = Some 0x1000\<rparr>"
    by (auto simp: shows_table_def gex_revoked_def sizeof_grant_def less_Suc_eq)
  from revoked_grant_refused [OF gex_memory_ok gex_run r this gex_endpoint, of 1 16 CPF_WRITE 48]
  show ?thesis using u r by (simp add: gex_table_def)
qed

lemma gex_confined: "copies_confined gex_env (\<lambda>m. m)"
  by (auto simp: copies_confined_def gex_env_def gex_copy_def split: if_splits)

definition gex_memory :: bytes where
  "gex_memory = (\<lambda>p a. if p = 1 \<and> a = 0x10 then 7 else 0)"

lemma gex_accepts: "verify_grant gex_env (gex_memory, gex_state) 0 1 0 4 CPF_WRITE 0 = Inr (0x8000, 0, 0x1302)"
proof -
  have entry: "grant_entry gex_env (gex_memory, gex_state) 0 0 = Inr gex_grant"
    using gex_endpoint
    by (simp add: grant_entry_def GRANT_VALID_def GRANT_INVALID_def HASGRANTTABLE_def gex_state_def do_setgrant_def RTS_ISSET_def ex_rts
        RTS_NO_PRIV_def gex_env_def gex_grant_def CPF_USED_def CPF_VALID_def)
  have "follow_grants gex_env (gex_memory, gex_state) 0 1 0 0 = Inr (0, 1, gex_grant)"
    using entry by (intro follow_grants_entry) (simp_all add: gex_grant_def CPF_INDIRECT_def)
  then show ?thesis
    by (simp add: verify_grant_def gex_grant_def CPF_WRITE_def CPF_DIRECT_def MEM_TOP_def direct_len_def direct_start_def direct_who_to_def)
qed

theorem grants_confine_copies_witness:
  "(\<exists>r ms'. safecopy gex_env 1 0 1 0 4 0 0x10 CPF_WRITE (gex_memory, gex_state) = (r, ms') \<and> fst ms' 0 0x8000 = 7 \<and> gex_memory 0 0x8000 = 0) \<and>
    (\<exists>n start len flags. n \<le> 5 \<and> right gex_env (gex_memory, gex_state) n 0 0 1 (0, start, len, flags) \<and>
      flags AND CPF_WRITE = CPF_WRITE \<and> unat (0x8000 - start) < unat len)"
proof -
  define ms' where "ms' = snd (safecopy gex_env 1 0 1 0 4 0 0x10 CPF_WRITE (gex_memory, gex_state))"
  have w: "CPF_WRITE AND CPF_READ = 0" "0x1302 AND CPF_TRY = 0" by (simp_all add: CPF_WRITE_def CPF_READ_def CPF_TRY_def)
  have has: "HASGRANTTABLE gex_state 0"
    by (simp add: HASGRANTTABLE_def gex_state_def do_setgrant_def RTS_ISSET_def ex_rts RTS_NO_PRIV_def)
  have "NONE \<noteq> 0" "NONE \<noteq> 1" by (simp_all add: endpoint_consts push_bit_eq_mult)
  then have s: "safecopy gex_env 1 0 1 0 4 0 0x10 CPF_WRITE (gex_memory, gex_state) =
      virtual_copy_vmcheck gex_env 1 \<lparr>proc_nr_e = 1, vir_offset = 0x10\<rparr> \<lparr>proc_nr_e = 0, vir_offset = 0x8000\<rparr> 4 (gex_memory, gex_state)"
    using gex_endpoint has w by (simp add: safecopy_def endpoint_lookup_def gex_accepts)
  then have run: "safecopy gex_env 1 0 1 0 4 0 0x10 CPF_WRITE (gex_memory, gex_state) = (ROK, ms')"
    by (simp add: ms'_def gex_env_def)
  have changed: "fst ms' 0 0x8000 = 7" "gex_memory 0 0x8000 = 0"
    unfolding ms'_def s by (simp_all add: gex_env_def gex_copy_def gex_memory_def)
  show ?thesis using grants_confine_copies [OF gex_confined run, where p = 0 and a = "0x8000"] run changed w by auto
qed

section \<open>Two mistakes\<close>

text \<open>
  The check of the grantee of a magic grant reads the member of a direct grant, which is the process whose memory
  the grant is about. A magic grant for any process is therefore refused to all of them.
\<close>

lemma magic_grant_for_any_refused:
  assumes "grant_entry E ms VFS_PROC_NR grant = Inr g" and "cp_flags g AND CPF_INDIRECT = 0" "cp_flags g AND CPF_DIRECT = 0"
    and "magic_who_to g = ANY" and "magic_who_from g \<noteq> ANY" and "grantee \<noteq> ANY"
  shows "verify_grant E ms VFS_PROC_NR grantee grant bytes access off = Inl RPERM"
proof -
  have "direct_who_to g = magic_who_from g" by (simp add: direct_who_to_def magic_who_from_def)
  then show ?thesis using assms(3-6) by (simp add: verify_grant_def follow_grants_entry [OF assms(1,2)])
qed

text \<open>A vector with more requests than the array in the kernel has elements is copied over its end.\<close>

lemma vsafecopy_overruns:
  assumes "int SCPVEC_NR < els"
  shows "do_vsafecopy E caller vec_addr els ms = None"
  using assms by (simp add: do_vsafecopy_def Let_def)

end
