(* ===== verification/Asynsend.thy ===== *)
theory Asynsend
  imports Kernel_Types
begin

unbundle bit_operations_syntax

text \<open>
  Asynchronous messages of a process (lib/libsys/asynsend.c): a table of messages that the process fills and
  the kernel works off while the process does other things. The entries from \<open>first_slot\<close> up to
  \<open>next_slot\<close> are handed to the kernel with each call; completed entries are reclaimed.
\<close>

section \<open>The library\<close>

definition AMF_EMPTY :: "32 word" where "AMF_EMPTY = 0"
definition ASYN_NR :: nat where "ASYN_NR = 2 * NR_PROCS"

record asyn_lib =
  msgtable :: "asynmsg list"
  first_slot :: nat
  next_slot :: nat
  initialized :: bool
  inside :: bool

text \<open>
  The kernel call: the part of the table from an index with a number of entries, or no table. The kernel may
  mark entries; \<open>'k\<close> is the state of the rest of the system, \<open>None\<close> a panic of the kernel.
\<close>

type_synonym 'k senda = "nat option \<Rightarrow> nat \<Rightarrow> asynmsg list \<Rightarrow> 'k \<Rightarrow> (result \<times> asynmsg list \<times> 'k) option"

definition completed :: "32 word \<Rightarrow> bool" where
  "completed flags \<longleftrightarrow> flags AND (AMF_VALID OR AMF_DONE) = AMF_VALID OR AMF_DONE"

text \<open>The first loop: the first entry that is not completed, and the flags of the last error found, if it has to be acknowledged.\<close>

function skip_completed :: "asynmsg list \<Rightarrow> nat \<Rightarrow> nat \<Rightarrow> 32 word \<Rightarrow> nat \<times> 32 word" where
  "skip_completed tab first next needack =
    (if first < next then
       let e = tab ! first; flags = am_flags e in
       if completed flags then
         skip_completed tab (first + 1) next (if am_result e \<noteq> ROK then flags AND (AMF_NOTIFY OR AMF_NOTIFY_ERR) else needack)
       else if flags \<noteq> AMF_EMPTY then (first, needack)
       else skip_completed tab (first + 1) next needack
     else (first, needack))"
  by pat_completeness auto
termination by (relation "measure (\<lambda>(tab, first, next, n). next - first)") auto

declare skip_completed.simps [simp del]

text \<open>The entries that are moved to the beginning of a full table.\<close>

definition still_needed :: "asynmsg \<Rightarrow> bool" where
  "still_needed e \<longleftrightarrow> am_flags e \<noteq> AMF_EMPTY \<and>
    \<not> (completed (am_flags e) \<and> (am_result e = ROK \<or> am_flags e AND (AMF_NOTIFY OR AMF_NOTIFY_ERR) = 0))"

function move_entries :: "asynmsg list \<Rightarrow> nat \<Rightarrow> nat \<Rightarrow> nat \<Rightarrow> asynmsg list \<times> nat" where
  "move_entries tab src next dst =
    (if src < next then
       if still_needed (tab ! src) then move_entries (if src \<noteq> dst then tab[dst := tab ! src] else tab) (src + 1) next (dst + 1)
       else move_entries tab (src + 1) next dst
     else (tab, dst))"
  by pat_completeness auto
termination by (relation "measure (\<lambda>(tab, src, next, dst). next - src)") auto

declare move_entries.simps [simp del]

definition mark_empty :: "nat \<Rightarrow> asynmsg list \<Rightarrow> asynmsg list" where
  "mark_empty from tab = take from tab @ map (\<lambda>e. e\<lparr>am_flags := AMF_EMPTY\<rparr>) (drop from tab)"

text \<open>Making room in a full table; \<open>None\<close> is a panic.\<close>

definition make_room :: "'k senda \<Rightarrow> asynmsg list \<Rightarrow> nat \<Rightarrow> nat \<Rightarrow> 'k \<Rightarrow> (asynmsg list \<times> nat \<times> nat \<times> 'k) option" where
  "make_room senda tab first next k = do {
     (r, tab1, k1) \<leftarrow> senda None 0 tab k;
     if r \<noteq> ROK then None
     else let (tab2, dst_ind) = move_entries tab1 first next 0 in
       if dst_ind \<ge> ASYN_NR then None else Some (mark_empty dst_ind tab2, 0, dst_ind, k1) }"

text \<open>A call from within the call ends the process.\<close>

definition asynsend3 :: "'k senda \<Rightarrow> int \<Rightarrow> kmessage \<Rightarrow> 32 word \<Rightarrow> asyn_lib \<Rightarrow> 'k \<Rightarrow> (result \<times> asyn_lib \<times> 'k) option" where
  "asynsend3 senda dst mp fl l k =
    (if inside l then None
     else
       let tab = (if initialized l then msgtable l else mark_empty 0 (msgtable l));
         (first, needack) = skip_completed tab (first_slot l) (next_slot l) 0;
         (first1, next1) = (if first \<ge> next_slot l \<and> needack = 0 then (0, 0) else (first, next_slot l)) in do {
         (tab2, first2, next2, k2) \<leftarrow> (if next1 \<ge> ASYN_NR then make_room senda tab first1 next1 k else Some (tab, first1, next1, k));
         let tab3 = tab2[next2 := (tab2 ! next2)\<lparr>am_dst := dst, am_msg := mp, am_flags := fl OR AMF_VALID\<rparr>];
         let next3 = next2 + 1;
         if next3 < first2 \<or> next3 > ASYN_NR then None
         else do {
           (r, tab4, k4) \<leftarrow> senda (Some first2) (next3 - first2) tab3 k2;
           Some (r, \<lparr>msgtable = tab4, first_slot = first2, next_slot = next3, initialized = True, inside = False\<rparr>, k4) } })"

text \<open>The destination, message and error of the first entry that was completed with an error that its sender wants to know.\<close>

definition reportable :: "asynmsg \<Rightarrow> bool" where
  "reportable e \<longleftrightarrow> completed (am_flags e) \<and> am_result e \<noteq> ROK \<and> am_flags e AND (AMF_NOTIFY OR AMF_NOTIFY_ERR) \<noteq> 0"

definition asyn_geterror :: "asyn_lib \<Rightarrow> (int \<times> kmessage \<times> result) option \<times> asyn_lib" where
  "asyn_geterror l =
    (if \<not> initialized l then (None, l)
     else case find (\<lambda>i. reportable (msgtable l ! i)) [0..<next_slot l] of
       None \<Rightarrow> (None, l)
     | Some i \<Rightarrow> let e = msgtable l ! i in
         (Some (am_dst e, am_msg e, am_result e), l\<lparr>msgtable := (msgtable l)[i := e\<lparr>am_result := ROK\<rparr>]\<rparr>))"

section \<open>What the kernel does to the table\<close>

text \<open>A message that the kernel still has to deliver.\<close>

definition unsent :: "asynmsg \<Rightarrow> bool" where
  "unsent e \<longleftrightarrow> am_flags e AND AMF_VALID \<noteq> 0 \<and> am_flags e AND AMF_DONE = 0"

text \<open>The kernel marks unsent messages as done and stores their results; it changes nothing else.\<close>

definition marked :: "asynmsg \<Rightarrow> asynmsg \<Rightarrow> bool" where
  "marked e e' \<longleftrightarrow> e' = e \<or> unsent e \<and> (\<exists>r. e' = e\<lparr>am_result := r, am_flags := am_flags e OR AMF_DONE\<rparr>)"

definition marks :: "asynmsg list \<Rightarrow> asynmsg list \<Rightarrow> bool" where
  "marks tab tab' \<longleftrightarrow> list_all2 marked tab tab'"

text \<open>Every entry is empty or in use, and those outside the part handed to the kernel hold no unsent message.\<close>

definition asyn_ok :: "asyn_lib \<Rightarrow> bool" where
  "asyn_ok l \<longleftrightarrow> length (msgtable l) = ASYN_NR \<and> first_slot l \<le> next_slot l \<and> next_slot l \<le> ASYN_NR \<and>
    (initialized l \<longrightarrow> (\<forall>e \<in> set (msgtable l). am_flags e = AMF_EMPTY \<or> am_flags e AND AMF_VALID \<noteq> 0) \<and>
      (\<forall>i < ASYN_NR. i < first_slot l \<or> next_slot l \<le> i \<longrightarrow> \<not> unsent (msgtable l ! i))) \<and>
    (\<not> initialized l \<longrightarrow> first_slot l = 0 \<and> next_slot l = 0)"

text \<open>The table as the function finds it, and the messages that are still to be delivered, in the order of the table.\<close>

definition used_table :: "asyn_lib \<Rightarrow> asynmsg list" where
  "used_table l = (if initialized l then msgtable l else mark_empty 0 (msgtable l))"

definition outgoing :: "asynmsg list \<Rightarrow> (int \<times> kmessage \<times> 32 word) list" where
  "outgoing tab = map (\<lambda>e. (am_dst e, am_msg e, am_flags e)) (filter unsent tab)"

section \<open>Lemmas\<close>

lemma flag_bits:
  "completed f \<longleftrightarrow> bit f 0 \<and> bit f 1" "unsent e \<longleftrightarrow> bit (am_flags e) 0 \<and> \<not> bit (am_flags e) 1"
  "f AND AMF_VALID \<noteq> 0 \<longleftrightarrow> bit f 0" "f AND AMF_DONE = 0 \<longleftrightarrow> \<not> bit f 1" "bit AMF_VALID n \<longleftrightarrow> n = 0" "bit AMF_DONE n \<longleftrightarrow> n = 1"
proof -
  have v: "AMF_VALID = 2 ^ 0" "AMF_DONE = 2 ^ 1" by (simp_all add: AMF_VALID_def AMF_DONE_def)
  show b: "bit AMF_VALID n \<longleftrightarrow> n = 0" "bit AMF_DONE n \<longleftrightarrow> n = 1" for n unfolding v bit_exp_iff by auto
  show a: "f AND AMF_VALID \<noteq> 0 \<longleftrightarrow> bit f 0" "f AND AMF_DONE = 0 \<longleftrightarrow> \<not> bit f 1" for f
    unfolding v and_exp_eq_0_iff_not_bit by simp_all
  show "unsent e \<longleftrightarrow> bit (am_flags e) 0 \<and> \<not> bit (am_flags e) 1" by (simp add: unsent_def a)
  show "completed f \<longleftrightarrow> bit f 0 \<and> bit f 1"
  proof
    assume "completed f"
    then have "bit (f AND (AMF_VALID OR AMF_DONE)) n = bit (AMF_VALID OR AMF_DONE) n" for n by (simp add: completed_def)
    from this [of 0] this [of 1] show "bit f 0 \<and> bit f 1" unfolding bit_and_iff bit_or_iff b by simp
  next
    assume "bit f 0 \<and> bit f 1"
    then show "completed f" unfolding completed_def by (intro bit_word_eqI) (auto simp: bit_and_iff bit_or_iff b)
  qed
qed

lemma unsent_needed: "unsent e \<Longrightarrow> still_needed e"
  by (auto simp: still_needed_def flag_bits AMF_EMPTY_def)

lemma marked_unsent: "marked e e' \<Longrightarrow> \<not> unsent e \<Longrightarrow> e' = e"
  by (auto simp: marked_def)

lemma marked_needed: "marked e e' \<Longrightarrow> still_needed e' \<Longrightarrow> still_needed e"
  using unsent_needed by (auto simp: marked_def)

lemma marked_flags: "marked e e' \<Longrightarrow> am_flags e = AMF_EMPTY \<or> bit (am_flags e) 0 \<Longrightarrow> am_flags e' = AMF_EMPTY \<or> bit (am_flags e') 0"
  by (auto simp: marked_def bit_or_iff flag_bits AMF_EMPTY_def)

lemma marks_nth: "marks tab tab' \<Longrightarrow> i < length tab \<Longrightarrow> marked (tab ! i) (tab' ! i)"
  by (simp add: marks_def list_all2_nthD)

lemma marks_length: "marks tab tab' \<Longrightarrow> length tab' = length tab"
  by (simp add: marks_def list_all2_lengthD)

lemma marks_refl: "marks tab tab"
  by (simp add: marks_def marked_def list.rel_refl)

lemma skip_completed_result:
  assumes "first \<le> next" and "skip_completed tab first next n = (first', n')"
  shows "first \<le> first' \<and> first' \<le> next \<and> (\<forall>i. first \<le> i \<longrightarrow> i < first' \<longrightarrow> \<not> unsent (tab ! i))"
  using assms
proof (induction tab first "next" n rule: skip_completed.induct)
  case (1 tab first "next" n)
  show ?case
  proof (cases "first < next")
    case True
    show ?thesis
    proof (cases "completed (am_flags (tab ! first))")
      case c: True
      have "Suc first \<le> first' \<and> first' \<le> next \<and> (\<forall>i. Suc first \<le> i \<longrightarrow> i < first' \<longrightarrow> \<not> unsent (tab ! i))"
        using 1(1) [OF True refl refl c] 1(4) True c by (subst (asm) skip_completed.simps [of tab first]) (simp add: Let_def)
      moreover have "\<not> unsent (tab ! first)" using c by (simp add: flag_bits)
      ultimately show ?thesis by (metis Suc_leD Suc_leI le_neq_implies_less)
    next
      case nc: False
      show ?thesis
      proof (cases "am_flags (tab ! first) = AMF_EMPTY")
        case e: True
        have "Suc first \<le> first' \<and> first' \<le> next \<and> (\<forall>i. Suc first \<le> i \<longrightarrow> i < first' \<longrightarrow> \<not> unsent (tab ! i))"
          using 1(2) [OF True refl refl nc] 1(4) True nc e by (subst (asm) skip_completed.simps [of tab first]) (simp add: Let_def)
        moreover have "\<not> unsent (tab ! first)" using e by (simp add: flag_bits AMF_EMPTY_def)
        ultimately show ?thesis by (metis Suc_leD Suc_leI le_neq_implies_less)
      next
        case False
        then show ?thesis using 1(4) True nc by (subst (asm) skip_completed.simps) (simp add: Let_def)
      qed
    qed
  next
    case False
    then show ?thesis using 1(3,4) by (subst (asm) skip_completed.simps) simp
  qed
qed

lemma move_entries_result:
  assumes "dst \<le> src" "src \<le> next" "next \<le> length tab" and "move_entries tab src next dst = (tab', dst')"
  shows "length tab' = length tab \<and> dst' \<le> next \<and> take dst' tab' = take dst tab @ filter still_needed (map ((!) tab) [src..<next])"
  using assms
proof (induction tab src "next" dst rule: move_entries.induct)
  case (1 tab src "next" dst)
  show ?case
  proof (cases "src < next")
    case True
    then have up: "[src..<next] = src # [Suc src..<next]" by (simp add: upt_conv_Cons)
    show ?thesis
    proof (cases "still_needed (tab ! src)")
      case n: True
      define tab1 where "tab1 = (if src \<noteq> dst then tab[dst := tab ! src] else tab)"
      have len: "length tab1 = length tab" and at: "tab1 ! dst = tab ! src" and later: "\<And>i. src < i \<Longrightarrow> tab1 ! i = tab ! i"
        and before: "take dst tab1 = take dst tab"
        using 1(3-5) True by (auto simp: tab1_def)
      have m: "map ((!) tab1) [Suc src..<next] = map ((!) tab) [Suc src..<next]" by (rule map_cong) (auto simp: later)
      have run: "move_entries tab1 (src + 1) next (dst + 1) = (tab', dst')"
        using 1(6) True n by (subst (asm) move_entries.simps) (simp add: tab1_def)
      have "length tab' = length tab1 \<and> dst' \<le> next \<and> take dst' tab' = take (Suc dst) tab1 @ filter still_needed (map ((!) tab1) [Suc src..<next])"
        using 1(1) [OF True n] run 1(3-5) True len by (simp add: tab1_def)
      moreover have "take (Suc dst) tab1 = take dst tab @ [tab ! src]"
        using 1(3-5) True len at before by (simp add: take_Suc_conv_app_nth)
      ultimately show ?thesis using n up m len by simp
    next
      case False
      then have "move_entries tab (src + 1) next dst = (tab', dst')" using 1(6) True by (subst (asm) move_entries.simps) simp
      then show ?thesis using 1(2) [OF True False] 1(3-5) True False up by simp
    qed
  next
    case False
    then have "tab' = tab" "dst' = dst" using 1(6) by (subst (asm) move_entries.simps; simp)+
    then show ?thesis using 1(3,4) False by simp
  qed
qed

text \<open>Unsent messages that lie in a part of the table.\<close>

lemma filter_part:
  assumes "first \<le> next" "next \<le> length tab" and out: "\<And>i. i < length tab \<Longrightarrow> i < first \<or> next \<le> i \<Longrightarrow> \<not> P (tab ! i)"
  shows "filter P tab = filter P (map ((!) tab) [first..<next])"
proof -
  have "tab = map ((!) tab) [0..<length tab]" by (simp add: map_nth)
  also have "[0..<length tab] = [0..<first] @ [first..<next] @ [next..<length tab]"
    using assms(1,2) upt_add_eq_append [of 0 first "length tab - first"] upt_add_eq_append [of first "next" "length tab - next"] by simp
  finally have "filter P tab = filter P (map ((!) tab) ([0..<first] @ [first..<next] @ [next..<length tab]))" by simp
  moreover have "filter P (map ((!) tab) [0..<first]) = []" "filter P (map ((!) tab) [next..<length tab]) = []"
    using assms by (auto simp: filter_empty_conv)
  ultimately show ?thesis by simp
qed

lemma mark_empty_length [simp]: "length (mark_empty n tab) = length tab"
  by (simp add: mark_empty_def)

lemma mark_empty_nth:
  "i < length tab \<Longrightarrow> mark_empty n tab ! i = (if i < n then tab ! i else (tab ! i)\<lparr>am_flags := AMF_EMPTY\<rparr>)"
  by (auto simp: mark_empty_def nth_append min_def)

lemma unsent_empty [simp]: "\<not> unsent (e\<lparr>am_flags := AMF_EMPTY\<rparr>)"
  by (simp add: unsent_def AMF_EMPTY_def)

text \<open>What a table looks like of which the entries from \<open>first\<close> up to \<open>next\<close> are the kernel's.\<close>

definition table_ok :: "asynmsg list \<Rightarrow> nat \<Rightarrow> nat \<Rightarrow> bool" where
  "table_ok tab first next \<longleftrightarrow> length tab = ASYN_NR \<and> first \<le> next \<and> next \<le> ASYN_NR \<and>
    (\<forall>i < ASYN_NR. am_flags (tab ! i) = AMF_EMPTY \<or> bit (am_flags (tab ! i)) 0) \<and>
    (\<forall>i < ASYN_NR. i < first \<or> next \<le> i \<longrightarrow> \<not> unsent (tab ! i))"

lemma asyn_ok_table: "initialized l \<Longrightarrow> asyn_ok l \<longleftrightarrow> table_ok (msgtable l) (first_slot l) (next_slot l)"
  unfolding asyn_ok_def table_ok_def flag_bits all_set_conv_all_nth by metis

lemma used_table_ok: "asyn_ok l \<Longrightarrow> table_ok (used_table l) (first_slot l) (next_slot l)"
proof (cases "initialized l")
  case False
  assume "asyn_ok l"
  then show ?thesis using False by (auto simp: asyn_ok_def table_ok_def used_table_def mark_empty_nth)
qed (simp add: used_table_def asyn_ok_table)

lemma table_ok_marks: "table_ok tab first next \<Longrightarrow> marks tab tab' \<Longrightarrow> table_ok tab' first next"
  unfolding table_ok_def using marks_length [of tab tab'] marks_nth [of tab tab'] marked_flags marked_unsent by metis

lemma asyn_ok_marks: "initialized l \<Longrightarrow> asyn_ok l \<Longrightarrow> marks (msgtable l) tab \<Longrightarrow> asyn_ok (l\<lparr>msgtable := tab\<rparr>)"
  using table_ok_marks by (simp add: asyn_ok_table)

lemma marks_needed: "marks tab tab' \<Longrightarrow> length (filter still_needed tab') \<le> length (filter still_needed tab)"
  unfolding marks_def by (induction rule: list_all2_induct) (auto dest: marked_needed)

section \<open>Sending\<close>

lemma skip_table_ok:
  assumes t: "table_ok tab first next" and "skip_completed tab first next 0 = (f, needack)"
    and "(first1, next1) = (if f \<ge> next \<and> needack = 0 then (0, 0) else (f, next))"
  shows "table_ok tab first1 next1 \<and> next1 \<le> next"
proof -
  have *: "first \<le> f \<and> f \<le> next \<and> (\<forall>i. first \<le> i \<longrightarrow> i < f \<longrightarrow> \<not> unsent (tab ! i))"
    using t assms(2) by (intro skip_completed_result) (simp_all add: table_ok_def)
  have "\<not> unsent (tab ! i)" if "i < ASYN_NR" "i < f \<or> next \<le> i" for i
    using that t * unfolding table_ok_def by (meson not_le)
  then show ?thesis using assms(3) t * unfolding table_ok_def by (auto split: if_splits) (meson not_le)
qed

lemma moved_table:
  assumes t: "table_ok tab first next" and "move_entries tab first next 0 = (tab', d)"
    and tab2: "tab2 = mark_empty d tab'"
  shows "table_ok tab2 0 d \<and> filter unsent tab2 = filter unsent tab \<and> d \<le> length (filter still_needed tab)"
proof -
  let ?part = "map ((!) tab) [first..<next]"
  have b: "length tab = ASYN_NR" "first \<le> next" "next \<le> length tab" using t by (simp_all add: table_ok_def)
  then have m: "length tab' = length tab" "d \<le> next" "take d tab' = filter still_needed ?part"
    using move_entries_result [OF _ _ _ assms(2)] by auto
  have split: "tab2 = filter still_needed ?part @ map (\<lambda>e. e\<lparr>am_flags := AMF_EMPTY\<rparr>) (drop d tab')"
    by (simp add: tab2 mark_empty_def m(3))
  have same: "(\<lambda>e. still_needed e \<and> unsent e) = unsent" using unsent_needed by auto
  have "filter unsent tab = filter unsent ?part"
    using t by (intro filter_part b) (auto simp: table_ok_def)
  then have un: "filter unsent tab2 = filter unsent tab" by (simp add: split same filter_empty_conv)
  have part: "tab = take first tab @ ?part @ drop next tab"
    using b by (intro nth_equalityI) (auto simp: nth_append min_def)
  then have "filter still_needed tab = filter still_needed (take first tab) @ filter still_needed ?part @ filter still_needed (drop next tab)"
    by (metis filter_append)
  moreover have "d = length (filter still_needed ?part)" using m b by (metis length_take min.absorb2 le_trans)
  ultimately have n: "d \<le> length (filter still_needed tab)" by simp
  have "am_flags e = AMF_EMPTY \<or> bit (am_flags e) 0" if e: "e \<in> set ?part" for e
  proof -
    obtain i where "e = tab ! i" "i < next" using e by auto
    then show ?thesis using t unfolding table_ok_def by (metis less_le_trans)
  qed
  then have "\<forall>e \<in> set tab2. am_flags e = AMF_EMPTY \<or> bit (am_flags e) 0" by (auto simp: split)
  then have fl: "\<forall>i < ASYN_NR. am_flags (tab2 ! i) = AMF_EMPTY \<or> bit (am_flags (tab2 ! i)) 0"
    using m(1) b by (simp add: all_set_conv_all_nth tab2)
  have "\<forall>i < ASYN_NR. d \<le> i \<longrightarrow> \<not> unsent (tab2 ! i)" using m(1) b by (auto simp: tab2 mark_empty_nth)
  then show ?thesis using un n fl m b by (auto simp: table_ok_def tab2)
qed

lemma appended_entry:
  assumes t: "table_ok tab first next" and "next < ASYN_NR" and fl: "fl AND AMF_DONE = 0"
    and tab': "tab' = tab[next := (tab ! next)\<lparr>am_dst := dst, am_msg := mp, am_flags := fl OR AMF_VALID\<rparr>]"
  shows "table_ok tab' first (next + 1) \<and> outgoing tab' = outgoing tab @ [(dst, mp, fl OR AMF_VALID)]"
proof -
  let ?e = "(tab ! next)\<lparr>am_dst := dst, am_msg := mp, am_flags := fl OR AMF_VALID\<rparr>"
  have n: "next < length tab" using t assms(2) by (simp add: table_ok_def)
  have e: "unsent ?e" using fl by (simp add: flag_bits bit_or_iff)
  have "\<not> unsent x" if "x \<in> set (drop next tab)" for x
    using that t by (fastforce simp: table_ok_def in_set_conv_nth)
  then have "filter unsent (drop next tab) = []" by (simp add: filter_empty_conv)
  moreover have "drop next tab = tab ! next # drop (Suc next) tab" using n by (simp add: Cons_nth_drop_Suc)
  ultimately have rest: "filter unsent (drop (Suc next) tab) = []" "\<not> unsent (tab ! next)" by (auto split: if_splits)
  have "filter unsent tab = filter unsent (take next tab @ tab ! next # drop (Suc next) tab)" using id_take_nth_drop [OF n] by simp
  then have "filter unsent tab' = filter unsent tab @ [?e]"
    using rest e by (simp add: tab' upd_conv_take_nth_drop [OF n])
  then have "outgoing tab' = outgoing tab @ [(dst, mp, fl OR AMF_VALID)]" by (simp add: outgoing_def)
  moreover have "table_ok tab' first (next + 1)"
    using t assms(2) unfolding table_ok_def tab' by (auto simp: nth_list_update bit_or_iff flag_bits)
  ultimately show ?thesis by simp
qed

text \<open>What the library relies on of the kernel: its calls return, mark the table at most, and stopping never fails.\<close>

locale async_kernel =
  fixes senda :: "'k senda" and kernel_ok :: "'k \<Rightarrow> bool"
  assumes senda_returns: "kernel_ok k \<Longrightarrow> \<exists>r tab' k'. senda i n tab k = Some (r, tab', k') \<and> marks tab tab' \<and> kernel_ok k'"
    and stop_returns: "kernel_ok k \<Longrightarrow> senda None 0 tab k = Some (r, tab', k') \<Longrightarrow> r = ROK"
begin

lemma make_room_ok:
  assumes t: "table_ok tab first next" and k: "kernel_ok k" and room: "length (filter still_needed tab) < ASYN_NR"
  shows "\<exists>tab1 tab2 d k'. make_room senda tab first next k = Some (tab2, 0, d, k') \<and> marks tab tab1 \<and> d < ASYN_NR \<and>
    filter unsent tab2 = filter unsent tab1 \<and> table_ok tab2 0 d \<and> kernel_ok k'"
proof -
  obtain r tab1 k1 where s: "senda None 0 tab k = Some (r, tab1, k1)" "marks tab tab1" "kernel_ok k1"
    using senda_returns [OF k] by blast
  obtain tab' d where m: "move_entries tab1 first next 0 = (tab', d)" by fastforce
  note moved = moved_table [OF table_ok_marks [OF t s(2)] m refl]
  then have "d < ASYN_NR" using room marks_needed [OF s(2)] by linarith
  then show ?thesis using s m moved stop_returns [OF k s(1)] by (auto simp: make_room_def)
qed

lemma asynsend3_ok:
  assumes ok: "asyn_ok l" "\<not> inside l" and k: "kernel_ok k" and fl: "fl AND AMF_DONE = 0"
    and room: "length (filter still_needed (used_table l)) < ASYN_NR"
  shows "\<exists>r l' k' tab tab'. asynsend3 senda dst mp fl l k = Some (r, l', k') \<and> asyn_ok l' \<and> \<not> inside l' \<and> kernel_ok k' \<and>
    marks (used_table l) tab \<and> outgoing tab' = outgoing tab @ [(dst, mp, fl OR AMF_VALID)] \<and> marks tab' (msgtable l')"
proof -
  let ?tab = "used_table l"
  obtain f n where skip: "skip_completed ?tab (first_slot l) (next_slot l) 0 = (f, n)" by fastforce
  obtain first nxt where fn: "(first, nxt) = (if f \<ge> next_slot l \<and> n = 0 then (0, 0) else (f, next_slot l))"
    by (metis surj_pair)
  have t: "table_ok ?tab first nxt" using skip_table_ok [OF used_table_ok [OF ok(1)] skip fn] by simp
  have "\<exists>tab1 tab2 first2 next2 k2. (if nxt \<ge> ASYN_NR then make_room senda ?tab first nxt k else Some (?tab, first, nxt, k)) =
      Some (tab2, first2, next2, k2) \<and> marks ?tab tab1 \<and> next2 < ASYN_NR \<and> filter unsent tab2 = filter unsent tab1 \<and>
      table_ok tab2 first2 next2 \<and> kernel_ok k2"
  proof (cases "nxt \<ge> ASYN_NR")
    case True
    then show ?thesis using make_room_ok [OF t k room] unfolding if_P [OF True] by blast
  next
    case False
    then show ?thesis using t k by (auto intro: marks_refl)
  qed
  then obtain tab1 tab2 first2 next2 k2 where
    r: "(if nxt \<ge> ASYN_NR then make_room senda ?tab first nxt k else Some (?tab, first, nxt, k)) = Some (tab2, first2, next2, k2)"
      "marks ?tab tab1" "next2 < ASYN_NR" "filter unsent tab2 = filter unsent tab1" "table_ok tab2 first2 next2" "kernel_ok k2"
    by blast
  define tab3 where "tab3 = tab2[next2 := (tab2 ! next2)\<lparr>am_dst := dst, am_msg := mp, am_flags := fl OR AMF_VALID\<rparr>]"
  have app: "table_ok tab3 first2 (next2 + 1)" "outgoing tab3 = outgoing tab1 @ [(dst, mp, fl OR AMF_VALID)]"
    using appended_entry [OF r(5,3) fl tab3_def] r(4) by (simp_all add: outgoing_def)
  obtain res tab4 k4 where s: "senda (Some first2) (next2 + 1 - first2) tab3 k2 = Some (res, tab4, k4)" "marks tab3 tab4" "kernel_ok k4"
    using senda_returns [OF r(6)] by blast
  let ?l = "\<lparr>msgtable = tab4, first_slot = first2, next_slot = next2 + 1, initialized = True, inside = False\<rparr>"
  have "\<not> next2 + 1 < first2" "\<not> next2 + 1 > ASYN_NR" using app(1) by (auto simp: table_ok_def)
  then have "asynsend3 senda dst mp fl l k = Some (res, ?l, k4)"
    using ok(2) r(1) s(1) unfolding asynsend3_def used_table_def [symmetric] skip Let_def prod.case fn [symmetric]
    by (simp add: tab3_def)
  moreover have "asyn_ok ?l" using table_ok_marks [OF app(1) s(2)] by (simp add: asyn_ok_table)
  ultimately show ?thesis using r(2) app(2) s(2,3) by auto
qed

end

end
