(* ===== verification/Asynsend_Claims.thy ===== *)
theory Asynsend_Claims
  imports Asynsend Kernel_Claims
begin

unbundle bit_operations_syntax

text \<open>
  The library for asynchronous messages on the modelled kernel: the kernel only marks entries of the table,
  so that no message is lost or overtaken in the table, and an error that was not asked for in time is forgotten.
\<close>

section \<open>The kernel only marks the table\<close>

lemma marked_refl: "marked e e"
  by (simp add: marked_def)

lemma marked_trans: "marked e e' \<Longrightarrow> marked e' e'' \<Longrightarrow> marked e e''"
proof -
  assume m: "marked e e'" "marked e' e''"
  then have "e' = e \<or> \<not> unsent e'" by (auto simp: marked_def flag_bits bit_or_iff)
  then show ?thesis using m marked_unsent by blast
qed

definition mem_marked :: "kstate \<Rightarrow> kstate \<Rightarrow> bool" where
  "mem_marked s s' \<longleftrightarrow> (\<forall>e t i. marked (asyn_mem s e t i) (asyn_mem s' e t i))"

lemma mem_marked_same: "asyn_mem s' = asyn_mem s \<Longrightarrow> mem_marked s s'"
  by (simp add: mem_marked_def marked_def)

lemma mem_marked_trans: "mem_marked s t \<Longrightarrow> mem_marked t u \<Longrightarrow> mem_marked s u"
  unfolding mem_marked_def using marked_trans by blast

lemma RTS_UNSET_mem:
  assumes "RTS_UNSET K p f s = Some s'"
  shows "asyn_mem s' = asyn_mem s"
proof -
  have a: "asyn_mem s' = asyn_mem s" if "append_ready rp q s = Some s'" for rp q s s'
    using that by (auto simp: append_ready_def Let_def split: option.splits)
  have p: "asyn_mem s' = asyn_mem s" if "preempt_current K rp s = Some s'" for rp s s'
    using that RTS_SET_frame(1) by (fastforce simp: preempt_current_def Let_def sched_frame_def split: if_splits)
  have "asyn_mem s' = asyn_mem s" if "enqueue K rp s = Some s'" for rp s s'
    using that by (auto simp: enqueue_def Let_def bind_eq_Some_conv note_enter_queue_def dest!: a p split: if_splits)
  then show ?thesis using assms by (fastforce simp: RTS_UNSET_def Let_def split: if_splits)
qed

lemma mini_notify_mem: "mini_notify K p e s = Some (r, s') \<Longrightarrow> asyn_mem s' = asyn_mem s"
  by (auto simp: mini_notify_def BuildNotifyMessage_def Let_def bind_eq_Some_conv set_notify_pending_def dest!: RTS_UNSET_mem
    split: option.splits if_splits)

lemma senda_entry_marks:
  assumes "senda_entry K c t i (s, d, n) = Some (s', d', n')"
  shows "mem_marked s s'"
proof -
  define ep where "ep = p_endpoint (procs s c)"
  define e where "e = asyn_mem s ep t i"
  define r where "r = senda_check s c (am_dst e)"
  define dst where "dst = ENDPOINT_P (am_dst e)"
  define store where "store u = (if tab_writable K ep t i
    then A_INSRT ep t i (e\<lparr>am_result := r, am_flags := am_flags e OR AMF_DONE\<rparr>) u else u)" for u
  note run = senda_entry_def Let_def ep_def [symmetric] e_def [symmetric] r_def [symmetric] dst_def [symmetric] store_def [symmetric]
  have m: "asyn_mem s1 = asyn_mem s" if "RTS_UNSET K p f (upd_proc p g s) = Some s1" for p f g s1
    using RTS_UNSET_mem [OF that] by simp
  have st: "mem_marked s (store u)"
    if "asyn_mem u = asyn_mem s" "\<not> amf_bad (am_flags e)" "am_flags e AND AMF_DONE = 0" for u
    using that by (auto simp: store_def mem_marked_def A_INSRT_def marked_def e_def amf_bad_def unsent_def)
  let ?skip = "\<not> tab_readable K ep t i \<or> am_flags e = 0 \<or> amf_bad (am_flags e) \<or> am_flags e AND AMF_DONE \<noteq> 0"
  let ?now = "r = ROK \<and> WILLRECEIVE (procs s dst) ep \<and> (am_flags e AND AMF_NOREPLY = 0 \<or> \<not> MF_ISSET (procs s dst) MF_REPLY_PEND)"
  consider (skip) ?skip | (now) "\<not> ?skip" ?now | (later) "\<not> ?skip" "\<not> ?now" "r = ROK" | (err) "\<not> ?skip" "\<not> ?now" "r \<noteq> ROK" by blast
  then show ?thesis
  proof cases
    case skip
    then have "s' = s" using assms unfolding run prod.case by (simp split: if_splits)
    then show ?thesis by (simp add: mem_marked_same)
  next
    case now
    then obtain s1 where "RTS_UNSET K dst RTS_RECEIVING (upd_proc dst (deliver ep (am_msg e) SENDA) s) = Some s1" "s' = store s1"
      using assms unfolding run prod.case by (auto simp: bind_eq_Some_conv)
    then show ?thesis using st m now by simp
  next
    case later
    then have "s' = set_asyn_pending dst (s_id (priv_of s c)) s" using assms unfolding run prod.case by (auto split: if_splits)
    then show ?thesis by (simp add: mem_marked_same set_asyn_pending_def)
  next
    case err
    then have "s' = store s" using assms unfolding run prod.case by simp
    then show ?thesis using st [of s] err by simp
  qed
qed

lemma senda_entries_mark: "senda_entries K c t is st = Some (s', d', n') \<Longrightarrow> mem_marked (fst st) s'"
proof (induction "is" arbitrary: st)
  case Nil
  then show ?case by (auto intro: mem_marked_same)
next
  case (Cons i "is")
  then show ?case by (cases st) (fastforce simp: bind_eq_Some_conv dest: senda_entry_marks intro: mem_marked_trans)
qed

lemma mini_senda_marks:
  assumes "mini_senda K p t n s = Some (r, s')"
  shows "mem_marked s s'"
proof -
  have a: "asyn_mem (set_asyntab p x y u) = asyn_mem u" for x y u by (simp add: set_asyntab_def)
  have f: "mem_marked u (set_asyntab p x y v) = mem_marked u v" "mem_marked (set_asyntab p x y u) v = mem_marked u v" for u x y v
    by (simp_all add: mem_marked_def a)
  have no: "mem_marked u v" if "notify_asyncm K b p u = Some v" for b u v
    using that by (auto simp: notify_asyncm_def bind_eq_Some_conv split: if_splits intro!: mem_marked_same dest: mini_notify_mem)
  let ?s1 = "set_asyntab p (- 1) 0 s"
  show ?thesis
  proof (cases "s_flags (priv_of s p) AND SYS_PROC = 0 \<or> n = 0 \<or> n > ASYN_LIMIT")
    case True
    then have "s' = s \<or> s' = ?s1" using assms by (auto simp: mini_senda_def try_deliver_senda_def Let_def split: if_splits)
    then show ?thesis using a by (auto intro: mem_marked_same)
  next
    case False
    then obtain s2 d b s3 where "senda_entries K p t [0..<n] (?s1, True, False) = Some (s2, d, b)"
      "notify_asyncm K b p s2 = Some s3" "s' = (if d then s3 else set_asyntab p t n s3)"
      using assms by (auto simp: mini_senda_def try_deliver_senda_def Let_def bind_eq_Some_conv)
    then show ?thesis using senda_entries_mark [of K p t "[0..<n]" "(?s1, True, False)" s2 d b] no [of b s2 s3]
      by (auto simp: f intro: mem_marked_trans)
  qed
qed

section \<open>The library on this kernel\<close>

text \<open>
  The call of process \<open>p\<close>: the entries of its table are memory that the kernel reads and writes, where
  \<open>addr i\<close> is the address of entry \<open>i\<close>.
\<close>

definition kernel_senda :: "kenv \<Rightarrow> int \<Rightarrow> (nat \<Rightarrow> 32 word) \<Rightarrow> kstate senda" where
  "kernel_senda K p addr start n tab s =
    (let ep = p_endpoint (procs s p); j = (case start of None \<Rightarrow> 0 | Some i \<Rightarrow> i); t = (case start of None \<Rightarrow> 0 | Some i \<Rightarrow> addr i);
       s1 = s\<lparr>asyn_mem := (asyn_mem s)(ep := (asyn_mem s ep)(t := \<lambda>i. if i < n then tab ! (j + i) else asyn_mem s ep t i))\<rparr> in do {
       (r, s2) \<leftarrow> mini_senda K p t n s1;
       Some (r, map (\<lambda>i. if j \<le> i \<and> i < j + n then asyn_mem s2 ep t (i - j) else tab ! i) [0..<length tab], s2) })"

definition may_senda :: "int \<Rightarrow> kstate \<Rightarrow> bool" where
  "may_senda p s \<longleftrightarrow> base_ok s \<and> \<not> receiving s p \<and> s_flags (priv_of s p) AND SYS_PROC \<noteq> 0"

lemma may_senda_mem: "may_senda p (s\<lparr>asyn_mem := m\<rparr>) = may_senda p s"
proof -
  have "queues_ok (s\<lparr>asyn_mem := m\<rparr>) = queues_ok s" by simp
  then have "base_ok (s\<lparr>asyn_mem := m\<rparr>) = base_ok s"
    by (simp add: base_ok_def slots_ok_def delivery_ok_def privs_ok_def notify_ok_def in_use_def live_def exclusive_def)
  then show ?thesis by (simp add: may_senda_def)
qed

lemma mini_senda_may:
  assumes "may_senda p s"
  shows "\<exists>r s'. mini_senda K p t n s = Some (r, s') \<and> may_senda p s'"
proof -
  obtain r s' where "mini_senda K p t n s = Some (r, s')" "async_step p False s s'"
    using assms mini_senda_ok [of s p K t n] unfolding may_senda_def by metis
  then show ?thesis using assms wakes_fields(1,11,15) [of s s']
    by (auto simp: may_senda_def async_step_def)
qed

interpretation kernel_async: async_kernel "kernel_senda K p addr" "may_senda p" for K p addr
proof unfold_locales
  fix s and start :: "nat option" and n tab
  assume ok: "may_senda p s"
  define ep where "ep = p_endpoint (procs s p)"
  define j where "j = (case start of None \<Rightarrow> 0 | Some i \<Rightarrow> i)"
  define t where "t = (case start of None \<Rightarrow> 0 | Some i \<Rightarrow> addr i)"
  let ?s1 = "s\<lparr>asyn_mem := (asyn_mem s)(ep := (asyn_mem s ep)(t := \<lambda>i. if i < n then tab ! (j + i) else asyn_mem s ep t i))\<rparr>"
  obtain r s2 where s2: "mini_senda K p t n ?s1 = Some (r, s2)" "may_senda p s2"
    using mini_senda_may [of p ?s1 K t n] ok unfolding may_senda_mem by blast
  have m: "marked (asyn_mem ?s1 ep t i) (asyn_mem s2 ep t i)" for i
    using mini_senda_marks [OF s2(1)] unfolding mem_marked_def by blast
  have "marked (tab ! i) (if j \<le> i \<and> i < j + n then asyn_mem s2 ep t (i - j) else tab ! i)" for i
    using m [of "i - j"] by (auto simp: marked_refl split: if_splits)
  then have "marks tab (map (\<lambda>i. if j \<le> i \<and> i < j + n then asyn_mem s2 ep t (i - j) else tab ! i) [0..<length tab])"
    by (simp add: marks_def list_all2_conv_all_nth cong: if_cong split del: if_split)
  then show "\<exists>r tab' s'. kernel_senda K p addr start n tab s = Some (r, tab', s') \<and> marks tab tab' \<and> may_senda p s'"
    using s2 by (simp add: kernel_senda_def Let_def ep_def [symmetric] j_def [symmetric] t_def [symmetric])
next
  fix s tab r tab' s'
  assume "may_senda p s" "kernel_senda K p addr None 0 tab s = Some (r, tab', s')"
  then show "r = ROK" by (auto simp: kernel_senda_def Let_def mini_senda_def try_deliver_senda_def bind_eq_Some_conv may_senda_def)
qed

section \<open>Properties\<close>


text \<open>A full table of which only one entry can be given up, and the kernel's example.\<close>

definition ex_entry :: "32 word \<Rightarrow> asynmsg" where
  "ex_entry f = \<lparr>am_flags = f, am_dst = 2, am_result = ROK, am_msg = ex_message\<rparr>"

definition ex_full :: asyn_lib where
  "ex_full = \<lparr>msgtable = ex_entry AMF_VALID # ex_entry (AMF_VALID OR AMF_DONE) # replicate 510 (ex_entry AMF_VALID),
    first_slot = 0, next_slot = 512, initialized = True, inside = False\<rparr>"

lemma ASYN_NR_512: "ASYN_NR = 512"
  by (simp add: ASYN_NR_def NR_PROCS_def)

lemma ex_may_senda: "may_senda 0 ex_state"
  using ex_base by (simp add: may_senda_def ex_bits ex_priv_def bit_flags SYS_PROC_def PREEMPTIBLE_def BILLABLE_def)


lemma skip_all_completed:
  "first \<le> next \<Longrightarrow> (\<And>i. first \<le> i \<Longrightarrow> i < next \<Longrightarrow> completed (am_flags (tab ! i)) \<and> am_result (tab ! i) = ROK) \<Longrightarrow>
    skip_completed tab first next n = (next, n)"
proof (induction tab first "next" n rule: skip_completed.induct)
  case (1 tab first "next" n)
  then show ?case by (subst skip_completed.simps) (auto simp: Let_def)
qed

lemma geterror_single:
  assumes "initialized l" "next_slot l = 1" "marked e (msgtable l ! 0)"
  shows "fst (asyn_geterror l) = None \<or> (\<exists>r. fst (asyn_geterror l) = Some (am_dst e, am_msg e, r))"
  using assms by (auto simp: asyn_geterror_def Let_def marked_def)

lemma geterror_finds:
  assumes "initialized l" "i < next_slot l" "reportable (msgtable l ! i)"
  shows "fst (asyn_geterror l) \<noteq> None"
  using assms by (auto simp: asyn_geterror_def Let_def find_None_iff split: option.splits)

text \<open>
  An error that its sender wants to know, and has not asked for yet, is forgotten when all later messages
  were delivered: the next send starts the table anew although the error was not acknowledged, and then only an
  error of the new message can be reported.
\<close>

theorem unread_error_lost:
  assumes ok: "asyn_ok l" "initialized l" "\<not> inside l" "may_senda p s"
    and err: "i < first_slot l" "reportable (msgtable l ! i)"
    and rest: "\<And>j. first_slot l \<le> j \<Longrightarrow> j < next_slot l \<Longrightarrow> completed (am_flags (msgtable l ! j)) \<and> am_result (msgtable l ! j) = ROK"
  shows "fst (asyn_geterror l) \<noteq> None \<and>
    (\<exists>r l' s'. asynsend3 (kernel_senda K p addr) dst mp fl l s = Some (r, l', s') \<and> next_slot l' = 1 \<and>
      (fst (asyn_geterror l') = None \<or> (\<exists>e. fst (asyn_geterror l') = Some (dst, mp, e))))"
proof
  have b: "first_slot l \<le> next_slot l" "length (msgtable l) = ASYN_NR" using ok(1) by (simp_all add: asyn_ok_def)
  then show "fst (asyn_geterror l) \<noteq> None" using geterror_finds [OF ok(2) _ err(2)] err(1) by simp
  have skip: "skip_completed (msgtable l) (first_slot l) (next_slot l) 0 = (next_slot l, 0)"
    by (rule skip_all_completed [OF b(1) rest])
  define tab where "tab = (msgtable l)[0 := (msgtable l ! 0)\<lparr>am_dst := dst, am_msg := mp, am_flags := fl OR AMF_VALID\<rparr>]"
  obtain r tab' s' where k: "kernel_senda K p addr (Some 0) (Suc 0) tab s = Some (r, tab', s')" "marks tab tab'"
    using kernel_async.senda_returns [OF ok(4)] by blast
  let ?l = "\<lparr>msgtable = tab', first_slot = 0, next_slot = 1, initialized = True, inside = False\<rparr>"
  have "asynsend3 (kernel_senda K p addr) dst mp fl l s = Some (r, ?l, s')"
    using ok k(1) by (simp add: asynsend3_def skip ASYN_NR_512 tab_def)
  moreover have "marked (tab ! 0) (msgtable ?l ! 0)" using marks_nth [OF k(2), of 0] b by (simp add: tab_def ASYN_NR_512)
  moreover have "am_dst (tab ! 0) = dst" "am_msg (tab ! 0) = mp" using b by (simp_all add: tab_def ASYN_NR_512)
  ultimately show "\<exists>r l' s'. asynsend3 (kernel_senda K p addr) dst mp fl l s = Some (r, l', s') \<and> next_slot l' = 1 \<and>
      (fst (asyn_geterror l') = None \<or> (\<exists>e. fst (asyn_geterror l') = Some (dst, mp, e)))"
    using geterror_single [of ?l "tab ! 0"] by auto
qed

definition ex_unread :: asyn_lib where
  "ex_unread = \<lparr>msgtable = (ex_entry (AMF_VALID OR AMF_DONE OR AMF_NOTIFY_ERR))\<lparr>am_result := RDEADSRCDST\<rparr> #
      ex_entry (AMF_VALID OR AMF_DONE) # replicate 510 (ex_entry AMF_EMPTY),
    first_slot = 1, next_slot = 2, initialized = True, inside = False\<rparr>"

theorem unread_error_lost_witness:
  "fst (asyn_geterror ex_unread) \<noteq> None \<and>
    (\<exists>r l' s'. asynsend3 (kernel_senda ex_env 0 (\<lambda>i. 0x8000 + of_nat i * 100)) 2 ex_message 0 ex_unread ex_state = Some (r, l', s') \<and> next_slot l' = 1 \<and>
      (fst (asyn_geterror l') = None \<or> (\<exists>e. fst (asyn_geterror l') = Some (2, ex_message, e))))"
proof (rule unread_error_lost [of _ _ _ 0])
  show "asyn_ok ex_unread"
    by (auto simp: asyn_ok_def ex_unread_def ASYN_NR_512 ex_entry_def unsent_def nth_Cons' AMF_VALID_def AMF_DONE_def AMF_NOTIFY_ERR_def AMF_EMPTY_def)
  show "may_senda 0 ex_state" by (rule ex_may_senda)
qed (auto simp: ex_unread_def ex_entry_def reportable_def completed_def nth_Cons' AMF_VALID_def AMF_DONE_def AMF_NOTIFY_ERR_def AMF_NOTIFY_def)

end
