(* ===== verification/Spec2Isabelle.thy ===== *)
theory Spec2Isabelle
  imports Ls_Client Config_Claims Endpoint Timers Sched_Claims Ds_Claims Kernel_System_Claims Grant_Claims Asynsend_Claims
begin

text \<open>
  A verification library for a MINIX 3 system with a logging service. Paths are relative to usr/src/minix
  under src/.

  \<^bold>\<open>The program.\<close> The logging server (servers/ls) reads /etc/logs.conf at its first use and then lets processes
  open loggers, write lines to them, and clear them; clients reach it through lib/libc/sys/minix_ls.c. Like every
  MINIX server it is a process that receives a message, handles it and sends the result back. Around it are the
  parts that such a server relies on: the kernel's process table, ready queues and message passing
  (kernel/proc.c, proc.h, priv.h), the kernel calls of schedulers and signal managers (kernel/system.c,
  kernel/system), copying between processes through grants (kernel/system/do_safecopy.c, lib/libsys/safecopies.c),
  the table of asynchronous messages of a process (lib/libsys/asynsend.c),
  the user-space scheduler (servers/sched), the data store in which services publish their state (servers/ds), and
  timers (lib/libtimers, lib/libsys/timers.c).

  \<^bold>\<open>Conventions.\<close> A C function is a HOL function of its arguments and of the state it works on. Machine integers
  whose width matters are words; the rest are integers. \<open>None\<close> is a run without a defined result: a failed
  assertion, a panic, an access outside an array or through a wild pointer, or a loop that does not end. Error codes
  are ordinary results. What is outside the repository or below the modelled level (system calls of the servers,
  \<open>malloc\<close>, user memory, the cycle counter, signal numbers) is a record of functions that the definitions take as
  an argument: \<open>ls_os\<close>, \<open>timer_env\<close>, \<open>machine\<close>, \<open>kenv\<close>, \<open>grant_os\<close>, \<open>copy_env\<close>. What is assumed
  about them is a premise of the theorem that needs it. Diagnostics are left out. Loops are structural recursions, functions
  with a measure, or \<open>partial_function (option)\<close> with a proof that they return.

  \<^bold>\<open>Theories.\<close>
  \<^item> \<open>Prelude\<close>: C strings, lists whose last link may be garbage, and the contracts \<open>step_invariant\<close> and
    \<open>total_step\<close> of a server loop, from which statements about all runs follow; they are interpreted for the
    parser, the servers and the library of grants.
  \<^item> \<open>Bufio\<close> (bufio.c), \<open>Config_Parse\<close> (config-parse.c), with \<open>Config_Parse_Props\<close>, \<open>Config_Roundtrip\<close> and
    \<open>Config_Claims\<close>: the reader delivers the file, the parser stays within its arrays on every input, computes what a
    recursive description of the text says, and reads back what is written in its format.
  \<^item> \<open>Ls_Types\<close> (proto.h), \<open>Ls_Log\<close> (log.c), \<open>Ls_Requests\<close> (requests.c), \<open>Ls_Main\<close> (main.c), with
    \<open>Ls_Props\<close>, \<open>Ls_Spec\<close>, \<open>Ls_Service\<close>, \<open>Ls_Example\<close>: the invariant of the table of loggers, the abstract contract of
    the service and that the handlers refine it, who owns a logger, which lines are written, initialisation, and
    that the server answers every message.
  \<^item> \<open>Ls_Client\<close> (minix_ls.c, syscall.c): the client calls, also on top of the server.
  \<^item> \<open>Endpoint\<close> (endpoint.h) and the result codes.
  \<^item> \<open>Timers\<close> (lib/libtimers) on a store with links, \<open>Sys_Timers\<close> (lib/libsys/timers.c): the queue stays sorted
    and an alarm is never late.
  \<^item> \<open>Sched\<close> (servers/sched), with \<open>Sched_Cpu\<close>, \<open>Sched_Props\<close>, \<open>Sched_Claims\<close>: the invariant of its table
    and timer, who may change it, and that every message is handled, over any kernel.
  \<^item> \<open>Ds\<close> (servers/ds), with \<open>Ds_Props\<close>, \<open>Ds_Claims\<close>: the invariant of the store, publishing and retrieving,
    and the protection of private entries.
  \<^item> \<open>Kernel_Types\<close> (proc.h, priv.h, ipc.h), \<open>Kernel_Queues\<close> (enqueue, dequeue, pick_proc and the kernel's own
    check in debug.c), \<open>Kernel_Ipc\<close> (send, receive, notify, asynchronous messages, do_ipc, signals, running out of
    quantum), \<open>Kernel_System\<close> (privileges, the end of a process, kernel calls) and \<open>Kernel_Switch\<close> (the work of
    switch_to_user and the events of the model).
  \<^item> \<open>Kernel_Frame\<close>, \<open>Kernel_Wait\<close>, \<open>Kernel_Send\<close>, \<open>Kernel_Receive\<close>, \<open>Kernel_Calls\<close>: the invariant
    \<open>ipc_ok\<close> of the kernel's tables and that each operation returns and keeps it. It says that the ready queues hold
    exactly the runnable processes, that free slots, endpoints, priorities and privileges are well-formed, that each
    blocked sender is once in the queue of its destination, and that the graph of waiting processes has no cycle.
  \<^item> \<open>Kernel_Claims\<close>, \<open>Kernel_System_Claims\<close>: the consequences for every sequence of events (\<open>kreach\<close>), what the
    single operations do to the queues of messages, the rights to send, scheduling on request, and where the code
    has no defined result.
  \<^item> \<open>Grants\<close> (lib/libsys/safecopies.c), \<open>Kernel_Grants\<close> (do_safecopy.c, do_safememset.c, do_setgrant.c), with
    \<open>Grant_Props\<close> and \<open>Grant_Claims\<close>: the kernel's check is exact for the rights that the tables describe
    (\<open>right\<close>), copies are confined to them, and library and kernel together give the access that was granted.
    The locale \<open>grant_kernel\<close> is the contract between them, interpreted on the kernel's \<open>do_setgrant\<close>.
  \<^item> \<open>Asynsend\<close> (lib/libsys/asynsend.c) and \<open>Asynsend_Claims\<close>: the table of asynchronous messages of a process. The
    locale \<open>async_kernel\<close> is what it relies on, interpreted on the kernel's \<open>mini_senda\<close>; no message is lost or
    overtaken in the table, but an error that was not read in time is forgotten.

  \<^bold>\<open>Bounds.\<close> The only fuel is that of the sources: the deadlock check stops at the size of the process table, which
  \<open>deadlock_exact\<close> shows to be enough for every chain of waiting processes, and the check of grants follows five
  indirections, as the code does.

  \<^bold>\<open>Assumptions of the kernel model.\<close> It is the kernel for one processor on i386 without \<open>CONFIG_SMP\<close> and
  without debugging hooks. The events of \<open>kreach\<close> are those of \<open>enabled\<close>: system calls that do not receive from the
  caller, kernel calls within \<open>kcall_ok\<close>, turns of the loop of \<open>switch_to_user\<close> without a resumed kernel call, running
  out of quantum under a scheduler that does not wait for the process, picking a process, and signals that are valid and
  not fatal for a process that is its own signal manager. The theorems on a receive from oneself, on a priority past the
  last queue and on \<open>clear_ipc\<close> show why some of these are needed. Events are atomic, as they are in a kernel that
  is not interrupted.

  \<^bold>\<open>Not modelled.\<close> In the kernel: page tables, the copies between address spaces, interrupts, the clock, the FPU, idling,
  context switches and the boot sequence are machine code and hardware registers, and the kernel calls about them
  (devices, maps, tracing, profiling, forking and executing, live update) have no content without them. Resuming a kernel call
  after a page fault depends on the memory manager; it is the parameter \<open>resume\<close>, and a premise excludes it.
  The end of a process is modelled but not among the events, because \<open>clear_ipc\<close> does not keep the invariant. Among the
  servers, those for processes, files, memory and networks (pm, vfs, vm, rs, lwip), the drivers, the file
  systems and the user programs: their work is in the kernel calls and on-disk formats that are not modelled here. In
  the modelled servers the start-up code that registers callbacks, signal handlers that only print, and the formatting
  of time stamps by \<open>mini_snprintf\<close>, whose source is not in the repository.
\<close>

end
